(* ===== verification/Bp_Prelude.thy ===== *)
theory Bp_Prelude
  imports Main "HOL-Library.Word"
begin

text \<open>
  Shared vocabulary of the development: names for the C++ integer types, the
  lemma collections used by the component theories, and generic facts about
  sorted lists, list surgery and unsigned machine words.
\<close>

unbundle bit_operations_syntax

section \<open>Machine types\<close>

type_synonym u8 = "8 word"
type_synonym u16 = "16 word"
type_synonym u32 = "32 word"
type_synonym u64 = "64 word"

named_theorems map_laws \<open>laws of the ordered containers\<close>
named_theorems wrap_simps \<open>word arithmetic that does not wrap around\<close>

section \<open>Unsigned words without wrap-around\<close>

lemma unat_add_nowrap [wrap_simps]:
  fixes x y :: "'w::len word"
  assumes "x \<le> x + y"
  shows "unat (x + y) = unat x + unat y"
  using assms by (simp add: unat_plus_simple)

lemma unat_sub_le [wrap_simps]:
  fixes x y :: "'w::len word"
  assumes "y \<le> x"
  shows "unat (x - y) = unat x - unat y"
  using assms by (simp add: unat_sub)

lemma unat_ge_1:
  fixes x :: "'w::len word"
  assumes "x \<noteq> 0"
  shows "1 \<le> unat x"
proof -
  have "unat x \<noteq> 0" using assms by (simp add: unat_eq_zero)
  then show ?thesis by simp
qed

lemma unat_minus_1:
  fixes x :: "'w::len word"
  assumes "x \<noteq> 0"
  shows "unat (x - 1) = unat x - 1"
proof -
  have "1 \<le> x" using unat_ge_1 [OF assms] by (simp add: word_le_nat_alt)
  then show ?thesis by (simp add: unat_sub)
qed

lemma unat_add_1_less:
  fixes x y :: "'w::len word"
  assumes "x < y"
  shows "unat (x + 1) = unat x + 1"
proof -
  have "unat x + 1 \<le> unat y" using assms by (simp add: word_less_nat_alt)
  moreover have "unat y < 2 ^ LENGTH('w)" by simp
  ultimately have "unat x + 1 < 2 ^ LENGTH('w)" by linarith
  then have "unat x + unat (1 :: 'w word) < 2 ^ LENGTH('w)" by simp
  then have "unat (x + 1) = unat x + unat (1 :: 'w word)"
    by (subst (asm) unat_add_lem) simp
  then show ?thesis by simp
qed

lemma word_le_less_1:
  fixes x y :: "'w::len word"
  assumes "x \<le> y" "y + 1 \<noteq> 0"
  shows "x < y + 1"
proof -
  have "unat (y + 1) \<noteq> 0" using assms(2) by (simp add: unat_eq_zero)
  then have "Suc (unat y) mod 2 ^ LENGTH('w) \<noteq> 0" by (simp add: unat_word_ariths)
  moreover have "Suc (unat y) \<le> 2 ^ LENGTH('w)" using unsigned_less [of y] by (simp add: Suc_le_eq)
  ultimately have "Suc (unat y) < 2 ^ LENGTH('w)" by (metis le_neq_implies_less mod_self)
  then have "y < y + 1" by (simp add: word_less_nat_alt unat_word_ariths)
  then show ?thesis using assms(1) by simp
qed

lemma word_less_1_le:
  fixes x y :: "'w::len word"
  assumes "x < y + 1"
  shows "x \<le> y"
proof -
  have "unat (y + 1) \<le> unat y + 1" by (simp add: unat_word_ariths)
  then show ?thesis using assms by (simp add: word_less_nat_alt word_le_nat_alt)
qed

lemma sub_less_range:
  fixes a b h :: "'w::len word"
  assumes "b \<le> a" "b \<le> h" "a - b < h - b + 1"
  shows "a \<le> h"
  using word_less_1_le [OF assms(3)] assms(1,2) by (simp add: word_le_nat_alt unat_sub_le)

lemma unat_less_32: "unat (x :: u32) < 2 ^ 32"
proof -
  have "unat x < 2 ^ LENGTH(32)" by (rule unsigned_less)
  then show ?thesis by simp
qed

lemma unat_less_64: "unat (x :: u64) < 2 ^ 64"
proof -
  have "unat x < 2 ^ LENGTH(64)" by (rule unsigned_less)
  then show ?thesis by simp
qed

lemma unat_ucast_32_64 [simp]: "unat (ucast (x :: u32) :: u64) = unat x"
proof -
  have "unat x < 2 ^ 64" using unat_less_32 [of x] by simp
  then show ?thesis by (simp add: unsigned_ucast_eq take_bit_nat_eq_self)
qed

section \<open>Lists\<close>

lemma sorted_wrt_less_nth:
  "sorted_wrt (<) (xs :: 'a::linorder list) \<Longrightarrow> i < j \<Longrightarrow> j < length xs \<Longrightarrow> xs ! i < xs ! j"
  by (simp add: sorted_wrt_nth_less)

lemma sorted_wrt_take: "sorted_wrt P xs \<Longrightarrow> sorted_wrt P (take n xs)"
  using sorted_wrt_append [of P "take n xs" "drop n xs"] by simp

lemma sorted_wrt_drop: "sorted_wrt P xs \<Longrightarrow> sorted_wrt P (drop n xs)"
  using sorted_wrt_append [of P "take n xs" "drop n xs"] by simp

lemma set_take_nth: "x \<in> set (take n xs) \<Longrightarrow> \<exists>i. i < n \<and> i < length xs \<and> xs ! i = x"
  by (auto simp: in_set_conv_nth)

lemma set_drop_nth: "x \<in> set (drop n xs) \<Longrightarrow> \<exists>i. n \<le> i \<and> i < length xs \<and> xs ! i = x"
proof -
  assume "x \<in> set (drop n xs)"
  then obtain j where "j < length xs - n" "drop n xs ! j = x"
    by (auto simp: in_set_conv_nth)
  then show ?thesis by (intro exI [of _ "n + j"]) auto
qed

lemma take_mid_drop:
  assumes "i \<le> j"
  shows "xs = take i xs @ take (j - i) (drop i xs) @ drop j xs"
proof -
  have "drop i xs = take (j - i) (drop i xs) @ drop (j - i) (drop i xs)"
    by (rule append_take_drop_id [symmetric])
  then have "drop i xs = take (j - i) (drop i xs) @ drop j xs"
    using assms by simp
  then show ?thesis by (metis append_take_drop_id)
qed

end
