(* ===== verification/Std_Map.thy ===== *)
theory Std_Map
  imports Bp_Prelude
begin

text \<open>
  The ordered associative container of the C++ standard library that the
  processor's maps are built on. A \<open>std::map\<close> is the list of its nodes in
  iteration order, an iterator is a position in that list, and \<open>end()\<close> is
  the length. The locale \<open>ordered_index\<close> states what the clients rely on:
  the two binary searches partition the sorted keys. It is interpreted here for
  \<open>std::map\<close> and again in \<open>Static_Map\<close> for the serialized map.
\<close>

type_synonym ('k, 'v) std_map = "('k \<times> 'v) list"

section \<open>Operations\<close>

definition map_ok :: "('k::linorder, 'v) std_map \<Rightarrow> bool" where
  "map_ok m \<longleftrightarrow> sorted_wrt (<) (map fst m)"

fun lower_bound :: "('k::linorder, 'v) std_map \<Rightarrow> 'k \<Rightarrow> nat" where
  "lower_bound [] k = 0"
| "lower_bound (kv # m) k = (if fst kv < k then Suc (lower_bound m k) else 0)"

fun upper_bound :: "('k::linorder, 'v) std_map \<Rightarrow> 'k \<Rightarrow> nat" where
  "upper_bound [] k = 0"
| "upper_bound (kv # m) k = (if fst kv \<le> k then Suc (upper_bound m k) else 0)"

definition map_find :: "('k::linorder, 'v) std_map \<Rightarrow> 'k \<Rightarrow> nat" where
  "map_find m k =
     (let i = lower_bound m k in if i < length m \<and> fst (m ! i) = k then i else length m)"

text \<open>\<open>insert\<close> leaves the container unchanged when the key is present.\<close>

definition map_insert :: "('k::linorder, 'v) std_map \<Rightarrow> 'k \<Rightarrow> 'v \<Rightarrow> ('k, 'v) std_map" where
  "map_insert m k v =
     (let i = lower_bound m k
      in if i < length m \<and> fst (m ! i) = k then m else take i m @ (k, v) # drop i m)"

definition map_erase :: "('k, 'v) std_map \<Rightarrow> nat \<Rightarrow> ('k, 'v) std_map" where
  "map_erase m i = take i m @ drop (Suc i) m"

definition map_erase_range :: "('k, 'v) std_map \<Rightarrow> nat \<Rightarrow> nat \<Rightarrow> ('k, 'v) std_map" where
  "map_erase_range m i j = take i m @ drop j m"

text \<open>\<open>operator[]\<close> as an lvalue: the assignment \<open>m[k] = v\<close>.\<close>

definition map_assign :: "('k::linorder, 'v) std_map \<Rightarrow> 'k \<Rightarrow> 'v \<Rightarrow> ('k, 'v) std_map" where
  "map_assign m k v =
     (let i = lower_bound m k
      in if i < length m \<and> fst (m ! i) = k then m[i := (k, v)]
         else take i m @ (k, v) # drop i m)"

section \<open>Searches\<close>

lemma lower_bound_le [simp]: "lower_bound m k \<le> length m"
  by (induction m) auto

lemma upper_bound_le [simp]: "upper_bound m k \<le> length m"
  by (induction m) auto

lemma lower_bound_below: "i < lower_bound m k \<Longrightarrow> fst (m ! i) < k"
  by (induction m arbitrary: i) (auto simp: nth_Cons split: if_splits nat.splits)

lemma upper_bound_below: "i < upper_bound m k \<Longrightarrow> fst (m ! i) \<le> k"
  by (induction m arbitrary: i) (auto simp: nth_Cons split: if_splits nat.splits)

lemma lower_bound_at: "lower_bound m k < length m \<Longrightarrow> k \<le> fst (m ! lower_bound m k)"
  by (induction m) (auto simp: not_less)

lemma upper_bound_at: "upper_bound m k < length m \<Longrightarrow> k < fst (m ! upper_bound m k)"
  by (induction m) (auto simp: not_le)

lemma lower_bound_mono: "k \<le> k' \<Longrightarrow> lower_bound m k \<le> lower_bound m k'"
  by (induction m) auto

lemma map_ok_nth: "map_ok m \<Longrightarrow> i < j \<Longrightarrow> j < length m \<Longrightarrow> fst (m ! i) < fst (m ! j)"
  by (simp add: map_ok_def sorted_wrt_iff_nth_less)

lemma lower_bound_above:
  assumes "map_ok m" "lower_bound m k \<le> i" "i < length m"
  shows "k \<le> fst (m ! i)"
proof (cases "i = lower_bound m k")
  case True
  with assms show ?thesis by (simp add: lower_bound_at)
next
  case False
  with assms have "fst (m ! lower_bound m k) < fst (m ! i)"
    by (intro map_ok_nth) auto
  moreover have "k \<le> fst (m ! lower_bound m k)"
    using assms by (intro lower_bound_at) simp
  ultimately show ?thesis by simp
qed

lemma upper_bound_above:
  assumes "map_ok m" "upper_bound m k \<le> i" "i < length m"
  shows "k < fst (m ! i)"
proof (cases "i = upper_bound m k")
  case True
  with assms show ?thesis by (simp add: upper_bound_at)
next
  case False
  with assms have "fst (m ! upper_bound m k) < fst (m ! i)"
    by (intro map_ok_nth) auto
  moreover have "k < fst (m ! upper_bound m k)"
    using assms by (intro upper_bound_at) simp
  ultimately show ?thesis by simp
qed

lemma lower_bound_less_length: "i < lower_bound m k \<Longrightarrow> i < length m"
  by (rule less_le_trans [OF _ lower_bound_le])

lemma upper_bound_less_length: "i < upper_bound m k \<Longrightarrow> i < length m"
  by (rule less_le_trans [OF _ upper_bound_le])

lemma set_take_lower_bound: "x \<in> set (take (lower_bound m k) m) \<Longrightarrow> fst x < k"
  by (auto dest!: set_take_nth simp: lower_bound_below)

lemma set_drop_lower_bound:
  "map_ok m \<Longrightarrow> x \<in> set (drop (lower_bound m k) m) \<Longrightarrow> k \<le> fst x"
  by (auto dest!: set_drop_nth simp: lower_bound_above)

section \<open>Updates\<close>

lemma map_ok_Nil [simp]: "map_ok []"
  by (simp add: map_ok_def)

lemma map_ok_take: "map_ok m \<Longrightarrow> map_ok (take n m)"
  by (simp add: map_ok_def sorted_wrt_take flip: take_map)

lemma map_ok_drop: "map_ok m \<Longrightarrow> map_ok (drop n m)"
  by (simp add: map_ok_def sorted_wrt_drop flip: drop_map)

lemma map_ok_append:
  "map_ok (xs @ ys) \<longleftrightarrow> map_ok xs \<and> map_ok ys \<and> (\<forall>x\<in>set xs. \<forall>y\<in>set ys. fst x < fst y)"
  by (auto simp: map_ok_def sorted_wrt_append)

lemma map_ok_Cons: "map_ok (x # xs) \<longleftrightarrow> map_ok xs \<and> (\<forall>y\<in>set xs. fst x < fst y)"
  by (auto simp: map_ok_def)

lemma take_before_drop:
  "map_ok m \<Longrightarrow> i \<le> j \<Longrightarrow> x \<in> set (take i m) \<Longrightarrow> y \<in> set (drop j m) \<Longrightarrow> fst x < fst y"
  by (auto dest!: set_take_nth set_drop_nth intro: map_ok_nth)

lemma map_ok_erase_range [map_laws]:
  "map_ok m \<Longrightarrow> i \<le> j \<Longrightarrow> map_ok (map_erase_range m i j)"
  by (auto simp: map_erase_range_def map_ok_append map_ok_take map_ok_drop take_before_drop)

lemma map_ok_erase [map_laws]: "map_ok m \<Longrightarrow> map_ok (map_erase m i)"
  using map_ok_erase_range [of m i "Suc i"] by (simp add: map_erase_def map_erase_range_def)

lemma drop_lower_bound_neq:
  assumes "map_ok m"
    and "\<not> (lower_bound m k < length m \<and> fst (m ! lower_bound m k) = k)"
    and "x \<in> set (drop (lower_bound m k) m)"
  shows "k < fst x"
proof -
  from assms(3) obtain i where i: "lower_bound m k \<le> i" "i < length m" "x = m ! i"
    by (auto dest!: set_drop_nth)
  have "k < fst (m ! lower_bound m k)"
    using assms(2) i lower_bound_at [of m k] by (auto simp: order.strict_iff_order)
  moreover have "fst (m ! lower_bound m k) \<le> fst x"
    using map_ok_nth [OF assms(1), of "lower_bound m k" i] i
    by (cases "i = lower_bound m k") (auto simp: less_imp_le)
  ultimately show ?thesis by simp
qed

lemma map_ok_insert_at:
  assumes "map_ok m" and "\<not> (lower_bound m k < length m \<and> fst (m ! lower_bound m k) = k)"
  shows "map_ok (take (lower_bound m k) m @ (k, v) # drop (lower_bound m k) m)"
  using assms drop_lower_bound_neq [OF assms]
  by (auto simp: map_ok_append map_ok_Cons map_ok_take map_ok_drop
      dest: set_take_lower_bound intro: take_before_drop [OF assms(1) order.refl])

lemma map_ok_insert [map_laws]: "map_ok m \<Longrightarrow> map_ok (map_insert m k v)"
  by (auto simp: map_insert_def Let_def map_ok_insert_at)

lemma map_ok_update_same_key:
  "map_ok m \<Longrightarrow> i < length m \<Longrightarrow> map_ok (m[i := (fst (m ! i), v)])"
  using list_update_id [of "map fst m" i] by (simp add: map_ok_def map_update)

lemma map_ok_assign [map_laws]: "map_ok m \<Longrightarrow> map_ok (map_assign m k v)"
  using map_ok_insert_at [of m k v] map_ok_update_same_key [of m "lower_bound m k" v]
  by (auto simp: map_assign_def Let_def)

lemma set_take_drop: "set (take i m) \<union> set (drop i m) = set m"
  by (metis append_take_drop_id set_append)

lemma set_insert_new:
  assumes "map_ok m" "k \<notin> fst ` set m"
  shows "set (map_insert m k v) = insert (k, v) (set m)"
proof -
  have "\<not> (lower_bound m k < length m \<and> fst (m ! lower_bound m k) = k)"
    using assms(2) by (metis image_eqI nth_mem)
  then show ?thesis
    using set_take_drop [of "lower_bound m k" m]
    by (auto simp: map_insert_def Let_def)
qed

lemma map_of_insert:
  assumes "map_ok m"
  shows "map_of (map_insert m k v) =
    (if k \<in> fst ` set m then map_of m else (map_of m)(k \<mapsto> v))"
proof (cases "lower_bound m k < length m \<and> fst (m ! lower_bound m k) = k")
  case True
  then have "k \<in> fst ` set m" by (metis image_eqI nth_mem)
  with True show ?thesis by (simp add: map_insert_def)
next
  case False
  let ?i = "lower_bound m k"
  have nk: "k \<notin> fst ` set m"
  proof
    assume "k \<in> fst ` set m"
    then obtain v' where "(k, v') \<in> set (take ?i m) \<union> set (drop ?i m)"
      by (auto simp: set_take_drop)
    then show False
      using set_take_lower_bound [of "(k, v')" m k] drop_lower_bound_neq [OF assms False, of "(k, v')"]
      by auto
  qed
  have "k \<notin> dom (map_of (take ?i m))"
    using nk by (auto simp: dom_map_of_conv_image_fst dest: in_set_takeD)
  then have "map_of (take ?i m @ (k, v) # drop ?i m) = (map_of (take ?i m @ drop ?i m))(k \<mapsto> v)"
    by (subst map_of_append, subst map_of_append) (simp add: map_add_upd_left)
  with False nk show ?thesis
    by (auto simp: map_insert_def Let_def)
qed

lemma map_find_iff: "map_ok m \<Longrightarrow> map_find m k \<noteq> length m \<longleftrightarrow> k \<in> fst ` set m"
proof
  assume "map_find m k \<noteq> length m"
  then have "lower_bound m k < length m" "fst (m ! lower_bound m k) = k"
    by (auto simp: map_find_def Let_def split: if_splits)
  then show "k \<in> fst ` set m" by (metis image_eqI nth_mem)
next
  assume ok: "map_ok m" and "k \<in> fst ` set m"
  then obtain i where i: "i < length m" "fst (m ! i) = k" by (auto simp: in_set_conv_nth)
  have "lower_bound m k \<le> i" using lower_bound_below [of i m k] i by (meson less_irrefl not_le)
  then have "lower_bound m k < length m" "k \<le> fst (m ! lower_bound m k)"
    using i lower_bound_above [OF ok, of k "lower_bound m k"] by simp_all
  moreover have "fst (m ! lower_bound m k) \<le> fst (m ! i)"
    using \<open>lower_bound m k \<le> i\<close> i(1) map_ok_nth [OF ok, of "lower_bound m k" i] by (cases "lower_bound m k = i") auto
  ultimately show "map_find m k \<noteq> length m" using i by (simp add: map_find_def)
qed

lemma map_find_None: "map_ok m \<Longrightarrow> map_of m k = None \<Longrightarrow> map_find m k = length m"
  using map_find_iff [of m k] by (auto simp: map_of_eq_None_iff)

lemma map_find_Some:
  assumes "map_ok m" "map_of m k = Some v"
  shows "map_find m k \<noteq> length m \<and> m ! map_find m k = (k, v)"
proof -
  have "(k, v) \<in> set m" using assms(2) by (rule map_of_SomeD)
  then have ne: "map_find m k \<noteq> length m" using map_find_iff [OF assms(1), of k] by force
  then have f: "map_find m k < length m" "fst (m ! map_find m k) = k"
    by (auto simp: map_find_def Let_def split: if_splits)
  have "distinct (map fst m)" using assms(1) strict_sorted_iff unfolding map_ok_def by blast
  then have "map_of m k = Some (snd (m ! map_find m k))"
    using f by (metis map_of_eq_Some_iff nth_mem prod.collapse)
  then show ?thesis using ne f(2) assms(2) by (metis option.inject prod.collapse)
qed

lemma map_of_assign:
  assumes "map_ok m"
  shows "map_of (map_assign m k v) = (map_of m)(k \<mapsto> v)"
proof (cases "lower_bound m k < length m \<and> fst (m ! lower_bound m k) = k")
  case True
  let ?i = "lower_bound m k"
  have m: "m = take ?i m @ (k, snd (m ! ?i)) # drop (Suc ?i) m"
    using True by (metis id_take_nth_drop prod.collapse)
  have nk: "k \<notin> dom (map_of (take ?i m))"
    by (auto simp: dom_map_of_conv_image_fst dest!: set_take_lower_bound)
  have "map_assign m k v = take ?i m @ (k, v) # drop (Suc ?i) m"
    using True by (simp add: map_assign_def Let_def upd_conv_take_nth_drop)
  moreover have "map_of (take ?i m @ (k, v) # drop (Suc ?i) m) =
      (map_of (take ?i m @ (k, snd (m ! ?i)) # drop (Suc ?i) m))(k \<mapsto> v)"
    using nk by (simp add: map_add_upd_left)
  ultimately show ?thesis using m by metis
next
  case False
  then have "map_assign m k v = map_insert m k v" "k \<notin> fst ` set m"
    using map_find_iff [OF assms, of k] by (auto simp: map_assign_def map_insert_def map_find_def Let_def)
  then show ?thesis by (simp add: map_of_insert [OF assms])
qed

lemma map_of_erase_at:
  assumes "map_ok (u @ (k, v) # w)"
  shows "map_of (u @ w) = (map_of (u @ (k, v) # w))(k := None)"
proof -
  have d: "distinct (map fst (u @ (k, v) # w))" using assms strict_sorted_iff unfolding map_ok_def by blast
  then have "k \<notin> fst ` set u" "k \<notin> fst ` set w" by (auto simp: image_iff)
  then have "map_of u k = None" "map_of w k = None" by (simp_all add: map_of_eq_None_iff)
  then show ?thesis by (auto simp: map_add_def fun_eq_iff split: option.splits)
qed

lemma map_of_erase_key:
  assumes "map_ok m" "map_find m k \<noteq> length m"
  shows "map_of (map_erase m (map_find m k)) = (map_of m)(k := None)"
proof -
  let ?i = "map_find m k"
  have i: "?i < length m" "fst (m ! ?i) = k"
    using assms(2) by (auto simp: map_find_def Let_def split: if_splits)
  have m: "take ?i m @ (k, snd (m ! ?i)) # drop (Suc ?i) m = m"
    using id_take_nth_drop [OF i(1)] i(2) by (metis prod.collapse)
  show ?thesis using map_of_erase_at [of "take ?i m" k "snd (m ! ?i)" "drop (Suc ?i) m"] assms(1)
    unfolding m map_erase_def by blast
qed

section \<open>The interface of a sorted, searchable map\<close>

locale ordered_index =
  fixes keys :: "'m \<Rightarrow> 'k::linorder list"
    and lb :: "'m \<Rightarrow> 'k \<Rightarrow> nat"
    and ub :: "'m \<Rightarrow> 'k \<Rightarrow> nat"
    and inv :: "'m \<Rightarrow> bool"
  assumes keys_sorted: "inv m \<Longrightarrow> sorted_wrt (<) (keys m)"
    and lb_le: "inv m \<Longrightarrow> lb m k \<le> length (keys m)"
    and ub_le: "inv m \<Longrightarrow> ub m k \<le> length (keys m)"
    and lb_below: "inv m \<Longrightarrow> i < lb m k \<Longrightarrow> keys m ! i < k"
    and lb_above: "inv m \<Longrightarrow> lb m k \<le> i \<Longrightarrow> i < length (keys m) \<Longrightarrow> k \<le> keys m ! i"
    and ub_below: "inv m \<Longrightarrow> i < ub m k \<Longrightarrow> keys m ! i \<le> k"
    and ub_above: "inv m \<Longrightarrow> ub m k \<le> i \<Longrightarrow> i < length (keys m) \<Longrightarrow> k < keys m ! i"
begin

text \<open>A position is determined by what lies below and above it, so any two
  structures that satisfy the interface and hold the same keys search alike.\<close>

lemma lb_unique:
  assumes "inv m" "n \<le> length (keys m)"
    and "\<And>i. i < n \<Longrightarrow> keys m ! i < k"
    and "\<And>i. n \<le> i \<Longrightarrow> i < length (keys m) \<Longrightarrow> k \<le> keys m ! i"
  shows "lb m k = n"
proof (rule antisym)
  show "lb m k \<le> n"
  proof (rule ccontr)
    assume "\<not> lb m k \<le> n"
    then have "n < lb m k" by simp
    moreover from this have "n < length (keys m)" using lb_le [OF assms(1), of k] by simp
    ultimately show False
      using lb_below [OF assms(1), of n k] assms(4) [of n] by simp
  qed
  show "n \<le> lb m k"
  proof (rule ccontr)
    assume "\<not> n \<le> lb m k"
    then have "lb m k < n" by simp
    then show False
      using lb_above [OF assms(1), of k "lb m k"] assms(2) assms(3) [of "lb m k"] by simp
  qed
qed

lemma ub_unique:
  assumes "inv m" "n \<le> length (keys m)"
    and "\<And>i. i < n \<Longrightarrow> keys m ! i \<le> k"
    and "\<And>i. n \<le> i \<Longrightarrow> i < length (keys m) \<Longrightarrow> k < keys m ! i"
  shows "ub m k = n"
proof (rule antisym)
  show "ub m k \<le> n"
  proof (rule ccontr)
    assume "\<not> ub m k \<le> n"
    then have "n < ub m k" by simp
    moreover from this have "n < length (keys m)" using ub_le [OF assms(1), of k] by simp
    ultimately show False
      using ub_below [OF assms(1), of n k] assms(4) [of n] by simp
  qed
  show "n \<le> ub m k"
  proof (rule ccontr)
    assume "\<not> n \<le> ub m k"
    then have "ub m k < n" by simp
    then show False
      using ub_above [OF assms(1), of k "ub m k"] assms(2) assms(3) [of "ub m k"] by simp
  qed
qed

end

interpretation std: ordered_index "map fst" lower_bound upper_bound map_ok
  by unfold_locales
    (simp_all add: map_ok_def [symmetric] lower_bound_below upper_bound_below
      lower_bound_less_length upper_bound_less_length lower_bound_above upper_bound_above)

end
