(* ===== verification/Range_Map.thy ===== *)
theory Range_Map
  imports Std_Map
begin

text \<open>
  \<open>RangeMap\<close> (\<open>processor/range_map.h\<close>, \<open>processor/range_map-inl.h\<close>): the
  map from disjoint address ranges to entries behind module lists, functions
  and source lines. A range is stored under its high address. The addresses are
  unsigned words of any width and every addition wraps, as in the source.
\<close>

section \<open>Data and operations\<close>

record ('a, 'e) Range =
  r_base :: 'a
  r_delta :: 'a
  r_entry :: 'e

record ('a, 'e) RangeMap =
  enable_shrink_down :: bool
  rmap :: "('a, ('a, 'e) Range) std_map"

definition RangeMap_init :: "('a, 'e) RangeMap" where
  "RangeMap_init = \<lparr>enable_shrink_down = False, rmap = []\<rparr>"

definition RangeMap_SetEnableShrinkDown :: "('a, 'e) RangeMap \<Rightarrow> bool \<Rightarrow> ('a, 'e) RangeMap" where
  "RangeMap_SetEnableShrinkDown m b = m\<lparr>enable_shrink_down := b\<rparr>"

definition RangeMap_IsShrinkDownEnabled :: "('a, 'e) RangeMap \<Rightarrow> bool" where
  "RangeMap_IsShrinkDownEnabled m = enable_shrink_down m"

text \<open>What the three retrieval operations write through their out-parameters:
  the entry, its base, its delta and its size.\<close>

definition range_result ::
  "'w::len word \<times> ('w word, 'e) Range \<Rightarrow> 'e \<times> 'w word \<times> 'w word \<times> 'w word" where
  "range_result hr =
     (r_entry (snd hr), r_base (snd hr), r_delta (snd hr), fst hr - r_base (snd hr) + 1)"

definition RangeMap_RetrieveRange ::
  "('w::len word, 'e) RangeMap \<Rightarrow> 'w word \<Rightarrow> ('e \<times> 'w word \<times> 'w word \<times> 'w word) option" where
  "RangeMap_RetrieveRange m address =
     (let iterator = lower_bound (rmap m) address
      in if iterator = length (rmap m) then None
         else if address < r_base (snd (rmap m ! iterator)) then None
         else Some (range_result (rmap m ! iterator)))"

definition RangeMap_RetrieveNearestRange ::
  "('w::len word, 'e) RangeMap \<Rightarrow> 'w word \<Rightarrow> ('e \<times> 'w word \<times> 'w word \<times> 'w word) option" where
  "RangeMap_RetrieveNearestRange m address =
     (case RangeMap_RetrieveRange m address of
        Some r \<Rightarrow> Some r
      | None \<Rightarrow>
          (let iterator = upper_bound (rmap m) address
           in if iterator = 0 then None
              else Some (range_result (rmap m ! (iterator - 1)))))"

definition RangeMap_GetCount :: "('a, 'e) RangeMap \<Rightarrow> nat" where
  "RangeMap_GetCount m = length (rmap m)"

definition RangeMap_RetrieveRangeAtIndex ::
  "('w::len word, 'e) RangeMap \<Rightarrow> nat \<Rightarrow> ('e \<times> 'w word \<times> 'w word \<times> 'w word) option" where
  "RangeMap_RetrieveRangeAtIndex m index =
     (if RangeMap_GetCount m \<le> index then None
      else Some (range_result (rmap m ! index)))"

definition RangeMap_Clear :: "('a, 'e) RangeMap \<Rightarrow> ('a, 'e) RangeMap" where
  "RangeMap_Clear m = m\<lparr>rmap := []\<rparr>"

text \<open>
  \<open>StoreRangeInternal\<close> returns its result and the new map. The argument
  \<open>dflt\<close> is the default-constructed \<open>EntryType\<close> that the code declares before
  it reads the range it is about to shrink.
\<close>

definition range_overlaps :: "'w::len word \<Rightarrow> 'w word \<times> ('w word, 'e) Range \<Rightarrow> bool" where
  "range_overlaps high hr \<longleftrightarrow> r_base (snd hr) \<le> high \<and> high < fst hr"

lemma lower_bound_shadow:
  assumes "lower_bound m high < length m" "high \<le> fst (m ! lower_bound m high)"
  shows "lower_bound m (fst (m ! lower_bound m high)) = lower_bound m high"
  using assms by (induction m) auto

lemma RetrieveRange_other_high:
  assumes "lower_bound (rmap m) high < length (rmap m)"
    and "range_overlaps high (rmap m ! lower_bound (rmap m) high)"
  shows "RangeMap_RetrieveRange m (fst (rmap m ! lower_bound (rmap m) high)) =
    Some (range_result (rmap m ! lower_bound (rmap m) high))"
proof -
  have "lower_bound (rmap m) (fst (rmap m ! lower_bound (rmap m) high)) = lower_bound (rmap m) high"
    using assms by (intro lower_bound_shadow) (auto simp: range_overlaps_def)
  then show ?thesis
    using assms by (auto simp: RangeMap_RetrieveRange_def range_overlaps_def Let_def)
qed

lemma shrink_decreases:
  fixes m :: "('w::len word, ('w word, 'e) Range) std_map"
  assumes i: "i < length m" and o: "range_overlaps high (m ! i)"
    and b: "\<not> range_overlaps high (k, r)"
  shows "length (filter (range_overlaps high) (map_insert (map_erase m i) k r)) <
    length (filter (range_overlaps high) m)"
proof -
  have "length (filter (range_overlaps high) (map_insert xs k r)) \<le>
      length (filter (range_overlaps high) xs)" for xs :: "('w word, ('w word, 'e) Range) std_map"
  proof -
    have "length (filter (range_overlaps high) (take n xs)) +
        length (filter (range_overlaps high) (drop n xs)) = length (filter (range_overlaps high) xs)" for n
      by (metis append_take_drop_id filter_append length_append)
    then show ?thesis using b by (simp add: map_insert_def Let_def)
  qed
  moreover have "length (filter (range_overlaps high) (map_erase m i)) <
      length (filter (range_overlaps high) m)"
    using o by (subst (2) id_take_nth_drop [OF i]) (simp add: map_erase_def)
  ultimately show ?thesis by (meson le_less_trans)
qed

lemma shrink_self_size:
  fixes base sz :: "'w::len word"
  assumes "sz \<noteq> 0" "base \<le> base + (sz - 1)"
    and "base \<le> k" "k < base + (sz - 1)"
  shows "unat (sz - (k - base + 1)) < unat sz"
proof -
  have "unat (base + (sz - 1)) = unat base + (unat sz - 1)"
    using assms by (simp add: unat_add_nowrap unat_minus_1)
  then have lt: "unat k < unat base + (unat sz - 1)" using assms(4) by (simp add: word_less_nat_alt)
  have "k - base < sz - 1"
    using lt assms by (simp add: word_less_nat_alt unat_sub_le unat_minus_1 word_le_nat_alt)
  then have s: "unat (k - base + 1) = unat k - unat base + 1"
    using assms(3) by (simp add: unat_add_1_less unat_sub_le)
  have "unat (k - base + 1) \<le> unat sz" using lt s assms(3) by (simp add: word_le_nat_alt)
  then have "unat (sz - (k - base + 1)) = unat sz - unat (k - base + 1)"
    by (simp add: unat_sub_le word_le_nat_alt)
  then show ?thesis using s unat_ge_1 [OF assms(1)] by simp
qed

function RangeMap_StoreRangeInternal ::
  "'e \<Rightarrow> ('w::len word, 'e) RangeMap \<Rightarrow> 'w word \<Rightarrow> 'w word \<Rightarrow> 'w word \<Rightarrow> 'e
     \<Rightarrow> bool \<times> ('w word, 'e) RangeMap" where
  "RangeMap_StoreRangeInternal dflt m base delta sz entry =
     (let high = base + (sz - 1) in
      if sz = 0 \<or> high < base then (False, m)
      else
        let iterator_base = lower_bound (rmap m) base;
            iterator_high = lower_bound (rmap m) high
        in
        if iterator_base \<noteq> iterator_high then
          (if enable_shrink_down m then
             (let additional_delta = fst (rmap m ! iterator_base) - base + 1
              in RangeMap_StoreRangeInternal dflt m (base + additional_delta)
                   (delta + additional_delta) (sz - additional_delta) entry)
           else (False, m))
        else if iterator_high \<noteq> length (rmap m) \<and>
                r_base (snd (rmap m ! iterator_high)) \<le> high then
          (if enable_shrink_down m \<and> high < fst (rmap m ! iterator_high) then
             (let other_high = fst (rmap m ! iterator_high);
                  additional_delta = high - r_base (snd (rmap m ! iterator_high)) + 1;
                  (other_entry, other_base, other_delta, other_size) =
                    (case RangeMap_RetrieveRange m other_high of
                       Some r \<Rightarrow> r
                     | None \<Rightarrow> (dflt, 0, 0, 0));
                  m' = map_insert (map_erase (rmap m) iterator_high) other_high
                         \<lparr>r_base = other_base + additional_delta,
                          r_delta = other_delta + additional_delta,
                          r_entry = other_entry\<rparr>
              in RangeMap_StoreRangeInternal dflt (m\<lparr>rmap := m'\<rparr>) base delta sz entry)
           else (False, m))
        else (True, m\<lparr>rmap := map_insert (rmap m) high
                        \<lparr>r_base = base, r_delta = delta, r_entry = entry\<rparr>\<rparr>))"
  by pat_completeness auto
termination
proof (relation "measures [\<lambda>(d, m, b, dl, s, e). unat s,
    \<lambda>(d, m, b, dl, s, e). length (filter (range_overlaps (b + (s - 1))) (rmap m))]",
    goal_cases)
  case 1
  show ?case by simp
next
  case (2 dflt m base delta sz entry high ib ih ad)
  have k: "ib < ih"
    using 2 lower_bound_mono [of base high "rmap m"] by (simp add: not_less)
  then have "base \<le> fst (rmap m ! ib)" "fst (rmap m ! ib) < high"
    using 2 by (auto simp: lower_bound_below intro!: lower_bound_at dest: lower_bound_less_length)
  then have "unat (sz - (fst (rmap m ! ib) - base + 1)) < unat sz"
    using 2 by (intro shrink_self_size) auto
  then show ?case using 2 by simp
next
  case (3 dflt m base delta sz entry high ib ih oh ad x oe y ob z od os m')
  let ?hr = "rmap m ! ih"
  have ih: "ih < length (rmap m)" using 3 by (metis lower_bound_le order_le_less)
  have o: "range_overlaps high ?hr" using 3 by (simp add: range_overlaps_def)
  have "RangeMap_RetrieveRange m (fst ?hr) = Some (range_result ?hr)"
    using RetrieveRange_other_high [of m high] ih o 3(4) by simp
  then have x: "(oe, ob, od, os) = range_result ?hr" using 3 by simp
  then have "ob + ad = high + 1" using 3 by (simp add: range_result_def)
  moreover have "high < high + 1"
    using o unat_add_1_less [of high "fst ?hr"] by (simp add: range_overlaps_def word_less_nat_alt)
  ultimately have n: "\<not> range_overlaps high (oh, \<lparr>r_base = ob + ad, r_delta = od + ad, r_entry = oe\<rparr>)"
    by (simp add: range_overlaps_def not_le)
  show ?case using shrink_decreases [OF ih o n] 3 by simp
qed

declare RangeMap_StoreRangeInternal.simps [simp del]

definition RangeMap_StoreRange ::
  "'e \<Rightarrow> ('w::len word, 'e) RangeMap \<Rightarrow> 'w word \<Rightarrow> 'w word \<Rightarrow> 'e
     \<Rightarrow> bool \<times> ('w word, 'e) RangeMap" where
  "RangeMap_StoreRange dflt m base sz entry = RangeMap_StoreRangeInternal dflt m base 0 sz entry"

section \<open>The representation invariant\<close>

text \<open>Ranges are non-empty, disjoint and listed in address order.\<close>

definition ranges_ok :: "('w::len word, ('w word, 'e) Range) std_map \<Rightarrow> bool" where
  "ranges_ok xs \<longleftrightarrow> sorted_wrt (\<lambda>x y. fst x < r_base (snd y)) xs \<and>
     (\<forall>x\<in>set xs. r_base (snd x) \<le> fst x)"

definition RangeMap_ok :: "('w::len word, 'e) RangeMap \<Rightarrow> bool" where
  "RangeMap_ok m \<longleftrightarrow> ranges_ok (rmap m)"

definition in_range :: "'w::len word \<Rightarrow> 'w word \<times> ('w word, 'e) Range \<Rightarrow> bool" where
  "in_range a hr \<longleftrightarrow> r_base (snd hr) \<le> a \<and> a \<le> fst hr"

lemma ranges_ok_append:
  "ranges_ok (xs @ ys) \<longleftrightarrow>
     ranges_ok xs \<and> ranges_ok ys \<and> (\<forall>x\<in>set xs. \<forall>y\<in>set ys. fst x < r_base (snd y))"
  by (auto simp: ranges_ok_def sorted_wrt_append)

lemma ranges_ok_Cons:
  "ranges_ok (x # xs) \<longleftrightarrow>
     ranges_ok xs \<and> r_base (snd x) \<le> fst x \<and> (\<forall>y\<in>set xs. fst x < r_base (snd y))"
  by (auto simp: ranges_ok_def)

lemma ranges_ok_nth:
  "ranges_ok xs \<Longrightarrow> i < j \<Longrightarrow> j < length xs \<Longrightarrow> fst (xs ! i) < r_base (snd (xs ! j))"
  by (simp add: ranges_ok_def sorted_wrt_iff_nth_less)

lemma ranges_ok_base: "ranges_ok xs \<Longrightarrow> i < length xs \<Longrightarrow> r_base (snd (xs ! i)) \<le> fst (xs ! i)"
  by (simp add: ranges_ok_def)

lemma ranges_ok_map_ok: "ranges_ok xs \<Longrightarrow> map_ok xs"
proof (induction xs)
  case (Cons x xs)
  then have "\<forall>y\<in>set xs. fst x < r_base (snd y) \<and> r_base (snd y) \<le> fst y"
    by (auto simp: ranges_ok_def)
  then have "\<forall>y\<in>set xs. fst x < fst y" by (blast intro: less_le_trans)
  with Cons show ?case by (simp add: ranges_ok_Cons map_ok_Cons)
qed simp

lemma ranges_ok_ordered:
  assumes "ranges_ok xs" "x \<in> set xs" "y \<in> set xs" "x \<noteq> y"
  shows "fst x < r_base (snd y) \<or> fst y < r_base (snd x)"
proof -
  obtain i j where "i < length xs" "x = xs ! i" "j < length xs" "y = xs ! j" "i \<noteq> j"
    using assms(2-4) by (metis in_set_conv_nth)
  then show ?thesis
    using ranges_ok_nth [OF assms(1), of i j] ranges_ok_nth [OF assms(1), of j i] by (metis nat_neq_iff)
qed

lemma ranges_ok_unique:
  assumes "ranges_ok xs" "x \<in> set xs" "y \<in> set xs" "in_range a x" "in_range a y"
  shows "x = y"
proof -
  obtain i j where ij: "i < length xs" "x = xs ! i" "j < length xs" "y = xs ! j"
    using assms(2,3) by (auto simp: in_set_conv_nth)
  have "\<not> i < j"
    using ranges_ok_nth [OF assms(1), of i j] ij assms(4,5) by (auto simp: in_range_def)
  moreover have "\<not> j < i"
    using ranges_ok_nth [OF assms(1), of j i] ij assms(4,5) by (auto simp: in_range_def)
  ultimately show ?thesis using ij by (simp add: not_less)
qed

section \<open>Retrieval\<close>

lemma in_range_lower_bound:
  assumes "ranges_ok xs" "i < length xs" "in_range a (xs ! i)"
  shows "lower_bound xs a = i"
proof -
  have "lower_bound xs a \<le> i"
    using assms lower_bound_below [of i xs a] by (force simp: in_range_def not_less [symmetric])
  moreover have "\<not> lower_bound xs a < i"
    using assms ranges_ok_nth [OF assms(1), of "lower_bound xs a" i] lower_bound_at [of xs a]
    by (auto simp: in_range_def)
  ultimately show ?thesis by simp
qed

lemma RetrieveRange_Some:
  assumes "RangeMap_ok m"
  shows "RangeMap_RetrieveRange m a = Some r \<longleftrightarrow>
    (\<exists>hr\<in>set (rmap m). in_range a hr \<and> r = range_result hr)"
proof
  let ?i = "lower_bound (rmap m) a"
  assume L: "RangeMap_RetrieveRange m a = Some r"
  then have "?i < length (rmap m)" and "r_base (snd (rmap m ! ?i)) \<le> a"
    and "r = range_result (rmap m ! ?i)"
    by (auto simp: RangeMap_RetrieveRange_def Let_def not_less order_le_less split: if_splits
        dest: lower_bound_le [THEN le_neq_implies_less, rotated])
  then show "\<exists>hr\<in>set (rmap m). in_range a hr \<and> r = range_result hr"
    by (intro bexI [of _ "rmap m ! ?i"]) (auto simp: in_range_def lower_bound_at)
next
  assume "\<exists>hr\<in>set (rmap m). in_range a hr \<and> r = range_result hr"
  then obtain i where i: "i < length (rmap m)" "in_range a (rmap m ! i)" "r = range_result (rmap m ! i)"
    by (metis in_set_conv_nth)
  then have "lower_bound (rmap m) a = i"
    using assms by (intro in_range_lower_bound) (auto simp: RangeMap_ok_def)
  with i show "RangeMap_RetrieveRange m a = Some r"
    by (auto simp: RangeMap_RetrieveRange_def in_range_def)
qed

lemma RetrieveRange_None:
  "RangeMap_ok m \<Longrightarrow>
     RangeMap_RetrieveRange m a = None \<longleftrightarrow> (\<forall>hr\<in>set (rmap m). \<not> in_range a hr)"
  using RetrieveRange_Some [of m a] by (metis not_None_eq)

section \<open>Storing\<close>

definition clear_of :: "'w::len word \<Rightarrow> 'w word \<Rightarrow> 'w word \<times> ('w word, 'e) Range \<Rightarrow> bool" where
  "clear_of base high hr \<longleftrightarrow> fst hr < base \<or> high < r_base (snd hr)"

lemma clear_iff:
  assumes "ranges_ok xs" "base \<le> high"
  shows "(\<forall>hr\<in>set xs. clear_of base high hr) \<longleftrightarrow>
    lower_bound xs base = lower_bound xs high \<and>
    (lower_bound xs high = length xs \<or> high < r_base (snd (xs ! lower_bound xs high)))"
    (is "?L \<longleftrightarrow> ?R")
proof
  assume L: ?L
  have nth: "clear_of base high (xs ! i)" if "i < length xs" for i using L that by simp
  have "\<not> lower_bound xs base < lower_bound xs high"
  proof
    assume lt: "lower_bound xs base < lower_bound xs high"
    then have "lower_bound xs base < length xs" by (rule lower_bound_less_length)
    with lt show False
      using nth [of "lower_bound xs base"] lower_bound_below [OF lt] lower_bound_at [of xs base]
        ranges_ok_base [OF assms(1), of "lower_bound xs base"]
      by (auto simp: clear_of_def)
  qed
  then have eq: "lower_bound xs base = lower_bound xs high"
    using lower_bound_mono [OF assms(2), of xs] by simp
  have "high < r_base (snd (xs ! lower_bound xs high))" if "lower_bound xs high \<noteq> length xs"
  proof -
    have l: "lower_bound xs high < length xs" using that by (simp add: le_neq_implies_less)
    then show ?thesis
      using nth [OF l] lower_bound_at [OF l] assms(2) by (auto simp: clear_of_def)
  qed
  with eq show ?R by blast
next
  assume R: ?R
  show ?L
  proof
    fix hr assume "hr \<in> set xs"
    then obtain i where i: "i < length xs" "hr = xs ! i" by (auto simp: in_set_conv_nth)
    show "clear_of base high hr"
    proof (cases "i < lower_bound xs base")
      case True
      then show ?thesis using i by (simp add: clear_of_def lower_bound_below)
    next
      case False
      with R i have b: "high < r_base (snd (xs ! lower_bound xs high))" "lower_bound xs high \<le> i" by auto
      have "r_base (snd (xs ! lower_bound xs high)) \<le> r_base (snd (xs ! i))"
        using b(2) i ranges_ok_nth [OF assms(1), of "lower_bound xs high" i]
          ranges_ok_base [OF assms(1), of "lower_bound xs high"]
        by (cases "i = lower_bound xs high") auto
      with b(1) have "high < r_base (snd (xs ! i))" by (rule less_le_trans)
      then show ?thesis using i by (simp add: clear_of_def)
    qed
  qed
qed

lemma ranges_ok_take: "ranges_ok xs \<Longrightarrow> ranges_ok (take n xs)"
  using ranges_ok_append [of "take n xs" "drop n xs"] by simp

lemma ranges_ok_drop: "ranges_ok xs \<Longrightarrow> ranges_ok (drop n xs)"
  using ranges_ok_append [of "take n xs" "drop n xs"] by simp

lemma insert_clear:
  assumes "ranges_ok xs" "base \<le> high" "\<forall>hr\<in>set xs. clear_of base high hr" "r_base r = base"
  shows "ranges_ok (map_insert xs high r)" "set (map_insert xs high r) = insert (high, r) (set xs)"
proof -
  let ?i = "lower_bound xs high"
  have k: "high \<notin> fst ` set xs"
  proof
    assume "high \<in> fst ` set xs"
    then obtain x where x: "x \<in> set xs" "fst x = high" by auto
    with assms(1) have "r_base (snd x) \<le> high" by (auto simp: ranges_ok_def)
    with x assms(2,3) show False by (auto simp: clear_of_def)
  qed
  show "set (map_insert xs high r) = insert (high, r) (set xs)"
    using set_insert_new [OF ranges_ok_map_ok [OF assms(1)] k] .
  have "\<not> (?i < length xs \<and> fst (xs ! ?i) = high)"
    using k by (metis image_eqI nth_mem)
  then have e: "map_insert xs high r = take ?i xs @ (high, r) # drop ?i xs"
    by (auto simp: map_insert_def Let_def)
  have lo: "fst x < base" if "x \<in> set (take ?i xs)" for x
  proof -
    have x: "x \<in> set xs" "fst x < high" using that set_take_lower_bound in_set_takeD by fast+
    then have "r_base (snd x) \<le> high" using assms(1) by (fastforce simp: ranges_ok_def)
    then show ?thesis using x assms(3) by (auto simp: clear_of_def not_less [symmetric])
  qed
  have hi: "high < r_base (snd y)" if "y \<in> set (drop ?i xs)" for y
    using that assms(2,3) set_drop_lower_bound [OF ranges_ok_map_ok [OF assms(1)] that]
    by (auto simp: clear_of_def dest!: in_set_dropD)
  have "ranges_ok (take ?i xs @ drop ?i xs)" using assms(1) by simp
  then show "ranges_ok (map_insert xs high r)"
    unfolding e ranges_ok_append ranges_ok_Cons
    using lo hi assms(2,4) by (auto simp: ranges_ok_take ranges_ok_drop)
qed

lemma shrink_other:
  assumes "ranges_ok xs" "lower_bound xs high < length xs"
    and "range_overlaps high (xs ! lower_bound xs high)" "r_base r = high + 1"
  defines "i \<equiv> lower_bound xs high"
  shows "map_insert (map_erase xs i) (fst (xs ! i)) r = xs[i := (fst (xs ! i), r)]"
    and "ranges_ok (xs[i := (fst (xs ! i), r)])"
proof -
  have il: "i < length xs" using assms by simp
  let ?k = "fst (xs ! i)"
  have xs: "xs = take i xs @ (xs ! i) # drop (Suc i) xs" using il by (rule id_take_nth_drop)
  have ok: "ranges_ok (take i xs @ (xs ! i) # drop (Suc i) xs)" using assms(1) xs by simp
  have lb: "lower_bound (take i xs @ drop (Suc i) xs) ?k = i"
  proof -
    have m: "map_ok (take i xs @ drop (Suc i) xs)"
      using map_ok_erase [OF ranges_ok_map_ok [OF assms(1)], of i] by (simp add: map_erase_def)
    show ?thesis
    proof (rule std.lb_unique [OF m], goal_cases)
      case 1 then show ?case using il by simp
    next
      case (2 j)
      then show ?case using il map_ok_nth [OF ranges_ok_map_ok [OF assms(1)], of j i]
        by (simp add: nth_append)
    next
      case (3 j)
      then show ?case using il map_ok_nth [OF ranges_ok_map_ok [OF assms(1)], of i "Suc j"]
        by (simp add: nth_append less_imp_le)
    qed
  qed
  have "\<not> (i < length (map_erase xs i) \<and> fst (map_erase xs i ! i) = ?k)"
    using il map_ok_nth [OF ranges_ok_map_ok [OF assms(1)], of i "Suc i"]
    by (auto simp: map_erase_def nth_append less_diff_conv)
  with lb il show "map_insert (map_erase xs i) ?k r = xs[i := (?k, r)]"
    by (simp add: map_insert_def map_erase_def upd_conv_take_nth_drop)
  have o: "r_base (snd (xs ! i)) \<le> high" "high < ?k"
    using assms by (auto simp: range_overlaps_def)
  have h1: "unat (high + 1) = unat high + 1" using o(2) by (rule unat_add_1_less)
  then have "high + 1 \<le> ?k" "high < high + 1" using o(2) by (auto simp: word_le_nat_alt word_less_nat_alt)
  moreover have "\<forall>x\<in>set (take i xs). fst x < r_base (snd (xs ! i))"
    using ok by (simp add: ranges_ok_append)
  ultimately show "ranges_ok (xs[i := (?k, r)])"
    using ok o assms(4) unfolding upd_conv_take_nth_drop [OF il] ranges_ok_append ranges_ok_Cons
    by (auto intro: less_trans less_le_trans)
qed

text \<open>Without shrinking, storing succeeds exactly on a non-empty range that does not
  wrap and is clear of every stored range, and then adds just that range.\<close>

lemma StoreRange_plain:
  assumes "RangeMap_ok m" "\<not> enable_shrink_down m"
  shows "RangeMap_StoreRangeInternal dflt m base delta sz entry =
    (if sz \<noteq> 0 \<and> base \<le> base + (sz - 1) \<and> (\<forall>hr\<in>set (rmap m). clear_of base (base + (sz - 1)) hr)
     then (True, m\<lparr>rmap := map_insert (rmap m) (base + (sz - 1))
                      \<lparr>r_base = base, r_delta = delta, r_entry = entry\<rparr>\<rparr>)
     else (False, m))"
proof (cases "sz \<noteq> 0 \<and> base \<le> base + (sz - 1)")
  case True
  then show ?thesis
    using assms clear_iff [of "rmap m" base "base + (sz - 1)"]
    by (subst RangeMap_StoreRangeInternal.simps) (auto simp: Let_def RangeMap_ok_def not_le)
next
  case False
  then show ?thesis
    by (subst RangeMap_StoreRangeInternal.simps) (auto simp: Let_def not_le)
qed

text \<open>With shrinking, the only valid range that is refused is one that ends where a stored
  range ends. The new range keeps its end, every stored range keeps its end and its
  entry, and \<open>base - delta\<close> of each is unchanged.\<close>

definition keeps :: "'w::len word \<times> ('w word, 'e) Range \<Rightarrow> 'w word \<times> ('w word, 'e) Range \<Rightarrow> bool" where
  "keeps x y \<longleftrightarrow> fst y = fst x \<and> r_entry (snd y) = r_entry (snd x) \<and>
     r_base (snd x) \<le> r_base (snd y) \<and>
     r_base (snd y) - r_delta (snd y) = r_base (snd x) - r_delta (snd x)"

definition kept :: "('w::len word, ('w word, 'e) Range) std_map \<Rightarrow>
    ('w word, ('w word, 'e) Range) std_map \<Rightarrow> bool" where
  "kept xs ys \<longleftrightarrow> (\<forall>x\<in>set xs. \<exists>y\<in>set ys. keeps x y)"

definition stored_shrunk ::
  "('w::len word, 'e) RangeMap \<Rightarrow> 'w word \<Rightarrow> 'w word \<Rightarrow> 'w word \<Rightarrow> 'e
     \<Rightarrow> bool \<times> ('w word, 'e) RangeMap \<Rightarrow> bool" where
  "stored_shrunk m base delta high entry res \<longleftrightarrow>
     fst res \<and> RangeMap_ok (snd res) \<and> enable_shrink_down (snd res) \<and>
     fst ` set (rmap (snd res)) = insert high (fst ` set (rmap m)) \<and>
     (\<exists>y\<in>set (rmap (snd res)). fst y = high \<and> r_entry (snd y) = entry \<and>
        base \<le> r_base (snd y) \<and> r_base (snd y) - r_delta (snd y) = base - delta) \<and>
     kept (rmap m) (rmap (snd res))"

lemma keeps_refl [simp]: "keeps x x"
  by (simp add: keeps_def)

lemma kept_refl [simp]: "kept xs xs"
  by (auto simp: kept_def intro!: bexI)

lemma kept_trans: "kept xs ys \<Longrightarrow> kept ys zs \<Longrightarrow> kept xs zs"
  unfolding kept_def
proof
  fix x assume xy: "\<forall>x\<in>set xs. \<exists>y\<in>set ys. keeps x y"
    and yz: "\<forall>x\<in>set ys. \<exists>y\<in>set zs. keeps x y" and x: "x \<in> set xs"
  obtain y where y: "y \<in> set ys" "keeps x y" using xy x by blast
  obtain z where "z \<in> set zs" "keeps y z" using yz y(1) by blast
  then show "\<exists>z\<in>set zs. keeps x z" using y(2) by (force simp: keeps_def)
qed

lemma kept_mono: "set xs \<subseteq> set ys \<Longrightarrow> kept xs ys"
  unfolding kept_def using keeps_refl by blast

lemma grow_low:
  fixes b h e :: "'w::len word"
  assumes "b \<le> h" "h < e"
  shows "b \<le> b + (h - b + 1)"
  using assms unat_add_1_less [OF assms(2)] by (simp add: word_le_nat_alt algebra_simps)

lemma kept_shrink:
  assumes "i < length xs" "r_base (snd (xs ! i)) \<le> r_base (snd (xs ! i)) + d"
  shows "kept xs (xs[i := (fst (xs ! i), \<lparr>r_base = r_base (snd (xs ! i)) + d,
    r_delta = r_delta (snd (xs ! i)) + d, r_entry = r_entry (snd (xs ! i))\<rparr>)])"
    (is "kept xs ?ys")
  unfolding kept_def
proof
  fix x assume "x \<in> set xs"
  then obtain j where j: "j < length xs" "x = xs ! j" by (auto simp: in_set_conv_nth)
  then show "\<exists>y\<in>set ?ys. keeps x y"
    using assms nth_mem [of j ?ys]
    by (intro bexI [of _ "?ys ! j"]) (auto simp: nth_list_update keeps_def simp del: nth_mem)
qed

lemma shrink_self:
  fixes base sz k :: "'w::len word"
  assumes "base \<le> k" "k < base + (sz - 1)"
  defines "ad \<equiv> k - base + 1"
  shows "(base + ad) + (sz - ad - 1) = base + (sz - 1)" "base + ad \<le> base + (sz - 1)"
    "base \<le> base + ad" "sz - ad \<noteq> 0"
proof -
  show "(base + ad) + (sz - ad - 1) = base + (sz - 1)" by simp
  have u: "unat (k + 1) = unat k + 1" using assms(2) by (rule unat_add_1_less)
  then show "base + ad \<le> base + (sz - 1)" "base \<le> base + ad"
    using assms by (auto simp: word_le_nat_alt word_less_nat_alt)
  show "sz - ad \<noteq> 0"
  proof
    assume "sz - ad = 0"
    then have "base + (sz - 1) = k" by (simp add: ad_def algebra_simps)
    with assms(2) show False by simp
  qed
qed

lemma stored_shrunk_shift:
  assumes "stored_shrunk m (base + d) (delta + d) high entry res" "base \<le> base + d"
  shows "stored_shrunk m base delta high entry res"
  using assms unfolding stored_shrunk_def by (auto intro: order.trans)

lemma stored_shrunk_kept:
  assumes "stored_shrunk (m\<lparr>rmap := ys\<rparr>) base delta high entry res"
    and "kept (rmap m) ys" "fst ` set ys = fst ` set (rmap m)"
  shows "stored_shrunk m base delta high entry res"
  using assms kept_trans unfolding stored_shrunk_def by auto

lemma stored_shrunk_insert:
  assumes "ranges_ok (rmap m)" "enable_shrink_down m" "base \<le> high"
    and "\<forall>hr\<in>set (rmap m). clear_of base high hr"
  shows "stored_shrunk m base delta high entry
    (True, m\<lparr>rmap := map_insert (rmap m) high \<lparr>r_base = base, r_delta = delta, r_entry = entry\<rparr>\<rparr>)"
  using insert_clear [OF assms(1,3,4), of "\<lparr>r_base = base, r_delta = delta, r_entry = entry\<rparr>"] assms(2)
  by (auto simp: stored_shrunk_def RangeMap_ok_def intro!: kept_mono)

lemma clear_not_key:
  "ranges_ok xs \<Longrightarrow> base \<le> high \<Longrightarrow> \<forall>hr\<in>set xs. clear_of base high hr \<Longrightarrow> high \<notin> fst ` set xs"
  by (fastforce simp: clear_of_def ranges_ok_def)

lemma keys_update: "i < length xs \<Longrightarrow> fst ` set (xs[i := (fst (xs ! i), r)]) = fst ` set xs"
  by (metis fst_conv list.set_map list_update_id map_update nth_map)

lemma rmap_update: "rmap (m\<lparr>rmap := xs\<rparr>) = xs"
  by simp

lemma overlapped_not_key:
  assumes "ranges_ok xs" "i < length xs" "in_range a (xs ! i)" "a \<noteq> fst (xs ! i)"
  shows "a \<notin> fst ` set xs"
proof
  assume "a \<in> fst ` set xs"
  then obtain y where y: "y \<in> set xs" "fst y = a" by auto
  then have "in_range a y" using assms(1) by (auto simp: in_range_def ranges_ok_def)
  then have "y = xs ! i" using ranges_ok_unique [OF assms(1) y(1) nth_mem] assms(2,3) by simp
  with y(2) assms(4) show False by simp
qed

lemma StoreRangeInternal_shrink:
  fixes m :: "('w::len word, 'e) RangeMap"
  assumes "RangeMap_ok m" "enable_shrink_down m"
  shows "if sz \<noteq> 0 \<and> base \<le> base + (sz - 1) \<and> base + (sz - 1) \<notin> fst ` set (rmap m)
    then stored_shrunk m base delta (base + (sz - 1)) entry
      (RangeMap_StoreRangeInternal dflt m base delta sz entry)
    else RangeMap_StoreRangeInternal dflt m base delta sz entry = (False, m)"
  using assms
proof (induction dflt m base delta sz entry rule: RangeMap_StoreRangeInternal.induct)
  case (1 dflt m base delta sz entry)
  let ?high = "base + (sz - 1)" and ?xs = "rmap m"
  let ?ib = "lower_bound ?xs base" and ?ih = "lower_bound ?xs ?high"
  let ?res = "RangeMap_StoreRangeInternal dflt m base delta sz entry"
  have xs: "ranges_ok ?xs" using "1.prems" by (simp add: RangeMap_ok_def)
  show ?case
  proof (cases "sz \<noteq> 0 \<and> base \<le> ?high")
    case False
    then show ?thesis by (subst (2) RangeMap_StoreRangeInternal.simps) (auto simp: Let_def not_le)
  next
    case valid: True
    then have guard: "\<not> (sz = 0 \<or> ?high < base)" by auto
    show ?thesis
    proof (cases "?ib = ?ih")
      case False
      then have "?ib < ?ih" using lower_bound_mono [of base ?high ?xs] valid by simp
      then have k: "?ib < length ?xs" "base \<le> fst (?xs ! ?ib)" "fst (?xs ! ?ib) < ?high"
        by (auto simp: lower_bound_below intro: lower_bound_at dest: lower_bound_less_length)
      let ?ad = "fst (?xs ! ?ib) - base + 1"
      have eq: "?res = RangeMap_StoreRangeInternal dflt m (base + ?ad) (delta + ?ad) (sz - ?ad) entry"
        using valid False "1.prems"
        by (subst RangeMap_StoreRangeInternal.simps) (auto simp: Let_def not_less)
      note f = shrink_self [OF k(2,3)]
      have IH: "if base + (sz - 1) \<notin> fst ` set ?xs
        then stored_shrunk m (base + ?ad) (delta + ?ad) ?high entry ?res else ?res = (False, m)"
        using "1.IH"(1) [OF refl guard refl refl False "1.prems"(2) refl "1.prems"] f(2,4)
        unfolding eq f(1) by (simp only: simp_thms)
      show ?thesis
      proof (cases "?high \<in> fst ` set ?xs")
        case True
        with IH show ?thesis by simp
      next
        case False
        with IH have "stored_shrunk m (base + ?ad) (delta + ?ad) ?high entry ?res" by (simp only: if_True not_False_eq_True)
        from stored_shrunk_shift [OF this f(3)] show ?thesis using valid False by simp
      qed
    next
      case same: True
      show ?thesis
      proof (cases "\<forall>hr\<in>set ?xs. clear_of base ?high hr")
        case clear: True
        then have "?res = (True, m\<lparr>rmap := map_insert ?xs ?high
            \<lparr>r_base = base, r_delta = delta, r_entry = entry\<rparr>\<rparr>)"
          using valid same clear_iff [OF xs, of base ?high]
          by (subst RangeMap_StoreRangeInternal.simps) (auto simp: Let_def not_less)
        then show ?thesis
          using valid stored_shrunk_insert [OF xs "1.prems"(2) _ clear] clear_not_key [OF xs _ clear]
          by simp
      next
        case False
        then have il: "?ih < length ?xs" and b: "r_base (snd (?xs ! ?ih)) \<le> ?high"
          using clear_iff [OF xs, of base ?high] valid same
          by (auto simp: not_less order_le_less dest: lower_bound_le [THEN le_neq_implies_less, rotated])
        show ?thesis
        proof (cases "?high < fst (?xs ! ?ih)")
          case no: False
          then have "fst (?xs ! ?ih) = ?high" using lower_bound_at [OF il] by simp
          then have "?high \<in> fst ` set ?xs" using il by (metis image_eqI nth_mem)
          moreover have "?res = (False, m)"
            using valid same il b no by (subst RangeMap_StoreRangeInternal.simps) (auto simp: Let_def not_less)
          ultimately show ?thesis by simp
        next
          case True
          then have o: "range_overlaps ?high (?xs ! ?ih)" using b by (simp add: range_overlaps_def)
          let ?r = "\<lparr>r_base = r_base (snd (?xs ! ?ih)) + (?high - r_base (snd (?xs ! ?ih)) + 1),
            r_delta = r_delta (snd (?xs ! ?ih)) + (?high - r_base (snd (?xs ! ?ih)) + 1),
            r_entry = r_entry (snd (?xs ! ?ih))\<rparr>"
          let ?ys = "?xs[?ih := (fst (?xs ! ?ih), ?r)]"
          have ys: "map_insert (map_erase ?xs ?ih) (fst (?xs ! ?ih)) ?r = ?ys" "ranges_ok ?ys"
            using shrink_other [OF xs il o, of ?r] by auto
          have keys: "fst ` set ?ys = fst ` set ?xs" using il by (rule keys_update)
          have ret: "RangeMap_RetrieveRange m (fst (?xs ! ?ih)) = Some (range_result (?xs ! ?ih))"
            using RetrieveRange_other_high [OF il o] .
          have split: "(r_entry (snd (?xs ! ?ih)), r_base (snd (?xs ! ?ih)), r_delta (snd (?xs ! ?ih)),
              fst (?xs ! ?ih) - r_base (snd (?xs ! ?ih)) + 1) =
            (case RangeMap_RetrieveRange m (fst (?xs ! ?ih)) of Some r \<Rightarrow> r | None \<Rightarrow> (dflt, 0, 0, 0))"
            by (simp add: ret range_result_def)
          have eq: "?res = RangeMap_StoreRangeInternal dflt (m\<lparr>rmap := ?ys\<rparr>) base delta sz entry"
            using valid same il b True "1.prems"(2) ret ys(1)
            by (subst RangeMap_StoreRangeInternal.simps) (auto simp: Let_def not_less range_result_def)
          have c: "\<not> ?ib \<noteq> ?ih" "?ih \<noteq> length ?xs \<and> r_base (snd (?xs ! ?ih)) \<le> ?high"
            "enable_shrink_down m \<and> ?high < fst (?xs ! ?ih)"
            "RangeMap_ok (m\<lparr>rmap := ?ys\<rparr>)" "enable_shrink_down (m\<lparr>rmap := ?ys\<rparr>)"
            using same il b True "1.prems" ys(2) by (auto simp: RangeMap_ok_def simp del: add_diff_cancel_left')
          have IH: "if ?high \<notin> fst ` set ?ys
            then stored_shrunk (m\<lparr>rmap := ?ys\<rparr>) base delta ?high entry ?res
            else ?res = (False, m\<lparr>rmap := ?ys\<rparr>)"
            using "1.IH"(2) [OF refl guard refl refl c(1,2,3) refl refl refl split refl refl refl,
              unfolded ys(1), OF c(4,5)] valid unfolding eq
            by (simp only: simp_thms rmap_update)
          have nk: "?high \<notin> fst ` set ?xs"
            using True b il xs by (intro overlapped_not_key [OF _ il]) (auto simp: in_range_def)
          then have "stored_shrunk (m\<lparr>rmap := ?ys\<rparr>) base delta ?high entry ?res"
            using IH unfolding keys by (simp only: if_True not_False_eq_True)
          from stored_shrunk_kept [OF this kept_shrink [OF il grow_low [OF b True]] keys] show ?thesis
            using valid nk by (simp only: simp_thms if_True)
        qed
      qed
    qed
  qed
qed

lemma StoreRange_ok:
  assumes "RangeMap_ok m"
  shows "RangeMap_ok (snd (RangeMap_StoreRangeInternal dflt m base delta sz entry))"
proof (cases "enable_shrink_down m")
  case True
  then show ?thesis
    using StoreRangeInternal_shrink [OF assms, of sz base delta entry dflt] assms
    by (auto simp: stored_shrunk_def split: if_splits)
next
  case False
  then show ?thesis
    using assms StoreRange_plain [OF assms False, of dflt base delta sz entry]
      insert_clear(1) [of "rmap m" base "base + (sz - 1)" "\<lparr>r_base = base, r_delta = delta, r_entry = entry\<rparr>"]
    by (auto simp: RangeMap_ok_def)
qed

lemma keeps_here: "y \<in> A \<Longrightarrow> \<exists>x\<in>A. keeps x y"
  using keeps_refl by blast

lemma StoreRange_entries:
  assumes "RangeMap_ok m" "y \<in> set (rmap (snd (RangeMap_StoreRange dflt m base sz entry)))"
  shows "(\<exists>x\<in>set (rmap m). keeps x y) \<or>
    (sz \<noteq> 0 \<and> base \<le> base + (sz - 1) \<and> fst y = base + (sz - 1) \<and> r_entry (snd y) = entry \<and>
     base \<le> r_base (snd y) \<and> r_base (snd y) - r_delta (snd y) = base)"
proof (cases "enable_shrink_down m")
  case False
  let ?r = "\<lparr>r_base = base, r_delta = 0, r_entry = entry\<rparr>"
  show ?thesis
  proof (cases "sz \<noteq> 0 \<and> base \<le> base + (sz - 1) \<and> (\<forall>hr\<in>set (rmap m). clear_of base (base + (sz - 1)) hr)")
    case True
    then show ?thesis
      using assms StoreRange_plain [OF assms(1) False, of dflt base 0 sz entry]
        insert_clear(2) [of "rmap m" base "base + (sz - 1)" ?r] keeps_here [of y "set (rmap m)"]
      unfolding RangeMap_StoreRange_def RangeMap_ok_def by auto
  next
    case no: False
    have "RangeMap_StoreRange dflt m base sz entry = (False, m)"
      using StoreRange_plain [OF assms(1) False, of dflt base 0 sz entry]
      unfolding RangeMap_StoreRange_def if_not_P [OF no] .
    then show ?thesis using assms(2) keeps_here [of y "set (rmap m)"] by simp
  qed
next
  case True
  let ?res = "RangeMap_StoreRange dflt m base sz entry"
  show ?thesis
  proof (cases "sz \<noteq> 0 \<and> base \<le> base + (sz - 1) \<and> base + (sz - 1) \<notin> fst ` set (rmap m)")
    case valid: True
    then have st: "stored_shrunk m base 0 (base + (sz - 1)) entry ?res"
      using StoreRangeInternal_shrink [OF assms(1) True, of sz base 0 entry dflt]
      by (simp add: RangeMap_StoreRange_def)
    then have uniq: "\<And>z. z \<in> set (rmap (snd ?res)) \<Longrightarrow> fst z = fst y \<Longrightarrow> z = y"
      using assms(2) ranges_ok_unique [of "rmap (snd ?res)" _ y "fst y"]
      by (auto simp: stored_shrunk_def RangeMap_ok_def in_range_def ranges_ok_def)
    have "fst y \<in> insert (base + (sz - 1)) (fst ` set (rmap m))"
      using st assms(2) unfolding stored_shrunk_def by blast
    then show ?thesis
    proof
      assume k: "fst y = base + (sz - 1)"
      obtain z where "z \<in> set (rmap (snd ?res))" "fst z = base + (sz - 1)" "r_entry (snd z) = entry"
        "base \<le> r_base (snd z)" "r_base (snd z) - r_delta (snd z) = base"
        using st unfolding stored_shrunk_def by auto
      then show ?thesis using uniq k valid by metis
    next
      assume "fst y \<in> fst ` set (rmap m)"
      then obtain x where x: "x \<in> set (rmap m)" "fst y = fst x" by blast
      then obtain z where "z \<in> set (rmap (snd ?res))" "keeps x z"
        using st unfolding stored_shrunk_def kept_def by blast
      then show ?thesis using uniq x by (metis keeps_def)
    qed
  next
    case False
    then show ?thesis
      using StoreRangeInternal_shrink [OF assms(1) True, of sz base 0 entry dflt] assms(2) keeps_here [of y "set (rmap m)"]
      unfolding RangeMap_StoreRange_def by auto
  qed
qed

lemma RangeMap_init_ok: "RangeMap_ok RangeMap_init"
  by (simp add: RangeMap_ok_def RangeMap_init_def ranges_ok_def)

lemma RangeMap_SetEnableShrinkDown_ok:
  "RangeMap_ok (RangeMap_SetEnableShrinkDown m b) = RangeMap_ok m"
  by (simp add: RangeMap_ok_def RangeMap_SetEnableShrinkDown_def)

lemma RangeMap_Clear_ok: "RangeMap_ok (RangeMap_Clear m)"
  by (simp add: RangeMap_ok_def RangeMap_Clear_def ranges_ok_def)

section \<open>Reachable maps\<close>

inductive RangeMap_reachable :: "('w::len word, 'e) RangeMap \<Rightarrow> bool" where
  rm_init: "RangeMap_reachable RangeMap_init"
| rm_shrink: "RangeMap_reachable m \<Longrightarrow> RangeMap_reachable (RangeMap_SetEnableShrinkDown m b)"
| rm_store: "RangeMap_reachable m \<Longrightarrow>
    RangeMap_reachable (snd (RangeMap_StoreRange dflt m base sz entry))"
| rm_clear: "RangeMap_reachable m \<Longrightarrow> RangeMap_reachable (RangeMap_Clear m)"

lemma reachable_ok: "RangeMap_reachable m \<Longrightarrow> RangeMap_ok m"
  by (induction rule: RangeMap_reachable.induct)
    (simp_all add: RangeMap_init_ok RangeMap_SetEnableShrinkDown_ok StoreRange_ok
      RangeMap_StoreRange_def RangeMap_Clear_ok)

text \<open>Two ranges, the second one shrunk: the map the witnesses below evaluate.\<close>

definition sample_map :: "(u32, nat) RangeMap" where
  "sample_map = snd (RangeMap_StoreRange 0
     (snd (RangeMap_StoreRange 0 (RangeMap_SetEnableShrinkDown RangeMap_init True) 16 16 1)) 24 16 2)"

lemma sample_map_reachable: "RangeMap_reachable sample_map"
  unfolding sample_map_def by (intro RangeMap_reachable.intros)

lemma sample_map_eval:
  "sample_map = \<lparr>enable_shrink_down = True,
     rmap = [(31, \<lparr>r_base = 16, r_delta = 0, r_entry = 1\<rparr>),
             (39, \<lparr>r_base = 32, r_delta = 8, r_entry = 2\<rparr>)]\<rparr>"
  unfolding sample_map_def by code_simp

text \<open>C27. In every map the class can build, \<open>RetrieveRange\<close> returns an entry exactly when
  some stored range contains the address; that range is unique and its base, delta
  and size are what is returned.\<close>

theorem RangeMap_RetrieveRange_correct:
  assumes "RangeMap_reachable m"
  shows "(case RangeMap_RetrieveRange m a of
      Some r \<Rightarrow> \<exists>!hr. hr \<in> set (rmap m) \<and> in_range a hr \<and> r = range_result hr
    | None \<Rightarrow> \<forall>hr\<in>set (rmap m). \<not> in_range a hr)"
proof (cases "RangeMap_RetrieveRange m a")
  case None
  then have "\<forall>hr\<in>set (rmap m). \<not> in_range a hr"
    using RetrieveRange_None [OF reachable_ok [OF assms], of a] by blast
  then show ?thesis using None by simp
next
  case (Some r)
  then obtain hr where hr: "hr \<in> set (rmap m)" "in_range a hr" "r = range_result hr"
    using RetrieveRange_Some [OF reachable_ok [OF assms]] by blast
  moreover have "y = hr" if "y \<in> set (rmap m)" "in_range a y" for y
    using ranges_ok_unique [OF reachable_ok [OF assms, unfolded RangeMap_ok_def] that(1) hr(1) that(2) hr(2)] .
  ultimately have "\<exists>!hr. hr \<in> set (rmap m) \<and> in_range a hr \<and> r = range_result hr" by blast
  then show ?thesis using Some by simp
qed

theorem RangeMap_RetrieveRange_correct_witness:
  "RangeMap_RetrieveRange sample_map 20 = Some (1, 16, 0, 16) \<and>
   (\<exists>!hr. hr \<in> set (rmap sample_map) \<and> in_range 20 hr \<and> (1, 16, 0, 16) = range_result hr)"
proof -
  have e: "RangeMap_RetrieveRange sample_map 20 = Some (1, 16, 0, 16)"
    unfolding sample_map_eval by code_simp
  show ?thesis using e RangeMap_RetrieveRange_correct [OF sample_map_reachable, of 20] by simp
qed

text \<open>With shrinking disabled, \<open>StoreRange\<close> succeeds exactly on a non-empty range that
  does not wrap around and overlaps no stored range. On success exactly that range is
  added and looking up any of its addresses finds it; on failure nothing changes.\<close>

theorem RangeMap_StoreRange_plain:
  assumes "RangeMap_reachable m" "\<not> RangeMap_IsShrinkDownEnabled m"
  shows "case RangeMap_StoreRange dflt m base sz entry of (stored, m') \<Rightarrow>
    (stored \<longleftrightarrow> sz \<noteq> 0 \<and> base \<le> (base + (sz - 1)) \<and>
       (\<forall>hr\<in>set (rmap m). fst hr < base \<or> (base + (sz - 1)) < r_base (snd hr))) \<and>
    (stored \<longrightarrow> set (rmap m') = insert ((base + (sz - 1)), \<lparr>r_base = base, r_delta = 0, r_entry = entry\<rparr>) (set (rmap m)) \<and>
       (\<forall>a. base \<le> a \<and> a \<le> (base + (sz - 1)) \<longrightarrow> RangeMap_RetrieveRange m' a = Some (entry, base, 0, sz))) \<and>
    (\<not> stored \<longrightarrow> m' = m)"
proof -
  let ?h = "base + (sz - 1)"
  let ?r = "\<lparr>r_base = base, r_delta = 0, r_entry = entry\<rparr>"
  let ?m' = "m\<lparr>rmap := map_insert (rmap m) ?h ?r\<rparr>"
  have ok: "RangeMap_ok m" using assms(1) by (rule reachable_ok)
  have ns: "\<not> enable_shrink_down m" using assms(2) by (simp add: RangeMap_IsShrinkDownEnabled_def)
  note st = StoreRange_plain [OF ok ns, of dflt base 0 sz entry, folded RangeMap_StoreRange_def]
  show ?thesis
  proof (cases "sz \<noteq> 0 \<and> base \<le> ?h \<and> (\<forall>hr\<in>set (rmap m). clear_of base ?h hr)")
    case True
    then have ins: "ranges_ok (map_insert (rmap m) ?h ?r)"
      "set (map_insert (rmap m) ?h ?r) = insert (?h, ?r) (set (rmap m))"
      using insert_clear [of "rmap m" base ?h ?r] ok by (auto simp: RangeMap_ok_def)
    then have "RangeMap_ok ?m'" by (simp add: RangeMap_ok_def)
    moreover have "range_result (?h, ?r) = (entry, base, 0, sz)" by (simp add: range_result_def)
    ultimately have "RangeMap_RetrieveRange ?m' a = Some (entry, base, 0, sz)" if "base \<le> a" "a \<le> ?h" for a
      using that ins(2) RetrieveRange_Some [of ?m' a] by (force simp: in_range_def)
    then show ?thesis using st True ins(2) by (simp add: clear_of_def)
  next
    case False
    then show ?thesis using st by (simp only: if_False prod.case) (auto simp: clear_of_def)
  qed
qed

theorem RangeMap_StoreRange_plain_witness:
  "RangeMap_StoreRange (0 :: nat) (RangeMap_init :: (u32, nat) RangeMap) 16 16 1 =
     (True, \<lparr>enable_shrink_down = False, rmap = [(31, \<lparr>r_base = 16, r_delta = 0, r_entry = 1\<rparr>)]\<rparr>) \<and>
   RangeMap_RetrieveRange \<lparr>enable_shrink_down = False,
     rmap = [(31 :: u32, \<lparr>r_base = 16, r_delta = 0, r_entry = (1 :: nat)\<rparr>)]\<rparr> 20 = Some (1, 16, 0, 16)"
proof -
  have e: "RangeMap_StoreRange (0 :: nat) (RangeMap_init :: (u32, nat) RangeMap) 16 16 1 =
     (True, \<lparr>enable_shrink_down = False, rmap = [(31, \<lparr>r_base = 16, r_delta = 0, r_entry = 1\<rparr>)]\<rparr>)"
    by code_simp
  have "\<not> RangeMap_IsShrinkDownEnabled (RangeMap_init :: (u32, nat) RangeMap)" by code_simp
  from RangeMap_StoreRange_plain [OF rm_init this, where dflt = 0 and base = 16 and sz = 16 and entry = 1]
  show ?thesis unfolding e by simp
qed

text \<open>C3. With shrinking enabled, \<open>StoreRange\<close> fails, changing nothing, only on an empty or
  wrapping range or when a stored range already ends at the same address. Otherwise
  afterwards the ranges still never overlap, every range keeps its end and its entry,
  only the low end of a range moves up, and \<open>base - delta\<close> still names the base it was
  stored with.\<close>

theorem RangeMap_StoreRange_shrink:
  assumes "RangeMap_reachable m" "RangeMap_IsShrinkDownEnabled m"
  shows "case RangeMap_StoreRange dflt m base sz entry of (stored, m') \<Rightarrow>
    (stored \<longleftrightarrow> sz \<noteq> 0 \<and> base \<le> base + (sz - 1) \<and> base + (sz - 1) \<notin> fst ` set (rmap m)) \<and>
    (stored \<longrightarrow> RangeMap_ok m' \<and> fst ` set (rmap m') = insert (base + (sz - 1)) (fst ` set (rmap m)) \<and>
       (\<exists>y\<in>set (rmap m'). fst y = base + (sz - 1) \<and> r_entry (snd y) = entry \<and> base \<le> r_base (snd y) \<and>
          r_base (snd y) - r_delta (snd y) = base) \<and>
       (\<forall>x\<in>set (rmap m). \<exists>y\<in>set (rmap m'). fst y = fst x \<and> r_entry (snd y) = r_entry (snd x) \<and>
          r_base (snd x) \<le> r_base (snd y) \<and> r_base (snd y) - r_delta (snd y) = r_base (snd x) - r_delta (snd x))) \<and>
    (\<not> stored \<longrightarrow> m' = m)"
proof -
  have ok: "RangeMap_ok m" using assms(1) by (rule reachable_ok)
  have sh: "enable_shrink_down m" using assms(2) by (simp add: RangeMap_IsShrinkDownEnabled_def)
  obtain stored m' where r: "RangeMap_StoreRange dflt m base sz entry = (stored, m')" by fastforce
  show ?thesis
    using StoreRangeInternal_shrink [OF ok sh, of sz base 0 entry dflt]
    unfolding RangeMap_StoreRange_def [symmetric] r stored_shrunk_def kept_def keeps_def
    by (auto split: if_splits)
qed

theorem RangeMap_StoreRange_shrink_witness:
  "fst (RangeMap_StoreRange 0 sample_map 8 16 3) \<and>
   RangeMap_ok (snd (RangeMap_StoreRange 0 sample_map 8 16 3)) \<and>
   RangeMap_RetrieveRange (snd (RangeMap_StoreRange 0 sample_map 8 16 3)) 24 = Some (1, 24, 8, 8)"
proof -
  have sh: "RangeMap_IsShrinkDownEnabled sample_map" unfolding sample_map_eval by code_simp
  have e: "RangeMap_StoreRange 0 sample_map 8 16 3 = (True, \<lparr>enable_shrink_down = True,
     rmap = [(23, \<lparr>r_base = 8, r_delta = 0, r_entry = 3\<rparr>),
             (31, \<lparr>r_base = 24, r_delta = 8, r_entry = 1\<rparr>),
             (39, \<lparr>r_base = 32, r_delta = 8, r_entry = 2\<rparr>)]\<rparr>)"
    unfolding sample_map_eval by code_simp
  have l: "RangeMap_RetrieveRange (snd (RangeMap_StoreRange 0 sample_map 8 16 3)) 24 = Some (1, 24, 8, 8)"
    unfolding e snd_conv by code_simp
  show ?thesis
    using l RangeMap_StoreRange_shrink [OF sample_map_reachable sh, where dflt = 0 and base = 8 and sz = 16 and entry = 3]
    unfolding e by simp
qed

section \<open>Clients that do not shrink\<close>

text \<open>What such a client may know of every stored range: \<open>P entry base size\<close>.\<close>

definition ranges_hold :: "('e \<Rightarrow> 'w word \<Rightarrow> 'w word \<Rightarrow> bool) \<Rightarrow> ('w::len word, 'e) RangeMap \<Rightarrow> bool" where
  "ranges_hold P m \<longleftrightarrow> RangeMap_ok m \<and> \<not> enable_shrink_down m \<and>
     (\<forall>hr\<in>set (rmap m). fst hr - r_base (snd hr) + 1 \<noteq> 0 \<and>
        P (r_entry (snd hr)) (r_base (snd hr)) (fst hr - r_base (snd hr) + 1))"

lemma ranges_hold_init: "ranges_hold P RangeMap_init"
  by (simp add: ranges_hold_def RangeMap_init_def RangeMap_ok_def ranges_ok_def)

lemma ranges_hold_mono: "ranges_hold P m \<Longrightarrow> (\<And>e b s. P e b s \<Longrightarrow> Q e b s) \<Longrightarrow> ranges_hold Q m"
  by (auto simp: ranges_hold_def)

lemma ranges_hold_store:
  assumes "ranges_hold P m" "P entry base sz"
  shows "ranges_hold P (snd (RangeMap_StoreRange dflt m base sz entry))"
proof -
  let ?h = "base + (sz - 1)"
  let ?r = "\<lparr>r_base = base, r_delta = 0, r_entry = entry\<rparr>"
  have ok: "RangeMap_ok m" and ns: "\<not> enable_shrink_down m" using assms(1) by (simp_all add: ranges_hold_def)
  note st = StoreRange_plain [OF ok ns, of dflt base 0 sz entry, folded RangeMap_StoreRange_def]
  show ?thesis
  proof (cases "sz \<noteq> 0 \<and> base \<le> ?h \<and> (\<forall>hr\<in>set (rmap m). clear_of base ?h hr)")
    case True
    then have ins: "ranges_ok (map_insert (rmap m) ?h ?r)"
      "set (map_insert (rmap m) ?h ?r) = insert (?h, ?r) (set (rmap m))"
      using insert_clear [of "rmap m" base ?h ?r] ok by (auto simp: RangeMap_ok_def)
    have "RangeMap_StoreRange dflt m base sz entry = (True, m\<lparr>rmap := map_insert (rmap m) ?h ?r\<rparr>)"
      using st True by simp
    then show ?thesis using ins assms True by (simp add: ranges_hold_def RangeMap_ok_def)
  next
    case False
    then have "RangeMap_StoreRange dflt m base sz entry = (False, m)" using st by (simp only: if_False)
    then show ?thesis using assms(1) by simp
  qed
qed

lemma ranges_hold_retrieve:
  assumes "ranges_hold P m" "RangeMap_RetrieveRange m a = Some (e, b, d, s)"
  shows "P e b s \<and> b \<le> a \<and> a - b < s"
proof -
  obtain hr where hr: "hr \<in> set (rmap m)" "in_range a hr" "(e, b, d, s) = range_result hr"
    using assms RetrieveRange_Some [of m a] by (auto simp: ranges_hold_def)
  then have "fst hr - r_base (snd hr) + 1 \<noteq> 0" "P e b s"
    using assms(1) by (auto simp: ranges_hold_def range_result_def)
  moreover have "a - r_base (snd hr) \<le> fst hr - r_base (snd hr)"
    using hr(2) by (auto simp: in_range_def word_le_nat_alt unat_sub_le)
  ultimately show ?thesis
    using hr(2,3) word_le_less_1 [of "a - r_base (snd hr)" "fst hr - r_base (snd hr)"]
    by (auto simp: range_result_def in_range_def)
qed

section \<open>The nearest range\<close>

lemma RetrieveNearest_spec:
  assumes "RangeMap_ok m"
  shows "case RangeMap_RetrieveNearestRange m a of
      None \<Rightarrow> \<forall>hr\<in>set (rmap m). a < r_base (snd hr)
    | Some r \<Rightarrow> \<exists>hr\<in>set (rmap m). r = range_result hr \<and> r_base (snd hr) \<le> a \<and>
        (\<forall>y\<in>set (rmap m). r_base (snd y) \<le> a \<longrightarrow> fst y \<le> fst hr)"
proof -
  have ok: "ranges_ok (rmap m)" using assms by (simp add: RangeMap_ok_def)
  show ?thesis
  proof (cases "RangeMap_RetrieveRange m a")
    case (Some r)
    then obtain hr where hr: "hr \<in> set (rmap m)" "in_range a hr" "r = range_result hr"
      using RetrieveRange_Some [OF assms] by blast
    have "fst y \<le> fst hr" if y: "y \<in> set (rmap m)" "r_base (snd y) \<le> a" for y
    proof (cases "a \<le> fst y")
      case True
      with y have "in_range a y" by (simp add: in_range_def)
      then show ?thesis using ranges_ok_unique [OF ok y(1) hr(1) _ hr(2)] by simp
    next
      case False
      then show ?thesis using hr(2) unfolding in_range_def by (meson le_cases order.trans)
    qed
    then show ?thesis using Some hr by (auto simp: RangeMap_RetrieveNearestRange_def in_range_def)
  next
    case None
    let ?i = "upper_bound (rmap m) a"
    have out: "\<not> in_range a hr" if "hr \<in> set (rmap m)" for hr
      using None that RetrieveRange_None [OF assms, of a] by blast
    have above: "a < r_base (snd (rmap m ! j))" if "?i \<le> j" "j < length (rmap m)" for j
      using upper_bound_above [OF ranges_ok_map_ok [OF ok] that] out [of "rmap m ! j"] that(2)
      by (auto simp: in_range_def)
    have below: "r_base (snd y) \<le> a \<Longrightarrow> \<exists>j. y = rmap m ! j \<and> j < ?i" if "y \<in> set (rmap m)" for y
      using that above by (metis in_set_conv_nth not_less)
    show ?thesis
    proof (cases ?i)
      case 0
      then have "a < r_base (snd hr)" if "hr \<in> set (rmap m)" for hr
        using above that by (metis in_set_conv_nth le0)
      then show ?thesis using None 0 by (simp add: RangeMap_RetrieveNearestRange_def)
    next
      case (Suc k)
      then have k: "k < length (rmap m)" by (metis lessI upper_bound_less_length)
      have le: "fst (rmap m ! k) \<le> a" using upper_bound_below [of k "rmap m" a] Suc by simp
      have "r_base (snd (rmap m ! k)) \<le> a" using ranges_ok_base [OF ok k] le by simp
      moreover have "fst y \<le> fst (rmap m ! k)" if y: "y \<in> set (rmap m)" "r_base (snd y) \<le> a" for y
      proof -
        obtain j where j: "y = rmap m ! j" "j < ?i" using below [OF y] by blast
        show ?thesis
        proof (cases "j = k")
          case False
          then have "j < k" using j(2) Suc by simp
          then show ?thesis using map_ok_nth [OF ranges_ok_map_ok [OF ok] _ k] j(1) by (simp add: less_imp_le)
        qed (simp add: j(1))
      qed
      ultimately show ?thesis using None Suc k
        by (auto simp: RangeMap_RetrieveNearestRange_def intro!: bexI [of _ "rmap m ! k"])
    qed
  qed
qed

text \<open>\<open>RetrieveNearestRange\<close> returns a range that contains the address if there is one,
  else the range with the greatest end below the address, and fails only when every
  range lies above the address.\<close>

theorem RangeMap_RetrieveNearestRange_correct:
  assumes "RangeMap_reachable m"
  shows "case RangeMap_RetrieveNearestRange m a of
      None \<Rightarrow> \<forall>hr\<in>set (rmap m). a < r_base (snd hr)
    | Some r \<Rightarrow> \<exists>hr\<in>set (rmap m). r = range_result hr \<and> r_base (snd hr) \<le> a \<and>
        (\<forall>y\<in>set (rmap m). r_base (snd y) \<le> a \<longrightarrow> fst y \<le> fst hr)"
  by (rule RetrieveNearest_spec [OF reachable_ok [OF assms]])

theorem RangeMap_RetrieveNearestRange_correct_witness:
  "RangeMap_RetrieveNearestRange sample_map 100 = Some (2, 32, 8, 8) \<and>
   (\<exists>hr\<in>set (rmap sample_map). (2, 32, 8, 8) = range_result hr \<and> r_base (snd hr) \<le> 100)"
proof -
  have e: "RangeMap_RetrieveNearestRange sample_map 100 = Some (2, 32, 8, 8)"
    unfolding sample_map_eval by code_simp
  show ?thesis using e RangeMap_RetrieveNearestRange_correct [OF sample_map_reachable, of 100] by auto
qed

end
