(* ===== verification/Contained_Range_Map.thy ===== *)
theory Contained_Range_Map
  imports Std_Map
begin

text \<open>
  \<open>ContainedRangeMap\<close> (\<open>processor/contained_range_map.h\<close> and \<open>-inl.h\<close>): a tree of
  nested address ranges, used for the Windows stack-frame records. A node holds
  its base, its entry and an optional map from high addresses to children; the
  high address of a node is its key in the parent's map.
\<close>

section \<open>Data and operations\<close>

datatype ('a, 'e) ContainedRangeMap =
  CRM (crm_base: 'a) (crm_entry: 'e) (crm_map: "('a \<times> ('a, 'e) ContainedRangeMap) list option")

definition ContainedRangeMap_init :: "'e \<Rightarrow> ('w::len word, 'e) ContainedRangeMap" where
  "ContainedRangeMap_init dflt = CRM 0 dflt None"

fun crm_kids :: "('a, 'e) ContainedRangeMap \<Rightarrow> ('a, ('a, 'e) ContainedRangeMap) std_map" where
  "crm_kids (CRM b e None) = []"
| "crm_kids (CRM b e (Some xs)) = xs"

lemma size_kid: "i < length (crm_kids m) \<Longrightarrow> size (snd (crm_kids m ! i)) < size m"
proof (cases m rule: crm_kids.cases)
  case (2 b e xs)
  assume "i < length (crm_kids m)"
  then have i: "i < length xs" using 2 by simp
  have "size (snd (xs ! i)) < Suc (size_list (size_prod (\<lambda>_. 0) size) xs)"
    using i size_list_estimation' [OF nth_mem [OF i], of "size (snd (xs ! i))" "size_prod (\<lambda>_. 0) size"]
    by (cases "xs ! i") simp
  with 2 show ?thesis by simp
qed simp

function ContainedRangeMap_StoreRange ::
  "('w::len word, 'e) ContainedRangeMap \<Rightarrow> 'w word \<Rightarrow> 'w word \<Rightarrow> 'e
     \<Rightarrow> bool \<times> ('w word, 'e) ContainedRangeMap" where
  "ContainedRangeMap_StoreRange m base sz entry =
     (let high = base + sz - 1 in
      if sz = 0 \<or> high < base then (False, m)
      else
        let xs = crm_kids m;
            m1 = CRM (crm_base m) (crm_entry m) (Some xs);
            iterator_base = lower_bound xs base;
            iterator_high = lower_bound xs high;
            iterator_end = length xs
        in
        if iterator_base = iterator_high \<and> iterator_base \<noteq> iterator_end \<and>
           crm_base (snd (xs ! iterator_base)) \<le> base then
          (if crm_base (snd (xs ! iterator_base)) = base \<and> fst (xs ! iterator_base) = high
           then (False, m1)
           else
             (case ContainedRangeMap_StoreRange (snd (xs ! iterator_base)) base sz entry of
                (r, child) \<Rightarrow>
                  (r, CRM (crm_base m) (crm_entry m)
                        (Some (xs[iterator_base := (fst (xs ! iterator_base), child)])))))
        else
          let contains_high =
                (iterator_high \<noteq> iterator_end \<and> crm_base (snd (xs ! iterator_high)) \<le> high)
          in
          if (iterator_base \<noteq> iterator_end \<and> crm_base (snd (xs ! iterator_base)) < base) \<or>
             (contains_high \<and> high < fst (xs ! iterator_high))
          then (False, m1)
          else
            let iterator_high' = (if contains_high then Suc iterator_high else iterator_high);
                child_map = (if iterator_base \<noteq> iterator_high'
                  then Some (take (iterator_high' - iterator_base) (drop iterator_base xs)) else None);
                xs' = (if iterator_base \<noteq> iterator_high'
                  then map_erase_range xs iterator_base iterator_high' else xs)
            in (True, CRM (crm_base m) (crm_entry m)
                  (Some (map_insert xs' high (CRM base entry child_map)))))"
  by pat_completeness auto
termination
  by (relation "measure (\<lambda>(m, b, s, e). size m)") (auto intro!: size_kid le_neq_implies_less)

declare ContainedRangeMap_StoreRange.simps [simp del]

function ContainedRangeMap_RetrieveRange ::
  "('w::len word, 'e) ContainedRangeMap \<Rightarrow> 'w word \<Rightarrow> 'e option" where
  "ContainedRangeMap_RetrieveRange m address =
     (let xs = crm_kids m; iterator = lower_bound xs address in
      if crm_map m = None then None
      else if iterator = length xs \<or> address < crm_base (snd (xs ! iterator)) then None
      else (case ContainedRangeMap_RetrieveRange (snd (xs ! iterator)) address of
              Some e \<Rightarrow> Some e
            | None \<Rightarrow> Some (crm_entry (snd (xs ! iterator)))))"
  by pat_completeness auto
termination
  by (relation "measure (\<lambda>(m, a). size m)") (auto intro!: size_kid le_neq_implies_less)

declare ContainedRangeMap_RetrieveRange.simps [simp del]

definition ContainedRangeMap_Clear ::
  "('a, 'e) ContainedRangeMap \<Rightarrow> ('a, 'e) ContainedRangeMap" where
  "ContainedRangeMap_Clear m = CRM (crm_base m) (crm_entry m) None"

section \<open>Invariant and contents\<close>

definition kids_ok :: "'w::len word \<Rightarrow> 'w word \<Rightarrow>
    ('w word, ('w word, 'e) ContainedRangeMap) std_map \<Rightarrow> bool" where
  "kids_ok lo hi xs \<longleftrightarrow>
     sorted_wrt (\<lambda>x y. fst x < crm_base (snd y)) xs \<and>
     (\<forall>x\<in>set xs. lo \<le> crm_base (snd x) \<and> crm_base (snd x) \<le> fst x \<and> fst x \<le> hi)"

text \<open>Every node's children are disjoint, in order and inside the node.\<close>

inductive crm_ok :: "'w::len word \<Rightarrow> 'w word \<Rightarrow> ('w word, 'e) ContainedRangeMap \<Rightarrow> bool" where
  crm_okI: "kids_ok lo hi (crm_kids m) \<Longrightarrow>
    (\<And>x. x \<in> set (crm_kids m) \<Longrightarrow> crm_ok (crm_base (snd x)) (fst x) (snd x)) \<Longrightarrow> crm_ok lo hi m"

inductive_cases crm_okE: "crm_ok lo hi m"

text \<open>The ranges stored below a node: low, high, entry.\<close>

inductive crm_seg :: "('w::len word, 'e) ContainedRangeMap \<Rightarrow> 'w word \<Rightarrow> 'w word \<Rightarrow> 'e \<Rightarrow> bool" where
  here: "x \<in> set (crm_kids m) \<Longrightarrow> crm_seg m (crm_base (snd x)) (fst x) (crm_entry (snd x))"
| below: "x \<in> set (crm_kids m) \<Longrightarrow> crm_seg (snd x) lo hi e \<Longrightarrow> crm_seg m lo hi e"

lemma crm_seg_iff:
  "crm_seg m lo hi e \<longleftrightarrow> (\<exists>x\<in>set (crm_kids m).
     (lo = crm_base (snd x) \<and> hi = fst x \<and> e = crm_entry (snd x)) \<or> crm_seg (snd x) lo hi e)"
  by (subst crm_seg.simps) blast

definition seg_of :: "'w::len word \<times> ('w word, 'e) ContainedRangeMap \<Rightarrow> 'w word \<Rightarrow> 'w word \<Rightarrow> 'e \<Rightarrow> bool" where
  "seg_of x l h e \<longleftrightarrow>
     (l = crm_base (snd x) \<and> h = fst x \<and> e = crm_entry (snd x)) \<or> crm_seg (snd x) l h e"

lemma crm_seg_of: "crm_seg m l h e \<longleftrightarrow> (\<exists>x\<in>set (crm_kids m). seg_of x l h e)"
  by (subst crm_seg_iff) (simp add: seg_of_def)

lemma kids_ok_append:
  "kids_ok lo hi (xs @ ys) \<longleftrightarrow> kids_ok lo hi xs \<and> kids_ok lo hi ys \<and>
     (\<forall>x\<in>set xs. \<forall>y\<in>set ys. fst x < crm_base (snd y))"
  by (auto simp: kids_ok_def sorted_wrt_append)

lemma kids_ok_Cons:
  "kids_ok lo hi (x # xs) \<longleftrightarrow> kids_ok lo hi xs \<and> lo \<le> crm_base (snd x) \<and>
     crm_base (snd x) \<le> fst x \<and> fst x \<le> hi \<and> (\<forall>y\<in>set xs. fst x < crm_base (snd y))"
  by (auto simp: kids_ok_def)

lemma kids_ok_nth:
  "kids_ok lo hi xs \<Longrightarrow> i < j \<Longrightarrow> j < length xs \<Longrightarrow> fst (xs ! i) < crm_base (snd (xs ! j))"
  by (simp add: kids_ok_def sorted_wrt_iff_nth_less)

lemma kids_ok_mem:
  "kids_ok lo hi xs \<Longrightarrow> x \<in> set xs \<Longrightarrow>
     lo \<le> crm_base (snd x) \<and> crm_base (snd x) \<le> fst x \<and> fst x \<le> hi"
  by (simp add: kids_ok_def)

lemma kids_ok_map_ok: "kids_ok lo hi xs \<Longrightarrow> map_ok xs"
proof (induction xs)
  case (Cons x xs)
  then have "\<forall>y\<in>set xs. fst x < crm_base (snd y) \<and> crm_base (snd y) \<le> fst y"
    by (auto simp: kids_ok_def)
  then have "\<forall>y\<in>set xs. fst x < fst y" by (blast intro: less_le_trans)
  with Cons show ?case by (simp add: kids_ok_Cons map_ok_Cons)
qed simp

lemma crm_seg_within:
  assumes "crm_ok lo hi m" "crm_seg m l h e"
  shows "lo \<le> l \<and> l \<le> h \<and> h \<le> hi"
  using assms(2,1)
proof (induction arbitrary: lo hi rule: crm_seg.induct)
  case (here x m)
  then show ?case by (auto elim!: crm_okE dest: kids_ok_mem)
next
  case (below x m l h e)
  then have "crm_base (snd x) \<le> l \<and> l \<le> h \<and> h \<le> fst x"
    by (auto elim!: crm_okE)
  moreover have "lo \<le> crm_base (snd x) \<and> fst x \<le> hi"
    using below.prems below.hyps(1) by (auto elim!: crm_okE dest: kids_ok_mem)
  ultimately show ?case by auto
qed

section \<open>Retrieval finds the most specific range\<close>

lemma kid_lower_bound:
  assumes "kids_ok lo hi xs" "i < length xs" "crm_base (snd (xs ! i)) \<le> a" "a \<le> fst (xs ! i)"
  shows "lower_bound xs a = i"
proof -
  have "lower_bound xs a \<le> i"
    using assms lower_bound_below [of i xs a] by (force simp: not_less [symmetric])
  moreover have "\<not> lower_bound xs a < i"
    using assms kids_ok_nth [OF assms(1), of "lower_bound xs a" i] lower_bound_at [of xs a]
    by auto
  ultimately show ?thesis by simp
qed

lemma RetrieveRange_unfold:
  assumes "kids_ok lo hi (crm_kids m)"
  shows "ContainedRangeMap_RetrieveRange m a = Some e \<longleftrightarrow>
    (\<exists>x\<in>set (crm_kids m). crm_base (snd x) \<le> a \<and> a \<le> fst x \<and>
       (ContainedRangeMap_RetrieveRange (snd x) a = Some e \<or>
        ContainedRangeMap_RetrieveRange (snd x) a = None \<and> e = crm_entry (snd x)))"
    (is "?L \<longleftrightarrow> ?R")
proof
  let ?i = "lower_bound (crm_kids m) a"
  assume ?L
  then have "?i < length (crm_kids m)" "crm_base (snd (crm_kids m ! ?i)) \<le> a"
    "ContainedRangeMap_RetrieveRange (snd (crm_kids m ! ?i)) a = Some e \<or>
     ContainedRangeMap_RetrieveRange (snd (crm_kids m ! ?i)) a = None \<and>
     e = crm_entry (snd (crm_kids m ! ?i))"
    using lower_bound_le [of "crm_kids m" a]
    by (auto simp: ContainedRangeMap_RetrieveRange.simps [of m a] Let_def not_less
        split: if_splits option.splits intro: le_neq_implies_less)
  then show ?R
    by (intro bexI [of _ "crm_kids m ! ?i"]) (auto intro: lower_bound_at)
next
  assume ?R
  then obtain x where x: "x \<in> set (crm_kids m)" "crm_base (snd x) \<le> a" "a \<le> fst x"
    "ContainedRangeMap_RetrieveRange (snd x) a = Some e \<or>
     ContainedRangeMap_RetrieveRange (snd x) a = None \<and> e = crm_entry (snd x)" by blast
  obtain i where i: "i < length (crm_kids m)" "x = crm_kids m ! i"
    using x(1) unfolding in_set_conv_nth by blast
  then have lb: "lower_bound (crm_kids m) a = i"
    using x by (intro kid_lower_bound [OF assms]) auto
  have "crm_map m \<noteq> None" using i(1) by (cases m rule: crm_kids.cases) auto
  then show ?L
    using i x lb by (subst ContainedRangeMap_RetrieveRange.simps)
      (auto simp: Let_def not_less [symmetric] split: option.splits)
qed

lemma RetrieveRange_complete:
  assumes "crm_seg m l h e" "crm_ok lo hi m" "l \<le> a" "a \<le> h"
  shows "ContainedRangeMap_RetrieveRange m a \<noteq> None"
  using assms
proof (induction arbitrary: lo hi rule: crm_seg.induct)
  case (here x m)
  then have "kids_ok lo hi (crm_kids m)" by (auto elim: crm_okE)
  then show ?case
    using here RetrieveRange_unfold [of lo hi m a] by (metis not_None_eq)
next
  case (below x m l h e)
  then have ok: "kids_ok lo hi (crm_kids m)" "crm_ok (crm_base (snd x)) (fst x) (snd x)"
    by (auto elim: crm_okE)
  then have "crm_base (snd x) \<le> a \<and> a \<le> fst x"
    using crm_seg_within [OF ok(2) below.hyps(2)] below.prems by auto
  moreover have "ContainedRangeMap_RetrieveRange (snd x) a \<noteq> None"
    using below.IH [OF ok(2)] below.prems by simp
  ultimately show ?case
    using below.hyps(1) RetrieveRange_unfold [OF ok(1), of a] by (metis not_None_eq)
qed

lemma RetrieveRange_sound:
  assumes "crm_ok lo hi m" "ContainedRangeMap_RetrieveRange m a = Some e"
  shows "\<exists>l h. crm_seg m l h e \<and> l \<le> a \<and> a \<le> h \<and>
    (\<forall>l' h' e'. crm_seg m l' h' e' \<longrightarrow> l' \<le> a \<longrightarrow> a \<le> h' \<longrightarrow> l' \<le> l \<and> h \<le> h')"
  using assms
proof (induction m arbitrary: lo hi rule: measure_induct_rule [of size])
  case (less m)
  have ok: "kids_ok lo hi (crm_kids m)"
    and kid: "\<And>x. x \<in> set (crm_kids m) \<Longrightarrow> crm_ok (crm_base (snd x)) (fst x) (snd x)"
    using less.prems(1) by (auto elim: crm_okE)
  obtain x where x: "x \<in> set (crm_kids m)" "crm_base (snd x) \<le> a" "a \<le> fst x"
    and r: "ContainedRangeMap_RetrieveRange (snd x) a = Some e \<or>
      ContainedRangeMap_RetrieveRange (snd x) a = None \<and> e = crm_entry (snd x)"
    using less.prems(2) unfolding RetrieveRange_unfold [OF ok] by blast
  have sz: "size (snd x) < size m" using x(1) size_kid by (auto simp: in_set_conv_nth)
  have same: "y = x" if y: "y \<in> set (crm_kids m)" "crm_base (snd y) \<le> a" "a \<le> fst y" for y
  proof -
    obtain i j where ij: "i < length (crm_kids m)" "x = crm_kids m ! i"
      "j < length (crm_kids m)" "y = crm_kids m ! j"
      using x(1) y(1) unfolding in_set_conv_nth by blast
    then show ?thesis using kid_lower_bound [OF ok] x y by metis
  qed
  have into: "l' = crm_base (snd x) \<and> h' = fst x \<or> crm_seg (snd x) l' h' e'"
    if s: "crm_seg m l' h' e'" and a: "l' \<le> a" "a \<le> h'" for l' h' e'
  proof -
    obtain y where y: "y \<in> set (crm_kids m)"
      and c: "l' = crm_base (snd y) \<and> h' = fst y \<or> crm_seg (snd y) l' h' e'"
      using s by (subst (asm) crm_seg_iff) blast
    then have "crm_base (snd y) \<le> l' \<and> h' \<le> fst y" using crm_seg_within [OF kid [OF y]] by auto
    then have "y = x" using same [OF y] a by auto
    with c show ?thesis by simp
  qed
  show ?case
  proof (cases "ContainedRangeMap_RetrieveRange (snd x) a")
    case None
    have none: "\<not> (l' \<le> a \<and> a \<le> h')" if "crm_seg (snd x) l' h' e'" for l' h' e'
      using that kid [OF x(1)] None by (auto dest: RetrieveRange_complete)
    then have "e = crm_entry (snd x)" using r None by simp
    moreover have "l' \<le> crm_base (snd x) \<and> fst x \<le> h'"
      if "crm_seg m l' h' e'" "l' \<le> a" "a \<le> h'" for l' h' e'
      using into [OF that] none that by auto
    ultimately show ?thesis using crm_seg.here [OF x(1)] x by blast
  next
    case (Some e')
    then obtain l h where lh: "crm_seg (snd x) l h e" "l \<le> a" "a \<le> h"
      and m: "\<forall>l' h' e'. crm_seg (snd x) l' h' e' \<longrightarrow> l' \<le> a \<longrightarrow> a \<le> h' \<longrightarrow> l' \<le> l \<and> h \<le> h'"
      using less.IH [OF sz kid [OF x(1)]] r by auto
    then show ?thesis
      using crm_seg_within [OF kid [OF x(1)] lh(1)] into crm_seg.below [OF x(1) lh(1)] by blast
  qed
qed

section \<open>Storing keeps the tree well formed\<close>

text \<open>Two ranges may coexist in the tree when they are disjoint or one properly contains
  the other.\<close>

definition compatible :: "'w::len word \<Rightarrow> 'w word \<Rightarrow> 'w word \<Rightarrow> 'w word \<Rightarrow> bool" where
  "compatible base high l h \<longleftrightarrow> h < base \<or> high < l \<or>
     ((l, h) \<noteq> (base, high) \<and> (l \<le> base \<and> high \<le> h \<or> base \<le> l \<and> h \<le> high))"

lemma compatible_inside:
  assumes "compatible base high l h" "l \<le> l'" "l' \<le> h'" "h' \<le> h" "\<not> (l \<le> base \<and> high \<le> h)"
  shows "compatible base high l' h'"
  using assms unfolding compatible_def by auto

text \<open>What one node's \<open>StoreRange\<close> does with a new range that no child contains: the
  children split into those below it, those it covers and those above it, or the
  range is refused because it cuts through a child.\<close>

lemma lower_bound_middle:
  assumes "map_ok (as @ cs)" "\<forall>x\<in>set as. fst x < k" "\<forall>x\<in>set cs. k \<le> fst x"
  shows "lower_bound (as @ cs) k = length as"
proof (rule std.lb_unique [OF assms(1)], goal_cases)
  case 1 then show ?case by simp
next
  case (2 i)
  then show ?case using assms(2) by (simp add: nth_append)
next
  case (3 i)
  then have "cs ! (i - length as) \<in> set cs" by simp
  then show ?case using 3 assms(3) by (simp add: nth_append)
qed

lemma map_insert_middle:
  assumes "map_ok (as @ cs)" "\<forall>x\<in>set as. fst x < k" "\<forall>x\<in>set cs. k < fst x"
  shows "map_insert (as @ cs) k v = as @ (k, v) # cs"
proof -
  have lb: "lower_bound (as @ cs) k = length as"
    using lower_bound_middle [OF assms(1,2)] assms(3) by (auto simp: less_imp_le)
  have "\<not> (length as < length (as @ cs) \<and> fst ((as @ cs) ! length as) = k)"
    using assms(3) by (cases cs) auto
  then show ?thesis by (simp only: map_insert_def lb Let_def if_False) simp
qed

lemma crm_children_split:
  fixes xs :: "('w::len word, ('w word, 'e) ContainedRangeMap) std_map"
  assumes ok: "kids_ok lo hi xs" and bh: "base \<le> high"
  defines "ib \<equiv> lower_bound xs base" and "ih \<equiv> lower_bound xs high"
  assumes notin: "\<not> (ib = ih \<and> ib \<noteq> length xs \<and> crm_base (snd (xs ! ib)) \<le> base)"
  defines "ch \<equiv> ih \<noteq> length xs \<and> crm_base (snd (xs ! ih)) \<le> high"
  defines "cutp \<equiv> (ib \<noteq> length xs \<and> crm_base (snd (xs ! ib)) < base) \<or> (ch \<and> high < fst (xs ! ih))"
  defines "ih' \<equiv> (if ch then Suc ih else ih)"
  shows cutp_incompatible: "cutp \<Longrightarrow> \<exists>x\<in>set xs. \<not> compatible base high (crm_base (snd x)) (fst x)"
    and split_le: "\<not> cutp \<Longrightarrow> ib \<le> ih' \<and> ih' \<le> length xs"
    and split_lo: "x \<in> set (take ib xs) \<Longrightarrow> fst x < base"
    and split_mid: "\<not> cutp \<Longrightarrow> x \<in> set (take (ih' - ib) (drop ib xs)) \<Longrightarrow> base \<le> crm_base (snd x) \<and> fst x \<le> high"
    and split_hi: "x \<in> set (drop ih' xs) \<Longrightarrow> high < crm_base (snd x)"
proof -
  have mo: "map_ok xs" using ok by (rule kids_ok_map_ok)
  have le: "ib \<le> ih" unfolding ib_def ih_def using bh by (rule lower_bound_mono)
  have kb: "crm_base (snd (xs ! i)) \<le> fst (xs ! i)" if "i < length xs" for i
    using kids_ok_mem [OF ok nth_mem [OF that]] by simp
  have ihl: "ih \<le> length xs" and ibl: "ib \<le> length xs" by (simp_all add: ih_def ib_def)
  have ihk: "high \<le> fst (xs ! ih)" if "ih < length xs" using that unfolding ih_def by (rule lower_bound_at)
  have ibk: "base \<le> fst (xs ! ib)" if "ib < length xs" using that unfolding ib_def by (rule lower_bound_at)
  have below: "fst (xs ! i) < high" if "i < ih" for i using that unfolding ih_def by (rule lower_bound_below)
  show "fst x < base" if "x \<in> set (take ib xs)"
    using that unfolding ib_def by (rule set_take_lower_bound)
  show hi: "high < crm_base (snd x)" if x: "x \<in> set (drop ih' xs)"
  proof -
    obtain i where i: "ih' \<le> i" "i < length xs" "x = xs ! i" using set_drop_nth [OF x] by auto
    show ?thesis
    proof (cases "i = ih")
      case True
      with i show ?thesis by (auto simp: ih'_def ch_def split: if_splits)
    next
      case False
      then have "ih < i" using i by (auto simp: ih'_def split: if_splits)
      then have "fst (xs ! ih) < crm_base (snd (xs ! i))" using kids_ok_nth [OF ok] i by blast
      then show ?thesis using ihk \<open>ih < i\<close> i by (auto intro: le_less_trans)
    qed
  qed
  show "ib \<le> ih' \<and> ih' \<le> length xs"
    using le ihl by (auto simp: ih'_def ch_def)
  show "base \<le> crm_base (snd x) \<and> fst x \<le> high"
    if nc: "\<not> cutp" and x: "x \<in> set (take (ih' - ib) (drop ib xs))"
  proof -
    obtain j where j: "j < ih' - ib" "j < length xs - ib" "x = xs ! (ib + j)"
      using set_take_nth [OF x] by auto
    then have i: "ib + j < ih'" "ib + j < length xs" "ib < length xs" by auto
    have "crm_base (snd (xs ! ib)) \<le> crm_base (snd (xs ! (ib + j)))"
      using kids_ok_nth [OF ok, of ib "ib + j"] i kb [of ib] by (cases "j = 0") auto
    moreover have "base \<le> crm_base (snd (xs ! ib))" using nc i by (auto simp: cutp_def not_less)
    moreover have "fst (xs ! (ib + j)) \<le> high"
    proof (cases "ib + j < ih")
      case True
      then show ?thesis by (simp add: below less_imp_le)
    next
      case False
      then have "ib + j = ih" "ch" using i by (auto simp: ih'_def split: if_splits)
      then show ?thesis using nc by (auto simp: cutp_def not_less)
    qed
    ultimately show ?thesis using j by auto
  qed
  show "\<exists>x\<in>set xs. \<not> compatible base high (crm_base (snd x)) (fst x)" if c0: cutp
  proof (cases "ib \<noteq> length xs \<and> crm_base (snd (xs ! ib)) < base")
    case True
    then have "ib \<noteq> ih" using notin by (auto simp: less_imp_le)
    then have "ib < ih" "ib < length xs" using True le ibl by auto
    then have "\<not> compatible base high (crm_base (snd (xs ! ib))) (fst (xs ! ib))"
      using True ibk below [of ib] kb [of ib] by (auto simp: compatible_def)
    then show ?thesis using \<open>ib < length xs\<close> nth_mem by blast
  next
    case False
    then have c: "ih < length xs" "crm_base (snd (xs ! ih)) \<le> high" "high < fst (xs ! ih)"
      using c0 ihl by (auto simp: cutp_def ch_def)
    have "base < crm_base (snd (xs ! ih))"
    proof (cases "ib = ih")
      case True
      then show ?thesis using notin c by auto
    next
      case False
      then show ?thesis using kids_ok_nth [OF ok, of ib ih] le c ibk by (auto intro: le_less_trans)
    qed
    then have "\<not> compatible base high (crm_base (snd (xs ! ih))) (fst (xs ! ih))"
      using c by (auto simp: compatible_def)
    then show ?thesis using c nth_mem by blast
  qed
qed

lemma adopt_kids:
  assumes ok: "kids_ok lo hi xs" and b: "lo \<le> base" "base \<le> high" "high \<le> hi"
    and xs: "xs = as @ bs @ cs"
    and lo: "\<And>x. x \<in> set as \<Longrightarrow> fst x < base"
    and mid: "\<And>x. x \<in> set bs \<Longrightarrow> base \<le> crm_base (snd x) \<and> fst x \<le> high"
    and hi: "\<And>x. x \<in> set cs \<Longrightarrow> high < crm_base (snd x)"
    and n: "crm_base n = base"
  shows "map_insert (as @ cs) high n = as @ (high, n) # cs"
    "kids_ok lo hi (as @ (high, n) # cs)" "kids_ok base high bs"
proof -
  have mo: "map_ok (as @ cs)"
    using kids_ok_map_ok [OF ok] xs by (auto simp: map_ok_append)
  have "\<forall>x\<in>set cs. crm_base (snd x) \<le> fst x" using ok xs by (auto simp: kids_ok_def)
  then have "\<forall>x\<in>set cs. high < fst x" using hi by (blast intro: less_le_trans)
  then show "map_insert (as @ cs) high n = as @ (high, n) # cs"
    using lo b by (intro map_insert_middle [OF mo]) (auto intro: less_le_trans)
  have k: "kids_ok lo hi as" "kids_ok lo hi bs" "kids_ok lo hi cs"
    "\<forall>x\<in>set as. \<forall>y\<in>set cs. fst x < crm_base (snd y)"
    using ok unfolding xs kids_ok_append by auto
  then show "kids_ok lo hi (as @ (high, n) # cs)"
    using lo hi n b unfolding kids_ok_append kids_ok_Cons by (auto intro: order.trans)
  show "kids_ok base high bs" using k(2) mid by (auto simp: kids_ok_def)
qed

lemma compatible_all_kids:
  assumes "crm_ok lo hi m"
    and "\<And>x. x \<in> set (crm_kids m) \<Longrightarrow> fst x < base \<or> high < crm_base (snd x) \<or>
      (base \<le> crm_base (snd x) \<and> fst x \<le> high \<and> (crm_base (snd x), fst x) \<noteq> (base, high))"
    and "crm_seg m l h e"
  shows "compatible base high l h"
proof -
  obtain x where x: "x \<in> set (crm_kids m)"
    and c: "l = crm_base (snd x) \<and> h = fst x \<or> crm_seg (snd x) l h e"
    using assms(3) by (subst (asm) crm_seg_iff) blast
  have "crm_ok (crm_base (snd x)) (fst x) (snd x)" "crm_base (snd x) \<le> fst x"
    using assms(1) x by (auto elim!: crm_okE dest: kids_ok_mem)
  then have "crm_base (snd x) \<le> l \<and> l \<le> h \<and> h \<le> fst x"
    using c by (auto dest: crm_seg_within)
  then show ?thesis using assms(2) [OF x] unfolding compatible_def by auto
qed

definition store_spec ::
  "'w::len word \<Rightarrow> 'w word \<Rightarrow> ('w word, 'e) ContainedRangeMap \<Rightarrow> 'w word \<Rightarrow> 'w word \<Rightarrow> 'e
     \<Rightarrow> bool \<times> ('w word, 'e) ContainedRangeMap \<Rightarrow> bool" where
  "store_spec lo hi m base high entry res \<longleftrightarrow>
     crm_ok lo hi (snd res) \<and> crm_base (snd res) = crm_base m \<and> crm_entry (snd res) = crm_entry m \<and>
     (fst res \<longleftrightarrow> (\<forall>l h e. crm_seg m l h e \<longrightarrow> compatible base high l h)) \<and>
     (\<forall>l h e. crm_seg (snd res) l h e \<longleftrightarrow>
        crm_seg m l h e \<or> fst res \<and> l = base \<and> h = high \<and> e = entry)"

lemma store_spec_refused:
  assumes "crm_ok lo hi m" "crm_seg m l h e" "\<not> compatible base high l h"
  shows "store_spec lo hi m base high entry (False, CRM (crm_base m) (crm_entry m) (Some (crm_kids m)))"
proof -
  let ?m = "CRM (crm_base m) (crm_entry m) (Some (crm_kids m))"
  have "crm_seg ?m l h e = crm_seg m l h e" for l h e
    unfolding crm_seg_iff [of ?m] crm_seg_iff [of m] by simp
  moreover have "crm_ok lo hi ?m" using assms(1) by (auto elim!: crm_okE intro: crm_okI)
  ultimately show ?thesis using assms(2,3) by (auto simp: store_spec_def)
qed

lemma store_spec_adopt:
  assumes ok: "crm_ok lo hi m" and b: "lo \<le> base" "base \<le> high" "high \<le> hi"
    and xs: "crm_kids m = as @ bs @ cs"
    and lo: "\<And>x. x \<in> set as \<Longrightarrow> fst x < base"
    and mid: "\<And>x. x \<in> set bs \<Longrightarrow> base \<le> crm_base (snd x) \<and> fst x \<le> high"
    and hi: "\<And>x. x \<in> set cs \<Longrightarrow> high < crm_base (snd x)"
    and id: "\<And>x. x \<in> set bs \<Longrightarrow> (crm_base (snd x), fst x) \<noteq> (base, high)"
    and n: "crm_base n = base" "crm_entry n = entry" "crm_kids n = bs"
  shows "store_spec lo hi m base high entry
    (True, CRM (crm_base m) (crm_entry m) (Some (map_insert (as @ cs) high n)))"
proof -
  have k: "kids_ok lo hi (crm_kids m)" using ok by (auto elim: crm_okE)
  note a = adopt_kids [OF k b xs lo mid hi n(1)]
  let ?m = "CRM (crm_base m) (crm_entry m) (Some (as @ (high, n) # cs))"
  have kid: "\<And>x. x \<in> set as \<union> set bs \<union> set cs \<Longrightarrow> crm_ok (crm_base (snd x)) (fst x) (snd x)"
    using ok xs by (auto elim!: crm_okE)
  then have "crm_ok base high n" using a(3) n by - (rule crm_okI, auto)
  then have "crm_ok lo hi ?m" using a(2) kid n by - (rule crm_okI, auto)
  moreover have "crm_seg ?m l h e \<longleftrightarrow> crm_seg m l h e \<or> l = base \<and> h = high \<and> e = entry" for l h e
  proof -
    have "seg_of (high, n) l h e \<longleftrightarrow> l = base \<and> h = high \<and> e = entry \<or> (\<exists>x\<in>set bs. seg_of x l h e)"
      using crm_seg_of [of n l h e] n by (simp add: seg_of_def)
    then show ?thesis unfolding crm_seg_of [of ?m] crm_seg_of [of m] xs crm_kids.simps
      by (simp only: set_append list.set bex_Un bex_simps) blast
  qed
  moreover have "compatible base high l h" if "crm_seg m l h e" for l h e
  proof (rule compatible_all_kids [OF ok _ that])
    fix x assume "x \<in> set (crm_kids m)"
    then consider "x \<in> set as" | "x \<in> set bs" | "x \<in> set cs" using xs by auto
    then show "fst x < base \<or> high < crm_base (snd x) \<or>
      (base \<le> crm_base (snd x) \<and> fst x \<le> high \<and> (crm_base (snd x), fst x) \<noteq> (base, high))"
      using lo mid hi id by cases blast+
  qed
  ultimately show ?thesis by (auto simp: store_spec_def a(1))
qed

lemma store_spec_child:
  assumes ok: "crm_ok lo hi m" and i: "i < length (crm_kids m)"
    and inside: "crm_base (snd (crm_kids m ! i)) \<le> base" "base \<le> high" "high \<le> fst (crm_kids m ! i)"
    and diff: "(crm_base (snd (crm_kids m ! i)), fst (crm_kids m ! i)) \<noteq> (base, high)"
    and IH: "store_spec (crm_base (snd (crm_kids m ! i))) (fst (crm_kids m ! i)) (snd (crm_kids m ! i))
      base high entry (r, child)"
  shows "store_spec lo hi m base high entry
    (r, CRM (crm_base m) (crm_entry m) (Some ((crm_kids m)[i := (fst (crm_kids m ! i), child)])))"
proof -
  let ?xs = "crm_kids m" and ?x = "crm_kids m ! i"
  let ?m = "CRM (crm_base m) (crm_entry m) (Some (?xs[i := (fst ?x, child)]))"
  have xs: "?xs = take i ?xs @ ?x # drop (Suc i) ?xs" using i by (rule id_take_nth_drop)
  have k: "kids_ok lo hi (take i ?xs @ ?x # drop (Suc i) ?xs)" using ok xs by (auto elim: crm_okE)
  have kid: "\<And>x. x \<in> set ?xs \<Longrightarrow> crm_ok (crm_base (snd x)) (fst x) (snd x)" using ok by (auto elim: crm_okE)
  have c: "crm_base child = crm_base (snd ?x)" "crm_entry child = crm_entry (snd ?x)"
    "crm_ok (crm_base (snd ?x)) (fst ?x) child"
    "r \<longleftrightarrow> (\<forall>l h e. crm_seg (snd ?x) l h e \<longrightarrow> compatible base high l h)"
    "\<And>l h e. crm_seg child l h e \<longleftrightarrow> crm_seg (snd ?x) l h e \<or> r \<and> l = base \<and> h = high \<and> e = entry"
    using IH by (auto simp: store_spec_def)
  have "kids_ok lo hi (?xs[i := (fst ?x, child)])"
    using k c(1) unfolding upd_conv_take_nth_drop [OF i] kids_ok_append kids_ok_Cons by auto
  then have ok': "crm_ok lo hi ?m"
    using c(1,3) kid by - (rule crm_okI, auto dest!: set_update_subset_insert [THEN subsetD])
  have sx: "set ?xs = insert ?x (set (take i ?xs) \<union> set (drop (Suc i) ?xs))" by (subst xs) auto
  have su: "set (?xs[i := (fst ?x, child)]) = insert (fst ?x, child) (set (take i ?xs) \<union> set (drop (Suc i) ?xs))"
    unfolding upd_conv_take_nth_drop [OF i] by auto
  have seg: "crm_seg ?m l h e \<longleftrightarrow> crm_seg m l h e \<or> r \<and> l = base \<and> h = high \<and> e = entry" for l h e
  proof -
    have "seg_of (fst ?x, child) l h e \<longleftrightarrow> seg_of ?x l h e \<or> r \<and> l = base \<and> h = high \<and> e = entry"
      using c(1,2) c(5) [of l h e] by (auto simp: seg_of_def)
    then show ?thesis
      unfolding crm_seg_of [of ?m] crm_seg_of [of m] crm_kids.simps su sx
      by (simp only: bex_simps) blast
  qed
  have other: "fst y < base \<or> high < crm_base (snd y)" if "y \<in> set (take i ?xs) \<union> set (drop (Suc i) ?xs)" for y
    using that k inside unfolding kids_ok_append kids_ok_Cons by (auto intro: less_le_trans le_less_trans)
  have comp: "compatible base high l h"
    if s: "crm_seg m l h e" and ns: "\<not> crm_seg (snd ?x) l h e" for l h e
  proof -
    obtain y where y: "y \<in> set ?xs" "l = crm_base (snd y) \<and> h = fst y \<or> crm_seg (snd y) l h e"
      using s by (subst (asm) crm_seg_iff) blast
    show ?thesis
    proof (cases "y = ?x")
      case True
      then show ?thesis using y ns inside diff by (auto simp: compatible_def)
    next
      case False
      then have o: "fst y < base \<or> high < crm_base (snd y)" using y(1) sx by (intro other) auto
      have "crm_base (snd y) \<le> l \<and> h \<le> fst y"
        using y(2) kid [OF y(1)] by (auto dest: crm_seg_within)
      with o show ?thesis by (auto simp: compatible_def)
    qed
  qed
  have "crm_seg m l h e" if "crm_seg (snd ?x) l h e" for l h e
    using crm_seg.below [OF nth_mem [OF i] that] .
  then have "r \<longleftrightarrow> (\<forall>l h e. crm_seg m l h e \<longrightarrow> compatible base high l h)"
    unfolding c(4) using comp by blast
  with ok' seg show ?thesis by (simp add: store_spec_def)
qed

lemma ContainedRangeMap_StoreRange_spec:
  assumes "crm_ok lo hi m" "sz \<noteq> 0" "base \<le> base + sz - 1" "lo \<le> base" "base + sz - 1 \<le> hi"
  shows "store_spec lo hi m base (base + sz - 1) entry (ContainedRangeMap_StoreRange m base sz entry)"
  using assms
proof (induction m arbitrary: lo hi rule: measure_induct_rule [of size])
  case (less m)
  let ?high = "base + sz - 1" and ?xs = "crm_kids m"
  let ?ib = "lower_bound ?xs base" and ?ih = "lower_bound ?xs ?high"
  let ?m1 = "CRM (crm_base m) (crm_entry m) (Some ?xs)"
  have k: "kids_ok lo hi ?xs" using less.prems(1) by (auto elim: crm_okE)
  have g: "\<not> (sz = 0 \<or> ?high < base)" using less.prems(2,3) by simp
  note unf = ContainedRangeMap_StoreRange.simps [of m] Let_def if_not_P [OF g]
  show ?case
  proof (cases "?ib = ?ih \<and> ?ib \<noteq> length ?xs \<and> crm_base (snd (?xs ! ?ib)) \<le> base")
    case child: True
    let ?x = "?xs ! ?ib"
    have i: "?ib < length ?xs" using child by (simp add: le_neq_implies_less)
    have hi: "?high \<le> fst ?x" using child i lower_bound_at [of ?xs ?high] by auto
    show ?thesis
    proof (cases "crm_base (snd ?x) = base \<and> fst ?x = ?high")
      case True
      then have r: "ContainedRangeMap_StoreRange m base sz entry = (False, ?m1)"
        unfolding unf if_P [OF child] if_P [OF True] by (simp only: simp_thms)
      have "crm_seg m base ?high (crm_entry (snd ?x))"
        using crm_seg.here [OF nth_mem [OF i]] True by simp
      then show ?thesis unfolding r
        by (rule store_spec_refused [OF less.prems(1)]) (auto simp: compatible_def less.prems(3) not_less)
    next
      case False
      obtain r c where rc: "ContainedRangeMap_StoreRange (snd ?x) base sz entry = (r, c)" by fastforce
      have r: "ContainedRangeMap_StoreRange m base sz entry =
        (r, CRM (crm_base m) (crm_entry m) (Some (?xs[?ib := (fst ?x, c)])))"
        unfolding unf if_P [OF child] if_not_P [OF False] rc prod.case by (simp only: simp_thms)
      have kid: "crm_ok (crm_base (snd ?x)) (fst ?x) (snd ?x)"
        using less.prems(1) nth_mem [OF i] by (auto elim!: crm_okE)
      have cb: "crm_base (snd ?x) \<le> base" using child by blast
      have d: "(crm_base (snd ?x), fst ?x) \<noteq> (base, ?high)" using False by blast
      show ?thesis unfolding r
        by (rule store_spec_child [OF less.prems(1) i cb less.prems(3) hi d
              less.IH [OF size_kid [OF i] kid less.prems(2,3) cb hi, unfolded rc]])
    qed
  next
    case notin: False
    let ?ch = "?ih \<noteq> length ?xs \<and> crm_base (snd (?xs ! ?ih)) \<le> ?high"
    let ?cut = "(?ib \<noteq> length ?xs \<and> crm_base (snd (?xs ! ?ib)) < base) \<or> (?ch \<and> ?high < fst (?xs ! ?ih))"
    let ?ih' = "if ?ch then Suc ?ih else ?ih"
    note sp = crm_children_split [OF k less.prems(3) notin]
    show ?thesis
    proof (cases ?cut)
      case True
      then have r: "ContainedRangeMap_StoreRange m base sz entry = (False, ?m1)"
        unfolding unf if_not_P [OF notin] if_P [OF True] by (simp only: simp_thms)
      obtain x where "x \<in> set ?xs" "\<not> compatible base ?high (crm_base (snd x)) (fst x)"
        using sp(1) [OF True] by blast
      then show ?thesis unfolding r
        using crm_seg.here by (intro store_spec_refused [OF less.prems(1)])
    next
      case nocut: False
      let ?bs = "take (?ih' - ?ib) (drop ?ib ?xs)"
      let ?n = "CRM base entry (if ?ib \<noteq> ?ih' then Some ?bs else None)"
      note le = sp(2) [OF nocut]
      have xs: "?xs = take ?ib ?xs @ ?bs @ drop ?ih' ?xs"
        by (rule take_mid_drop) (use le in blast)
      have er: "(if ?ib \<noteq> ?ih' then map_erase_range ?xs ?ib ?ih' else ?xs) = take ?ib ?xs @ drop ?ih' ?xs"
        by (simp add: map_erase_range_def)
      have r: "ContainedRangeMap_StoreRange m base sz entry =
        (True, CRM (crm_base m) (crm_entry m) (Some (map_insert (take ?ib ?xs @ drop ?ih' ?xs) ?high ?n)))"
        unfolding unf if_not_P [OF notin] if_not_P [OF nocut] er [symmetric] by (simp only: simp_thms)
      have id: "(crm_base (snd x), fst x) \<noteq> (base, ?high)" if x: "x \<in> set ?bs" for x
      proof
        assume e: "(crm_base (snd x), fst x) = (base, ?high)"
        obtain j where j: "j < length ?xs" "x = ?xs ! j"
          using x by (metis in_set_conv_nth in_set_dropD in_set_takeD)
        have "?ib = j" "?ih = j"
          using e j less.prems(3) by (auto intro!: kid_lower_bound [OF k])
        then show False using notin e j by auto
      qed
      show ?thesis unfolding r
        by (rule store_spec_adopt [OF less.prems(1,4,3,5) xs sp(3) sp(4) [OF nocut] sp(5) id]) auto
    qed
  qed
qed

section \<open>Reachable trees\<close>

inductive ContainedRangeMap_reachable :: "('w::len word, 'e) ContainedRangeMap \<Rightarrow> bool" where
  crm_init: "ContainedRangeMap_reachable (ContainedRangeMap_init dflt)"
| crm_store: "ContainedRangeMap_reachable m \<Longrightarrow>
    ContainedRangeMap_reachable (snd (ContainedRangeMap_StoreRange m base sz entry))"
| crm_clear: "ContainedRangeMap_reachable m \<Longrightarrow> ContainedRangeMap_reachable (ContainedRangeMap_Clear m)"

lemma crm_refuses_invalid:
  "sz = 0 \<or> base + sz - 1 < base \<Longrightarrow> ContainedRangeMap_StoreRange m base sz entry = (False, m)"
  by (subst ContainedRangeMap_StoreRange.simps) (simp add: Let_def)

lemma crm_reachable_ok: "ContainedRangeMap_reachable m \<Longrightarrow> crm_ok 0 (- 1) m"
proof (induction rule: ContainedRangeMap_reachable.induct)
  case (crm_init dflt)
  show ?case by (rule crm_okI) (simp_all add: ContainedRangeMap_init_def kids_ok_def)
next
  case (crm_store m base sz entry)
  show ?case
  proof (cases "sz = 0 \<or> base + sz - 1 < base")
    case True
    then show ?thesis using crm_store.IH crm_refuses_invalid [OF True, of m entry] by simp
  next
    case False
    then show ?thesis
      using ContainedRangeMap_StoreRange_spec [OF crm_store.IH, of sz base entry]
      by (auto simp: store_spec_def not_less split: if_splits)
  qed
next
  case (crm_clear m)
  show ?case by (rule crm_okI) (simp_all add: ContainedRangeMap_Clear_def kids_ok_def)
qed

text \<open>C9. \<open>StoreRange\<close> accepts a range exactly when it is non-empty, does not wrap around and,
  against every stored range, is disjoint from it or properly nested with it. An
  accepted range is added to the stored ranges; a refused one changes none of them.\<close>

theorem ContainedRangeMap_StoreRange_correct:
  assumes "ContainedRangeMap_reachable m"
  shows "case ContainedRangeMap_StoreRange m base sz entry of (stored, m') \<Rightarrow>
    (stored \<longleftrightarrow> sz \<noteq> 0 \<and> base \<le> base + sz - 1 \<and>
       (\<forall>l h e. crm_seg m l h e \<longrightarrow> compatible base (base + sz - 1) l h)) \<and>
    (\<forall>l h e. crm_seg m' l h e \<longleftrightarrow>
       crm_seg m l h e \<or> (stored \<and> l = base \<and> h = base + sz - 1 \<and> e = entry))"
proof (cases "sz = 0 \<or> base + sz - 1 < base")
  case True
  then show ?thesis using crm_refuses_invalid [OF True, of m entry] by auto
next
  case False
  then have "store_spec 0 (- 1) m base (base + sz - 1) entry (ContainedRangeMap_StoreRange m base sz entry)"
    by (intro ContainedRangeMap_StoreRange_spec [OF crm_reachable_ok [OF assms]]) (auto simp: not_less)
  then show ?thesis using False
    by (cases "ContainedRangeMap_StoreRange m base sz entry") (simp add: store_spec_def not_less)
qed

text \<open>C10. \<open>RetrieveRange\<close> finds an entry exactly when a stored range contains the address, and
  then it is the entry of the innermost such range.\<close>

theorem ContainedRangeMap_RetrieveRange_correct:
  assumes "ContainedRangeMap_reachable m"
  shows "case ContainedRangeMap_RetrieveRange m a of
      None \<Rightarrow> \<forall>l h e. crm_seg m l h e \<longrightarrow> \<not> (l \<le> a \<and> a \<le> h)
    | Some e \<Rightarrow> \<exists>l h. crm_seg m l h e \<and> l \<le> a \<and> a \<le> h \<and>
        (\<forall>l' h' e'. crm_seg m l' h' e' \<longrightarrow> l' \<le> a \<longrightarrow> a \<le> h' \<longrightarrow> l' \<le> l \<and> h \<le> h')"
proof (cases "ContainedRangeMap_RetrieveRange m a")
  case None
  then have "\<not> (l \<le> a \<and> a \<le> h)" if "crm_seg m l h e" for l h e
    using RetrieveRange_complete [OF that crm_reachable_ok [OF assms]] by blast
  then show ?thesis unfolding None option.case by blast
next
  case (Some e)
  show ?thesis unfolding Some option.case by (rule RetrieveRange_sound [OF crm_reachable_ok [OF assms] Some])
qed

section \<open>Evaluation on a tree of two nested ranges\<close>

definition sample_tree :: "(u32, nat) ContainedRangeMap" where
  "sample_tree = snd (ContainedRangeMap_StoreRange
     (snd (ContainedRangeMap_StoreRange (ContainedRangeMap_init 0) 24 4 2)) 16 16 1)"

lemma sample_tree_reachable: "ContainedRangeMap_reachable sample_tree"
  unfolding sample_tree_def by (intro ContainedRangeMap_reachable.intros)

lemma sample_tree_eval:
  "sample_tree = CRM 0 0 (Some [(31, CRM 16 1 (Some [(27, CRM 24 2 None)]))])"
  unfolding sample_tree_def by code_simp

lemma sample_tree_seg:
  "crm_seg sample_tree l h e \<longleftrightarrow> (l, h, e) = (16, 31, 1) \<or> (l, h, e) = (24, 27, 2)"
proof -
  have 1: "crm_seg (CRM 24 2 None :: (u32, nat) ContainedRangeMap) l h e \<longleftrightarrow> False"
    by (subst crm_seg_iff) simp
  have 2: "crm_seg (CRM 16 1 (Some [(27, CRM 24 2 None)]) :: (u32, nat) ContainedRangeMap) l h e \<longleftrightarrow>
      (l, h, e) = (24, 27, 2)"
    by (subst crm_seg_iff) (simp add: 1)
  show ?thesis unfolding sample_tree_eval by (subst crm_seg_iff) (use 2 in auto)
qed

theorem ContainedRangeMap_StoreRange_correct_witness:
  "\<not> fst (ContainedRangeMap_StoreRange sample_tree 26 4 3) \<and>
   fst (ContainedRangeMap_StoreRange sample_tree 28 4 3) \<and>
   crm_seg (snd (ContainedRangeMap_StoreRange sample_tree 28 4 3)) 28 31 3"
  using ContainedRangeMap_StoreRange_correct [OF sample_tree_reachable, where base = 26 and sz = 4 and entry = 3]
    ContainedRangeMap_StoreRange_correct [OF sample_tree_reachable, where base = 28 and sz = 4 and entry = 3]
  by (auto simp: sample_tree_seg compatible_def split: prod.splits)

theorem ContainedRangeMap_RetrieveRange_correct_witness:
  "ContainedRangeMap_RetrieveRange sample_tree 25 = Some 2 \<and>
   (\<exists>l h. crm_seg sample_tree l h 2 \<and> l \<le> 25 \<and> 25 \<le> h)"
proof -
  have e: "ContainedRangeMap_RetrieveRange sample_tree 25 = Some 2"
    unfolding sample_tree_eval by code_simp
  show ?thesis using e ContainedRangeMap_RetrieveRange_correct [OF sample_tree_reachable, of 25] by auto
qed

end
