(* ===== verification/Bp_Strings.thy ===== *)
theory Bp_Strings
  imports Bp_Prelude "HOL-Library.List_Lexorder" "HOL-Library.Char_ord"
begin

text \<open>
  The parts of the C and C++ standard libraries' text handling that the program
  uses: splitting on separators (\<open>operator>>\<close> on a string stream, \<open>strtok_r\<close>),
  printing and extracting unsigned decimal numbers through streams, and the
  hexadecimal conversion of \<open>strtoull\<close>. Strings are lists of 8-bit characters and
  compare as \<open>std::string\<close> does.
\<close>

section \<open>Splitting\<close>

definition is_space :: "char \<Rightarrow> bool" where
  "is_space c \<longleftrightarrow> of_char c \<in> {9, 10, 11, 12, 13, 32 :: nat}"

function tokens :: "(char \<Rightarrow> bool) \<Rightarrow> string \<Rightarrow> string list" where
  "tokens sep s =
     (let s' = dropWhile sep s in
      if s' = [] then []
      else takeWhile (\<lambda>c. \<not> sep c) s' # tokens sep (dropWhile (\<lambda>c. \<not> sep c) s'))"
  by pat_completeness auto
termination
proof (relation "measure (\<lambda>(sep, s). length s)", goal_cases)
  case 1 show ?case by simp
next
  case (2 sep s s')
  then obtain c cs where s': "s' = c # cs" by (meson neq_Nil_conv)
  then have "\<not> sep c" using 2 by (metis hd_dropWhile list.distinct(1) list.sel(1))
  then have "length (dropWhile (\<lambda>c. \<not> sep c) s') \<le> length cs"
    using s' by (simp add: length_dropWhile_le)
  moreover have "length s' \<le> length s" using 2 by (simp add: length_dropWhile_le)
  ultimately show ?case using s' by simp
qed

declare tokens.simps [simp del]

lemma tokens_all_sep: "\<forall>c\<in>set s. sep c \<Longrightarrow> tokens sep s = []"
  by (subst tokens.simps) (simp add: Let_def dropWhile_eq_Nil_conv)

lemma tokens_step:
  assumes "dropWhile sep s \<noteq> []"
  shows "tokens sep s = takeWhile (\<lambda>c. \<not> sep c) (dropWhile sep s) #
    tokens sep (dropWhile (\<lambda>c. \<not> sep c) (dropWhile sep s))"
  using assms by (subst tokens.simps) (simp only: Let_def if_False)

lemma tokens_nonempty: "t \<in> set (tokens sep s) \<Longrightarrow> t \<noteq> [] \<and> (\<forall>c\<in>set t. \<not> sep c)"
proof (induction sep s rule: tokens.induct)
  case (1 sep s)
  show ?case
  proof (cases "dropWhile sep s = []")
    case True
    then show ?thesis using "1.prems" by (simp add: tokens.simps [of sep s] Let_def)
  next
    case False
    then have h: "\<not> sep (hd (dropWhile sep s))" by (rule hd_dropWhile)
    have "takeWhile (\<lambda>c. \<not> sep c) (dropWhile sep s) \<noteq> []"
      using False h by (cases "dropWhile sep s") auto
    moreover have "t = takeWhile (\<lambda>c. \<not> sep c) (dropWhile sep s) \<or>
        t \<in> set (tokens sep (dropWhile (\<lambda>c. \<not> sep c) (dropWhile sep s)))"
      using "1.prems" unfolding tokens_step [OF False] by simp
    ultimately show ?thesis using "1.IH" [OF refl False] by (metis set_takeWhileD)
  qed
qed

lemma tokens_word:
  assumes "t \<noteq> []" "\<forall>c\<in>set t. \<not> sep c"
  shows "tokens sep (t @ rest) =
    (t @ takeWhile (\<lambda>c. \<not> sep c) rest) # tokens sep (dropWhile (\<lambda>c. \<not> sep c) rest)"
proof -
  have "dropWhile sep (t @ rest) = t @ rest" using assms by (cases t) auto
  then show ?thesis
    using assms by (subst tokens.simps) (simp add: Let_def takeWhile_append2 dropWhile_append2)
qed

lemma tokens_sep: "sep c \<Longrightarrow> tokens sep (c # s) = tokens sep s"
  by (subst (1 2) tokens.simps) simp

fun join :: "string list \<Rightarrow> string" where
  "join [] = []"
| "join [t] = t"
| "join (t # ts) = t @ CHR '' '' # join ts"

lemma tokens_join:
  assumes "sep (CHR '' '')" "\<forall>t\<in>set ts. t \<noteq> [] \<and> (\<forall>c\<in>set t. \<not> sep c)"
  shows "tokens sep (join ts) = ts"
  using assms(2)
proof (induction ts rule: join.induct)
  case 1
  show ?case by (simp add: tokens_all_sep)
next
  case (2 t)
  then show ?case using tokens_word [of t sep "[]"] by (simp add: tokens_all_sep)
next
  case (3 t t' ts)
  then show ?case
    using tokens_word [of t sep "CHR '' '' # join (t' # ts)"] assms(1) by (simp add: tokens_sep)
qed

section \<open>Decimal numbers\<close>

definition is_digit :: "char \<Rightarrow> bool" where
  "is_digit c \<longleftrightarrow> 48 \<le> (of_char c :: nat) \<and> (of_char c :: nat) \<le> 57"

definition digit_val :: "char \<Rightarrow> nat" where
  "digit_val c = of_char c - 48"

definition digit_char :: "nat \<Rightarrow> char" where
  "digit_char n = char_of (48 + n)"

fun show_nat :: "nat \<Rightarrow> string" where
  "show_nat n = (if n < 10 then [digit_char n] else show_nat (n div 10) @ [digit_char (n mod 10)])"

declare show_nat.simps [simp del]

definition dec_val :: "string \<Rightarrow> nat" where
  "dec_val s = foldl (\<lambda>n c. 10 * n + digit_val c) 0 s"

lemma digit_char_val [simp]: "n < 10 \<Longrightarrow> digit_val (digit_char n) = n"
  by (simp add: digit_val_def digit_char_def)

lemma digit_char_is_digit [simp]: "n < 10 \<Longrightarrow> is_digit (digit_char n)"
  by (simp add: is_digit_def digit_char_def)

lemma dec_val_snoc: "dec_val (s @ [c]) = 10 * dec_val s + digit_val c"
  by (simp add: dec_val_def)

lemma show_nat_spec: "dec_val (show_nat n) = n \<and> (\<forall>c\<in>set (show_nat n). is_digit c) \<and> show_nat n \<noteq> []"
proof (induction n rule: show_nat.induct)
  case (1 n)
  show ?case
  proof (cases "n < 10")
    case True
    then show ?thesis by (subst (1 2 3) show_nat.simps) (simp add: dec_val_def)
  next
    case False
    then have s: "show_nat n = show_nat (n div 10) @ [digit_char (n mod 10)]"
      by (subst show_nat.simps) simp
    show ?thesis using 1 False unfolding s by (auto simp: dec_val_snoc)
  qed
qed

lemmas dec_val_show_nat [simp] = show_nat_spec [THEN conjunct1]
lemmas show_nat_digits = show_nat_spec [THEN conjunct2, THEN conjunct1]
lemmas show_nat_nonempty [simp] = show_nat_spec [THEN conjunct2, THEN conjunct2]

text \<open>\<open>operator>>\<close> into an unsigned integer of \<open>'w\<close> bits, decimal: an optional sign, at
  least one digit, and failure when the magnitude does not fit. The result is the
  value and what is left in the stream.\<close>

definition extract_unsigned :: "string \<Rightarrow> ('w::len word \<times> string) option" where
  "extract_unsigned s =
     (let (neg, s1) = (case s of
            [] \<Rightarrow> (False, [])
          | c # cs \<Rightarrow> if c = CHR ''-'' then (True, cs)
                      else if c = CHR ''+'' then (False, cs) else (False, s));
          n = dec_val (takeWhile is_digit s1)
      in if takeWhile is_digit s1 = [] then None
         else if 2 ^ LENGTH('w) \<le> n then None
         else Some (if neg then - of_nat n else of_nat n, dropWhile is_digit s1))"

definition show_word :: "'w::len word \<Rightarrow> string" where
  "show_word w = show_nat (unat w)"

lemma not_digit_sign: "\<not> is_digit (CHR ''-'')" "\<not> is_digit (CHR ''+'')"
  by (simp_all add: is_digit_def)

lemma show_word_hd: "show_word w = c # cs \<Longrightarrow> is_digit c"
  using show_nat_digits [of "unat w"] by (simp add: show_word_def)

lemma extract_show_word: "extract_unsigned (show_word (w :: 'a::len word)) = Some (w, [])"
proof -
  obtain c cs where s: "show_word w = c # cs" by (cases "show_word w") (auto simp: show_word_def)
  then have "c \<noteq> CHR ''-''" "c \<noteq> CHR ''+''" using show_word_hd not_digit_sign by blast+
  moreover have "takeWhile is_digit (c # cs) = c # cs" "dropWhile is_digit (c # cs) = []"
    using s show_nat_digits [of "unat w"] by (simp_all add: show_word_def)
  moreover have "dec_val (c # cs) = unat w" using s dec_val_show_nat [of "unat w"] by (simp add: show_word_def)
  moreover have "\<not> 2 ^ LENGTH('a) \<le> unat w" by (simp add: not_le)
  ultimately show ?thesis
    unfolding extract_unsigned_def s Let_def by (simp del: takeWhile.simps dropWhile.simps takeWhile_eq_all_conv dropWhile_eq_Nil_conv)
qed

section \<open>Hexadecimal numbers\<close>

definition hex_digit :: "char \<Rightarrow> int option" where
  "hex_digit c =
     (let n = of_char c :: int in
      if 48 \<le> n \<and> n \<le> 57 then Some (n - 48)
      else if 97 \<le> n \<and> n \<le> 102 then Some (n - 87)
      else if 65 \<le> n \<and> n \<le> 70 then Some (n - 55)
      else None)"

fun hex_digits :: "string \<Rightarrow> int \<Rightarrow> int \<times> string" where
  "hex_digits [] acc = (acc, [])"
| "hex_digits (c # cs) acc =
     (case hex_digit c of Some d \<Rightarrow> hex_digits cs (16 * acc + d) | None \<Rightarrow> (acc, c # cs))"

definition skip_0x :: "string \<Rightarrow> string" where
  "skip_0x s =
     (case s of
        a # b # c # cs \<Rightarrow>
          if a = CHR ''0'' \<and> b \<in> {CHR ''x'', CHR ''X''} \<and> hex_digit c \<noteq> None then c # cs else s
      | _ \<Rightarrow> s)"

text \<open>What the \<open>strto*\<close> functions read in base 16: the sign, the magnitude and the text
  that follows; \<open>None\<close> when there are no digits.\<close>

definition hex_scan :: "string \<Rightarrow> (bool \<times> int \<times> string) option" where
  "hex_scan s =
     (let s1 = dropWhile is_space s;
          neg = (case s1 of c # _ \<Rightarrow> c = CHR ''-'' | [] \<Rightarrow> False);
          s2 = (case s1 of c # cs \<Rightarrow> if c \<in> {CHR ''-'', CHR ''+''} then cs else s1 | [] \<Rightarrow> []);
          s3 = skip_0x s2
      in case s3 of
           [] \<Rightarrow> None
         | c # _ \<Rightarrow>
             if hex_digit c = None then None
             else Some (neg, hex_digits s3 0))"

text \<open>\<open>strtoull (s, &end, 16)\<close>, with \<open>unsigned long\<close> 64 bits wide: the value and the text at
  \<open>end\<close>. A value out of range saturates; without digits nothing is consumed.\<close>

definition strtoull_hex :: "string \<Rightarrow> u64 \<times> string" where
  "strtoull_hex s =
     (case hex_scan s of
        None \<Rightarrow> (0, s)
      | Some (neg, n, rest) \<Rightarrow>
          (if 2 ^ 64 \<le> n then - 1 else if neg then - of_int n else of_int n, rest))"

text \<open>\<open>strtol (s, NULL, 16)\<close>, as a 64-bit two's complement value.\<close>

definition strtol_hex :: "string \<Rightarrow> u64" where
  "strtol_hex s =
     (case hex_scan s of
        None \<Rightarrow> 0
      | Some (neg, n, rest) \<Rightarrow>
          if neg then (if 2 ^ 63 < n then - (2 ^ 63) else - of_int n)
          else (if 2 ^ 63 \<le> n then 2 ^ 63 - 1 else of_int n))"

definition strtoul_hex32 :: "string \<Rightarrow> u32" where
  "strtoul_hex32 s = ucast (fst (strtoull_hex s))"

section \<open>The tokenizer\<close>

text \<open>One call of \<open>strtok_r\<close>: the token and the text after its terminator.\<close>

definition strtok_r :: "(char \<Rightarrow> bool) \<Rightarrow> string \<Rightarrow> (string \<times> string) option" where
  "strtok_r sep s =
     (let s' = dropWhile sep s in
      if s' = [] then None
      else Some (takeWhile (\<lambda>c. \<not> sep c) s', drop 1 (dropWhile (\<lambda>c. \<not> sep c) s')))"

text \<open>The loop of \<open>Tokenize\<close> (\<open>processor/tokenize.cc\<close>); the counter is the value of
  \<open>remaining\<close> before the decrement.\<close>

fun tokenize_loop :: "(char \<Rightarrow> bool) \<Rightarrow> nat \<Rightarrow> string option \<Rightarrow> string \<Rightarrow> string list
    \<Rightarrow> nat \<times> string \<times> string list" where
  "tokenize_loop sep remaining None save acc = (remaining, save, acc)"
| "tokenize_loop sep 0 (Some token) save acc = (0, save, acc)"
| "tokenize_loop sep (Suc remaining) (Some token) save acc =
     (if remaining = 0 then (0, save, acc)
      else if 1 < remaining then
        (case strtok_r sep save of
           Some (token', save') \<Rightarrow> tokenize_loop sep remaining (Some token') save' (acc @ [token])
         | None \<Rightarrow> tokenize_loop sep remaining None [] (acc @ [token]))
      else tokenize_loop sep remaining (Some token) save (acc @ [token]))"

definition end_of_line :: "char \<Rightarrow> bool" where
  "end_of_line c \<longleftrightarrow> of_char c \<in> {13, 10 :: nat}"

text \<open>\<open>Tokenize\<close> with \<open>max_tokens\<close> at least 1. \<open>None\<close> is the result false.\<close>

definition Tokenize :: "string \<Rightarrow> (char \<Rightarrow> bool) \<Rightarrow> nat \<Rightarrow> string list option" where
  "Tokenize line separators max_tokens =
     (let (remaining, save, acc) =
            (case strtok_r separators line of
               None \<Rightarrow> tokenize_loop separators max_tokens None [] []
             | Some (token, save) \<Rightarrow> tokenize_loop separators max_tokens (Some token) save []);
          tokens = (if remaining = 0
                    then (case strtok_r end_of_line save of Some (t, _) \<Rightarrow> acc @ [t] | None \<Rightarrow> acc)
                    else acc)
      in if length tokens = max_tokens then Some tokens else None)"

lemma Tokenize_length: "Tokenize line sep n = Some ts \<Longrightarrow> length ts = n"
  by (auto simp: Tokenize_def Let_def split: prod.splits option.splits if_splits)

section \<open>Terminated strings\<close>

abbreviation (input) NUL :: char where "NUL \<equiv> CHR 0x00"

definition cstr :: "string \<Rightarrow> string" where
  "cstr s = takeWhile (\<lambda>c. c \<noteq> NUL) s"

end
