(* ===== verification/Postfix_Evaluator.thy ===== *)
theory Postfix_Evaluator
  imports Bp_Strings
begin

text \<open>
  \<open>PostfixEvaluator\<close> (\<open>processor/postfix_evaluator.h\<close> and \<open>-inl.h\<close>): the stack
  machine that runs the register-recovery programs of symbol files. The stack
  holds strings, as in the code; numbers are printed and parsed back. A run ends
  in success, in failure (the code returns false) or in a crash: a division by
  zero, or the null store in \<open>PopValueOrIdentifier\<close> when the target of an
  assignment is a negative literal.
\<close>

section \<open>State and operations\<close>

datatype status = Ok | Failed | Crashed

record 'v evaluator =
  stack :: "string list"
  dictionary :: "string \<rightharpoonup> 'v"
  assigned :: "string \<rightharpoonup> bool"

type_synonym 'v memory = "'v \<Rightarrow> 'v option"

datatype 'v pop_result =
  POP_RESULT_FAIL
| POP_RESULT_VALUE 'v
| POP_RESULT_IDENTIFIER string
| POP_CRASH

text \<open>A token is a literal when, after an optional leading \<open>-\<close>, all of it extracts as
  an unsigned number. The flag says whether the code's own \<open>-\<close> was consumed.\<close>

definition literal_of :: "string \<Rightarrow> ('w::len word \<times> bool) option" where
  "literal_of token =
     (let (negative, rest) =
            (case token of c # cs \<Rightarrow> if c = CHR ''-'' then (True, cs) else (False, token)
             | [] \<Rightarrow> (False, []))
      in case extract_unsigned rest of
           Some (literal, []) \<Rightarrow> Some (literal, negative)
         | _ \<Rightarrow> None)"

text \<open>\<open>want_value\<close> is false where the caller passes a null \<open>value\<close>.\<close>

definition PopValueOrIdentifier ::
  "bool \<Rightarrow> ('w::len word) evaluator \<Rightarrow> 'w word pop_result \<times> 'w word evaluator" where
  "PopValueOrIdentifier want_value st =
     (case stack st of
        [] \<Rightarrow> (POP_RESULT_FAIL, st)
      | token # rest \<Rightarrow>
          (let st' = st\<lparr>stack := rest\<rparr> in
           case literal_of token of
             Some (literal, negative) \<Rightarrow>
               if negative
               then if want_value then (POP_RESULT_VALUE (- literal), st') else (POP_CRASH, st')
               else (POP_RESULT_VALUE literal, st')
           | None \<Rightarrow> (POP_RESULT_IDENTIFIER token, st')))"

definition PopValue :: "('w::len word) evaluator \<Rightarrow> 'w word option \<times> 'w word evaluator" where
  "PopValue st =
     (case PopValueOrIdentifier True st of
        (POP_RESULT_VALUE v, st') \<Rightarrow> (Some v, st')
      | (POP_RESULT_IDENTIFIER token, st') \<Rightarrow> (dictionary st' token, st')
      | (_, st') \<Rightarrow> (None, st'))"

definition PopValues :: "('w::len word) evaluator \<Rightarrow> ('w word \<times> 'w word) option \<times> 'w word evaluator" where
  "PopValues st =
     (case PopValue st of
        (None, st1) \<Rightarrow> (None, st1)
      | (Some value2, st1) \<Rightarrow>
          (case PopValue st1 of
             (None, st2) \<Rightarrow> (None, st2)
           | (Some value1, st2) \<Rightarrow> (Some (value1, value2), st2)))"

definition PushValue :: "('w::len word) evaluator \<Rightarrow> 'w word \<Rightarrow> 'w word evaluator" where
  "PushValue st v = st\<lparr>stack := show_word v # stack st\<rparr>"

datatype BinaryOperation =
  BINARY_OP_ADD | BINARY_OP_SUBTRACT | BINARY_OP_MULTIPLY
| BINARY_OP_DIVIDE_QUOTIENT | BINARY_OP_DIVIDE_MODULUS | BINARY_OP_ALIGN

definition binary_operation :: "string \<Rightarrow> BinaryOperation option" where
  "binary_operation token =
     (if token = ''+'' then Some BINARY_OP_ADD
      else if token = ''-'' then Some BINARY_OP_SUBTRACT
      else if token = ''*'' then Some BINARY_OP_MULTIPLY
      else if token = ''/'' then Some BINARY_OP_DIVIDE_QUOTIENT
      else if token = ''%'' then Some BINARY_OP_DIVIDE_MODULUS
      else if token = ''@'' then Some BINARY_OP_ALIGN
      else None)"

text \<open>\<open>None\<close> is the machine's divide error.\<close>

fun apply_operation ::
  "BinaryOperation \<Rightarrow> ('w::len) word \<Rightarrow> 'w word \<Rightarrow> 'w word option" where
  "apply_operation BINARY_OP_ADD a b = Some (a + b)"
| "apply_operation BINARY_OP_SUBTRACT a b = Some (a - b)"
| "apply_operation BINARY_OP_MULTIPLY a b = Some (a * b)"
| "apply_operation BINARY_OP_DIVIDE_QUOTIENT a b = (if b = 0 then None else Some (a div b))"
| "apply_operation BINARY_OP_DIVIDE_MODULUS a b = (if b = 0 then None else Some (a mod b))"
| "apply_operation BINARY_OP_ALIGN a b = Some (a AND ((- 1) XOR (b - 1)))"

definition EvaluateToken ::
  "('w::len word) memory option \<Rightarrow> string \<Rightarrow> 'w word evaluator \<Rightarrow> status \<times> 'w word evaluator" where
  "EvaluateToken memory token st =
     (case binary_operation token of
        Some operation \<Rightarrow>
          (case PopValues st of
             (None, st1) \<Rightarrow> (Failed, st1)
           | (Some (operand1, operand2), st1) \<Rightarrow>
               (case apply_operation operation operand1 operand2 of
                  None \<Rightarrow> (Crashed, st1)
                | Some result \<Rightarrow> (Ok, PushValue st1 result)))
      | None \<Rightarrow>
          if token = ''^'' then
            (case memory of
               None \<Rightarrow> (Failed, st)
             | Some mem \<Rightarrow>
                 (case PopValue st of
                    (None, st1) \<Rightarrow> (Failed, st1)
                  | (Some address, st1) \<Rightarrow>
                      (case mem address of
                         None \<Rightarrow> (Failed, st1)
                       | Some value \<Rightarrow> (Ok, PushValue st1 value))))
          else if token = ''='' then
            (case PopValue st of
               (None, st1) \<Rightarrow> (Failed, st1)
             | (Some value, st1) \<Rightarrow>
                 (case PopValueOrIdentifier False st1 of
                    (POP_RESULT_IDENTIFIER identifier, st2) \<Rightarrow>
                      if identifier = [] \<or> hd identifier \<noteq> CHR ''$'' then (Failed, st2)
                      else (Ok, st2\<lparr>dictionary := (dictionary st2)(identifier \<mapsto> value),
                                    assigned := (assigned st2)(identifier \<mapsto> True)\<rparr>)
                  | (POP_CRASH, st2) \<Rightarrow> (Crashed, st2)
                  | (_, st2) \<Rightarrow> (Failed, st2)))
          else (Ok, st\<lparr>stack := token # stack st\<rparr>))"

fun evaluate_tokens ::
  "('w::len word) memory option \<Rightarrow> string list \<Rightarrow> 'w word evaluator \<Rightarrow> status \<times> 'w word evaluator" where
  "evaluate_tokens memory [] st = (Ok, st)"
| "evaluate_tokens memory (token # ts) st =
     (if 1 < length token \<and> hd token = CHR ''='' then
        (case EvaluateToken memory ''='' st of
           (Ok, st1) \<Rightarrow>
             (case EvaluateToken memory (tl token) st1 of
                (Ok, st2) \<Rightarrow> evaluate_tokens memory ts st2
              | (r, st2) \<Rightarrow> (r, st2))
         | (r, st1) \<Rightarrow> (r, st1))
      else
        (case EvaluateToken memory token st of
           (Ok, st1) \<Rightarrow> evaluate_tokens memory ts st1
         | (r, st1) \<Rightarrow> (r, st1)))"

definition EvaluateInternal ::
  "('w::len word) memory option \<Rightarrow> string \<Rightarrow> 'w word evaluator \<Rightarrow> status \<times> 'w word evaluator" where
  "EvaluateInternal memory expression st = evaluate_tokens memory (tokens is_space expression) st"

definition Evaluate ::
  "('w::len word) memory option \<Rightarrow> string \<Rightarrow> 'w word evaluator \<Rightarrow> status \<times> 'w word evaluator" where
  "Evaluate memory expression st =
     (case EvaluateInternal memory expression st of
        (Ok, st1) \<Rightarrow> (if stack st1 = [] then Ok else Failed, st1\<lparr>stack := []\<rparr>)
      | (r, st1) \<Rightarrow> (r, st1\<lparr>stack := []\<rparr>))"

text \<open>Here the code passes a null \<open>assigned\<close>, so the caller's map is left alone.\<close>

definition EvaluateForValue ::
  "('w::len word) memory option \<Rightarrow> string \<Rightarrow> 'w word evaluator \<Rightarrow> status \<times> 'w word option \<times> 'w word evaluator" where
  "EvaluateForValue memory expression st =
     (case EvaluateInternal memory expression st of
        (Ok, st1) \<Rightarrow>
          if length (stack st1) \<noteq> 1 then (Failed, None, st1\<lparr>stack := [], assigned := assigned st\<rparr>)
          else (case PopValue st1 of
                  (Some v, st2) \<Rightarrow> (Ok, Some v, st2\<lparr>stack := [], assigned := assigned st\<rparr>)
                | (None, st2) \<Rightarrow> (Failed, None, st2\<lparr>stack := [], assigned := assigned st\<rparr>))
      | (r, st1) \<Rightarrow> (r, None, st1\<lparr>stack := [], assigned := assigned st\<rparr>))"

section \<open>Numbers survive the trip through the string stack\<close>

lemma literal_of_show_word [simp]: "literal_of (show_word v) = Some (v, False)"
proof -
  obtain c cs where s: "show_word v = c # cs" by (cases "show_word v") (auto simp: show_word_def)
  then have "c \<noteq> CHR ''-''" using show_word_hd not_digit_sign by blast
  then show ?thesis using extract_show_word [of v] s by (simp add: literal_of_def)
qed

definition resolve :: "(string \<rightharpoonup> 'w::len word) \<Rightarrow> string \<Rightarrow> 'w word option" where
  "resolve dict token =
     (case literal_of token of
        Some (literal, negative) \<Rightarrow> Some (if negative then - literal else literal)
      | None \<Rightarrow> dict token)"

lemma PopValue_Cons [simp]:
  "stack st = t # ts \<Longrightarrow> PopValue st = (resolve (dictionary st) t, st\<lparr>stack := ts\<rparr>)"
  by (auto simp: PopValue_def PopValueOrIdentifier_def resolve_def Let_def split: option.splits)

lemma PopValue_Nil [simp]: "stack st = [] \<Longrightarrow> PopValue st = (None, st)"
  by (simp add: PopValue_def PopValueOrIdentifier_def)

lemma resolve_show_word [simp]: "resolve dict (show_word v) = Some v"
  by (simp add: resolve_def)

lemma PopValue_PushValue: "PopValue (PushValue st v) = (Some v, st)"
  by (simp add: PushValue_def)

section \<open>Postfix programs compute expression trees\<close>

text \<open>The reference: arithmetic expressions over registers, constants and memory, and
  programs that are sequences of assignments.\<close>

datatype 'v expr =
  Const 'v
| Var string
| Bin BinaryOperation "'v expr" "'v expr"
| Deref "'v expr"

fun expr_eval :: "('w::len word) memory option \<Rightarrow> (string \<rightharpoonup> 'w word) \<Rightarrow> 'w word expr \<Rightarrow> 'w word option" where
  "expr_eval memory dict (Const v) = Some v"
| "expr_eval memory dict (Var x) = dict x"
| "expr_eval memory dict (Bin op a b) =
     (case (expr_eval memory dict a, expr_eval memory dict b) of
        (Some x, Some y) \<Rightarrow> apply_operation op x y
      | _ \<Rightarrow> None)"
| "expr_eval memory dict (Deref a) =
     (case (memory, expr_eval memory dict a) of
        (Some mem, Some x) \<Rightarrow> mem x
      | _ \<Rightarrow> None)"

fun op_token :: "BinaryOperation \<Rightarrow> string" where
  "op_token BINARY_OP_ADD = ''+''"
| "op_token BINARY_OP_SUBTRACT = ''-''"
| "op_token BINARY_OP_MULTIPLY = ''*''"
| "op_token BINARY_OP_DIVIDE_QUOTIENT = ''/''"
| "op_token BINARY_OP_DIVIDE_MODULUS = ''%''"
| "op_token BINARY_OP_ALIGN = ''@''"

fun postfix :: "'w::len word expr \<Rightarrow> string list" where
  "postfix (Const v) = [show_word v]"
| "postfix (Var x) = [x]"
| "postfix (Bin op a b) = postfix a @ postfix b @ [op_token op]"
| "postfix (Deref a) = postfix a @ [''^'']"

definition plain_token :: "string \<Rightarrow> bool" where
  "plain_token x \<longleftrightarrow> x \<noteq> [] \<and> (\<forall>c\<in>set x. \<not> is_space c) \<and> binary_operation x = None \<and>
     x \<noteq> ''^'' \<and> hd x \<noteq> CHR ''=''"

definition name_token :: "('w::len) itself \<Rightarrow> string \<Rightarrow> bool" where
  "name_token TYPE('w) x \<longleftrightarrow> plain_token x \<and> (literal_of x :: ('w word \<times> bool) option) = None"

fun expr_ok :: "'w::len word expr \<Rightarrow> bool" where
  "expr_ok (Const v) = True"
| "expr_ok (Var x) = name_token TYPE('w) x"
| "expr_ok (Bin op a b) = (expr_ok a \<and> expr_ok b)"
| "expr_ok (Deref a) = expr_ok a"

lemma binary_operation_op_token [simp]: "binary_operation (op_token op) = Some op"
  by (cases op) (simp_all add: binary_operation_def)

lemma op_token_not_smashed [simp]: "\<not> (1 < length (op_token op) \<and> hd (op_token op) = CHR ''='')"
  by (cases op) simp_all

lemma plain_token_push:
  "plain_token x \<Longrightarrow> evaluate_tokens memory (x # ts) st = evaluate_tokens memory ts (st\<lparr>stack := x # stack st\<rparr>)"
  by (auto simp: plain_token_def EvaluateToken_def)

lemma digit_not_space: "is_digit c \<Longrightarrow> \<not> is_space c"
  by (auto simp: is_digit_def is_space_def)

lemma plain_token_show_word: "plain_token (show_word v)"
proof -
  obtain c cs where s: "show_word v = c # cs" by (cases "show_word v") (auto simp: show_word_def)
  then have d: "is_digit c" using show_word_hd by blast
  have "\<forall>x\<in>set (show_word v). is_digit x" using show_nat_digits by (simp add: show_word_def)
  then have "\<forall>x\<in>set (show_word v). \<not> is_space x" using digit_not_space by blast
  moreover have "c \<noteq> CHR ''+''" "c \<noteq> CHR ''-''" "c \<noteq> CHR ''*''" "c \<noteq> CHR ''/''" "c \<noteq> CHR ''%''"
    "c \<noteq> CHR ''@''" "c \<noteq> CHR ''^''" "c \<noteq> CHR ''=''"
    using d by (auto simp: is_digit_def)
  ultimately show ?thesis using s by (simp add: plain_token_def binary_operation_def)
qed

lemma binary_step:
  assumes "stack st = y # x # rest"
  shows "EvaluateToken memory (op_token op) st =
    (case (resolve (dictionary st) x, resolve (dictionary st) y) of
       (Some a, Some b) \<Rightarrow>
         (case apply_operation op a b of
            None \<Rightarrow> (Crashed, st\<lparr>stack := rest\<rparr>)
          | Some r \<Rightarrow> (Ok, st\<lparr>stack := show_word r # rest\<rparr>))
     | (_, Some b) \<Rightarrow> (Failed, st\<lparr>stack := rest\<rparr>)
     | (_, None) \<Rightarrow> (Failed, st\<lparr>stack := x # rest\<rparr>))"
  using assms
  by (auto simp: EvaluateToken_def PopValues_def PushValue_def split: option.splits)

lemma deref_step:
  assumes "stack st = x # rest"
  shows "fst (EvaluateToken memory ''^'' st) = Ok \<longleftrightarrow>
      (\<exists>mem a v. memory = Some mem \<and> resolve (dictionary st) x = Some a \<and> mem a = Some v)"
    and "memory = Some mem \<Longrightarrow> resolve (dictionary st) x = Some a \<Longrightarrow> mem a = Some v \<Longrightarrow>
      EvaluateToken memory ''^'' st = (Ok, st\<lparr>stack := show_word v # rest\<rparr>)"
  using assms
  by (auto simp: EvaluateToken_def binary_operation_def PushValue_def split: option.splits)

lemma evaluate_tokens_snoc_fail:
  assumes "fst (EvaluateToken memory t st) \<noteq> Ok" "\<not> (1 < length t \<and> hd t = CHR ''='')"
  shows "fst (evaluate_tokens memory (t # ts) st) \<noteq> Ok"
  using assms by (auto split: prod.splits status.splits)

lemma postfix_run:
  assumes "expr_ok e"
  shows "(\<exists>t. resolve (dictionary st) t = expr_eval memory (dictionary st) e \<and>
        (\<forall>ts. evaluate_tokens memory (postfix e @ ts) st =
              evaluate_tokens memory ts (st\<lparr>stack := t # stack st\<rparr>))) \<or>
     (expr_eval memory (dictionary st) e = None \<and>
        (\<forall>ts. fst (evaluate_tokens memory (postfix e @ ts) st) \<noteq> Ok))"
  using assms
proof (induction e arbitrary: st)
  case (Const v)
  then show ?case
    by (intro disjI1 exI [of _ "show_word v"]) (simp add: plain_token_push plain_token_show_word del: evaluate_tokens.simps)
next
  case (Var x)
  then show ?case
    by (intro disjI1 exI [of _ x])
      (simp add: plain_token_push name_token_def resolve_def del: evaluate_tokens.simps)
next
  case (Bin op a b)
  then have ok: "expr_ok a" "expr_ok b" by simp_all
  from Bin.IH(1) [OF ok(1), of st] show ?case
  proof (elim disjE exE conjE)
    fix t1
    assume t1: "resolve (dictionary st) t1 = expr_eval memory (dictionary st) a"
      and r1: "\<forall>ts. evaluate_tokens memory (postfix a @ ts) st =
        evaluate_tokens memory ts (st\<lparr>stack := t1 # stack st\<rparr>)"
    let ?st1 = "st\<lparr>stack := t1 # stack st\<rparr>"
    from Bin.IH(2) [OF ok(2), of ?st1] show ?thesis
    proof (elim disjE exE conjE)
      fix t2
      assume t2: "resolve (dictionary ?st1) t2 = expr_eval memory (dictionary ?st1) b"
        and r2: "\<forall>ts. evaluate_tokens memory (postfix b @ ts) ?st1 =
          evaluate_tokens memory ts (?st1\<lparr>stack := t2 # stack ?st1\<rparr>)"
      let ?st2 = "st\<lparr>stack := t2 # t1 # stack st\<rparr>"
      have run: "evaluate_tokens memory (postfix (Bin op a b) @ ts) st =
          evaluate_tokens memory (op_token op # ts) ?st2" for ts
        using r1 r2 by simp
      note step = binary_step [of ?st2 t2 t1 "stack st" memory op]
      show ?thesis
      proof (cases "expr_eval memory (dictionary st) (Bin op a b)")
        case None
        then have "fst (EvaluateToken memory (op_token op) ?st2) \<noteq> Ok"
          using step t1 t2 by (auto split: option.splits)
        then show ?thesis
          using None evaluate_tokens_snoc_fail op_token_not_smashed unfolding run by blast
      next
        case (Some v)
        then have "EvaluateToken memory (op_token op) ?st2 = (Ok, st\<lparr>stack := show_word v # stack st\<rparr>)"
          using step t1 t2 by (auto split: option.splits)
        then have "evaluate_tokens memory (op_token op # ts) ?st2 =
            evaluate_tokens memory ts (st\<lparr>stack := show_word v # stack st\<rparr>)" for ts
          using op_token_not_smashed [of op] by auto
        then show ?thesis unfolding run using Some by (intro disjI1 exI [of _ "show_word v"]) simp
      qed
    next
      assume "expr_eval memory (dictionary ?st1) b = None"
        and "\<forall>ts. fst (evaluate_tokens memory (postfix b @ ts) ?st1) \<noteq> Ok"
      then show ?thesis using r1 by (auto split: option.splits)
    qed
  next
    assume "expr_eval memory (dictionary st) a = None"
      and "\<forall>ts. fst (evaluate_tokens memory (postfix a @ ts) st) \<noteq> Ok"
    then show ?thesis by auto
  qed
next
  case (Deref a)
  then have "expr_ok a" by simp
  from Deref.IH [OF this, of st] show ?case
  proof (elim disjE exE conjE)
    fix t
    assume t: "resolve (dictionary st) t = expr_eval memory (dictionary st) a"
      and r: "\<forall>ts. evaluate_tokens memory (postfix a @ ts) st =
        evaluate_tokens memory ts (st\<lparr>stack := t # stack st\<rparr>)"
    let ?st1 = "st\<lparr>stack := t # stack st\<rparr>"
    have run: "evaluate_tokens memory (postfix (Deref a) @ ts) st =
        evaluate_tokens memory (''^'' # ts) ?st1" for ts
      using r by simp
    show ?thesis
    proof (cases "expr_eval memory (dictionary st) (Deref a)")
      case None
      then have "fst (EvaluateToken memory ''^'' ?st1) \<noteq> Ok"
        using deref_step(1) [of ?st1 t "stack st" memory] t by (auto split: option.splits)
      then show ?thesis using None evaluate_tokens_snoc_fail [of memory "''^''" ?st1] unfolding run by simp
    next
      case (Some v)
      then obtain mem x where "memory = Some mem" "resolve (dictionary st) t = Some x" "mem x = Some v"
        using t by (auto split: option.splits)
      then have "EvaluateToken memory ''^'' ?st1 = (Ok, st\<lparr>stack := show_word v # stack st\<rparr>)"
        using deref_step(2) [of ?st1 t "stack st" memory mem x v] by simp
      then have "evaluate_tokens memory (''^'' # ts) ?st1 =
          evaluate_tokens memory ts (st\<lparr>stack := show_word v # stack st\<rparr>)" for ts
        by simp
      then show ?thesis unfolding run using Some by (intro disjI1 exI [of _ "show_word v"]) simp
    qed
  next
    assume "expr_eval memory (dictionary st) a = None"
      and "\<forall>ts. fst (evaluate_tokens memory (postfix a @ ts) st) \<noteq> Ok"
    then show ?thesis by (auto split: option.splits)
  qed
qed

lemma postfix_tokens_ok: "expr_ok e \<Longrightarrow> \<forall>t\<in>set (postfix e). t \<noteq> [] \<and> (\<forall>c\<in>set t. \<not> is_space c)"
proof (induction e)
  case (Const v)
  then show ?case using plain_token_show_word [of v] by (simp add: plain_token_def)
next
  case (Var x)
  then show ?case by (simp add: name_token_def plain_token_def)
next
  case (Bin op a b)
  have "op_token op \<noteq> [] \<and> (\<forall>c\<in>set (op_token op). \<not> is_space c)"
    by (cases op) (simp_all add: is_space_def)
  with Bin show ?case by auto
next
  case (Deref a)
  then show ?case by (auto simp: is_space_def)
qed

lemma space_is_space [simp]: "is_space (CHR '' '')"
  by (simp add: is_space_def)

lemma evaluator_idle: "stack st = [] \<Longrightarrow> st\<lparr>stack := [], assigned := assigned st\<rparr> = st"
  by (cases st) simp

lemma EvaluateForValue_expr:
  fixes st :: "('w::len word) evaluator"
  assumes "expr_ok e" "stack st = []"
  shows "case expr_eval memory (dictionary st) e of
      Some v \<Rightarrow> EvaluateForValue memory (join (postfix e)) st = (Ok, Some v, st)
    | None \<Rightarrow> fst (EvaluateForValue memory (join (postfix e)) st) \<noteq> Ok"
proof -
  have int: "EvaluateInternal memory (join (postfix e)) st = evaluate_tokens memory (postfix e @ []) st"
    using tokens_join [OF space_is_space postfix_tokens_ok [OF assms(1)]] by (simp add: EvaluateInternal_def)
  from postfix_run [OF assms(1), of st memory] show ?thesis
  proof (elim disjE exE conjE)
    fix t
    assume t: "resolve (dictionary st) t = expr_eval memory (dictionary st) e"
      and r: "\<forall>ts. evaluate_tokens memory (postfix e @ ts) st =
        evaluate_tokens memory ts (st\<lparr>stack := t # stack st\<rparr>)"
    have "EvaluateInternal memory (join (postfix e)) st = (Ok, st\<lparr>stack := [t]\<rparr>)"
      unfolding int using r [rule_format, of "[]"] assms(2) by simp
    then show ?thesis
      using t evaluator_idle [OF assms(2)] by (auto simp: EvaluateForValue_def split: option.splits)
  next
    assume "expr_eval memory (dictionary st) e = None"
      and "\<forall>ts. fst (evaluate_tokens memory (postfix e @ ts) st) \<noteq> Ok"
    then have "fst (EvaluateInternal memory (join (postfix e)) st) \<noteq> Ok" unfolding int by blast
    then show ?thesis
      using \<open>expr_eval memory (dictionary st) e = None\<close>
      by (auto simp: EvaluateForValue_def split: prod.splits status.splits)
  qed
qed

text \<open>C29. \<open>EvaluateForValue\<close> on the postfix form of an expression tree returns exactly the
  tree's value and leaves the evaluator as it was; where the tree has no value (an
  unknown register, unreadable memory, a zero divisor) it does not succeed.\<close>

theorem EvaluateForValue_postfix:
  fixes st :: "('w::len word) evaluator"
  assumes "expr_ok e" "stack st = []"
  shows "case expr_eval memory (dictionary st) e of
      Some v \<Rightarrow> EvaluateForValue memory (join (postfix e)) st = (Ok, Some v, st)
    | None \<Rightarrow> fst (EvaluateForValue memory (join (postfix e)) st) \<noteq> Ok"
  using assms by (rule EvaluateForValue_expr)

theorem EvaluateForValue_postfix_witness:
  "EvaluateForValue None ''$ebp 4 +'' \<lparr>stack = [], dictionary = [''$ebp'' \<mapsto> (16 :: u32)], assigned = Map.empty\<rparr> =
   (Ok, Some 20, \<lparr>stack = [], dictionary = [''$ebp'' \<mapsto> 16], assigned = Map.empty\<rparr>)"
proof -
  let ?e = "Bin BINARY_OP_ADD (Var ''$ebp'') (Const (4 :: u32))"
  let ?st = "\<lparr>stack = [], dictionary = [''$ebp'' \<mapsto> (16 :: u32)], assigned = Map.empty\<rparr>"
  have ok: "expr_ok ?e"
    by (simp add: name_token_def plain_token_def is_space_def binary_operation_def
        literal_of_def extract_unsigned_def is_digit_def)
  have t: "join (postfix ?e) = ''$ebp 4 +''" by code_simp
  show ?thesis using EvaluateForValue_postfix [OF ok, of ?st None] unfolding t by simp
qed

section \<open>Programs of assignments\<close>

fun run_program :: "('w::len word) memory option \<Rightarrow> (string \<rightharpoonup> 'w word) \<Rightarrow> (string \<times> 'w word expr) list
    \<Rightarrow> (string \<rightharpoonup> 'w word) option" where
  "run_program memory dict [] = Some dict"
| "run_program memory dict ((x, e) # p) =
     (case expr_eval memory dict e of
        None \<Rightarrow> None
      | Some v \<Rightarrow> run_program memory (dict(x \<mapsto> v)) p)"

fun program_tokens :: "(string \<times> 'w::len word expr) list \<Rightarrow> string list" where
  "program_tokens [] = []"
| "program_tokens ((x, e) # p) = x # postfix e @ ''='' # program_tokens p"

definition program_ok :: "(string \<times> 'w::len word expr) list \<Rightarrow> bool" where
  "program_ok p \<longleftrightarrow> (\<forall>(x, e)\<in>set p. name_token TYPE('w) x \<and> hd x = CHR ''$'' \<and> expr_ok e)"

definition mark_assigned :: "(string \<rightharpoonup> bool) \<Rightarrow> (string \<times> 'e) list \<Rightarrow> (string \<rightharpoonup> bool)" where
  "mark_assigned m p = foldl (\<lambda>m (x, e). m(x \<mapsto> True)) m p"

lemma assign_step:
  assumes "name_token TYPE('w) x" "hd x = CHR ''$''" "resolve (dictionary st) t = Some v"
  shows "evaluate_tokens memory (''='' # ts) (st\<lparr>stack := t # x # (stack st)\<rparr>) =
    evaluate_tokens memory ts ((st :: ('w::len word) evaluator)
      \<lparr>dictionary := (dictionary st)(x \<mapsto> v), assigned := (assigned st)(x \<mapsto> True)\<rparr>)"
proof -
  have "x \<noteq> []" "(literal_of x :: ('w word \<times> bool) option) = None"
    using assms(1) by (auto simp: name_token_def plain_token_def)
  then show ?thesis
    using assms(2,3)
    by (simp add: EvaluateToken_def binary_operation_def PopValueOrIdentifier_def Let_def)
qed

lemma run_program_tokens:
  fixes st :: "('w::len word) evaluator"
  assumes "program_ok p" "run_program memory (dictionary st) p = Some dict"
  shows "evaluate_tokens memory (program_tokens p) st =
    (Ok, st\<lparr>dictionary := dict, assigned := mark_assigned (assigned st) p\<rparr>)"
  using assms
proof (induction p arbitrary: st)
  case Nil
  then show ?case by (simp add: mark_assigned_def)
next
  case (Cons xe p)
  obtain x e where xe: "xe = (x, e)" by fastforce
  have ok: "name_token TYPE('w) x" "hd x = CHR ''$''" "expr_ok e" "program_ok p"
    using Cons.prems(1) by (auto simp: program_ok_def xe)
  obtain v where v: "expr_eval memory (dictionary st) e = Some v"
    and rest: "run_program memory ((dictionary st)(x \<mapsto> v)) p = Some dict"
    using Cons.prems(2) by (auto simp: xe split: option.splits)
  let ?st1 = "st\<lparr>stack := x # stack st\<rparr>"
  obtain t where t: "resolve (dictionary st) t = Some v"
    and r: "\<forall>ts. evaluate_tokens memory (postfix e @ ts) ?st1 =
      evaluate_tokens memory ts (?st1\<lparr>stack := t # stack ?st1\<rparr>)"
    using postfix_run [OF ok(3), of ?st1 memory] v by auto
  have "evaluate_tokens memory (program_tokens (xe # p)) st =
      evaluate_tokens memory (postfix e @ ''='' # program_tokens p) ?st1"
    using ok(1) by (simp add: xe plain_token_push name_token_def del: evaluate_tokens.simps)
  also have "\<dots> = evaluate_tokens memory (''='' # program_tokens p) (st\<lparr>stack := t # x # stack st\<rparr>)"
    using r by simp
  also have "\<dots> = evaluate_tokens memory (program_tokens p)
      (st\<lparr>dictionary := (dictionary st)(x \<mapsto> v), assigned := (assigned st)(x \<mapsto> True)\<rparr>)"
    by (rule assign_step [OF ok(1,2) t])
  also have "\<dots> = (Ok, st\<lparr>dictionary := dict, assigned := mark_assigned (assigned st) (xe # p)\<rparr>)"
  proof -
    let ?st2 = "st\<lparr>dictionary := (dictionary st)(x \<mapsto> v), assigned := (assigned st)(x \<mapsto> True)\<rparr>"
    have "run_program memory (dictionary ?st2) p = Some dict" using rest by (simp del: fun_upd_apply)
    from Cons.IH [OF ok(4) this] show ?thesis by (simp add: xe mark_assigned_def del: fun_upd_apply)
  qed
  finally show ?case .
qed

lemma program_tokens_ok:
  fixes p :: "(string \<times> 'w::len word expr) list"
  assumes "program_ok p"
  shows "\<forall>t\<in>set (program_tokens p). t \<noteq> [] \<and> (\<forall>c\<in>set t. \<not> is_space c)"
  using assms
proof (induction p)
  case (Cons xe p)
  obtain x e where xe: "xe = (x, e)" by fastforce
  have ok: "name_token TYPE('w) x" "expr_ok e" "program_ok p"
    using Cons.prems by (auto simp: program_ok_def xe)
  have "\<not> is_space (CHR ''='')" by (simp add: is_space_def)
  then show ?case
    using ok(1) postfix_tokens_ok [OF ok(2)] Cons.IH [OF ok(3)]
    unfolding xe name_token_def plain_token_def by (simp add: ball_Un)
qed simp

lemma Evaluate_assignments:
  fixes st :: "('w::len word) evaluator"
  assumes "program_ok p" "stack st = []" "run_program memory (dictionary st) p = Some dict"
  shows "Evaluate memory (join (program_tokens p)) st =
    (Ok, st\<lparr>dictionary := dict, assigned := mark_assigned (assigned st) p\<rparr>)"
proof -
  have "EvaluateInternal memory (join (program_tokens p)) st =
      (Ok, st\<lparr>dictionary := dict, assigned := mark_assigned (assigned st) p\<rparr>)"
    using tokens_join [OF space_is_space program_tokens_ok [OF assms(1)]]
      run_program_tokens [OF assms(1,3)] by (simp add: EvaluateInternal_def)
  then show ?thesis using assms(2) by (cases st) (simp add: Evaluate_def)
qed

text \<open>\<open>Evaluate\<close> runs a program of assignments as the sequence of its assignments: the
  dictionary ends as the reference computes it, every assigned variable is marked,
  and the stack is empty.\<close>

theorem Evaluate_program:
  fixes st :: "('w::len word) evaluator"
  assumes "program_ok p" "stack st = []" "run_program memory (dictionary st) p = Some dict"
  shows "Evaluate memory (join (program_tokens p)) st =
    (Ok, st\<lparr>dictionary := dict, assigned := mark_assigned (assigned st) p\<rparr>)"
  using assms by (rule Evaluate_assignments)

lemma Evaluate_program_witness:
  "Evaluate None ''$T0 $ebp = $eip $T0 4 + =''
     \<lparr>stack = [], dictionary = [''$ebp'' \<mapsto> (16 :: u32)], assigned = Map.empty\<rparr> =
   (Ok, \<lparr>stack = [], dictionary = [''$ebp'' \<mapsto> (16 :: u32), ''$T0'' \<mapsto> 16, ''$eip'' \<mapsto> 20],
     assigned = [''$T0'' \<mapsto> True, ''$eip'' \<mapsto> True]\<rparr>)"
proof -
  let ?p = "[(''$T0'', Var ''$ebp''), (''$eip'', Bin BINARY_OP_ADD (Var ''$T0'') (Const (4 :: u32)))]"
  let ?st = "\<lparr>stack = [], dictionary = [''$ebp'' \<mapsto> (16 :: u32)], assigned = Map.empty\<rparr>"
  have ok: "program_ok ?p"
    by (simp add: program_ok_def name_token_def plain_token_def is_space_def binary_operation_def
        literal_of_def extract_unsigned_def is_digit_def)
  have t: "join (program_tokens ?p) = ''$T0 $ebp = $eip $T0 4 + =''"
    by code_simp
  have r: "run_program None (dictionary ?st) ?p =
      Some [''$ebp'' \<mapsto> (16 :: u32), ''$T0'' \<mapsto> 16, ''$eip'' \<mapsto> 20]"
    by simp
  show ?thesis using Evaluate_program [OF ok _ r] unfolding t by (simp add: mark_assigned_def)
qed

section \<open>When the evaluator crashes\<close>

text \<open>C30. A token makes the code crash exactly in two situations: a division or modulus whose
  right operand is zero, and an assignment whose target is a literal written with a
  minus sign, where \<open>PopValueOrIdentifier\<close> stores through the null \<open>value\<close> pointer.\<close>

theorem EvaluateToken_crash_iff:
  fixes st :: "('w::len word) evaluator"
  shows "fst (EvaluateToken memory token st) = Crashed \<longleftrightarrow>
    (token \<in> {''/'', ''%''} \<and> (\<exists>a. fst (PopValues st) = Some (a, 0))) \<or>
    (token = ''='' \<and> (\<exists>t target rest. stack st = t # target # rest \<and>
       resolve (dictionary st) t \<noteq> None \<and>
       (\<exists>v. (literal_of target :: ('w word \<times> bool) option) = Some (v, True))))"
proof (cases "binary_operation token")
  case (Some op)
  have "fst (EvaluateToken memory token st) = Crashed \<longleftrightarrow>
      (\<exists>a b. fst (PopValues st) = Some (a, b) \<and> apply_operation op a b = None)"
    using Some by (auto simp: EvaluateToken_def split: prod.splits option.splits)
  moreover have "apply_operation op a b = None \<longleftrightarrow>
      op \<in> {BINARY_OP_DIVIDE_QUOTIENT, BINARY_OP_DIVIDE_MODULUS} \<and> b = 0" for a b :: "'w word"
    by (cases op) auto
  moreover have "op \<in> {BINARY_OP_DIVIDE_QUOTIENT, BINARY_OP_DIVIDE_MODULUS} \<longleftrightarrow> token \<in> {''/'', ''%''}"
    using Some by (auto simp: binary_operation_def split: if_splits)
  moreover have "token \<noteq> ''=''" using Some by (auto simp: binary_operation_def)
  ultimately show ?thesis by auto
next
  case None
  then have n: "token \<notin> {''/'', ''%''}" by (auto simp: binary_operation_def)
  show ?thesis
  proof (cases "token = ''=''")
    case True
    show ?thesis
    proof (cases "stack st")
      case Nil
      then show ?thesis using None True n by (simp add: EvaluateToken_def)
    next
      case (Cons t rest)
      then show ?thesis
        using None True n
        by (cases rest) (auto simp: EvaluateToken_def PopValueOrIdentifier_def Let_def
            split: option.splits prod.splits if_splits)
    qed
  next
    case False
    then show ?thesis
      using None n by (auto simp: EvaluateToken_def split: option.splits prod.splits)
  qed
qed

lemma Evaluate_stack_empty: "stack (snd (Evaluate memory expression st)) = []"
  by (simp add: Evaluate_def split: prod.splits status.splits)

section \<open>Programs that cannot crash\<close>

text \<open>A token that is neither a division nor a literal written with a minus sign.\<close>

definition safe_token :: "string \<Rightarrow> bool" where
  "safe_token t \<longleftrightarrow> t \<notin> {''/'', ''%''} \<and> (case t of [] \<Rightarrow> True | c # cs \<Rightarrow> c \<noteq> CHR ''-'' \<or> cs = [])"

definition safe_stack :: "('w::len word) evaluator \<Rightarrow> bool" where
  "safe_stack st \<longleftrightarrow> (\<forall>t\<in>set (stack st). \<forall>v. (literal_of t :: ('w word \<times> bool) option) \<noteq> Some (v, True))"

lemma safe_PopValue: "safe_stack st \<Longrightarrow> PopValue st = (r, st') \<Longrightarrow> safe_stack st'"
  by (cases "stack st") (auto simp: safe_stack_def)

lemma safe_PopValues: "safe_stack st \<Longrightarrow> PopValues st = (r, st') \<Longrightarrow> safe_stack st'"
  by (auto simp: PopValues_def split: prod.splits option.splits dest: safe_PopValue)

lemma safe_PushValue: "safe_stack st \<Longrightarrow> safe_stack (PushValue st v)"
  by (simp add: safe_stack_def PushValue_def)

lemma safe_literal:
  assumes "safe_token t" "binary_operation t = None"
  shows "(literal_of t :: ('w::len word \<times> bool) option) \<noteq> Some (v, True)"
proof (cases t)
  case (Cons c cs)
  then have "c \<noteq> CHR ''-''" using assms by (auto simp: safe_token_def binary_operation_def)
  then show ?thesis using Cons by (auto simp: literal_of_def split: option.splits list.splits)
qed (auto simp: literal_of_def split: option.splits list.splits)

lemma safe_Identifier:
  assumes "safe_stack st" "PopValueOrIdentifier b st = (r, st')"
  shows "safe_stack st'" "r \<noteq> POP_CRASH"
  using assms
  by (auto simp: PopValueOrIdentifier_def safe_stack_def Let_def split: list.splits option.splits if_splits)

lemma safe_apply:
  assumes "safe_token t" "binary_operation t = Some op"
  shows "apply_operation op a b \<noteq> None"
  using assms by (cases op) (auto simp: binary_operation_def safe_token_def split: if_splits)

lemma safe_EvaluateToken:
  fixes st :: "('w::len word) evaluator"
  assumes "safe_stack st" "safe_token t" "EvaluateToken memory t st = (r, st')"
  shows "r \<noteq> Crashed \<and> safe_stack st'"
proof (cases "binary_operation t")
  case (Some op)
  obtain p st1 where p: "PopValues st = (p, st1)" by fastforce
  note s1 = safe_PopValues [OF assms(1) p]
  show ?thesis
    using assms(3) Some p s1 safe_apply [OF assms(2) Some]
    by (auto simp: EvaluateToken_def safe_PushValue simp del: not_None_eq split: option.splits prod.splits)
next
  case None
  obtain p st1 where p: "PopValue st = (p, st1)" by fastforce
  note s1 = safe_PopValue [OF assms(1) p]
  obtain q st2 where q: "PopValueOrIdentifier False st1 = (q, st2)" by fastforce
  note s2 = safe_Identifier [OF s1 q]
  have "safe_stack (st2\<lparr>dictionary := d, assigned := a\<rparr>)" for d a using s2(1) by (simp add: safe_stack_def)
  moreover have "safe_stack (st\<lparr>stack := t # stack st\<rparr>)"
    using assms(1) safe_literal [OF assms(2) None, where 'w = 'w] by (simp add: safe_stack_def)
  ultimately show ?thesis
    using assms(1,3) None p q s1 s2
    by (auto simp: EvaluateToken_def safe_PushValue split: option.splits prod.splits if_splits pop_result.splits)
qed

lemma safe_evaluate_tokens:
  assumes "safe_stack st" "\<forall>t\<in>set ts. safe_token t \<and> safe_token (tl t)"
    and "evaluate_tokens memory ts st = (r, st')"
  shows "r \<noteq> Crashed"
  using assms
proof (induction memory ts st arbitrary: r st' rule: evaluate_tokens.induct)
  case (1 memory st)
  then show ?case by auto
next
  case (2 memory t ts st)
  have eq: "safe_token ''=''" by (simp add: safe_token_def)
  show ?case
  proof (cases "1 < length t \<and> hd t = CHR ''=''")
    case True
    obtain r1 st1 where e1: "EvaluateToken memory ''='' st = (r1, st1)" by fastforce
    note s1 = safe_EvaluateToken [OF "2.prems"(1) eq e1]
    obtain r2 st2 where e2: "EvaluateToken memory (tl t) st1 = (r2, st2)" by fastforce
    have s2: "r2 \<noteq> Crashed \<and> safe_stack st2" by (rule safe_EvaluateToken [OF _ _ e2]) (use s1 "2.prems" in auto)
    show ?thesis
      using "2.IH"(1) [OF True e1 [symmetric] _ e2 [symmetric]] "2.prems" True e1 e2 s1 s2
      by (cases r1; cases r2) auto
  next
    case False
    obtain r1 st1 where e1: "EvaluateToken memory t st = (r1, st1)" by fastforce
    have s1: "r1 \<noteq> Crashed \<and> safe_stack st1" by (rule safe_EvaluateToken [OF _ _ e1]) (use "2.prems" in auto)
    show ?thesis using "2.IH"(2) [OF False e1 [symmetric]] "2.prems" False e1 s1 by (cases r1) auto
  qed
qed

text \<open>A program whose tokens are safe never crashes the evaluator, whatever the dictionary and the
  memory.\<close>

lemma Evaluate_no_crash:
  assumes "\<forall>t\<in>set (tokens is_space program). safe_token t \<and> safe_token (tl t)" "stack st = []"
  shows "fst (Evaluate memory program st) \<noteq> Crashed"
proof -
  have "safe_stack st" using assms(2) by (simp add: safe_stack_def)
  then show ?thesis
    using safe_evaluate_tokens [OF _ assms(1)]
    by (auto simp: Evaluate_def EvaluateInternal_def split: prod.splits status.splits)
qed

end
