(* ===== verification/Cfi_Frame_Info.thy ===== *)
theory Cfi_Frame_Info
  imports Postfix_Evaluator Std_Map
begin

text \<open>
  Call frame information (\<open>processor/cfi_frame_info.h\<close>, \<open>.cc\<close>, \<open>-inl.h\<close>): the rule
  sets of \<open>STACK CFI\<close> records, their parser and printer, the evaluation of a rule
  set, and the walker that turns the callee's register context into the caller's.
\<close>

section \<open>Rule sets\<close>

record CFIFrameInfo =
  cfa_rule :: string
  ra_rule :: string
  register_rules :: "(string, string) std_map"

definition CFIFrameInfo_init :: CFIFrameInfo where
  "CFIFrameInfo_init = \<lparr>cfa_rule = [], ra_rule = [], register_rules = []\<rparr>"

definition SetCFARule :: "string \<Rightarrow> CFIFrameInfo \<Rightarrow> CFIFrameInfo" where
  "SetCFARule expression info = info\<lparr>cfa_rule := expression\<rparr>"

definition SetRARule :: "string \<Rightarrow> CFIFrameInfo \<Rightarrow> CFIFrameInfo" where
  "SetRARule expression info = info\<lparr>ra_rule := expression\<rparr>"

definition SetRegisterRule :: "string \<Rightarrow> string \<Rightarrow> CFIFrameInfo \<Rightarrow> CFIFrameInfo" where
  "SetRegisterRule register_name expression info =
     info\<lparr>register_rules := map_assign (register_rules info) register_name expression\<rparr>"

section \<open>Evaluating a rule set\<close>

definition working_evaluator :: "(string \<rightharpoonup> 'v) \<Rightarrow> 'v evaluator" where
  "working_evaluator working = \<lparr>stack = [], dictionary = working, assigned = Map.empty\<rparr>"

text \<open>The loop over \<open>register_rules_\<close>: it stops at the first rule that fails.\<close>

fun find_register_values ::
  "('w::len word) memory \<Rightarrow> (string \<rightharpoonup> 'w word) \<Rightarrow> (string, string) std_map \<Rightarrow> (string \<rightharpoonup> 'w word)
     \<Rightarrow> status \<times> (string \<rightharpoonup> 'w word)" where
  "find_register_values memory working [] caller_registers = (Ok, caller_registers)"
| "find_register_values memory working ((name, rule) # rules) caller_registers =
     (case EvaluateForValue (Some memory) rule (working_evaluator working) of
        (Ok, Some value, _) \<Rightarrow>
          find_register_values memory working rules (caller_registers(name \<mapsto> value))
      | (Ok, None, _) \<Rightarrow> (Failed, caller_registers)
      | (r, _, _) \<Rightarrow> (r, caller_registers))"

definition FindCallerRegs ::
  "CFIFrameInfo \<Rightarrow> (string \<rightharpoonup> 'w::len word) \<Rightarrow> 'w word memory \<Rightarrow> (string \<rightharpoonup> 'w word)
     \<Rightarrow> status \<times> (string \<rightharpoonup> 'w word)" where
  "FindCallerRegs info registers memory caller_registers =
     (if cfa_rule info = [] \<or> ra_rule info = [] then (Failed, caller_registers)
      else
        case EvaluateForValue (Some memory) (cfa_rule info) (working_evaluator registers) of
          (Ok, Some cfa, _) \<Rightarrow>
            (let working = registers(''.cfa'' \<mapsto> cfa) in
             case EvaluateForValue (Some memory) (ra_rule info) (working_evaluator working) of
               (Ok, Some ra, _) \<Rightarrow>
                 (case find_register_values memory working (register_rules info) Map.empty of
                    (Ok, regs) \<Rightarrow> (Ok, regs(''.ra'' \<mapsto> ra, ''.cfa'' \<mapsto> cfa))
                  | (r, regs) \<Rightarrow> (r, regs))
             | (Ok, None, _) \<Rightarrow> (Failed, Map.empty)
             | (r, _, _) \<Rightarrow> (r, Map.empty))
        | (Ok, None, _) \<Rightarrow> (Failed, Map.empty)
        | (r, _, _) \<Rightarrow> (r, Map.empty))"

section \<open>Printing and parsing\<close>

definition with_space :: "string \<Rightarrow> string" where
  "with_space s = (if s \<noteq> [] then s @ '' '' else s)"

fun serialize_rules :: "(string, string) std_map \<Rightarrow> string \<Rightarrow> string" where
  "serialize_rules [] s = s"
| "serialize_rules ((name, rule) # rules) s =
     serialize_rules rules (with_space s @ name @ '': '' @ rule)"

definition CFIFrameInfo_Serialize :: "CFIFrameInfo \<Rightarrow> string" where
  "CFIFrameInfo_Serialize info =
     (let s0 = (if cfa_rule info \<noteq> [] then ''.cfa: '' @ cfa_rule info else []);
          s1 = (if ra_rule info \<noteq> [] then with_space s0 @ ''.ra: '' @ ra_rule info else s0)
      in serialize_rules (register_rules info) s1)"

text \<open>The parser reports each rule to a handler, an interface of three operations.\<close>

record 'h Handler =
  h_CFARule :: "string \<Rightarrow> 'h \<Rightarrow> 'h"
  h_RARule :: "string \<Rightarrow> 'h \<Rightarrow> 'h"
  h_RegisterRule :: "string \<Rightarrow> string \<Rightarrow> 'h \<Rightarrow> 'h"

definition CFIRuleParser_Report :: "'h Handler \<Rightarrow> string \<Rightarrow> string \<Rightarrow> 'h \<Rightarrow> bool \<times> 'h" where
  "CFIRuleParser_Report handler name expression s =
     (if name = [] \<or> expression = [] then (False, s)
      else if name = ''.cfa'' then (True, h_CFARule handler expression s)
      else if name = ''.ra'' then (True, h_RARule handler expression s)
      else (True, h_RegisterRule handler name expression s))"

fun cfi_parse_tokens ::
  "'h Handler \<Rightarrow> string list \<Rightarrow> string \<Rightarrow> string \<Rightarrow> 'h \<Rightarrow> bool \<times> 'h" where
  "cfi_parse_tokens handler [] name expression s = CFIRuleParser_Report handler name expression s"
| "cfi_parse_tokens handler (token # ts) name expression s =
     (if 1 \<le> length token \<and> last token = CHR '':'' then
        (if length token < 2 then (False, s)
         else if name \<noteq> [] \<or> expression \<noteq> [] then
           (case CFIRuleParser_Report handler name expression s of
              (False, s') \<Rightarrow> (False, s')
            | (True, s') \<Rightarrow> cfi_parse_tokens handler ts (butlast token) [] s')
         else cfi_parse_tokens handler ts (butlast token) [] s)
      else cfi_parse_tokens handler ts name
             (if expression \<noteq> [] then expression @ '' '' @ token else token) s)"

definition token_break :: "char \<Rightarrow> bool" where
  "token_break c \<longleftrightarrow> of_char c \<in> {32, 9, 13, 10 :: nat}"

definition not_nul :: "char \<Rightarrow> bool" where
  "not_nul c \<longleftrightarrow> of_char c \<noteq> (0 :: nat)"

text \<open>\<open>strtok_r\<close> sees the text up to the first NUL.\<close>

definition CFIRuleParser_Parse :: "'h Handler \<Rightarrow> string \<Rightarrow> 'h \<Rightarrow> bool \<times> 'h" where
  "CFIRuleParser_Parse handler rule_set s =
     cfi_parse_tokens handler (tokens token_break (takeWhile not_nul rule_set)) [] [] s"

definition CFIFrameInfoParseHandler :: "CFIFrameInfo Handler" where
  "CFIFrameInfoParseHandler =
     \<lparr>h_CFARule = SetCFARule, h_RARule = SetRARule, h_RegisterRule = SetRegisterRule\<rparr>"

section \<open>The simple register walker\<close>

text \<open>One row of a walker's register table. A pointer to a context member is the pair of
  reading and writing that member.\<close>

record ('c, 'v) RegisterSet =
  rs_name :: string
  rs_alternate_name :: "string option"
  rs_callee_saves :: bool
  rs_validity_flag :: u32
  rs_get :: "'c \<Rightarrow> 'v"
  rs_set :: "'v \<Rightarrow> 'c \<Rightarrow> 'c"

fun callee_register_values ::
  "('c, 'v) RegisterSet list \<Rightarrow> 'c \<Rightarrow> u32 \<Rightarrow> (string \<rightharpoonup> 'v) \<Rightarrow> (string \<rightharpoonup> 'v)" where
  "callee_register_values [] callee_context callee_validity m = m"
| "callee_register_values (r # rs) callee_context callee_validity m =
     callee_register_values rs callee_context callee_validity
       (if callee_validity AND rs_validity_flag r \<noteq> 0
        then m(rs_name r \<mapsto> rs_get r callee_context) else m)"

fun populate_caller ::
  "('c, 'v) RegisterSet list \<Rightarrow> (string \<rightharpoonup> 'v) \<Rightarrow> 'c \<Rightarrow> u32 \<Rightarrow> 'c \<times> u32 \<Rightarrow> 'c \<times> u32" where
  "populate_caller [] caller_registers callee_context callee_validity res = res"
| "populate_caller (r # rs) caller_registers callee_context callee_validity (ctx, validity) =
     populate_caller rs caller_registers callee_context callee_validity
       (case caller_registers (rs_name r) of
          Some v \<Rightarrow> (rs_set r v ctx, validity OR rs_validity_flag r)
        | None \<Rightarrow>
            (case Option.bind (rs_alternate_name r) caller_registers of
               Some v \<Rightarrow> (rs_set r v ctx, validity OR rs_validity_flag r)
             | None \<Rightarrow>
                 if rs_callee_saves r \<and> callee_validity AND rs_validity_flag r \<noteq> 0
                 then (rs_set r (rs_get r callee_context) ctx, validity OR rs_validity_flag r)
                 else (ctx, validity)))"

text \<open>\<open>poison\<close> is the context after \<open>memset(caller_context, 0xda, ...)\<close>.\<close>

definition FindCallerRegisters ::
  "('c, 'w::len word) RegisterSet list \<Rightarrow> 'w word memory \<Rightarrow> CFIFrameInfo \<Rightarrow> 'c \<Rightarrow> u32 \<Rightarrow> 'c
     \<Rightarrow> status \<times> ('c \<times> u32) option" where
  "FindCallerRegisters register_map memory info callee_context callee_validity poison =
     (case FindCallerRegs info
             (callee_register_values register_map callee_context callee_validity Map.empty)
             memory Map.empty of
        (Ok, caller_registers) \<Rightarrow>
          (Ok, Some (populate_caller register_map caller_registers callee_context callee_validity
                       (poison, 0)))
      | (r, _) \<Rightarrow> (r, None))"

section \<open>Parsing undoes printing\<close>

lemma join_append: "xs \<noteq> [] \<Longrightarrow> ys \<noteq> [] \<Longrightarrow> join (xs @ ys) = join xs @ '' '' @ join ys"
  by (induction xs rule: join.induct) (auto simp: neq_Nil_conv)

lemma join_eq_Nil: "(\<forall>t\<in>set ts. t \<noteq> []) \<Longrightarrow> join ts = [] \<longleftrightarrow> ts = []"
  by (cases ts rule: join.cases) auto

definition clean_token :: "string \<Rightarrow> bool" where
  "clean_token t \<longleftrightarrow> t \<noteq> [] \<and> list_all (\<lambda>c. \<not> token_break c \<and> not_nul c) t"

text \<open>A rule as the parser leaves it: its tokens, none of which names a register,
  separated by single spaces.\<close>

definition rule_ok :: "string \<Rightarrow> bool" where
  "rule_ok r \<longleftrightarrow> r \<noteq> [] \<and> join (tokens token_break r) = r \<and> list_all not_nul r \<and>
     list_all (\<lambda>t. last t \<noteq> CHR '':'') (tokens token_break r)"

definition info_ok :: "CFIFrameInfo \<Rightarrow> bool" where
  "info_ok info \<longleftrightarrow> (cfa_rule info = [] \<or> rule_ok (cfa_rule info)) \<and>
     (ra_rule info = [] \<or> rule_ok (ra_rule info)) \<and> map_ok (register_rules info) \<and>
     list_all (\<lambda>(n, r). clean_token n \<and> n \<noteq> ''.cfa'' \<and> n \<noteq> ''.ra'' \<and> rule_ok r) (register_rules info)"

fun item_tokens :: "string \<times> string \<Rightarrow> string list" where
  "item_tokens (n, r) = (n @ '':'') # tokens token_break r"

definition info_items :: "CFIFrameInfo \<Rightarrow> (string \<times> string) list" where
  "info_items info = (if cfa_rule info \<noteq> [] then [(''.cfa'', cfa_rule info)] else []) @
     (if ra_rule info \<noteq> [] then [(''.ra'', ra_rule info)] else []) @ register_rules info"

definition items_ok :: "(string \<times> string) list \<Rightarrow> bool" where
  "items_ok xs \<longleftrightarrow> list_all (\<lambda>(n, r). clean_token n \<and> rule_ok r) xs"

lemma info_items_ok: "info_ok info \<Longrightarrow> items_ok (info_items info)"
  by (auto simp: info_ok_def items_ok_def info_items_def clean_token_def token_break_def not_nul_def
      list_all_iff)

lemma rule_tokens:
  assumes "rule_ok r"
  shows "tokens token_break r \<noteq> []" "join (tokens token_break r) = r"
    "\<forall>t\<in>set (tokens token_break r). clean_token t \<and> last t \<noteq> CHR '':''"
proof -
  show j: "join (tokens token_break r) = r" using assms by (simp add: rule_ok_def)
  show ne: "tokens token_break r \<noteq> []" using assms by (auto simp: rule_ok_def)
  have sub: "set t \<subseteq> set r" if "t \<in> set (tokens token_break r)" for t
  proof -
    have "t \<in> set ts \<Longrightarrow> set t \<subseteq> set (join ts)" for ts by (induction ts rule: join.induct) auto
    then show ?thesis using that j by metis
  qed
  show "\<forall>t\<in>set (tokens token_break r). clean_token t \<and> last t \<noteq> CHR '':''"
    using assms sub tokens_nonempty [of _ token_break r]
    by (fastforce simp: rule_ok_def clean_token_def list_all_iff)
qed

lemma item_tokens_clean:
  assumes "clean_token n" "rule_ok r" "t \<in> set (item_tokens (n, r))"
  shows "clean_token t"
  using assms rule_tokens(3) [OF assms(2)]
  by (auto simp: clean_token_def token_break_def not_nul_def)

lemma serialize_rules_join:
  assumes "items_ok rules" "\<forall>t\<in>set acc. t \<noteq> []"
  shows "serialize_rules rules (join acc) = join (acc @ concat (map item_tokens rules))"
  using assms
proof (induction rules arbitrary: acc)
  case (Cons nr rules)
  obtain n r where nr: "nr = (n, r)" by fastforce
  have ok: "clean_token n" "rule_ok r" "items_ok rules" using Cons.prems by (auto simp: items_ok_def nr)
  have it: "join (item_tokens (n, r)) = n @ '': '' @ r"
    using rule_tokens(1,2) [OF ok(2)] join_append [of "[n @ '':'']" "tokens token_break r"] by simp
  have s: "with_space (join acc) @ n @ '': '' @ r = join (acc @ item_tokens (n, r))"
    using Cons.prems(2) it join_append [of acc "item_tokens (n, r)"]
    by (cases "acc = []") (auto simp: with_space_def join_eq_Nil)
  have "\<forall>t\<in>set (acc @ item_tokens (n, r)). t \<noteq> []"
    using Cons.prems(2) item_tokens_clean [OF ok(1,2)] by (auto simp: clean_token_def)
  from Cons.IH [OF ok(3) this] show ?case
    by (simp only: nr serialize_rules.simps s list.map concat.simps append_assoc)
qed simp

lemma Serialize_join:
  assumes "info_ok info"
  shows "CFIFrameInfo_Serialize info = join (concat (map item_tokens (info_items info)))"
proof -
  have "serialize_rules (info_items info) (join []) = join ([] @ concat (map item_tokens (info_items info)))"
    using info_items_ok [OF assms] by (intro serialize_rules_join) auto
  moreover have "serialize_rules (info_items info) [] = CFIFrameInfo_Serialize info"
    by (simp add: info_items_def CFIFrameInfo_Serialize_def Let_def with_space_def)
  ultimately show ?thesis by simp
qed

text \<open>Reporting a list of rules, the specification of the parser.\<close>

fun report_all :: "'h Handler \<Rightarrow> (string \<times> string) list \<Rightarrow> 'h \<Rightarrow> 'h" where
  "report_all h [] s = s"
| "report_all h ((n, r) # xs) s = report_all h xs (snd (CFIRuleParser_Report h n r s))"

lemma parse_expression:
  assumes "\<forall>t\<in>set ts. t \<noteq> [] \<and> last t \<noteq> CHR '':''" "\<forall>t\<in>set acc. t \<noteq> []"
  shows "cfi_parse_tokens h (ts @ rest) n (join acc) s = cfi_parse_tokens h rest n (join (acc @ ts)) s"
  using assms
proof (induction ts arbitrary: acc)
  case (Cons t ts)
  have "(if join acc \<noteq> [] then join acc @ '' '' @ t else t) = join (acc @ [t])"
    using Cons.prems join_append [of acc "[t]"] by (cases "acc = []") (auto simp: join_eq_Nil)
  then show ?case using Cons.prems Cons.IH [of "acc @ [t]"] by auto
qed simp

lemma Report_ok: "n \<noteq> [] \<Longrightarrow> r \<noteq> [] \<Longrightarrow> fst (CFIRuleParser_Report h n r s)"
  by (simp add: CFIRuleParser_Report_def)

lemma parse_items_pending:
  assumes "items_ok xs" "clean_token n" "rule_ok r"
  shows "cfi_parse_tokens h (concat (map item_tokens xs)) n r s = (True, report_all h ((n, r) # xs) s)"
  using assms
proof (induction xs arbitrary: n r s)
  case Nil
  then show ?case using Report_ok [of n r h s] by (auto simp: clean_token_def rule_ok_def prod_eq_iff)
next
  case (Cons x xs)
  obtain n' r' where x: "x = (n', r')" by fastforce
  have ok: "clean_token n'" "rule_ok r'" "items_ok xs" using Cons.prems by (auto simp: items_ok_def x)
  have ne: "n \<noteq> []" "r \<noteq> []" "n' \<noteq> []" using Cons.prems ok by (auto simp: clean_token_def rule_ok_def)
  obtain s' where s': "CFIRuleParser_Report h n r s = (True, s')"
    using Report_ok [OF ne(1,2), of h s] by (metis eq_fst_iff)
  have "cfi_parse_tokens h (concat (map item_tokens (x # xs))) n r s =
      cfi_parse_tokens h (tokens token_break r' @ concat (map item_tokens xs)) n' (join []) s'"
    using ne s' by (simp add: x)
  also have "\<dots> = cfi_parse_tokens h (concat (map item_tokens xs)) n' r' s'"
    using rule_tokens [OF ok(2)] by (subst parse_expression) (auto simp: clean_token_def)
  also have "\<dots> = (True, report_all h ((n', r') # xs) s')" by (rule Cons.IH [OF ok(3,1,2)])
  finally show ?case using s' by (simp add: x)
qed

lemma parse_items:
  assumes "items_ok xs" "xs \<noteq> []"
  shows "cfi_parse_tokens h (concat (map item_tokens xs)) [] [] s = (True, report_all h xs s)"
proof -
  obtain n r ys where xs: "xs = (n, r) # ys" using assms(2) by (metis neq_Nil_conv surj_pair)
  have ok: "clean_token n" "rule_ok r" "items_ok ys" using assms(1) by (auto simp: items_ok_def xs)
  have "cfi_parse_tokens h (concat (map item_tokens xs)) [] [] s =
      cfi_parse_tokens h (tokens token_break r @ concat (map item_tokens ys)) n (join []) s"
    using ok by (simp add: xs clean_token_def)
  also have "\<dots> = cfi_parse_tokens h (concat (map item_tokens ys)) n r s"
    using rule_tokens [OF ok(2)] by (subst parse_expression) (auto simp: clean_token_def)
  finally show ?thesis using parse_items_pending [OF ok(3,1,2)] by (simp add: xs)
qed

lemma Parse_join:
  assumes "\<forall>t\<in>set ts. clean_token t"
  shows "CFIRuleParser_Parse h (join ts) s = cfi_parse_tokens h ts [] [] s"
proof -
  have "\<forall>c\<in>set (join ts). not_nul c"
    using assms by (induction ts rule: join.induct) (auto simp: clean_token_def list_all_iff not_nul_def)
  then have "takeWhile not_nul (join ts) = join ts" by simp
  moreover have "tokens token_break (join ts) = ts"
    using assms by (intro tokens_join) (auto simp: clean_token_def list_all_iff token_break_def)
  ultimately show ?thesis by (simp only: CFIRuleParser_Parse_def)
qed

lemma map_assign_last: "\<forall>x\<in>set m. fst x < k \<Longrightarrow> map_assign m k v = m @ [(k, v)]"
proof -
  assume a: "\<forall>x\<in>set m. fst x < k"
  then have "lower_bound m k = length m" by (induction m) auto
  then show ?thesis by (simp add: map_assign_def)
qed

lemma report_registers:
  assumes "map_ok (register_rules info @ xs)"
    and "list_all (\<lambda>(n, r). n \<noteq> [] \<and> n \<noteq> ''.cfa'' \<and> n \<noteq> ''.ra'' \<and> r \<noteq> []) xs"
  shows "report_all CFIFrameInfoParseHandler xs info =
    info\<lparr>register_rules := register_rules info @ xs\<rparr>"
  using assms
proof (induction xs arbitrary: info)
  case (Cons x xs)
  obtain n r where x: "x = (n, r)" by fastforce
  have "\<forall>y\<in>set (register_rules info). fst y < n"
    using Cons.prems(1) by (simp add: map_ok_append x)
  then have "snd (CFIRuleParser_Report CFIFrameInfoParseHandler n r info) =
      info\<lparr>register_rules := register_rules info @ [(n, r)]\<rparr>"
    using Cons.prems(2)
    by (simp add: x CFIRuleParser_Report_def CFIFrameInfoParseHandler_def SetRegisterRule_def map_assign_last)
  then show ?case
    using Cons.IH [of "info\<lparr>register_rules := register_rules info @ [(n, r)]\<rparr>"] Cons.prems by (simp add: x)
qed simp

lemma report_info:
  assumes "info_ok info"
  shows "report_all CFIFrameInfoParseHandler (info_items info) CFIFrameInfo_init = info"
proof -
  let ?i = "CFIFrameInfo_init\<lparr>cfa_rule := cfa_rule info, ra_rule := ra_rule info\<rparr>"
  have "report_all CFIFrameInfoParseHandler (info_items info) CFIFrameInfo_init =
      report_all CFIFrameInfoParseHandler (register_rules info) ?i"
    by (simp add: info_items_def CFIRuleParser_Report_def CFIFrameInfoParseHandler_def
        SetCFARule_def SetRARule_def CFIFrameInfo_init_def)
  also have "\<dots> = ?i\<lparr>register_rules := register_rules info\<rparr>"
    using report_registers [of ?i "register_rules info"] assms
    by (auto simp: info_ok_def CFIFrameInfo_init_def clean_token_def rule_ok_def list_all_iff)
  also have "\<dots> = info" by (simp add: CFIFrameInfo_init_def)
  finally show ?thesis .
qed


definition sample_info :: CFIFrameInfo where
  "sample_info = \<lparr>cfa_rule = ''$rsp 8 +'', ra_rule = ''.cfa 8 -'',
     register_rules = [(''$rbp'', ''$rbp''), (''$rsp'', ''.cfa'')]\<rparr>"

lemma sample_info_ok: "info_ok sample_info"
  by code_simp


section \<open>What evaluating a rule set yields\<close>

definition rule_value :: "('w::len word) memory \<Rightarrow> (string \<rightharpoonup> 'w word) \<Rightarrow> string \<Rightarrow> 'w word option" where
  "rule_value memory working rule =
     (case EvaluateForValue (Some memory) rule (working_evaluator working) of
        (Ok, v, _) \<Rightarrow> v
      | _ \<Rightarrow> None)"

lemma EvaluateForValue_Ok_Some: "EvaluateForValue m r st = (Ok, v, st') \<Longrightarrow> v \<noteq> None"
  by (auto simp: EvaluateForValue_def split: prod.splits status.splits if_splits option.splits)

lemma find_register_values_Ok:
  assumes "map_ok rules" "find_register_values memory working rules m = (Ok, regs)"
  shows "regs n = (case map_of rules n of Some r \<Rightarrow> rule_value memory working r | None \<Rightarrow> m n) \<and>
    (\<forall>r. map_of rules n = Some r \<longrightarrow> rule_value memory working r \<noteq> None)"
  using assms
proof (induction rules arbitrary: m)
  case (Cons nr rules)
  obtain n0 r0 where nr: "nr = (n0, r0)" by fastforce
  obtain v where v: "rule_value memory working r0 = Some v"
    and rest: "find_register_values memory working rules (m(n0 \<mapsto> v)) = (Ok, regs)"
    using Cons.prems(2) by (auto simp: nr rule_value_def split: prod.splits status.splits option.splits)
  have ok: "map_ok rules" "n0 \<notin> fst ` set rules" using Cons.prems(1) by (auto simp: map_ok_Cons nr)
  then have "map_of rules n0 = None" by (simp add: map_of_eq_None_iff)
  then show ?case using Cons.IH [OF ok(1) rest] v by (auto simp: nr split: option.splits if_splits)
qed simp

text \<open>When \<open>FindCallerRegs\<close> succeeds, the canonical frame address is the value of the CFA
  rule in the callee's registers, and the return address and every register rule is
  the value of that rule in the callee's registers extended with \<open>.cfa\<close>, whatever the
  order of the rules; nothing else is defined.\<close>

theorem FindCallerRegs_values:
  fixes registers :: "string \<rightharpoonup> 'w::len word"
  assumes "FindCallerRegs info registers memory c0 = (Ok, regs)" "map_ok (register_rules info)"
  shows "\<exists>cfa ra. rule_value memory registers (cfa_rule info) = Some cfa \<and>
      rule_value memory (registers(''.cfa'' \<mapsto> cfa)) (ra_rule info) = Some ra \<and>
      regs ''.cfa'' = Some cfa \<and> regs ''.ra'' = Some ra \<and>
      (\<forall>n. n \<noteq> ''.cfa'' \<longrightarrow> n \<noteq> ''.ra'' \<longrightarrow>
         regs n = Option.bind (map_of (register_rules info) n)
                    (rule_value memory (registers(''.cfa'' \<mapsto> cfa))))"
proof -
  obtain cfa ra regs' where
    c: "rule_value memory registers (cfa_rule info) = Some cfa"
    and r: "rule_value memory (registers(''.cfa'' \<mapsto> cfa)) (ra_rule info) = Some ra"
    and f: "find_register_values memory (registers(''.cfa'' \<mapsto> cfa)) (register_rules info) Map.empty = (Ok, regs')"
    and regs: "regs = regs'(''.ra'' \<mapsto> ra, ''.cfa'' \<mapsto> cfa)"
    using assms(1)
    by (auto simp: FindCallerRegs_def rule_value_def Let_def
        split: if_splits prod.splits status.splits option.splits)
  show ?thesis
    using c r find_register_values_Ok [OF assms(2) f]
    by (intro exI [of _ cfa] exI [of _ ra]) (auto simp: regs split: option.splits)
qed

lemma rule_expr:
  assumes "expr_ok e" "expr_eval (Some memory) working e = Some v" "join (postfix e) = rule"
  shows "EvaluateForValue (Some memory) rule (working_evaluator working) =
    (Ok, Some v, working_evaluator working)"
  using EvaluateForValue_expr [OF assms(1), of "working_evaluator working" "Some memory"] assms(2,3)
  by (simp add: working_evaluator_def)

lemma show_nat_8: "show_nat 8 = ''8''"
  by code_simp

lemmas rule_expr_simps = show_nat_8 name_token_def plain_token_def is_space_def binary_operation_def
  literal_of_def extract_unsigned_def is_digit_def show_word_def

lemma sample_info_regs:
  fixes c :: "string \<rightharpoonup> u64"
  assumes "c ''$rsp'' = Some 4096" "c ''$rbp'' = Some 7"
  shows "FindCallerRegs sample_info c (\<lambda>_. None) Map.empty =
    (Ok, [''$rbp'' \<mapsto> 7, ''$rsp'' \<mapsto> 4104, ''.ra'' \<mapsto> 4096, ''.cfa'' \<mapsto> 4104])"
proof -
  let ?w = "c(''.cfa'' \<mapsto> 4104)"
  have cfa: "EvaluateForValue (Some (\<lambda>_. None)) (cfa_rule sample_info) (working_evaluator c) =
      (Ok, Some 4104, working_evaluator c)"
    by (rule rule_expr [where e = "Bin BINARY_OP_ADD (Var ''$rsp'') (Const 8)"])
      (simp_all add: rule_expr_simps sample_info_def assms)
  have ra: "EvaluateForValue (Some (\<lambda>_. None)) (ra_rule sample_info) (working_evaluator ?w) =
      (Ok, Some 4096, working_evaluator ?w)"
    by (rule rule_expr [where e = "Bin BINARY_OP_SUBTRACT (Var ''.cfa'') (Const 8)"])
      (simp_all add: rule_expr_simps sample_info_def)
  have sp: "EvaluateForValue (Some (\<lambda>_. None)) ''.cfa'' (working_evaluator ?w) =
      (Ok, Some 4104, working_evaluator ?w)"
    by (rule rule_expr [where e = "Var ''.cfa''"]) (simp_all add: rule_expr_simps)
  have bp: "EvaluateForValue (Some (\<lambda>_. None)) ''$rbp'' (working_evaluator ?w) =
      (Ok, Some 7, working_evaluator ?w)"
    by (rule rule_expr [where e = "Var ''$rbp''"]) (simp_all add: rule_expr_simps assms)
  have rr: "register_rules sample_info = [(''$rbp'', ''$rbp''), (''$rsp'', ''.cfa'')]"
    "cfa_rule sample_info \<noteq> []" "ra_rule sample_info \<noteq> []" by (simp_all add: sample_info_def)
  show ?thesis by (simp add: FindCallerRegs_def rr cfa ra sp bp Let_def del: fun_upd_apply)
qed

theorem FindCallerRegs_values_witness:
  "FindCallerRegs sample_info [''$rsp'' \<mapsto> 4096 :: u64, ''$rbp'' \<mapsto> 7] (\<lambda>_. None) Map.empty =
     (Ok, [''$rbp'' \<mapsto> 7, ''$rsp'' \<mapsto> 4104, ''.ra'' \<mapsto> 4096, ''.cfa'' \<mapsto> 4104]) \<and>
   rule_value (\<lambda>_. None) [''$rsp'' \<mapsto> 4096 :: u64, ''$rbp'' \<mapsto> 7] (cfa_rule sample_info) = Some 4104"
proof -
  let ?c = "[''$rsp'' \<mapsto> 4096 :: u64, ''$rbp'' \<mapsto> 7]"
  have f: "FindCallerRegs sample_info ?c (\<lambda>_. None) Map.empty =
      (Ok, [''$rbp'' \<mapsto> 7, ''$rsp'' \<mapsto> 4104, ''.ra'' \<mapsto> 4096, ''.cfa'' \<mapsto> 4104])"
    by (rule sample_info_regs) simp_all
  have mo: "map_ok (register_rules sample_info)" using sample_info_ok by (simp add: info_ok_def)
  obtain cfa where "rule_value (\<lambda>_. None) ?c (cfa_rule sample_info) = Some cfa"
    "[''$rbp'' \<mapsto> 7, ''$rsp'' \<mapsto> 4104, ''.ra'' \<mapsto> 4096, ''.cfa'' \<mapsto> 4104 :: u64] ''.cfa'' = Some cfa"
    using FindCallerRegs_values [OF f mo] by blast
  then show ?thesis using f by simp
qed

section \<open>Register tables\<close>

definition recovered :: "('c, 'v) RegisterSet \<Rightarrow> (string \<rightharpoonup> 'v) \<Rightarrow> 'c \<Rightarrow> u32 \<Rightarrow> 'v option" where
  "recovered r regs callee validity =
     (case regs (rs_name r) of
        Some v \<Rightarrow> Some v
      | None \<Rightarrow>
          (case Option.bind (rs_alternate_name r) regs of
             Some v \<Rightarrow> Some v
           | None \<Rightarrow> if rs_callee_saves r \<and> validity AND rs_validity_flag r \<noteq> 0
                     then Some (rs_get r callee) else None))"

lemma populate_Cons:
  "populate_caller (r # rs) regs callee validity (ctx, va) =
     populate_caller rs regs callee validity
       (case recovered r regs callee validity of
          Some v \<Rightarrow> (rs_set r v ctx, va OR rs_validity_flag r)
        | None \<Rightarrow> (ctx, va))"
  by (auto simp: recovered_def split: option.split)

text \<open>The contract between a walker and its register table: the rows read and write
  independent members of the context, and their validity flags do not share bits.\<close>

locale register_table =
  fixes table :: "('c, 'v) RegisterSet list"
  assumes rows_distinct: "distinct table"
    and get_set_same: "r \<in> set table \<Longrightarrow> rs_get r (rs_set r v c) = v"
    and get_set_other: "r \<in> set table \<Longrightarrow> q \<in> set table \<Longrightarrow> r \<noteq> q \<Longrightarrow> rs_get q (rs_set r v c) = rs_get q c"
    and flag_nonzero: "r \<in> set table \<Longrightarrow> rs_validity_flag r \<noteq> 0"
    and flags_disjoint: "r \<in> set table \<Longrightarrow> q \<in> set table \<Longrightarrow> r \<noteq> q \<Longrightarrow>
      rs_validity_flag r AND rs_validity_flag q = 0"
begin

lemma populate_frame:
  assumes "set rs \<subseteq> set table" "q \<in> set table" "q \<notin> set rs"
  shows "rs_get q (fst (populate_caller rs regs callee validity res)) = rs_get q (fst res) \<and>
    snd (populate_caller rs regs callee validity res) AND rs_validity_flag q =
    snd res AND rs_validity_flag q"
  using assms
proof (induction rs arbitrary: res)
  case (Cons r rs)
  obtain ctx va where res: "res = (ctx, va)" by fastforce
  have "rs_validity_flag r AND rs_validity_flag q = 0" using Cons.prems by (intro flags_disjoint) auto
  then have "(va OR rs_validity_flag r) AND rs_validity_flag q = va AND rs_validity_flag q"
    by (simp add: bit.conj_disj_distrib2)
  moreover have "rs_get q (rs_set r v c) = rs_get q c" for v c
    using Cons.prems by (intro get_set_other) auto
  ultimately show ?case
    using Cons.IH Cons.prems
    by (cases "recovered r regs callee validity") (simp_all add: res populate_Cons del: populate_caller.simps)
qed simp

lemma populate_row:
  assumes "set rs \<subseteq> set table" "distinct rs" "q \<in> set rs" "snd res AND rs_validity_flag q = 0"
  shows "case recovered q regs callee validity of
      Some v \<Rightarrow> rs_get q (fst (populate_caller rs regs callee validity res)) = v \<and>
        snd (populate_caller rs regs callee validity res) AND rs_validity_flag q \<noteq> 0
    | None \<Rightarrow> snd (populate_caller rs regs callee validity res) AND rs_validity_flag q = 0"
  using assms
proof (induction rs arbitrary: res)
  case (Cons r rs)
  obtain ctx va where res: "res = (ctx, va)" by fastforce
  show ?case
  proof (cases "q = r")
    case True
    then have nin: "q \<notin> set rs" and q: "q \<in> set table" using Cons.prems by auto
    have fl: "(va OR rs_validity_flag q) AND rs_validity_flag q \<noteq> 0"
      using flag_nonzero [OF q] by (simp add: bit.conj_disj_distrib2 Cons.prems(4) [unfolded res snd_conv])
    show ?thesis
      using populate_frame [of rs q] Cons.prems nin q fl get_set_same [OF q]
      by (cases "recovered q regs callee validity")
        (simp_all add: res True [symmetric] populate_Cons del: populate_caller.simps)
  next
    case False
    then have q: "q \<in> set rs" "q \<in> set table" "r \<in> set table" using Cons.prems by auto
    have d: "rs_validity_flag r AND rs_validity_flag q = 0" using flags_disjoint q False by blast
    have va: "va AND rs_validity_flag q = 0" "(va OR rs_validity_flag r) AND rs_validity_flag q = 0"
      using Cons.prems(4) d by (simp_all add: res bit.conj_disj_distrib2)
    then show ?thesis
      using Cons.IH Cons.prems q
      by (cases "recovered r regs callee validity"; cases "recovered q regs callee validity")
        (simp_all add: res populate_Cons del: populate_caller.simps)
  qed
qed simp

lemma populate_caller_spec:
  assumes "q \<in> set table"
  shows "case recovered q regs callee validity of
      Some v \<Rightarrow> rs_get q (fst (populate_caller table regs callee validity (poison, 0))) = v \<and>
        snd (populate_caller table regs callee validity (poison, 0)) AND rs_validity_flag q \<noteq> 0
    | None \<Rightarrow> snd (populate_caller table regs callee validity (poison, 0)) AND rs_validity_flag q = 0"
  using populate_row [OF order.refl rows_distinct assms, of "(poison, 0)"] by simp

end

text \<open>For a concrete table the laws follow from a check of each row and of each pair of rows.\<close>

definition row_ok :: "('c, 'v) RegisterSet \<Rightarrow> bool" where
  "row_ok r \<longleftrightarrow> (\<forall>v c. rs_get r (rs_set r v c) = v) \<and> rs_validity_flag r \<noteq> 0"

definition rows_independent :: "('c, 'v) RegisterSet \<Rightarrow> ('c, 'v) RegisterSet \<Rightarrow> bool" where
  "rows_independent r q \<longleftrightarrow> rs_name r \<noteq> rs_name q \<and>
     (\<forall>v c. rs_get q (rs_set r v c) = rs_get q c) \<and> (\<forall>v c. rs_get r (rs_set q v c) = rs_get r c) \<and>
     rs_validity_flag r AND rs_validity_flag q = 0"

lemma rows_independent_commute: "rows_independent r q = rows_independent q r"
  by (auto simp: rows_independent_def and.commute)

lemma register_tableI:
  assumes "list_all row_ok table" "sorted_wrt rows_independent table"
  shows "register_table table"
proof -
  have ind: "rows_independent r q" if rq: "r \<in> set table" "q \<in> set table" "r \<noteq> q" for r q
  proof -
    obtain i j where ij: "i < length table" "r = table ! i" "j < length table" "q = table ! j"
      using rq(1,2) by (auto simp: in_set_conv_nth)
    with rq(3) have "i < j \<or> j < i" by (metis nat_neq_iff)
    then show ?thesis
      using ij assms(2) rows_independent_commute by (auto simp: sorted_wrt_iff_nth_less)
  qed
  have "distinct table"
    using assms(2) by (induction table) (auto simp: rows_independent_def)
  then show ?thesis
    using assms(1) ind by unfold_locales (auto simp: list_all_iff row_ok_def rows_independent_def)
qed

end
