(* ===== verification/Code_Modules.thy ===== *)
theory Code_Modules
  imports Range_Map
begin

text \<open>
  Code modules (\<open>google_breakpad/processor/code_module.h\<close>, \<open>code_modules.h\<close>,
  \<open>processor/basic_code_module.h\<close>, \<open>basic_code_modules.cc\<close>): the interface the stack
  walkers use to ask which module an address belongs to, and the implementation
  that keeps the modules in a \<open>RangeMap\<close>. A pointer to a module is the module's value;
  \<open>NULL\<close> is \<open>None\<close>.
\<close>

section \<open>Modules and the two interfaces\<close>

record CodeModule =
  base_address :: u64
  module_size :: u64
  shrink_down_delta :: u64
  code_file :: string
  module_code_identifier :: string
  debug_file :: string
  debug_identifier :: string
  version :: string
  is_unloaded :: bool

definition CodeModule_Copy :: "CodeModule \<Rightarrow> CodeModule" where
  "CodeModule_Copy that =
     \<lparr>base_address = base_address that, module_size = module_size that,
      shrink_down_delta = shrink_down_delta that, code_file = code_file that,
      module_code_identifier = module_code_identifier that, debug_file = debug_file that,
      debug_identifier = debug_identifier that, version = version that,
      is_unloaded = is_unloaded that\<rparr>"

definition SetShrinkDownDelta :: "u64 \<Rightarrow> CodeModule \<Rightarrow> CodeModule" where
  "SetShrinkDownDelta d m = m\<lparr>shrink_down_delta := d\<rparr>"

record CodeModules =
  cms_module_count :: nat
  cms_GetModuleForAddress :: "u64 \<Rightarrow> CodeModule option"
  cms_GetMainModule :: "CodeModule option"
  cms_GetModuleAtSequence :: "nat \<Rightarrow> CodeModule option"
  cms_GetModuleAtIndex :: "nat \<Rightarrow> CodeModule option"
  cms_GetShrunkRangeModules :: "CodeModule list"
  cms_IsModuleShrinkEnabled :: bool

section \<open>BasicCodeModules\<close>

record BasicCodeModules =
  main_address :: u64
  bcm_map :: "(u64, CodeModule option) RangeMap"
  shrunk_range_modules :: "CodeModule list"

definition BasicCodeModules_module_count :: "BasicCodeModules \<Rightarrow> nat" where
  "BasicCodeModules_module_count b = RangeMap_GetCount (bcm_map b)"

definition BasicCodeModules_GetModuleForAddress :: "BasicCodeModules \<Rightarrow> u64 \<Rightarrow> CodeModule option" where
  "BasicCodeModules_GetModuleForAddress b address =
     (case RangeMap_RetrieveRange (bcm_map b) address of
        None \<Rightarrow> None
      | Some (module, _) \<Rightarrow> module)"

definition BasicCodeModules_GetMainModule :: "BasicCodeModules \<Rightarrow> CodeModule option" where
  "BasicCodeModules_GetMainModule b = BasicCodeModules_GetModuleForAddress b (main_address b)"

definition BasicCodeModules_GetModuleAtSequence :: "BasicCodeModules \<Rightarrow> nat \<Rightarrow> CodeModule option" where
  "BasicCodeModules_GetModuleAtSequence b sequence =
     (case RangeMap_RetrieveRangeAtIndex (bcm_map b) sequence of
        None \<Rightarrow> None
      | Some (module, _) \<Rightarrow> module)"

definition BasicCodeModules_GetModuleAtIndex :: "BasicCodeModules \<Rightarrow> nat \<Rightarrow> CodeModule option" where
  "BasicCodeModules_GetModuleAtIndex b index = BasicCodeModules_GetModuleAtSequence b index"

definition BasicCodeModules_GetShrunkRangeModules :: "BasicCodeModules \<Rightarrow> CodeModule list" where
  "BasicCodeModules_GetShrunkRangeModules b = shrunk_range_modules b"

definition BasicCodeModules_IsModuleShrinkEnabled :: "BasicCodeModules \<Rightarrow> bool" where
  "BasicCodeModules_IsModuleShrinkEnabled b = RangeMap_IsShrinkDownEnabled (bcm_map b)"

definition BasicCodeModules_interface :: "BasicCodeModules \<Rightarrow> CodeModules" where
  "BasicCodeModules_interface b =
     \<lparr>cms_module_count = BasicCodeModules_module_count b,
      cms_GetModuleForAddress = BasicCodeModules_GetModuleForAddress b,
      cms_GetMainModule = BasicCodeModules_GetMainModule b,
      cms_GetModuleAtSequence = BasicCodeModules_GetModuleAtSequence b,
      cms_GetModuleAtIndex = BasicCodeModules_GetModuleAtIndex b,
      cms_GetShrunkRangeModules = BasicCodeModules_GetShrunkRangeModules b,
      cms_IsModuleShrinkEnabled = BasicCodeModules_IsModuleShrinkEnabled b\<rparr>"

text \<open>The two loops of the copying constructor. \<open>None\<close> is the crash on a null module.\<close>

fun store_modules ::
  "CodeModules \<Rightarrow> nat list \<Rightarrow> (u64, CodeModule option) RangeMap \<Rightarrow> (u64, CodeModule option) RangeMap option" where
  "store_modules that [] m = Some m"
| "store_modules that (i # is) m =
     (case cms_GetModuleAtIndex that i of
        None \<Rightarrow> None
      | Some p \<Rightarrow>
          (let module = CodeModule_Copy p
           in store_modules that is
                (snd (RangeMap_StoreRange None m (base_address module) (module_size module) (Some module)))))"

fun report_shrunk ::
  "CodeModules \<Rightarrow> (u64, CodeModule option) RangeMap \<Rightarrow> nat list \<Rightarrow> CodeModule list \<Rightarrow> CodeModule list option" where
  "report_shrunk that m [] acc = Some acc"
| "report_shrunk that m (i # is) acc =
     (case cms_GetModuleAtIndex that i of
        None \<Rightarrow> None
      | Some p \<Rightarrow>
          (let module = CodeModule_Copy p in
           case RangeMap_RetrieveRange m (base_address module + module_size module - 1) of
             Some (Some found, _, delta, _) \<Rightarrow>
               if 0 < delta
               then report_shrunk that m is (acc @ [SetShrinkDownDelta delta (CodeModule_Copy found)])
               else report_shrunk that m is acc
           | Some (None, _, delta, _) \<Rightarrow>
               if 0 < delta then None else report_shrunk that m is acc
           | None \<Rightarrow> report_shrunk that m is acc))"

definition BasicCodeModules_of :: "CodeModules \<Rightarrow> BasicCodeModules option" where
  "BasicCodeModules_of that =
     (let main = (case cms_GetMainModule that of None \<Rightarrow> 0 | Some m \<Rightarrow> base_address m);
          is = [0 ..< cms_module_count that]
      in case store_modules that is
                (RangeMap_SetEnableShrinkDown RangeMap_init (cms_IsModuleShrinkEnabled that)) of
           None \<Rightarrow> None
         | Some m \<Rightarrow>
             (case report_shrunk that m is [] of
                None \<Rightarrow> None
              | Some shrunk \<Rightarrow>
                  Some \<lparr>main_address = main, bcm_map = m, shrunk_range_modules = shrunk\<rparr>))"

definition BasicCodeModules_Copy :: "BasicCodeModules \<Rightarrow> CodeModules option" where
  "BasicCodeModules_Copy b =
     map_option BasicCodeModules_interface (BasicCodeModules_of (BasicCodeModules_interface b))"

section \<open>What the constructed map holds\<close>

lemma CodeModule_Copy_id [simp]: "CodeModule_Copy m = m"
  by (simp add: CodeModule_Copy_def)

text \<open>A stored range carries a module of the list and lies inside that module's range.\<close>

definition holds_module :: "CodeModule set \<Rightarrow> u64 \<times> (u64, CodeModule option) Range \<Rightarrow> bool" where
  "holds_module M hr \<longleftrightarrow> (\<exists>m\<in>M. r_entry (snd hr) = Some m \<and> module_size m \<noteq> 0 \<and>
     base_address m \<le> base_address m + (module_size m - 1) \<and>
     fst hr = base_address m + (module_size m - 1) \<and> base_address m \<le> r_base (snd hr) \<and>
     r_base (snd hr) - r_delta (snd hr) = base_address m)"

lemma holds_module_keeps: "holds_module M x \<Longrightarrow> keeps x y \<Longrightarrow> holds_module M y"
  by (auto simp: holds_module_def keeps_def)

lemma holds_module_mono: "holds_module M x \<Longrightarrow> M \<subseteq> N \<Longrightarrow> holds_module N x"
  by (auto simp: holds_module_def)

lemma store_holds_module:
  assumes "RangeMap_ok m" "\<forall>hr\<in>set (rmap m). holds_module M hr" "p \<in> M"
    and "y \<in> set (rmap (snd (RangeMap_StoreRange None m (base_address p) (module_size p) (Some p))))"
  shows "holds_module M y"
proof -
  from StoreRange_entries [OF assms(1,4)] show ?thesis
  proof (elim disjE bexE conjE)
    fix x assume "x \<in> set (rmap m)" "keeps x y"
    then show ?thesis using assms(2) holds_module_keeps by blast
  qed (use assms(3) in \<open>auto simp: holds_module_def\<close>)
qed

lemma store_modules_holds:
  assumes "store_modules that is m = Some m'" "RangeMap_ok m" "\<forall>hr\<in>set (rmap m). holds_module M hr"
    and "\<forall>i\<in>set is. \<forall>p. cms_GetModuleAtIndex that i = Some p \<longrightarrow> p \<in> M"
  shows "RangeMap_ok m' \<and> (\<forall>hr\<in>set (rmap m'). holds_module M hr)"
  using assms
proof (induction "is" arbitrary: m)
  case (Cons i "is")
  then obtain p where p: "cms_GetModuleAtIndex that i = Some p" by (auto split: option.splits)
  let ?m = "snd (RangeMap_StoreRange None m (base_address p) (module_size p) (Some p))"
  have "RangeMap_ok ?m" using Cons.prems(2) by (simp add: RangeMap_StoreRange_def StoreRange_ok)
  moreover have "p \<in> M" using Cons.prems(4) p by simp
  then have "\<forall>hr\<in>set (rmap ?m). holds_module M hr"
    using store_holds_module [OF Cons.prems(2,3)] by blast
  ultimately show ?case using Cons.IH [of ?m] Cons.prems p by simp
qed simp

lemma RangeMap_shrink_init_ok:
  "RangeMap_ok (RangeMap_SetEnableShrinkDown RangeMap_init b)"
  "rmap (RangeMap_SetEnableShrinkDown RangeMap_init b) = []"
  by (simp_all add: RangeMap_ok_def RangeMap_SetEnableShrinkDown_def RangeMap_init_def ranges_ok_def)

definition listed_modules :: "CodeModules \<Rightarrow> CodeModule set" where
  "listed_modules that = {p. \<exists>i < cms_module_count that. cms_GetModuleAtIndex that i = Some p}"

lemma BasicCodeModules_of_holds:
  assumes "BasicCodeModules_of that = Some b"
  shows "RangeMap_ok (bcm_map b) \<and> (\<forall>hr\<in>set (rmap (bcm_map b)). holds_module (listed_modules that) hr)"
proof -
  obtain m where m: "store_modules that [0 ..< cms_module_count that]
      (RangeMap_SetEnableShrinkDown RangeMap_init (cms_IsModuleShrinkEnabled that)) = Some m"
    and b: "bcm_map b = m"
    using assms by (auto simp: BasicCodeModules_of_def Let_def split: option.splits)
  show ?thesis unfolding b
    by (rule store_modules_holds [OF m RangeMap_shrink_init_ok(1)])
      (auto simp: RangeMap_shrink_init_ok listed_modules_def)
qed

text \<open>A module that \<open>GetModuleForAddress\<close> returns is one of the modules the object was built
  from and its own address range contains the address, also when overlapping modules
  made the map shrink ranges.\<close>

theorem GetModuleForAddress_sound:
  assumes "BasicCodeModules_of that = Some b" "BasicCodeModules_GetModuleForAddress b a = Some p"
  shows "p \<in> listed_modules that \<and> base_address p \<le> a \<and> a - base_address p < module_size p"
proof -
  note h = BasicCodeModules_of_holds [OF assms(1)]
  obtain r where r: "RangeMap_RetrieveRange (bcm_map b) a = Some (Some p, r)"
    using assms(2) by (auto simp: BasicCodeModules_GetModuleForAddress_def split: option.splits)
  obtain hr where hr: "hr \<in> set (rmap (bcm_map b))" "in_range a hr" "r_entry (snd hr) = Some p"
    using RetrieveRange_Some [OF h [THEN conjunct1], THEN iffD1, OF r] by (auto simp: range_result_def)
  then have p: "p \<in> listed_modules that" "module_size p \<noteq> 0" "base_address p \<le> r_base (snd hr)"
    "base_address p \<le> base_address p + (module_size p - 1)" "fst hr = base_address p + (module_size p - 1)"
    using h by (auto simp: holds_module_def)
  have lo: "base_address p \<le> a" "a \<le> base_address p + (module_size p - 1)"
    using hr(2) p(3,5) by (auto simp: in_range_def)
  have "unat (a - base_address p) \<le> unat (module_size p - 1)"
    using lo unat_add_nowrap [OF p(4)] unat_sub_le [OF lo(1)] by (simp add: word_le_nat_alt)
  then have "a - base_address p < module_size p"
    using unat_minus_1 [OF p(2)] unat_ge_1 [OF p(2)] by (simp add: word_less_nat_alt)
  then show ?thesis using p(1) lo(1) by blast
qed

section \<open>Evaluation on two overlapping modules\<close>

definition sample_module :: "u64 \<Rightarrow> u64 \<Rightarrow> string \<Rightarrow> CodeModule" where
  "sample_module base sz file =
     \<lparr>base_address = base, module_size = sz, shrink_down_delta = 0, code_file = file,
      module_code_identifier = [], debug_file = file, debug_identifier = [], version = [], is_unloaded = False\<rparr>"

definition sample_modules :: CodeModules where
  "sample_modules =
     \<lparr>cms_module_count = 2, cms_GetModuleForAddress = (\<lambda>_. None), cms_GetMainModule = None,
      cms_GetModuleAtSequence = (\<lambda>_. None),
      cms_GetModuleAtIndex = (\<lambda>i. if i = 0 then Some (sample_module 4096 4096 ''a'')
         else if i = 1 then Some (sample_module 6144 4096 ''b'') else None),
      cms_GetShrunkRangeModules = [], cms_IsModuleShrinkEnabled = True\<rparr>"

definition sample_basic_modules :: BasicCodeModules where
  "sample_basic_modules =
     \<lparr>main_address = 0, bcm_map = \<lparr>enable_shrink_down = True,
        rmap = [(8191, \<lparr>r_base = 4096, r_delta = 0, r_entry = Some (sample_module 4096 4096 ''a'')\<rparr>),
                (10239, \<lparr>r_base = 8192, r_delta = 2048, r_entry = Some (sample_module 6144 4096 ''b'')\<rparr>)]\<rparr>,
      shrunk_range_modules = [SetShrinkDownDelta 2048 (sample_module 6144 4096 ''b'')]\<rparr>"

lemma sample_basic_modules_of: "BasicCodeModules_of sample_modules = Some sample_basic_modules"
  by code_simp

theorem GetModuleForAddress_sound_witness:
  "BasicCodeModules_GetModuleForAddress sample_basic_modules 9000 = Some (sample_module 6144 4096 ''b'') \<and>
   sample_module 6144 4096 ''b'' \<in> listed_modules sample_modules"
proof -
  have e: "BasicCodeModules_GetModuleForAddress sample_basic_modules 9000 = Some (sample_module 6144 4096 ''b'')"
    by code_simp
  show ?thesis using e GetModuleForAddress_sound [OF sample_basic_modules_of e] by simp
qed

end
