(* ===== verification/Windows_Frame_Info.thy ===== *)
theory Windows_Frame_Info
  imports Bp_Strings
begin

text \<open>
  \<open>STACK WIN\<close> records (\<open>processor/windows_frame_info.h\<close>): the structure, its
  constructors and the parser of its textual form.
\<close>

datatype StackInfoTypes = STACK_INFO_FPO | STACK_INFO_TRAP | STACK_INFO_TSS | STACK_INFO_STANDARD
  | STACK_INFO_FRAME_DATA | STACK_INFO_UNKNOWN

record WindowsFrameInfo =
  wfi_type :: StackInfoTypes
  valid :: u32
  prolog_size :: u32
  epilog_size :: u32
  parameter_size :: u32
  saved_register_size :: u32
  local_size :: u32
  max_stack_size :: u32
  allocates_base_pointer :: bool
  program_string :: string

definition VALID_NONE :: u32 where
  "VALID_NONE = 0"

definition VALID_PARAMETER_SIZE :: u32 where
  "VALID_PARAMETER_SIZE = 1"

definition VALID_ALL :: u32 where
  "VALID_ALL = - 1"


definition WindowsFrameInfo_init :: WindowsFrameInfo where
  "WindowsFrameInfo_init =
     \<lparr>wfi_type = STACK_INFO_UNKNOWN, valid = VALID_NONE, prolog_size = 0, epilog_size = 0,
      parameter_size = 0, saved_register_size = 0, local_size = 0, max_stack_size = 0,
      allocates_base_pointer = False, program_string = []\<rparr>"

definition WindowsFrameInfo_make ::
  "StackInfoTypes \<Rightarrow> u32 \<Rightarrow> u32 \<Rightarrow> u32 \<Rightarrow> u32 \<Rightarrow> u32 \<Rightarrow> u32 \<Rightarrow> u32 \<Rightarrow> string \<Rightarrow> WindowsFrameInfo" where
  "WindowsFrameInfo_make type prolog epilog parameter saved_register local max_stack allocates program =
     \<lparr>wfi_type = type, valid = VALID_ALL, prolog_size = prolog, epilog_size = epilog,
      parameter_size = parameter, saved_register_size = saved_register, local_size = local,
      max_stack_size = max_stack, allocates_base_pointer = (allocates \<noteq> 0), program_string = program\<rparr>"

definition WindowsFrameInfo_CopyFrom :: "WindowsFrameInfo \<Rightarrow> WindowsFrameInfo \<Rightarrow> WindowsFrameInfo" where
  "WindowsFrameInfo_CopyFrom this that =
     this\<lparr>wfi_type := wfi_type that, valid := valid that, prolog_size := prolog_size that,
      epilog_size := epilog_size that, parameter_size := parameter_size that,
      saved_register_size := saved_register_size that, local_size := local_size that,
      max_stack_size := max_stack_size that, allocates_base_pointer := allocates_base_pointer that,
      program_string := program_string that\<rparr>"

definition WindowsFrameInfo_Clear :: "WindowsFrameInfo \<Rightarrow> WindowsFrameInfo" where
  "WindowsFrameInfo_Clear this =
     this\<lparr>wfi_type := STACK_INFO_UNKNOWN, valid := VALID_NONE, program_string := []\<rparr>"

definition StackInfoTypes_of :: "u32 \<Rightarrow> StackInfoTypes option" where
  "StackInfoTypes_of n =
     (if n = 0 then Some STACK_INFO_FPO else if n = 1 then Some STACK_INFO_TRAP
      else if n = 2 then Some STACK_INFO_TSS else if n = 3 then Some STACK_INFO_STANDARD
      else if n = 4 then Some STACK_INFO_FRAME_DATA else None)"

definition stack_separator :: "char \<Rightarrow> bool" where
  "stack_separator c \<longleftrightarrow> of_char c \<in> {32, 13, 10 :: nat}"

text \<open>The type, the address, the code size and the record. The type is an \<open>int\<close>: any value
  outside 0 to 4, negative ones included, is refused.\<close>

definition WindowsFrameInfo_ParseFromString ::
  "string \<Rightarrow> (StackInfoTypes \<times> u64 \<times> u64 \<times> WindowsFrameInfo) option" where
  "WindowsFrameInfo_ParseFromString s =
     (case Tokenize s stack_separator 11 of
        None \<Rightarrow> None
      | Some ts \<Rightarrow>
          (case StackInfoTypes_of (ucast (strtol_hex (ts ! 0))) of
             None \<Rightarrow> None
           | Some type \<Rightarrow>
               (let rva = fst (strtoull_hex (ts ! 1));
                    code_size = fst (strtoull_hex (ts ! 2));
                    has_program_string = strtoul_hex32 (ts ! 9);
                    program = (if has_program_string \<noteq> 0 then ts ! 10 else []);
                    allocates = (if has_program_string \<noteq> 0 then 0 else strtoul_hex32 (ts ! 10))
                in Some (type, rva, code_size,
                     WindowsFrameInfo_make type (strtoul_hex32 (ts ! 3)) (strtoul_hex32 (ts ! 4))
                       (strtoul_hex32 (ts ! 5)) (strtoul_hex32 (ts ! 6)) (strtoul_hex32 (ts ! 7))
                       (strtoul_hex32 (ts ! 8)) allocates program))))"

lemma WindowsFrameInfo_CopyFrom_eq [simp]: "WindowsFrameInfo_CopyFrom this that = that"
  by (simp add: WindowsFrameInfo_CopyFrom_def)

lemma WindowsFrameInfo_parsed:
  assumes "WindowsFrameInfo_ParseFromString s = Some (type, rva, code_size, info)"
  shows "valid info = VALID_ALL" "wfi_type info = type" "type \<noteq> STACK_INFO_UNKNOWN"
    "program_string info \<noteq> [] \<Longrightarrow> \<not> allocates_base_pointer info"
  using assms
  by (auto simp: WindowsFrameInfo_ParseFromString_def WindowsFrameInfo_make_def StackInfoTypes_of_def Let_def
      split: option.splits if_splits)

end
