(* ===== verification/Stack_Frame_Symbolizer.thy ===== *)
theory Stack_Frame_Symbolizer
  imports Code_Modules Cfi_Frame_Info Windows_Frame_Info
begin

text \<open>
  Stack frames and their symbolization (\<open>google_breakpad/processor/stack_frame.h\<close>,
  \<open>processor/stack_frame_symbolizer.cc\<close>). The symbol supplier and the source line
  resolver are abstract classes in the code; here they are records of functions over
  a state of their own, so that every call that may change them is visible.
\<close>

section \<open>Frames\<close>

datatype FrameTrust = FRAME_TRUST_NONE | FRAME_TRUST_SCAN | FRAME_TRUST_CFI_SCAN | FRAME_TRUST_FP
  | FRAME_TRUST_CFI | FRAME_TRUST_PREWALKED | FRAME_TRUST_CONTEXT

record StackFrame =
  instruction :: u64
  frame_module :: "CodeModule option"
  function_name :: string
  function_base :: u64
  source_file_name :: string
  source_line :: u32
  source_line_base :: u64
  trust :: FrameTrust

definition StackFrame_init :: StackFrame where
  "StackFrame_init =
     \<lparr>instruction = 0, frame_module = None, function_name = [], function_base = 0,
      source_file_name = [], source_line = 0, source_line_base = 0, trust = FRAME_TRUST_NONE\<rparr>"

fun trust_text :: "FrameTrust \<Rightarrow> string" where
  "trust_text FRAME_TRUST_CONTEXT = ''given as instruction pointer in context''"
| "trust_text FRAME_TRUST_PREWALKED = ''recovered by external stack walker''"
| "trust_text FRAME_TRUST_CFI = ''call frame info''"
| "trust_text FRAME_TRUST_CFI_SCAN = ''call frame info with scanning''"
| "trust_text FRAME_TRUST_FP = ''previous frame's frame pointer''"
| "trust_text FRAME_TRUST_SCAN = ''stack scanning''"
| "trust_text FRAME_TRUST_NONE = ''unknown''"

definition trust_description :: "StackFrame \<Rightarrow> string" where
  "trust_description f = trust_text (trust f)"

record SystemInfo =
  os :: string
  os_short :: string
  os_version :: string
  cpu :: string
  cpu_info :: string
  cpu_count :: u32
  gl_version :: string
  gl_vendor :: string
  gl_renderer :: string

definition SystemInfo_init :: SystemInfo where
  "SystemInfo_init =
     \<lparr>os = [], os_short = [], os_version = [], cpu = [], cpu_info = [], cpu_count = 0,
      gl_version = [], gl_vendor = [], gl_renderer = []\<rparr>"

section \<open>The two interfaces\<close>

datatype SymbolResult = NOT_FOUND | FOUND string | INTERRUPT

record 'p SymbolSupplier =
  sup_GetCStringSymbolData :: "'p \<Rightarrow> CodeModule \<Rightarrow> SystemInfo option \<Rightarrow> SymbolResult \<times> 'p"
  sup_FreeSymbolData :: "'p \<Rightarrow> CodeModule \<Rightarrow> 'p"

record 'r SourceLineResolver =
  res_LoadModuleUsingMemoryBuffer :: "'r \<Rightarrow> CodeModule \<Rightarrow> string \<Rightarrow> bool \<times> 'r"
  res_ShouldDeleteMemoryBufferAfterLoadModule :: bool
  res_HasModule :: "'r \<Rightarrow> CodeModule \<Rightarrow> bool"
  res_IsModuleCorrupt :: "'r \<Rightarrow> CodeModule \<Rightarrow> bool"
  res_FillSourceLineInfo :: "'r \<Rightarrow> StackFrame \<Rightarrow> StackFrame"
  res_FindWindowsFrameInfo :: "'r \<Rightarrow> StackFrame \<Rightarrow> WindowsFrameInfo option"
  res_FindCFIFrameInfo :: "'r \<Rightarrow> StackFrame \<Rightarrow> CFIFrameInfo option"

section \<open>The symbolizer\<close>

datatype SymbolizerResult = kNoError | kError | kInterrupt | kWarningCorruptSymbols

record ('p, 'r) StackFrameSymbolizer =
  supplier :: "('p SymbolSupplier \<times> 'p) option"
  resolver :: "('r SourceLineResolver \<times> 'r) option"
  no_symbol_modules :: "string set"

definition StackFrameSymbolizer_make ::
  "('p SymbolSupplier \<times> 'p) option \<Rightarrow> ('r SourceLineResolver \<times> 'r) option \<Rightarrow> ('p, 'r) StackFrameSymbolizer" where
  "StackFrameSymbolizer_make supplier_p resolver_p = \<lparr>supplier = supplier_p, resolver = resolver_p, no_symbol_modules = {}\<rparr>"

definition StackFrameSymbolizer_Reset :: "('p, 'r) StackFrameSymbolizer \<Rightarrow> ('p, 'r) StackFrameSymbolizer" where
  "StackFrameSymbolizer_Reset y = y\<lparr>no_symbol_modules := {}\<rparr>"

definition HasImplementation :: "('p, 'r) StackFrameSymbolizer \<Rightarrow> bool" where
  "HasImplementation y \<longleftrightarrow> resolver y \<noteq> None \<and> supplier y \<noteq> None"

definition module_for_instruction ::
  "CodeModules option \<Rightarrow> CodeModules option \<Rightarrow> u64 \<Rightarrow> CodeModule option" where
  "module_for_instruction modules unloaded_modules address =
     (case Option.bind modules (\<lambda>m. cms_GetModuleForAddress m address) of
        Some m \<Rightarrow> Some m
      | None \<Rightarrow> Option.bind unloaded_modules (\<lambda>m. cms_GetModuleForAddress m address))"

definition corruption_result :: "'r SourceLineResolver \<Rightarrow> 'r \<Rightarrow> CodeModule \<Rightarrow> SymbolizerResult" where
  "corruption_result ops r module =
     (if res_IsModuleCorrupt ops r module then kWarningCorruptSymbols else kNoError)"

text \<open>The result, the frame as filled in, and the symbolizer afterwards.\<close>

definition FillSourceLineInfo ::
  "('p, 'r) StackFrameSymbolizer \<Rightarrow> CodeModules option \<Rightarrow> CodeModules option \<Rightarrow> SystemInfo option \<Rightarrow> StackFrame
     \<Rightarrow> SymbolizerResult \<times> StackFrame \<times> ('p, 'r) StackFrameSymbolizer" where
  "FillSourceLineInfo y modules unloaded_modules system_info frame =
     (case module_for_instruction modules unloaded_modules (instruction frame) of
        None \<Rightarrow> (kError, frame, y)
      | Some module \<Rightarrow>
          (let frame = frame\<lparr>frame_module := Some module\<rparr> in
           case resolver y of
             None \<Rightarrow> (kError, frame, y)
           | Some (rops, r) \<Rightarrow>
               if code_file module \<in> no_symbol_modules y then (kError, frame, y)
               else if res_HasModule rops r module then
                 (corruption_result rops r module, res_FillSourceLineInfo rops r frame, y)
               else
                 (case supplier y of
                    None \<Rightarrow> (kError, frame, y)
                  | Some (sops, p) \<Rightarrow>
                      (case sup_GetCStringSymbolData sops p module system_info of
                         (FOUND symbol_data, p') \<Rightarrow>
                           (case res_LoadModuleUsingMemoryBuffer rops r module symbol_data of
                              (load_success, r') \<Rightarrow>
                                (let p'' = (if res_ShouldDeleteMemoryBufferAfterLoadModule rops
                                            then sup_FreeSymbolData sops p' module else p');
                                     y' = y\<lparr>supplier := Some (sops, p''), resolver := Some (rops, r')\<rparr>
                                 in if load_success
                                    then (corruption_result rops r' module,
                                          res_FillSourceLineInfo rops r' frame, y')
                                    else (kError, frame,
                                          y'\<lparr>no_symbol_modules := insert (code_file module) (no_symbol_modules y)\<rparr>)))
                       | (NOT_FOUND, p') \<Rightarrow>
                           (kError, frame,
                            y\<lparr>supplier := Some (sops, p'),
                              no_symbol_modules := insert (code_file module) (no_symbol_modules y)\<rparr>)
                       | (INTERRUPT, p') \<Rightarrow> (kInterrupt, frame, y\<lparr>supplier := Some (sops, p')\<rparr>)))))"

definition FindWindowsFrameInfo ::
  "('p, 'r) StackFrameSymbolizer \<Rightarrow> StackFrame \<Rightarrow> WindowsFrameInfo option" where
  "FindWindowsFrameInfo y frame =
     (case resolver y of None \<Rightarrow> None | Some (ops, r) \<Rightarrow> res_FindWindowsFrameInfo ops r frame)"

definition FindCFIFrameInfo ::
  "('p, 'r) StackFrameSymbolizer \<Rightarrow> StackFrame \<Rightarrow> CFIFrameInfo option" where
  "FindCFIFrameInfo y frame =
     (case resolver y of None \<Rightarrow> None | Some (ops, r) \<Rightarrow> res_FindCFIFrameInfo ops r frame)"

section \<open>Facts about symbolization\<close>

text \<open>The documented behaviour of a resolver: it fills in the function and line members
  and leaves the instruction, the module and the trust alone.\<close>

definition resolver_keeps_frame :: "('p, 'r) StackFrameSymbolizer \<Rightarrow> bool" where
  "resolver_keeps_frame y \<longleftrightarrow>
     (\<forall>ops r r' f. resolver y = Some (ops, r) \<longrightarrow>
        instruction (res_FillSourceLineInfo ops r' f) = instruction f \<and>
        frame_module (res_FillSourceLineInfo ops r' f) = frame_module f \<and>
        trust (res_FillSourceLineInfo ops r' f) = trust f)"

lemma FillSourceLineInfo_keeps:
  assumes "resolver_keeps_frame y" "FillSourceLineInfo y ms us si f = (res, f', y')"
  shows "instruction f' = instruction f" "trust f' = trust f" "resolver_keeps_frame y'"
    "module_for_instruction ms us (instruction f) \<noteq> None \<Longrightarrow>
       frame_module f' = module_for_instruction ms us (instruction f)"
    "module_for_instruction ms us (instruction f) = None \<Longrightarrow> f' = f \<and> res = kError"
  using assms
  by (auto simp: FillSourceLineInfo_def resolver_keeps_frame_def Let_def
      split: option.splits if_splits prod.splits SymbolResult.splits)

text \<open>The symbolizer always keeps its collaborators, and only grows the set of modules
  without symbols.\<close>

lemma FillSourceLineInfo_collaborators:
  assumes "FillSourceLineInfo y ms us si f = (res, f', y')"
  shows "map_option fst (resolver y') = map_option fst (resolver y)"
    "map_option fst (supplier y') = map_option fst (supplier y)"
    "no_symbol_modules y \<subseteq> no_symbol_modules y'"
  using assms
  by (auto simp: FillSourceLineInfo_def Let_def
      split: option.splits if_splits prod.splits SymbolResult.splits)

text \<open>A module whose symbols were missing or could not be loaded is never asked for again:
  every later frame in that module gets \<open>kError\<close> and leaves the supplier and the resolver
  untouched.\<close>

theorem missing_symbols_not_refetched:
  assumes "FillSourceLineInfo y ms us si f = (kError, f', y')"
    and "module_for_instruction ms us (instruction f) = Some module"
    and "resolver y \<noteq> None" "supplier y \<noteq> None"
    and "module_for_instruction ms' us' (instruction g) = Some module'" "code_file module' = code_file module"
  shows "FillSourceLineInfo y' ms' us' si' g = (kError, g\<lparr>frame_module := Some module'\<rparr>, y')"
proof -
  have "code_file module \<in> no_symbol_modules y'" "resolver y' \<noteq> None"
    using assms(1-4)
    by (auto simp: FillSourceLineInfo_def Let_def corruption_result_def
        split: option.splits if_splits prod.splits SymbolResult.splits)
  then show ?thesis using assms(5,6) by (auto simp: FillSourceLineInfo_def Let_def)
qed

definition sample_resolver :: "unit SourceLineResolver" where
  "sample_resolver =
     \<lparr>res_LoadModuleUsingMemoryBuffer = (\<lambda>r m d. (True, r)),
      res_ShouldDeleteMemoryBufferAfterLoadModule = True,
      res_HasModule = (\<lambda>_ _. False), res_IsModuleCorrupt = (\<lambda>_ _. False),
      res_FillSourceLineInfo = (\<lambda>_ f. f\<lparr>function_name := ''f''\<rparr>),
      res_FindWindowsFrameInfo = (\<lambda>_ _. None), res_FindCFIFrameInfo = (\<lambda>_ _. None)\<rparr>"

definition sample_supplier :: "nat SymbolSupplier" where
  "sample_supplier =
     \<lparr>sup_GetCStringSymbolData = (\<lambda>n m si. (if code_file m = ''a'' then FOUND [] else NOT_FOUND, Suc n)),
      sup_FreeSymbolData = (\<lambda>n m. n)\<rparr>"

definition sample_symbolizer :: "(nat, unit) StackFrameSymbolizer" where
  "sample_symbolizer = StackFrameSymbolizer_make (Some (sample_supplier, 0)) (Some (sample_resolver, ()))"

theorem missing_symbols_not_refetched_witness:
  "let ms = Some (BasicCodeModules_interface sample_basic_modules);
       f = StackFrame_init\<lparr>instruction := 9000\<rparr>; g = StackFrame_init\<lparr>instruction := 9001\<rparr>;
       y = snd (snd (FillSourceLineInfo sample_symbolizer ms None None f))
   in fst (FillSourceLineInfo sample_symbolizer ms None None f) = kError \<and>
      map_option snd (supplier y) = Some 1 \<and>
      snd (snd (FillSourceLineInfo y ms None None g)) = y"
proof -
  let ?ms = "Some (BasicCodeModules_interface sample_basic_modules)"
  let ?f = "StackFrame_init\<lparr>instruction := 9000\<rparr>" and ?g = "StackFrame_init\<lparr>instruction := 9001\<rparr>"
  let ?y = "snd (snd (FillSourceLineInfo sample_symbolizer ?ms None None ?f))"
  let ?b = "sample_module 6144 4096 ''b''"
  have m: "module_for_instruction ?ms None (instruction ?f) = Some ?b" by code_simp
  have m': "module_for_instruction ?ms None (instruction ?g) = Some ?b" by code_simp
  have rs: "resolver sample_symbolizer \<noteq> None" "supplier sample_symbolizer \<noteq> None"
    by (simp_all add: sample_symbolizer_def StackFrameSymbolizer_make_def)
  have r: "FillSourceLineInfo sample_symbolizer ?ms None None ?f =
      (kError, ?f\<lparr>frame_module := Some ?b\<rparr>, sample_symbolizer\<lparr>supplier := Some (sample_supplier, 1),
        no_symbol_modules := {''b''}\<rparr>)"
    unfolding FillSourceLineInfo_def m
    by (simp add: sample_symbolizer_def StackFrameSymbolizer_make_def sample_resolver_def sample_supplier_def
        sample_module_def)
  show ?thesis
    using missing_symbols_not_refetched [OF r m rs m' refl] by (simp add: r)
qed

end
