(* ===== verification/Memory_Region.thy ===== *)
theory Memory_Region
  imports Bp_Prelude
begin

text \<open>
  Memory of the crashed process (\<open>google_breakpad/processor/memory_region.h\<close>) and the
  region read from a minidump (\<open>processor/minidump.cc\<close>): byte order, bounds checks and
  the cached bytes. The minidump file itself is a parameter: a function that returns
  the bytes at a file offset.
\<close>

section \<open>The interface\<close>

record MemoryRegion =
  mem_base :: u64
  mem_size :: u32
  mem8 :: "u64 \<Rightarrow> u8 option"
  mem16 :: "u64 \<Rightarrow> u16 option"
  mem32 :: "u64 \<Rightarrow> u32 option"
  mem64 :: "u64 \<Rightarrow> u64 option"

section \<open>Byte order\<close>

text \<open>A value as a little-endian host reads it.\<close>

fun le_value :: "u8 list \<Rightarrow> 'w::len word" where
  "le_value [] = 0"
| "le_value (b # bs) = ucast b OR push_bit 8 (le_value bs)"

definition Swap8 :: "u8 \<Rightarrow> u8" where
  "Swap8 v = v"

definition Swap16 :: "u16 \<Rightarrow> u16" where
  "Swap16 v = drop_bit 8 v OR push_bit 8 v"

definition Swap32 :: "u32 \<Rightarrow> u32" where
  "Swap32 v = drop_bit 24 v OR (drop_bit 8 v AND 0x0000ff00) OR (push_bit 8 v AND 0x00ff0000) OR push_bit 24 v"

text \<open>The two halves are swapped in themselves and then exchanged.\<close>

definition Swap64 :: "u64 \<Rightarrow> u64" where
  "Swap64 v =
     (let low = Swap32 (ucast v); high = Swap32 (ucast (drop_bit 32 v))
      in ucast high OR push_bit 32 (ucast low))"

lemma bit_ff00: "bit (0x0000ff00 :: int) n \<longleftrightarrow> 8 \<le> n \<and> n < 16"
proof -
  have "bit (push_bit 8 (mask 8) :: int) n \<longleftrightarrow> 8 \<le> n \<and> n < 16" by (auto simp: bit_simps)
  moreover have "push_bit 8 (mask 8) = (0x0000ff00 :: int)" by (simp add: mask_eq_exp_minus_1)
  ultimately show ?thesis by argo
qed

lemma bit_ff0000: "bit (0x00ff0000 :: int) n \<longleftrightarrow> 16 \<le> n \<and> n < 24"
proof -
  have "bit (push_bit 16 (mask 8) :: int) n \<longleftrightarrow> 16 \<le> n \<and> n < 24" by (auto simp: bit_simps)
  moreover have "push_bit 16 (mask 8) = (0x00ff0000 :: int)" by (simp add: mask_eq_exp_minus_1)
  ultimately show ?thesis by argo
qed

lemma bit_le_value:
  "bit (le_value bs :: 'w::len word) n \<longleftrightarrow>
     n < LENGTH('w) \<and> n div 8 < length bs \<and> bit (bs ! (n div 8)) (n mod 8)"
proof (induction bs arbitrary: n)
  case (Cons b bs)
  show ?case
  proof (cases "n < 8")
    case True
    then show ?thesis by (auto simp: bit_simps)
  next
    case False
    then have "n div 8 = Suc ((n - 8) div 8)" "(n - 8) mod 8 = n mod 8" by (simp_all add: le_div_geq le_mod_geq)
    moreover have "\<not> bit b n" using False bit_imp_le_length [of b n] by auto
    ultimately show ?thesis using False Cons.IH [of "n - 8"] by (auto simp: bit_simps)
  qed
qed simp

text \<open>Bit \<open>n\<close> of a swapped word is the bit at the same place of the opposite byte.\<close>

definition mirror :: "nat \<Rightarrow> nat \<Rightarrow> nat" where
  "mirror k n = 8 * (k - 1 - n div 8) + n mod 8"

lemma bit_Swap32: "bit (Swap32 v) n \<longleftrightarrow> n < 32 \<and> bit v (mirror 4 n)"
proof -
  consider "n < 8" | "8 \<le> n" "n < 16" | "16 \<le> n" "n < 24" | "24 \<le> n" "n < 32" | "32 \<le> n" by linarith
  then show ?thesis
  proof cases
    case 1
    then have "mirror 4 n = n + 24" by (simp add: mirror_def)
    then show ?thesis using 1 by (auto simp: Swap32_def bit_simps bit_ff00 bit_ff0000 add.commute)
  next
    case 2
    then have "n div 8 = 1" "n mod 8 = n - 8" by (simp_all add: div_nat_eqI le_mod_geq)
    then have "mirror 4 n = n + 8" using 2 by (simp add: mirror_def)
    moreover have "\<not> bit v (n + 24)" using 2 bit_imp_le_length [of v "n + 24"] by auto
    ultimately show ?thesis using 2 by (auto simp: Swap32_def bit_simps bit_ff00 bit_ff0000 add.commute)
  next
    case 3
    then have "n div 8 = 2" "n mod 8 = n - 16" by (simp_all add: div_nat_eqI le_mod_geq)
    then have "mirror 4 n = n - 8" using 3 by (simp add: mirror_def)
    moreover have "\<not> bit v (24 + n)" using 3 bit_imp_le_length [of v "24 + n"] by auto
    ultimately show ?thesis using 3 by (auto simp: Swap32_def bit_simps bit_ff00 bit_ff0000)
  next
    case 4
    then have "n div 8 = 3" "n mod 8 = n - 24" by (simp_all add: div_nat_eqI le_mod_geq)
    then have "mirror 4 n = n - 24" using 4 by (simp add: mirror_def)
    moreover have "\<not> bit v (24 + n)" using 4 bit_imp_le_length [of v "24 + n"] by auto
    ultimately show ?thesis using 4 by (auto simp: Swap32_def bit_simps bit_ff00 bit_ff0000)
  next
    case 5
    then show ?thesis by (auto dest: bit_imp_le_length)
  qed
qed

lemma mirror_byte:
  assumes "n < 8 * k"
  shows "mirror k n div 8 = k - 1 - n div 8" "mirror k n mod 8 = n mod 8" "n div 8 < k" "mirror k n < 8 * k"
proof -
  show d: "mirror k n div 8 = k - 1 - n div 8" "mirror k n mod 8 = n mod 8" by (simp_all add: mirror_def)
  show "n div 8 < k" using assms by (simp add: less_mult_imp_div_less mult.commute)
  then have "mirror k n div 8 < k" unfolding d by simp
  then show "mirror k n < 8 * k" by (simp add: div_less_iff_less_mult mult.commute)
qed

lemma Swap16_reverses:
  assumes "length bs = 2"
  shows "Swap16 (le_value bs) = le_value (rev bs)"
proof -
  obtain a b where bs: "bs = [a, b]" using assms by (auto simp: length_Suc_conv numeral_2_eq_2)
  show ?thesis unfolding bs
    by (rule bit_word_eqI) (auto simp: Swap16_def bit_simps dest: bit_imp_le_length)
qed

lemma bit_Swap_reverses:
  fixes v w :: "'w::len word"
  assumes len: "LENGTH('w) = 8 * length bs" and v: "v = le_value bs"
    and w: "\<And>n. n < LENGTH('w) \<Longrightarrow> bit w n \<longleftrightarrow> bit v (mirror (length bs) n)"
  shows "w = le_value (rev bs)"
proof (rule bit_word_eqI)
  fix n assume n: "n < LENGTH('w)"
  note m = mirror_byte [OF n [unfolded len]]
  have last_byte: "length bs - Suc (n div 8) < length bs" using m(3) by linarith
  show "bit w n = bit (le_value (rev bs) :: 'w word) n"
    using n m(3,4) last_byte by (simp add: w v bit_le_value m(1,2) rev_nth len)
qed

lemma Swap32_reverses:
  assumes "length bs = 4"
  shows "Swap32 (le_value bs) = le_value (rev bs)"
  by (rule bit_Swap_reverses [OF _ refl]) (simp_all add: assms bit_Swap32)

lemma bit_Swap64: "n < 64 \<Longrightarrow> bit (Swap64 v) n \<longleftrightarrow> bit v (mirror 8 n)"
proof -
  assume n: "n < 64"
  show ?thesis
  proof (cases "n < 32")
    case True
    then have "n div 8 < 4" by simp
    then have "mirror 8 n = 32 + mirror 4 n" by (simp add: mirror_def)
    then show ?thesis
      using True mirror_byte(4) [of n 4] by (simp add: Swap64_def Let_def bit_simps bit_Swap32 add.commute)
  next
    case False
    then have d: "n div 8 = 4 + (n - 32) div 8" "(n - 32) mod 8 = n mod 8"
      using div_add_self1 [of 32 "n - 32"] by (simp_all add: le_div_geq le_mod_geq)
    have lt: "n - 32 < 32" using n False by linarith
    then have "(n - 32) div 8 < 4" by simp
    then have "mirror 8 n = mirror 4 (n - 32)" using d by (simp add: mirror_def)
    then show ?thesis
      using n False lt mirror_byte(4) [of "n - 32" 4] by (simp add: Swap64_def Let_def bit_simps bit_Swap32)
  qed
qed

lemma Swap64_reverses:
  assumes "length bs = 8"
  shows "Swap64 (le_value bs) = le_value (rev bs)"
  by (rule bit_Swap_reverses [OF _ refl]) (simp_all add: assms bit_Swap64)

section \<open>The region of a minidump\<close>

record MDMemoryDescriptor =
  start_of_memory_range :: u64
  data_size :: u32
  rva :: u32

text \<open>The file: its bytes at an offset (\<open>SeekSet\<close> and \<open>ReadBytes\<close>, which fails unless it
  reads all that is asked for), and whether its byte order differs from the host's.\<close>

record RegionSource =
  md_read :: "u32 \<Rightarrow> u32 \<Rightarrow> u8 list option"
  md_swap :: bool

record MinidumpMemoryRegion =
  mmr_descriptor :: "MDMemoryDescriptor option"
  mmr_valid :: bool
  mmr_memory :: "u8 list option"

definition MinidumpMemoryRegion_init :: MinidumpMemoryRegion where
  "MinidumpMemoryRegion_init = \<lparr>mmr_descriptor = None, mmr_valid = False, mmr_memory = None\<rparr>"

definition SetDescriptor :: "MDMemoryDescriptor option \<Rightarrow> MinidumpMemoryRegion \<Rightarrow> MinidumpMemoryRegion" where
  "SetDescriptor d r =
     r\<lparr>mmr_descriptor := d,
       mmr_valid := (case d of None \<Rightarrow> False
         | Some d \<Rightarrow> ucast (data_size d) \<le> (- 1 :: u64) - start_of_memory_range d)\<rparr>"

definition FreeMemory :: "MinidumpMemoryRegion \<Rightarrow> MinidumpMemoryRegion" where
  "FreeMemory r = r\<lparr>mmr_memory := None\<rparr>"

text \<open>The bytes and the region, in which they are now cached. \<open>max_bytes\<close> is the static limit,
  64 MB unless set.\<close>

definition GetMemory :: "RegionSource \<Rightarrow> u32 \<Rightarrow> MinidumpMemoryRegion \<Rightarrow> u8 list option \<times> MinidumpMemoryRegion" where
  "GetMemory md max_bytes r =
     (case mmr_descriptor r of
        None \<Rightarrow> (None, r)
      | Some d \<Rightarrow>
          if \<not> mmr_valid r then (None, r)
          else
            (case mmr_memory r of
               Some bytes \<Rightarrow> (Some bytes, r)
             | None \<Rightarrow>
                 if data_size d = 0 then (None, r)
                 else if max_bytes < data_size d then (None, r)
                 else
                   (case md_read md (rva d) (data_size d) of
                      None \<Rightarrow> (None, r)
                    | Some bytes \<Rightarrow> (Some bytes, r\<lparr>mmr_memory := Some bytes\<rparr>))))"

definition GetBase :: "MinidumpMemoryRegion \<Rightarrow> u64" where
  "GetBase r = (case mmr_descriptor r of
     Some d \<Rightarrow> if mmr_valid r then start_of_memory_range d else - 1
   | None \<Rightarrow> - 1)"

definition GetSize :: "MinidumpMemoryRegion \<Rightarrow> u32" where
  "GetSize r = (case mmr_descriptor r of
     Some d \<Rightarrow> if mmr_valid r then data_size d else 0
   | None \<Rightarrow> 0)"

text \<open>\<open>GetMemoryAtAddressInternal\<close> for a type of \<open>n\<close> bytes: the bytes of the value in memory
  order.\<close>

definition GetMemoryAtAddressInternal ::
  "RegionSource \<Rightarrow> u32 \<Rightarrow> MinidumpMemoryRegion \<Rightarrow> nat \<Rightarrow> u64 \<Rightarrow> u8 list option" where
  "GetMemoryAtAddressInternal md max_bytes r n address =
     (case mmr_descriptor r of
        None \<Rightarrow> None
      | Some d \<Rightarrow>
          if \<not> mmr_valid r then None
          else if address < start_of_memory_range d \<or> (- 1) - address < of_nat n \<or>
                  start_of_memory_range d + ucast (data_size d) < address + of_nat n
          then None
          else
            (case fst (GetMemory md max_bytes r) of
               None \<Rightarrow> None
             | Some bytes \<Rightarrow> Some (take n (drop (unat (address - start_of_memory_range d)) bytes))))"

definition host_value :: "RegionSource \<Rightarrow> ('w::len word \<Rightarrow> 'w word) \<Rightarrow> u8 list \<Rightarrow> 'w word" where
  "host_value md swap bs = (if md_swap md then swap (le_value bs) else le_value bs)"

definition minidump_region :: "RegionSource \<Rightarrow> u32 \<Rightarrow> MinidumpMemoryRegion \<Rightarrow> MemoryRegion" where
  "minidump_region md max_bytes r =
     \<lparr>mem_base = GetBase r, mem_size = GetSize r,
      mem8 = (\<lambda>a. map_option (host_value md Swap8) (GetMemoryAtAddressInternal md max_bytes r 1 a)),
      mem16 = (\<lambda>a. map_option (host_value md Swap16) (GetMemoryAtAddressInternal md max_bytes r 2 a)),
      mem32 = (\<lambda>a. map_option (host_value md Swap32) (GetMemoryAtAddressInternal md max_bytes r 4 a)),
      mem64 = (\<lambda>a. map_option (host_value md Swap64) (GetMemoryAtAddressInternal md max_bytes r 8 a))\<rparr>"

section \<open>The contract\<close>

text \<open>What \<open>memory_region.h\<close> promises: a value lies inside the region with its whole width.\<close>

locale bounded_region =
  fixes memory :: MemoryRegion
  assumes bound8: "mem8 memory a = Some v8 \<Longrightarrow>
      mem_base memory \<le> a \<and> unat a + 1 \<le> unat (mem_base memory) + unat (mem_size memory)"
    and bound16: "mem16 memory a = Some v16 \<Longrightarrow>
      mem_base memory \<le> a \<and> unat a + 2 \<le> unat (mem_base memory) + unat (mem_size memory)"
    and bound32: "mem32 memory a = Some v32 \<Longrightarrow>
      mem_base memory \<le> a \<and> unat a + 4 \<le> unat (mem_base memory) + unat (mem_size memory)"
    and bound64: "mem64 memory a = Some v64 \<Longrightarrow>
      mem_base memory \<le> a \<and> unat a + 8 \<le> unat (mem_base memory) + unat (mem_size memory)"
begin

text \<open>A region is smaller than 4 GB, so two locations 4 GB apart are not both in it, and it
  cannot hold a whole 32-bit address space.\<close>

lemma far_unreadable: "mem64 memory a = None \<or> mem64 memory (a + 2 ^ 32) = None"
proof (rule ccontr)
  assume "\<not> ?thesis"
  then obtain v w where r: "mem64 memory a = Some v" "mem64 memory (a + 2 ^ 32) = Some w" by auto
  have s: "unat (mem_size memory) < 2 ^ 32" by (rule unat_less_32)
  have a: "unat a < 2 ^ 64" by (rule unat_less_64)
  note b = bound64 [OF r(1)] bound64 [OF r(2)]
  have m: "unat (a + 2 ^ 32) = (unat a + 2 ^ 32) mod 2 ^ 64" by (simp add: unat_word_ariths)
  have l: "unat (mem_base memory) \<le> unat (a + 2 ^ 32)" using b by (simp add: word_le_nat_alt)
  have u: "unat a < unat (mem_base memory) + 2 ^ 32" using b s by linarith
  show False
  proof (cases "unat a + 2 ^ 32 < 2 ^ 64")
    case True
    then have "unat (a + 2 ^ 32) = unat a + 2 ^ 32" unfolding m by (rule mod_less)
    then show False using b s u by (simp add: word_le_nat_alt)
  next
    case False
    then have "unat (a + 2 ^ 32) = (unat a + 2 ^ 32 - 2 ^ 64) mod 2 ^ 64" unfolding m by (intro le_mod_geq) simp
    also have "\<dots> = unat a + 2 ^ 32 - 2 ^ 64" using a by (intro mod_less) simp
    finally show False using l u False a by simp
  qed
qed

lemma wrap_unreadable: "\<exists>k. mem32 memory (ucast ((l :: u32) + of_nat k * 4)) = None"
proof (rule ccontr)
  assume "\<not> ?thesis"
  then have all: "\<exists>v. mem32 memory (ucast (l + of_nat k * 4)) = Some v" for k by (meson not_None_eq)
  define q r where "q = unat l div 4" and "r = unat l mod 4"
  have l: "unat l = 4 * q + r" "r < 4" by (simp_all add: q_def r_def)
  have "4 * q < 2 ^ 32" using unat_less_32 [of l] l by linarith
  then have q: "q < 2 ^ 30" by simp
  have at: "unat (l + of_nat k * 4) = (unat l + 4 * k) mod 2 ^ 32" for k
    by (simp add: unat_word_ariths unsigned_of_nat take_bit_eq_mod mod_simps mult.commute)
  have "unat l + 4 * (2 ^ 30 - q) = 2 ^ 32 + r" using l q by simp
  then have low: "unat (l + of_nat (2 ^ 30 - q) * 4) = r" using at [of "2 ^ 30 - q"] l(2) by simp
  have "unat l + 4 * (2 ^ 30 - 1 - q) = 2 ^ 32 - 4 + r" using l q by simp
  then have high: "unat (l + of_nat (2 ^ 30 - 1 - q) * 4) = 2 ^ 32 - 4 + r"
    using at [of "2 ^ 30 - 1 - q"] l(2) by simp
  obtain v w where "mem32 memory (ucast (l + of_nat (2 ^ 30 - q) * 4)) = Some v"
    and "mem32 memory (ucast (l + of_nat (2 ^ 30 - 1 - q) * 4)) = Some w" using all by blast
  then have "unat (mem_base memory) \<le> r"
    and "2 ^ 32 - 4 + r + 4 \<le> unat (mem_base memory) + unat (mem_size memory)"
    using bound32 low high by (fastforce simp: word_le_nat_alt)+
  then show False using unat_less_32 [of "mem_size memory"] by simp
qed

end

lemma GetMemory_length:
  assumes "\<And>offset n bytes. md_read md offset n = Some bytes \<Longrightarrow> length bytes = unat n"
    and "\<And>bytes. mmr_memory r = Some bytes \<Longrightarrow> length bytes = unat (GetSize r)"
    and "mmr_descriptor r = Some d" "mmr_valid r" "fst (GetMemory md max_bytes r) = Some bytes"
  shows "length bytes = unat (data_size d)"
  using assms(2-5) assms(1) [of "rva d" "data_size d"]
  by (auto simp: GetMemory_def GetSize_def split: option.splits if_splits)

lemma in_region:
  assumes "start \<le> address" "\<not> (- 1) - address < of_nat n" "\<not> start + ucast size32 < address + of_nat n"
    and "ucast (size32 :: u32) \<le> (- 1 :: u64) - start" "n < 2 ^ 32"
  shows "unat address + n \<le> unat start + unat size32" "unat (address - start) + n \<le> unat size32"
proof -
  have n: "unat (of_nat n :: u64) = n" using assms(5) by (simp add: unsigned_of_nat take_bit_nat_eq_self)
  have m: "unat (- 1 - x :: u64) = 2 ^ 64 - 1 - unat x" for x
    by (simp add: unat_sub_le unsigned_minus_1_eq_mask mask_eq_exp_minus_1)
  have u: "unat (ucast size32 :: u64) = unat size32" by (rule unat_ucast_32_64)
  have a: "unat address < 2 ^ 64" "unat start < 2 ^ 64" by (rule unat_less_64)+
  have "n \<le> 2 ^ 64 - 1 - unat address" using assms(2) m n by (simp add: word_less_nat_alt)
  then have 1: "unat (address + of_nat n) = unat address + n"
    using a n by (subst unat_plus_if') auto
  have "unat size32 \<le> 2 ^ 64 - 1 - unat start" using assms(4) m u by (simp add: word_le_nat_alt)
  then have 2: "unat (start + ucast size32) = unat start + unat size32"
    using a u by (subst unat_plus_if') auto
  show t: "unat address + n \<le> unat start + unat size32" using assms(3) 1 2 by (simp add: word_less_nat_alt)
  show "unat (address - start) + n \<le> unat size32"
    using t assms(1) by (simp add: unat_sub_le word_le_nat_alt)
qed

definition open_region :: "MDMemoryDescriptor \<Rightarrow> MinidumpMemoryRegion" where
  "open_region d = SetDescriptor (Some d) MinidumpMemoryRegion_init"

lemma open_region_simps:
  "mmr_descriptor (open_region d) = Some d" "mmr_memory (open_region d) = None"
  "mmr_valid (open_region d) \<longleftrightarrow> ucast (data_size d) \<le> (- 1 :: u64) - start_of_memory_range d"
  by (simp_all add: open_region_def SetDescriptor_def MinidumpMemoryRegion_init_def)

lemma GetMemoryAtAddressInternal_bounds:
  assumes "GetMemoryAtAddressInternal md max_bytes (open_region d) n a = Some bs" "n < 2 ^ 32"
  shows "GetBase (open_region d) \<le> a"
    "unat a + n \<le> unat (GetBase (open_region d)) + unat (GetSize (open_region d))"
  using assms in_region(1) [of "start_of_memory_range d" a n "data_size d"]
  by (auto simp: GetMemoryAtAddressInternal_def open_region_simps GetBase_def GetSize_def not_less
      split: if_splits)

interpretation minidump: bounded_region "minidump_region md max_bytes (open_region d)" for md max_bytes d
proof (unfold_locales, goal_cases)
  case 1
  then show ?case using GetMemoryAtAddressInternal_bounds [of md max_bytes d 1] by (auto simp: minidump_region_def)
next
  case 2
  then show ?case using GetMemoryAtAddressInternal_bounds [of md max_bytes d 2] by (auto simp: minidump_region_def)
next
  case 3
  then show ?case using GetMemoryAtAddressInternal_bounds [of md max_bytes d 4] by (auto simp: minidump_region_def)
next
  case 4
  then show ?case using GetMemoryAtAddressInternal_bounds [of md max_bytes d 8] by (auto simp: minidump_region_def)
qed

text \<open>C34. A 64-bit read from a minidump's memory succeeds exactly when all eight bytes lie in the
  region, the region is not empty and not over the size limit, and the file holds it;
  the value is made of the file's bytes at that place, in the file's byte order.\<close>

theorem minidump_read64:
  assumes read: "\<And>offset n bytes. md_read md offset n = Some bytes \<Longrightarrow> length bytes = unat n"
    and valid: "unat (start_of_memory_range d) + unat (data_size d) < 2 ^ 64"
  shows "mem64 (minidump_region md max_bytes (open_region d)) a =
    (if unat (start_of_memory_range d) \<le> unat a \<and>
        unat a + 8 \<le> unat (start_of_memory_range d) + unat (data_size d) \<and> data_size d \<le> max_bytes
     then (case md_read md (rva d) (data_size d) of
             None \<Rightarrow> None
           | Some content \<Rightarrow>
               (let bytes = take 8 (drop (unat a - unat (start_of_memory_range d)) content)
                in Some (le_value (if md_swap md then rev bytes else bytes))))
     else None)"
proof -
  have v: "mmr_valid (open_region d)"
    using valid by (simp add: open_region_simps word_le_nat_alt unat_sub_le unsigned_minus_1_eq_mask mask_eq_exp_minus_1)
  have m: "unat (- 1 - x :: u64) = 2 ^ 64 - 1 - unat x" for x
    by (simp add: unat_sub_le unsigned_minus_1_eq_mask mask_eq_exp_minus_1)
  have s: "unat (start_of_memory_range d + ucast (data_size d)) = unat (start_of_memory_range d) + unat (data_size d)"
    using valid by (subst unat_plus_if') simp
  let ?in = "unat (start_of_memory_range d) \<le> unat a \<and>
    unat a + 8 \<le> unat (start_of_memory_range d) + unat (data_size d)"
  have out: "(a < start_of_memory_range d \<or> (- 1) - a < of_nat 8 \<or>
      start_of_memory_range d + ucast (data_size d) < a + of_nat 8) \<longleftrightarrow> \<not> ?in"
  proof (cases "unat a + 8 < 2 ^ 64")
    case True
    then have "unat (a + 8) = unat a + 8" by (subst unat_plus_if') simp
    then show ?thesis using True m [of a] s by (auto simp: word_less_nat_alt)
  next
    case False
    then show ?thesis using m [of a] valid by (auto simp: word_less_nat_alt)
  qed
  show ?thesis
  proof (cases ?in)
    case False
    then show ?thesis using v out
      by (auto simp: minidump_region_def GetMemoryAtAddressInternal_def open_region_simps(1))
  next
    case True
    have nz: "data_size d \<noteq> 0" using True by (auto simp: unat_eq_zero)
    have len: "length (take 8 (drop (unat a - unat (start_of_memory_range d)) content)) = 8"
      if "md_read md (rva d) (data_size d) = Some content" for content
      using True read [OF that] by simp linarith
    have off: "unat (a - start_of_memory_range d) = unat a - unat (start_of_memory_range d)"
      using True by (simp add: unat_sub_le word_le_nat_alt)
    have g: "GetMemoryAtAddressInternal md max_bytes (open_region d) 8 a =
        (if data_size d \<le> max_bytes
         then map_option (\<lambda>content. take 8 (drop (unat a - unat (start_of_memory_range d)) content))
                (md_read md (rva d) (data_size d))
         else None)"
      using True v out nz off unfolding GetMemoryAtAddressInternal_def GetMemory_def
      by (auto simp: open_region_simps(1,2) not_less not_le split: option.splits)
    show ?thesis
      using True g Swap64_reverses [OF len]
      by (auto simp: minidump_region_def host_value_def Let_def split: option.splits)
  qed
qed

definition sample_minidump :: RegionSource where
  "sample_minidump =
     \<lparr>md_read = (\<lambda>offset n. if unat n \<le> 4096 then Some (replicate (unat n) 1) else None), md_swap = True\<rparr>"

theorem minidump_read64_witness:
  "mem64 (minidump_region sample_minidump (2 ^ 26)
     (open_region \<lparr>start_of_memory_range = 4096, data_size = 16, rva = 32\<rparr>)) 4100 = Some 0x0101010101010101"
proof -
  have r: "length bytes = unat n" if "md_read sample_minidump offset n = Some bytes" for offset n bytes
    using that by (auto simp: sample_minidump_def split: if_splits)
  have v: "unat (start_of_memory_range \<lparr>start_of_memory_range = 4096, data_size = 16, rva = 32\<rparr>) +
      unat (data_size \<lparr>start_of_memory_range = 4096, data_size = 16, rva = 32\<rparr>) < 2 ^ 64"
    by simp
  have l: "(le_value (replicate 8 1) :: u64) = 0x0101010101010101" by code_simp
  show ?thesis
    using minidump_read64 [where md = sample_minidump and max_bytes = "2 ^ 26" and a = 4100, OF r v]
    by (simp add: sample_minidump_def l del: le_value.simps)
qed

end
