(* ===== verification/Stackwalker.thy ===== *)
theory Stackwalker
  imports Stack_Frame_Symbolizer Memory_Region "HOL-Library.Monad_Syntax"
begin

text \<open>
  The CPU-independent stack walker (\<open>google_breakpad/processor/stackwalker.h\<close>,
  \<open>processor/stackwalker.cc\<close>): the walk over frames, the two checks shared by all CPUs
  and the scan for return addresses. A walker for one CPU provides the two virtual
  operations as a \<open>StackwalkerOps\<close> record; the locales \<open>monotone_walker\<close> and
  \<open>gated_walker\<close> are the contracts the CPU theories discharge.

  Calls that may crash or loop forever return an option: \<open>None\<close> is a call that does
  not come back. \<open>NULL\<close> is the inner \<open>None\<close>.
\<close>

section \<open>State\<close>

record WalkerEnv =
  w_system_info :: "SystemInfo option"
  w_memory :: "MemoryRegion option"
  w_modules :: "CodeModules option"
  w_unloaded_modules :: "CodeModules option"

record ('c, 'v) StackFrameCpu =
  base_frame :: StackFrame
  cpu_context :: 'c
  context_validity :: 'v

text \<open>The static limits and their initial values.\<close>

record WalkLimits =
  max_frames :: u32
  max_frames_scanned :: u32

definition default_limits :: WalkLimits where
  "default_limits = \<lparr>max_frames = 2 ^ 20, max_frames_scanned = 2 ^ 14\<rparr>"

definition set_max_frames :: "u32 \<Rightarrow> WalkLimits \<Rightarrow> WalkLimits" where
  "set_max_frames n l = l\<lparr>max_frames := n\<rparr>"

definition set_max_frames_scanned :: "u32 \<Rightarrow> WalkLimits \<Rightarrow> WalkLimits" where
  "set_max_frames_scanned n l = l\<lparr>max_frames_scanned := n\<rparr>"

text \<open>The virtual operations. \<open>GetCallerFrame\<close> sees the frames walked so far; besides the
  caller it returns the last of them, whose members it may change.\<close>

record ('f, 'y) StackwalkerOps =
  op_GetContextFrame :: "'f option"
  op_GetCallerFrame :: "'y \<Rightarrow> 'f list \<Rightarrow> bool \<Rightarrow> ('f option \<times> 'f \<times> 'y) option"

section \<open>Shared checks\<close>

definition TerminateWalk :: "u64 \<Rightarrow> u64 \<Rightarrow> u64 \<Rightarrow> bool \<Rightarrow> bool" where
  "TerminateWalk caller_ip caller_sp callee_sp first_unwind \<longleftrightarrow>
     caller_ip < 2 ^ 12 \<or>
     (if first_unwind then caller_sp < callee_sp else caller_sp \<le> callee_sp)"

definition InstructionAddressSeemsValid ::
  "WalkerEnv \<Rightarrow> ('p, 'r) StackFrameSymbolizer \<Rightarrow> u64 \<Rightarrow> bool \<times> ('p, 'r) StackFrameSymbolizer" where
  "InstructionAddressSeemsValid env y address =
     (case FillSourceLineInfo y (w_modules env) (w_unloaded_modules env) (w_system_info env)
             (StackFrame_init\<lparr>instruction := address\<rparr>) of
        (symbolizer_result, frame, y') \<Rightarrow>
          (if frame_module frame = None then False
           else if \<not> HasImplementation y' then True
           else if symbolizer_result \<noteq> kNoError \<and> symbolizer_result \<noteq> kWarningCorruptSymbols then True
           else function_name frame \<noteq> [],
           y'))"

definition kRASearchWords :: int where
  "kRASearchWords = 40"

text \<open>The condition the scan puts on a word of the stack.\<close>

definition plausible_return_address ::
  "WalkerEnv \<Rightarrow> ('p, 'r) StackFrameSymbolizer \<Rightarrow> u64 \<Rightarrow> bool \<times> ('p, 'r) StackFrameSymbolizer" where
  "plausible_return_address env y ip =
     (case w_modules env of
        None \<Rightarrow> (False, y)
      | Some ms \<Rightarrow>
          if cms_GetModuleForAddress ms ip = None then (False, y)
          else InstructionAddressSeemsValid env y ip)"

text \<open>The loop of \<open>ScanForReturnAddress\<close>. The location has the width of the instruction type
  and may wrap around; the bound is computed in \<open>size_t\<close>, 64 bits.\<close>

partial_function (option) scan_loop ::
  "('w::len word \<Rightarrow> 'w word option) \<Rightarrow> ('y \<Rightarrow> 'w word \<Rightarrow> bool \<times> 'y) \<Rightarrow> 'w word \<Rightarrow> int \<Rightarrow> 'w word \<Rightarrow> 'y
     \<Rightarrow> (('w word \<times> 'w word) option \<times> 'y) option" where
  "scan_loop get plausible step limit location y =
     (if uint location \<le> limit then
        (case get location of
           None \<Rightarrow> Some (None, y)
         | Some ip \<Rightarrow>
             (case plausible y ip of
                (ok, y') \<Rightarrow>
                  if ok then Some (Some (location, ip), y')
                  else scan_loop get plausible step limit (location + step) y'))
      else Some (None, y))"

declare scan_loop.simps [code]

definition ScanForReturnAddress ::
  "WalkerEnv \<Rightarrow> ('w::len word \<Rightarrow> 'w word option) \<Rightarrow> ('p, 'r) StackFrameSymbolizer \<Rightarrow> 'w word \<Rightarrow> int
     \<Rightarrow> (('w word \<times> 'w word) option \<times> ('p, 'r) StackFrameSymbolizer) option" where
  "ScanForReturnAddress env get y location_start searchwords =
     (let width = int (LENGTH('w) div 8)
      in scan_loop get (\<lambda>y ip. plausible_return_address env y (ucast ip)) (of_int width)
           ((uint location_start + searchwords * width) mod 2 ^ 64) location_start y)"

definition ScanForReturnAddress_context ::
  "WalkerEnv \<Rightarrow> ('w::len word \<Rightarrow> 'w word option) \<Rightarrow> ('p, 'r) StackFrameSymbolizer \<Rightarrow> 'w word \<Rightarrow> bool
     \<Rightarrow> (('w word \<times> 'w word) option \<times> ('p, 'r) StackFrameSymbolizer) option" where
  "ScanForReturnAddress_context env get y location_start is_context_frame =
     ScanForReturnAddress env get y location_start
       (if is_context_frame then kRASearchWords * 4 else kRASearchWords)"

section \<open>The walk\<close>

definition InsertSpecialAttentionModule :: "CodeModule option \<Rightarrow> CodeModule list \<Rightarrow> CodeModule list" where
  "InsertSpecialAttentionModule module modules =
     (case module of
        None \<Rightarrow> modules
      | Some m \<Rightarrow> if m \<in> set modules then modules else modules @ [m])"

definition dubious :: "FrameTrust \<Rightarrow> bool" where
  "dubious t \<longleftrightarrow> t \<in> {FRAME_TRUST_NONE, FRAME_TRUST_SCAN, FRAME_TRUST_CFI_SCAN}"

record 'f WalkState =
  ws_frames :: "'f list"
  ws_scanned_frames :: u32
  modules_without_symbols :: "CodeModule list"
  modules_with_corrupt_symbols :: "CodeModule list"

text \<open>One pass of the loop body up to the call of \<open>GetCallerFrame\<close>, given what the symbolizer
  said about the frame.\<close>

definition walk_push ::
  "SymbolizerResult \<Rightarrow> ('c, 'v, 'z) StackFrameCpu_scheme \<Rightarrow> ('c, 'v, 'z) StackFrameCpu_scheme WalkState
     \<Rightarrow> ('c, 'v, 'z) StackFrameCpu_scheme WalkState" where
  "walk_push res frame w =
     \<lparr>ws_frames = ws_frames w @ [frame],
      ws_scanned_frames = (if dubious (trust (base_frame frame)) then ws_scanned_frames w + 1
                           else ws_scanned_frames w),
      modules_without_symbols =
        (if res = kError
         then InsertSpecialAttentionModule (frame_module (base_frame frame)) (modules_without_symbols w)
         else modules_without_symbols w),
      modules_with_corrupt_symbols =
        (if res = kWarningCorruptSymbols
         then InsertSpecialAttentionModule (frame_module (base_frame frame)) (modules_with_corrupt_symbols w)
         else modules_with_corrupt_symbols w)\<rparr>"

function walk_loop ::
  "WalkerEnv \<Rightarrow> WalkLimits \<Rightarrow> (('c, 'v, 'z) StackFrameCpu_scheme, ('p, 'r) StackFrameSymbolizer) StackwalkerOps
     \<Rightarrow> ('p, 'r) StackFrameSymbolizer \<Rightarrow> ('c, 'v, 'z) StackFrameCpu_scheme option
     \<Rightarrow> ('c, 'v, 'z) StackFrameCpu_scheme WalkState
     \<Rightarrow> (bool \<times> ('c, 'v, 'z) StackFrameCpu_scheme WalkState \<times> ('p, 'r) StackFrameSymbolizer) option" where
  "walk_loop env lim ops y None w = Some (True, w, y)"
| "walk_loop env lim ops y (Some frame) w =
     (case FillSourceLineInfo y (w_modules env) (w_unloaded_modules env) (w_system_info env)
             (base_frame frame) of
        (res, filled, y1) \<Rightarrow>
          if res = kInterrupt then Some (False, w, y1)
          else
            (let w1 = walk_push res (frame\<lparr>base_frame := filled\<rparr>) w in
             if unat (max_frames lim) < length (ws_frames w1) then Some (True, w1, y1)
             else
               (case op_GetCallerFrame ops y1 (ws_frames w1)
                       (ws_scanned_frames w1 < max_frames_scanned lim) of
                  None \<Rightarrow> None
                | Some (next, last_frame, y2) \<Rightarrow>
                    walk_loop env lim ops y2 next
                      (w1\<lparr>ws_frames := ws_frames w @ [last_frame]\<rparr>))))"
  by pat_completeness auto
termination
  by (relation "measure (\<lambda>(env, lim, ops, y, f, w). Suc (unat (max_frames lim)) - length (ws_frames w))")
    (auto simp: walk_push_def)

definition Walk ::
  "WalkerEnv \<Rightarrow> WalkLimits \<Rightarrow> (('c, 'v, 'z) StackFrameCpu_scheme, ('p, 'r) StackFrameSymbolizer) StackwalkerOps
     \<Rightarrow> ('p, 'r) StackFrameSymbolizer \<Rightarrow> CodeModule list \<Rightarrow> CodeModule list
     \<Rightarrow> (bool \<times> ('c, 'v, 'z) StackFrameCpu_scheme WalkState \<times> ('p, 'r) StackFrameSymbolizer) option" where
  "Walk env lim ops y without_symbols corrupt_symbols =
     walk_loop env lim ops y (op_GetContextFrame ops)
       \<lparr>ws_frames = [], ws_scanned_frames = 0, modules_without_symbols = without_symbols,
        modules_with_corrupt_symbols = corrupt_symbols\<rparr>"

section \<open>Scanning\<close>

text \<open>The scan comes back as soon as one of the locations it would visit is past the bound
  or cannot be read.\<close>

lemma scan_loop_returns:
  assumes "limit < uint (location + of_nat k * step) \<or> get (location + of_nat k * step) = None"
  shows "\<exists>r. scan_loop get plausible step limit location y = Some r"
  using assms
proof (induction k arbitrary: location y)
  case 0
  then show ?case by (subst scan_loop.simps) (auto split: option.split prod.split)
next
  case (Suc k)
  then have "limit < uint ((location + step) + of_nat k * step) \<or>
      get ((location + step) + of_nat k * step) = None"
    by (simp add: algebra_simps)
  then show ?case
    using Suc.IH [of "location + step"] by (subst scan_loop.simps) (auto split: option.split prod.split)
qed

definition scan_found :: "('w::len word \<Rightarrow> 'w word option) \<Rightarrow> ('y \<Rightarrow> 'w word \<Rightarrow> bool \<times> 'y) \<Rightarrow> 'w word \<Rightarrow> int
    \<Rightarrow> 'w word \<Rightarrow> ('w word \<times> 'w word) option \<Rightarrow> bool" where
  "scan_found get plausible step limit start found \<longleftrightarrow>
     (\<forall>location ip. found = Some (location, ip) \<longrightarrow>
        (\<exists>k. location = start + of_nat k * step \<and> (\<forall>j\<le>k. get (start + of_nat j * step) \<noteq> None)) \<and>
        uint location \<le> limit \<and> get location = Some ip \<and> (\<exists>y. fst (plausible y ip)))"

lemma scan_found_next:
  assumes "scan_found get plausible step limit (start + step) found" "get start \<noteq> None"
  shows "scan_found get plausible step limit start found"
  unfolding scan_found_def
proof (intro allI impI)
  fix location ip
  assume "found = Some (location, ip)"
  then obtain k where k: "location = start + step + of_nat k * step"
    "\<forall>j\<le>k. get (start + step + of_nat j * step) \<noteq> None" "uint location \<le> limit"
    "get location = Some ip" "\<exists>y. fst (plausible y ip)"
    using assms unfolding scan_found_def by blast
  then have l: "location = start + of_nat (Suc k) * step" by (simp add: algebra_simps)
  have "get (start + of_nat j * step) \<noteq> None" if "j \<le> Suc k" for j
    using that k(2) assms(2) by (cases j) (auto simp: algebra_simps)
  then show "(\<exists>k. location = start + of_nat k * step \<and> (\<forall>j\<le>k. get (start + of_nat j * step) \<noteq> None)) \<and>
      uint location \<le> limit \<and> get location = Some ip \<and> (\<exists>y. fst (plausible y ip))"
    using k(3-5) l by blast
qed

lemma scan_loop_found:
  assumes "scan_loop get plausible step limit start y = Some (found, y')"
  shows "scan_found get plausible step limit start found"
proof -
  have "scan_found get plausible step limit start (fst r)"
    if "scan_loop get plausible step limit start y = Some r" for r
    using that
  proof (rule scan_loop.raw_induct
      [where P = "\<lambda>get plausible step limit start y r. scan_found get plausible step limit start (fst r)",
       rotated])
    fix rec get plausible step limit and start :: "'a word" and y r
    assume IH: "\<And>get plausible step limit start y r. rec get plausible step limit start y = Some r \<Longrightarrow>
        scan_found get plausible step limit start (fst r)"
      and st: "(if uint start \<le> limit then
        (case get start of
           None \<Rightarrow> Some (None, y)
         | Some ip \<Rightarrow>
             (case plausible y ip of
                (ok, y') \<Rightarrow>
                  if ok then Some (Some (start, ip), y')
                  else rec get plausible step limit (start + step) y'))
      else Some (None, y)) = Some r"
    show "scan_found get plausible step limit start (fst r)"
    proof (cases "uint start \<le> limit \<and> get start \<noteq> None")
      case False
      then have "fst r = None" using st by (auto split: if_splits option.splits)
      then show ?thesis by (simp add: scan_found_def)
    next
      case True
      then obtain ip where ip: "get start = Some ip" by blast
      obtain ok y1 where p: "plausible y ip = (ok, y1)" by fastforce
      show ?thesis
      proof (cases ok)
        case ok: True
        then have "fst r = Some (start, ip)" using st ip p True by auto
        then show ?thesis
          using ip p True ok by (auto simp: scan_found_def intro!: exI [of _ "0 :: nat"] exI [of _ y])
      next
        case False
        then have "rec get plausible step limit (start + step) y1 = Some r"
          using st ip p True by simp
        then show ?thesis using True by (intro scan_found_next [OF IH]) simp_all
      qed
    qed
  qed
  from this [OF assms] show ?thesis by simp
qed

text \<open>Whatever the plausibility test keeps of the symbolizer, the scan keeps.\<close>

lemma scan_loop_keeps:
  assumes "scan_loop get plausible step limit start y = Some r"
    and "\<And>y ip. P y \<Longrightarrow> P (snd (plausible y ip))" "P y"
  shows "P (snd r)"
proof -
  have "(\<forall>y ip. P y \<longrightarrow> P (snd (plausible y ip))) \<longrightarrow> P y \<longrightarrow> P (snd r)"
    using assms(1)
  proof (rule scan_loop.raw_induct
      [where P = "\<lambda>get plausible step limit start y r.
         (\<forall>y ip. P y \<longrightarrow> P (snd (plausible y ip))) \<longrightarrow> P y \<longrightarrow> P (snd r)", rotated], goal_cases)
    case (1 rec get plausible step limit start y r)
    show ?case
    proof (intro impI)
      assume k: "\<forall>y ip. P y \<longrightarrow> P (snd (plausible y ip))" and y: "P y"
      show "P (snd r)"
      proof (cases "uint start \<le> limit \<and> get start \<noteq> None")
        case False
        then show ?thesis using 1(2) y by (auto split: if_splits option.splits)
      next
        case True
        then obtain ip where ip: "get start = Some ip" by blast
        obtain ok y1 where p: "plausible y ip = (ok, y1)" by fastforce
        have y1: "P y1" using k y p by (metis snd_conv)
        show ?thesis
        proof (cases ok)
          case ok: True
          then show ?thesis using 1(2) ip p True y1 by auto
        next
          case False
          then have "rec get plausible step limit (start + step) y1 = Some r"
            using 1(2) ip p True by simp
          then show ?thesis using 1(1) k y1 by blast
        qed
      qed
    qed
  qed
  then show ?thesis using assms(2,3) by blast
qed

lemma seems_valid_keeps:
  "resolver_keeps_frame y \<Longrightarrow> resolver_keeps_frame (snd (InstructionAddressSeemsValid env y a))"
  using FillSourceLineInfo_keeps(3)
  by (fastforce simp: InstructionAddressSeemsValid_def split: prod.splits)

lemma plausible_keeps:
  "resolver_keeps_frame y \<Longrightarrow> resolver_keeps_frame (snd (plausible_return_address env y a))"
  using seems_valid_keeps by (auto simp: plausible_return_address_def split: option.splits)

lemma scan_keeps:
  "ScanForReturnAddress env get y start n = Some (found, y') \<Longrightarrow> resolver_keeps_frame y \<Longrightarrow>
     resolver_keeps_frame y'"
  unfolding ScanForReturnAddress_def Let_def
  using plausible_keeps by (fastforce dest: scan_loop_keeps [where P = resolver_keeps_frame])

lemma scan_context_keeps:
  "ScanForReturnAddress_context env get y start b = Some (found, y') \<Longrightarrow> resolver_keeps_frame y \<Longrightarrow>
     resolver_keeps_frame y'"
  unfolding ScanForReturnAddress_context_def by (rule scan_keeps)

text \<open>A plausible address belongs to a loaded module.\<close>

lemma plausible_in_module:
  assumes "fst (plausible_return_address env y ip)"
  shows "\<exists>ms m. w_modules env = Some ms \<and> cms_GetModuleForAddress ms ip = Some m"
  using assms by (auto simp: plausible_return_address_def split: option.splits if_splits)

lemma scan_found_in_module:
  fixes get :: "'w::len word \<Rightarrow> 'w word option"
  assumes "ScanForReturnAddress env get y start n = Some (Some (location, ip), y')"
  shows "get location = Some ip" "\<exists>ms m. w_modules env = Some ms \<and> cms_GetModuleForAddress ms (ucast ip) = Some m"
proof -
  note f = scan_loop_found [OF assms [unfolded ScanForReturnAddress_def Let_def]]
  then show "get location = Some ip" "\<exists>ms m. w_modules env = Some ms \<and> cms_GetModuleForAddress ms (ucast ip) = Some m"
    using plausible_in_module unfolding scan_found_def by blast+
qed

text \<open>On the memory of a process the scan always ends, even where the location wraps around.\<close>

lemma scan64_returns:
  assumes "bounded_region memory"
  shows "\<exists>r. ScanForReturnAddress env (mem64 memory) y start n = Some r"
  using bounded_region.far_unreadable [OF assms, of start]
    scan_loop_returns [where location = start and get = "mem64 memory" and k = 0]
    scan_loop_returns [where location = start and get = "mem64 memory" and k = "2 ^ 29" and step = 8]
  by (auto simp: ScanForReturnAddress_def Let_def)

lemma scan32_returns:
  assumes "bounded_region memory"
  shows "\<exists>r. ScanForReturnAddress env (\<lambda>a. mem32 memory (ucast a)) y (start :: u32) n = Some r"
proof -
  obtain k where "mem32 memory (ucast (start + of_nat k * 4)) = None"
    using bounded_region.wrap_unreadable [OF assms] by blast
  then show ?thesis
    using scan_loop_returns [where location = start and get = "\<lambda>a. mem32 memory (ucast a)" and k = k and step = 4]
    by (auto simp: ScanForReturnAddress_def Let_def)
qed

section \<open>Properties of every walk\<close>

text \<open>The invariant rule of the loop: \<open>I\<close> holds when a frame is about to be added, \<open>J\<close> when
  it has been added, \<open>Q\<close> at the end.\<close>

lemma walk_loop_invariant:
  assumes "walk_loop env lim ops y fo w = Some (ok, w', y')" "I y fo w"
    and finished: "\<And>y fo w. I y fo w \<Longrightarrow> Q w"
    and pushed: "\<And>y f w res filled y1. I y (Some f) w \<Longrightarrow>
      FillSourceLineInfo y (w_modules env) (w_unloaded_modules env) (w_system_info env) (base_frame f) =
        (res, filled, y1) \<Longrightarrow> res \<noteq> kInterrupt \<Longrightarrow> J y1 (walk_push res (f\<lparr>base_frame := filled\<rparr>) w)"
    and stopped: "\<And>y w. J y w \<Longrightarrow> Q w"
    and called: "\<And>y w fs f n l y'. J y w \<Longrightarrow> length (ws_frames w) \<le> unat (max_frames lim) \<Longrightarrow>
      ws_frames w = fs @ [f] \<Longrightarrow>
      op_GetCallerFrame ops y (fs @ [f]) (ws_scanned_frames w < max_frames_scanned lim) = Some (n, l, y') \<Longrightarrow>
      I y' n (w\<lparr>ws_frames := fs @ [l]\<rparr>)"
  shows "Q w'"
proof -
  have "Q w'" if "walk_loop env' lim' ops' y fo w = Some (ok, w', y')" "I y fo w"
    "env' = env" "lim' = lim" "ops' = ops" for env' lim' ops'
    using that
  proof (induction env' lim' ops' y fo w rule: walk_loop.induct)
    case (1 env' lim' ops' y w)
    then show ?case using finished by simp
  next
    case (2 env' lim' ops' y frame w)
    obtain res filled y1 where f: "FillSourceLineInfo y (w_modules env) (w_unloaded_modules env)
        (w_system_info env) (base_frame frame) = (res, filled, y1)" by (metis prod_cases3)
    note f' = f [folded "2.prems"(3)]
    let ?w1 = "walk_push res (frame\<lparr>base_frame := filled\<rparr>) w"
    show ?case
    proof (cases "res = kInterrupt")
      case True
      then show ?thesis using "2.prems" f' finished by (auto simp: Let_def)
    next
      case ni: False
      have J: "J y1 ?w1" by (rule pushed [OF "2.prems"(2) f ni])
      show ?thesis
      proof (cases "unat (max_frames lim') < length (ws_frames ?w1)")
        case True
        then show ?thesis using "2.prems" f' ni stopped [OF J] by (auto simp: Let_def)
      next
        case False
        then obtain n l y2 where g: "op_GetCallerFrame ops' y1 (ws_frames ?w1)
            (ws_scanned_frames ?w1 < max_frames_scanned lim') = Some (n, l, y2)"
          and r: "walk_loop env' lim' ops' y2 n (?w1\<lparr>ws_frames := ws_frames w @ [l]\<rparr>) = Some (ok, w', y')"
          using "2.prems"(1) f' ni by (auto simp: Let_def split: if_splits option.splits)
        have fr: "ws_frames ?w1 = ws_frames w @ [frame\<lparr>base_frame := filled\<rparr>]" by (simp add: walk_push_def)
        have I: "I y2 n (?w1\<lparr>ws_frames := ws_frames w @ [l]\<rparr>)"
          using called [OF J _ fr] g False unfolding fr "2.prems"(4,5) by (simp add: not_less)
        show ?thesis
          by (rule "2.IH" [OF f' [symmetric] refl ni refl False g refl refl r I "2.prems"(3,4,5)])
      qed
    qed
  qed
  from this [OF assms(1,2) refl refl refl] show ?thesis .
qed

lemma walk_loop_length:
  assumes "walk_loop env lim ops y fo w = Some (ok, w', y')" "length (ws_frames w) \<le> unat (max_frames lim)"
  shows "length (ws_frames w') \<le> Suc (unat (max_frames lim))"
  by (rule walk_loop_invariant [OF assms(1), where I = "\<lambda>y fo w. length (ws_frames w) \<le> unat (max_frames lim)"
        and J = "\<lambda>y w. length (ws_frames w) \<le> Suc (unat (max_frames lim))"])
    (auto simp: walk_push_def assms(2))

lemma InsertSpecialAttentionModule_distinct:
  "distinct ms \<Longrightarrow> distinct (InsertSpecialAttentionModule m ms)"
  by (auto simp: InsertSpecialAttentionModule_def split: option.splits)

lemma walk_loop_distinct:
  assumes "walk_loop env lim ops y fo w = Some (ok, w', y')"
    and "distinct (modules_without_symbols w) \<and> distinct (modules_with_corrupt_symbols w)"
  shows "distinct (modules_without_symbols w') \<and> distinct (modules_with_corrupt_symbols w')"
  by (rule walk_loop_invariant [OF assms(1),
        where I = "\<lambda>y fo w. distinct (modules_without_symbols w) \<and> distinct (modules_with_corrupt_symbols w)"
        and J = "\<lambda>y w. distinct (modules_without_symbols w) \<and> distinct (modules_with_corrupt_symbols w)"])
    (auto simp: walk_push_def InsertSpecialAttentionModule_distinct assms(2))

text \<open>C33. Whatever CPU it runs for, a walk leaves at most one frame more than \<open>max_frames\<close> on the
  stack, and, given lists without duplicates, lists no module twice as lacking symbols or
  as having corrupt ones.\<close>

theorem Walk_bounds:
  assumes "Walk env lim ops y ms cs = Some (ok, w, y')" "distinct ms" "distinct cs"
  shows "length (ws_frames w) \<le> unat (max_frames lim) + 1 \<and>
    distinct (modules_without_symbols w) \<and> distinct (modules_with_corrupt_symbols w)"
  using walk_loop_length [OF assms(1) [unfolded Walk_def]] walk_loop_distinct [OF assms(1) [unfolded Walk_def]]
    assms(2,3) by simp

section \<open>The contract of a CPU walker\<close>

text \<open>\<open>ascending\<close> is the invariant of the walk: every step passed \<open>TerminateWalk\<close>, so the stack
  pointers grow and no return address lies in the first page.\<close>

definition ascending :: "('c \<Rightarrow> u64) \<Rightarrow> ('c \<Rightarrow> u64) \<Rightarrow> 'c list \<Rightarrow> bool" where
  "ascending ip sp cs \<longleftrightarrow>
     (\<forall>i. Suc i < length cs \<longrightarrow> \<not> TerminateWalk (ip (cs ! Suc i)) (sp (cs ! Suc i)) (sp (cs ! i)) (i = 0))"

lemma ascending_snoc:
  "ascending ip sp (cs @ [c]) \<longleftrightarrow> ascending ip sp cs \<and>
     (cs \<noteq> [] \<longrightarrow> \<not> TerminateWalk (ip c) (sp c) (sp (last cs)) (length cs = 1))"
proof (cases cs rule: rev_cases)
  case (snoc ds d)
  have "ascending ip sp (cs @ [c]) \<longleftrightarrow> ascending ip sp cs \<and>
      \<not> TerminateWalk (ip ((cs @ [c]) ! Suc (length ds))) (sp ((cs @ [c]) ! Suc (length ds)))
          (sp ((cs @ [c]) ! length ds)) (length ds = 0)"
    unfolding ascending_def snoc by (auto simp: nth_append less_Suc_eq)
  then show ?thesis by (simp add: snoc nth_append)
qed (simp add: ascending_def)

lemma ascending_nth:
  assumes "ascending ip sp cs" "Suc i < length cs"
  shows "4096 \<le> ip (cs ! Suc i) \<and>
    (if i = 0 then sp (cs ! i) \<le> sp (cs ! Suc i) else sp (cs ! i) < sp (cs ! Suc i))"
proof -
  have "\<not> TerminateWalk (ip (cs ! Suc i)) (sp (cs ! Suc i)) (sp (cs ! i)) (i = 0)"
    using assms unfolding ascending_def by blast
  then show ?thesis by (auto simp: TerminateWalk_def not_less not_le)
qed

lemma ascending_frames:
  assumes "ascending ip sp (map cpu_context fs)" "Suc i < length fs"
  shows "4096 \<le> ip (cpu_context (fs ! Suc i)) \<and>
    (if i = 0 then sp (cpu_context (fs ! i)) \<le> sp (cpu_context (fs ! Suc i))
     else sp (cpu_context (fs ! i)) < sp (cpu_context (fs ! Suc i)))"
  using ascending_nth [OF assms(1), unfolded length_map, OF assms(2)]
  unfolding nth_map [OF assms(2)] nth_map [OF Suc_lessD [OF assms(2)]] .

definition next_frame_ok ::
  "('c \<Rightarrow> u64) \<Rightarrow> ('c \<Rightarrow> u64) \<Rightarrow> 'c list \<Rightarrow> ('c, 'v, 'z) StackFrameCpu_scheme option \<Rightarrow> bool" where
  "next_frame_ok ip sp cs fo \<longleftrightarrow>
     (\<forall>f. fo = Some f \<longrightarrow> cs \<noteq> [] \<longrightarrow>
        \<not> TerminateWalk (ip (cpu_context f)) (sp (cpu_context f)) (sp (last cs)) (length cs = 1))"

locale monotone_walker =
  fixes ops :: "(('c, 'v, 'z) StackFrameCpu_scheme, ('p, 'r) StackFrameSymbolizer) StackwalkerOps"
    and ip :: "'c \<Rightarrow> u64" and sp :: "'c \<Rightarrow> u64"
  assumes last_context: "op_GetCallerFrame ops y frames allowed = Some (fo, l, y') \<Longrightarrow> frames \<noteq> [] \<Longrightarrow>
      cpu_context l = cpu_context (last frames)"
    and caller_checked: "op_GetCallerFrame ops y frames allowed = Some (fo, l, y') \<Longrightarrow> frames \<noteq> [] \<Longrightarrow>
      next_frame_ok ip sp (map cpu_context frames) fo"
begin

lemma walk_loop_ascending:
  assumes "walk_loop env lim ops y fo w = Some (ok, w', y')"
    and "ascending ip sp (map cpu_context (ws_frames w)) \<and>
      next_frame_ok ip sp (map cpu_context (ws_frames w)) fo"
  shows "ascending ip sp (map cpu_context (ws_frames w'))"
proof (rule walk_loop_invariant [OF assms(1),
      where I = "\<lambda>y fo w. ascending ip sp (map cpu_context (ws_frames w)) \<and>
         next_frame_ok ip sp (map cpu_context (ws_frames w)) fo"
      and J = "\<lambda>y w. ascending ip sp (map cpu_context (ws_frames w))", OF assms(2)], goal_cases)
  case (2 y f w res filled y1)
  then show ?case by (simp add: walk_push_def ascending_snoc next_frame_ok_def)
next
  case (4 y w fs f n l y')
  then show ?case
    using last_context [OF 4(4)] caller_checked [OF 4(4)] by simp
qed auto

lemma Walk_ascending:
  assumes "Walk env lim ops y ms cs = Some (ok, w, y')"
  shows "ascending ip sp (map cpu_context (ws_frames w))"
  using walk_loop_ascending [OF assms [unfolded Walk_def]] by (simp add: ascending_def next_frame_ok_def)

end

text \<open>The number of untrustworthy frames is limited by \<open>max_frames_scanned\<close> because a CPU
  walker produces one only when it is allowed to scan.\<close>

definition dubious_frames :: "('c, 'v, 'z) StackFrameCpu_scheme list \<Rightarrow> nat" where
  "dubious_frames fs = length (filter (\<lambda>f. dubious (trust (base_frame f))) fs)"

locale gated_walker =
  fixes ops :: "(('c, 'v, 'z) StackFrameCpu_scheme, ('p, 'r) StackFrameSymbolizer) StackwalkerOps"
  assumes context_trusted: "op_GetContextFrame ops = Some f \<Longrightarrow> \<not> dubious (trust (base_frame f))"
    and last_trust: "op_GetCallerFrame ops y frames allowed = Some (fo, l, y') \<Longrightarrow> frames \<noteq> [] \<Longrightarrow>
      trust (base_frame l) = trust (base_frame (last frames))"
    and gated: "op_GetCallerFrame ops y frames False = Some (Some f, l, y') \<Longrightarrow> frames \<noteq> [] \<Longrightarrow>
      \<not> dubious (trust (base_frame f))"
    and keeps_resolver: "op_GetCallerFrame ops y frames allowed = Some (fo, l, y') \<Longrightarrow> frames \<noteq> [] \<Longrightarrow>
      resolver_keeps_frame y \<Longrightarrow> resolver_keeps_frame y'"
begin

lemma walk_loop_gated:
  assumes "walk_loop env lim ops y fo w = Some (ok, w', y')"
    and "resolver_keeps_frame y \<and> dubious_frames (ws_frames w) = unat (ws_scanned_frames w) \<and>
      dubious_frames (ws_frames w) \<le> unat (max_frames_scanned lim) \<and>
      (\<forall>f. fo = Some f \<longrightarrow> dubious (trust (base_frame f)) \<longrightarrow> ws_scanned_frames w < max_frames_scanned lim)"
  shows "dubious_frames (ws_frames w') \<le> unat (max_frames_scanned lim)"
proof (rule walk_loop_invariant [OF assms(1),
      where I = "\<lambda>y fo w. resolver_keeps_frame y \<and> dubious_frames (ws_frames w) = unat (ws_scanned_frames w) \<and>
         dubious_frames (ws_frames w) \<le> unat (max_frames_scanned lim) \<and>
         (\<forall>f. fo = Some f \<longrightarrow> dubious (trust (base_frame f)) \<longrightarrow> ws_scanned_frames w < max_frames_scanned lim)"
      and J = "\<lambda>y w. resolver_keeps_frame y \<and> dubious_frames (ws_frames w) = unat (ws_scanned_frames w) \<and>
         dubious_frames (ws_frames w) \<le> unat (max_frames_scanned lim)", OF assms(2)], goal_cases)
  case (2 y f w res filled y1)
  have k: "trust filled = trust (base_frame f)" "resolver_keeps_frame y1"
    using FillSourceLineInfo_keeps [OF _ 2(2)] 2(1) by auto
  show ?case
  proof (cases "dubious (trust (base_frame f))")
    case True
    then have lt: "ws_scanned_frames w < max_frames_scanned lim" using 2(1) by blast
    then have "unat (ws_scanned_frames w) < unat (max_frames_scanned lim)" by (simp add: word_less_nat_alt)
    then show ?thesis
      using 2(1) k True unat_add_1_less [OF lt] by (simp add: walk_push_def dubious_frames_def)
  next
    case False
    then show ?thesis using 2(1) k by (simp add: walk_push_def dubious_frames_def)
  qed
next
  case (4 y w fs f n l y')
  have "dubious_frames (fs @ [l]) = dubious_frames (ws_frames w)"
    using last_trust [OF 4(4)] by (simp add: dubious_frames_def 4(3))
  moreover have "dubious (trust (base_frame f')) \<longrightarrow> ws_scanned_frames w < max_frames_scanned lim"
    if "n = Some f'" for f'
    using gated [of y "fs @ [f]" f' l y'] 4(4) that by (cases "ws_scanned_frames w < max_frames_scanned lim") auto
  ultimately show ?case using keeps_resolver [OF 4(4)] 4(1) by simp
qed auto

lemma Walk_gated:
  assumes "Walk env lim ops y ms cs = Some (ok, w, y')" "resolver_keeps_frame y"
  shows "dubious_frames (ws_frames w) \<le> unat (max_frames_scanned lim)"
  using walk_loop_gated [OF assms(1) [unfolded Walk_def]] assms(2) context_trusted
  by (simp add: dubious_frames_def)

end

text \<open>What holds of the register context of every frame: the typing invariant of the walkers
  whose contexts have register arrays.\<close>

locale context_walker =
  fixes ops :: "(('c, 'v, 'z) StackFrameCpu_scheme, ('p, 'r) StackFrameSymbolizer) StackwalkerOps"
    and ok :: "'c \<Rightarrow> bool"
  assumes first_ok: "op_GetContextFrame ops = Some f \<Longrightarrow> ok (cpu_context f)"
    and last_kept: "op_GetCallerFrame ops y frames allowed = Some (fo, l, y') \<Longrightarrow> frames \<noteq> [] \<Longrightarrow>
      cpu_context l = cpu_context (last frames)"
    and next_ok: "op_GetCallerFrame ops y frames allowed = Some (Some f, l, y') \<Longrightarrow> frames \<noteq> [] \<Longrightarrow>
      ok (cpu_context (last frames)) \<Longrightarrow> ok (cpu_context f)"
begin

lemma Walk_contexts_ok:
  assumes "Walk env lim ops y ms cs = Some (ok', w, y')"
  shows "\<forall>f\<in>set (ws_frames w). ok (cpu_context f)"
proof (rule walk_loop_invariant [OF assms [unfolded Walk_def],
      where I = "\<lambda>y fo w. (\<forall>f\<in>set (ws_frames w). ok (cpu_context f)) \<and> (\<forall>f. fo = Some f \<longrightarrow> ok (cpu_context f))"
      and J = "\<lambda>y w. \<forall>f\<in>set (ws_frames w). ok (cpu_context f)"], goal_cases)
  case 1
  then show ?case using first_ok by simp
next
  case (3 y f w res filled y1)
  then show ?case by (simp add: walk_push_def)
next
  case (5 y w fs f n l y')
  then show ?case using last_kept [OF 5(4)] next_ok [of y "fs @ [f]" _ _ l y'] by auto
qed auto

end

text \<open>A walk comes back when every call of \<open>GetCallerFrame\<close> does; \<open>ready\<close> is what those calls need
  of the symbolizer.\<close>

locale returning_walker =
  fixes ops :: "(('c, 'v, 'z) StackFrameCpu_scheme, ('p, 'r) StackFrameSymbolizer) StackwalkerOps"
    and ready :: "('p, 'r) StackFrameSymbolizer \<Rightarrow> bool"
  assumes fill_ready: "ready y \<Longrightarrow> FillSourceLineInfo y ms us si f = (res, f', y') \<Longrightarrow> ready y'"
    and caller_returns: "ready y \<Longrightarrow> frames \<noteq> [] \<Longrightarrow>
      \<exists>fo l y'. op_GetCallerFrame ops y frames allowed = Some (fo, l, y') \<and> ready y'"
begin

lemma walk_loop_returns:
  assumes "ready y" "ops' = ops"
  shows "\<exists>r. walk_loop env lim ops' y fo w = Some r"
  using assms
proof (induction env lim ops' y fo w rule: walk_loop.induct)
  case (2 env lim ops' y frame w)
  obtain res filled y1 where f: "FillSourceLineInfo y (w_modules env) (w_unloaded_modules env)
      (w_system_info env) (base_frame frame) = (res, filled, y1)" by (metis prod_cases3)
  have y1: "ready y1" by (rule fill_ready [OF "2.prems"(1) f])
  let ?w1 = "walk_push res (frame\<lparr>base_frame := filled\<rparr>) w"
  show ?case
  proof (cases "res = kInterrupt \<or> unat (max_frames lim) < length (ws_frames ?w1)")
    case True
    then show ?thesis using f by (auto simp: Let_def)
  next
    case False
    have "ws_frames ?w1 \<noteq> []" by (simp add: walk_push_def)
    from caller_returns [OF y1 this] obtain n l y2 where g: "op_GetCallerFrame ops' y1 (ws_frames ?w1)
        (ws_scanned_frames ?w1 < max_frames_scanned lim) = Some (n, l, y2)" "ready y2"
      unfolding "2.prems"(2) by blast
    have "\<exists>r. walk_loop env lim ops' y2 n (?w1\<lparr>ws_frames := ws_frames w @ [l]\<rparr>) = Some r"
      by (rule "2.IH" [OF f [symmetric] refl _ refl _ g(1) refl refl g(2) "2.prems"(2)]) (use False in auto)
    then show ?thesis using f g False by (auto simp: Let_def)
  qed
qed auto

lemma Walk_returns: "ready y \<Longrightarrow> \<exists>r. Walk env lim ops y ms cs = Some r"
  unfolding Walk_def by (rule walk_loop_returns) simp_all

end

text \<open>What a walk needs of the resolver: no rule set it may return makes the evaluator crash.\<close>

definition cfi_safe :: "('w::len word \<Rightarrow> 'w word option) \<Rightarrow> ('p, 'r) StackFrameSymbolizer \<Rightarrow> bool" where
  "cfi_safe get y \<longleftrightarrow>
     (\<forall>ops r r' f cfi regs c0. resolver y = Some (ops, r) \<longrightarrow> res_FindCFIFrameInfo ops r' f = Some cfi \<longrightarrow>
        fst (FindCallerRegs cfi regs get c0) \<noteq> Crashed)"

lemma cfi_safe_fill:
  assumes "cfi_safe get y" "FillSourceLineInfo y ms us si f = (res, f', y')"
  shows "cfi_safe get y'"
  using assms(1) FillSourceLineInfo_collaborators(1) [OF assms(2)]
  unfolding cfi_safe_def by (cases "resolver y"; cases "resolver y'") auto

lemma cfi_safe_plausible: "cfi_safe get y \<Longrightarrow> cfi_safe get (snd (plausible_return_address env y a))"
  using cfi_safe_fill
  by (fastforce simp: plausible_return_address_def InstructionAddressSeemsValid_def
      split: option.splits prod.splits)

lemma scan_cfi_safe:
  assumes "ScanForReturnAddress env get' y start n = Some (found, y')" "cfi_safe get y"
  shows "cfi_safe get y'"
  using scan_loop_keeps [OF assms(1) [unfolded ScanForReturnAddress_def Let_def], where P = "cfi_safe get"]
    cfi_safe_plausible assms(2) by fastforce

section \<open>Trying one method after another\<close>

text \<open>The part of \<open>GetCallerFrame\<close> that the AMD64, ARM, ARM64 and MIPS walkers share: call frame
  information first, then the frame pointer, then, if allowed, a scan; \<open>finish\<close> checks the
  frame found and completes it.\<close>

definition cfi_caller ::
  "(CFIFrameInfo \<Rightarrow> 'f option option) \<Rightarrow> ('p, 'r) StackFrameSymbolizer \<Rightarrow> StackFrame \<Rightarrow> 'f option option" where
  "cfi_caller by_cfi y last_frame =
     (case FindCFIFrameInfo y last_frame of
        None \<Rightarrow> Some None
      | Some cfi_frame_info \<Rightarrow> by_cfi cfi_frame_info)"

definition scan_caller ::
  "(('w word \<times> 'w word) option \<times> 'y) option \<Rightarrow> ('w::len word \<Rightarrow> 'w word \<Rightarrow> 'f) \<Rightarrow> ('f option \<times> 'y) option" where
  "scan_caller scanned build =
     map_option (\<lambda>(found, y). (map_option (\<lambda>(location, ip). build location ip) found, y)) scanned"

definition try_callers ::
  "'f option option \<Rightarrow> 'f option \<Rightarrow> ('f option \<times> 'y) option \<Rightarrow> bool \<Rightarrow> 'y \<Rightarrow> ('f \<Rightarrow> 'f option option) \<Rightarrow> 'f
     \<Rightarrow> ('f option \<times> 'f \<times> 'y) option" where
  "try_callers by_cfi by_fp by_scan stack_scan_allowed y finish last_frame =
     do {
       cfi_frame \<leftarrow> by_cfi;
       let frame = (case cfi_frame of None \<Rightarrow> by_fp | Some f \<Rightarrow> Some f);
       (new_frame, y') \<leftarrow> (if stack_scan_allowed \<and> frame = None then by_scan else Some (frame, y));
       (case new_frame of
          None \<Rightarrow> Some (None, last_frame, y')
        | Some f \<Rightarrow> do { caller \<leftarrow> finish f; Some (caller, last_frame, y') })
     }"

lemma try_callers_cases:
  assumes "try_callers by_cfi by_fp by_scan allowed y finish last_frame = Some (fo, l, y')"
  shows "l = last_frame" "y' = y \<or> (\<exists>nf. by_scan = Some (nf, y'))"
    "fo = Some g \<Longrightarrow> \<exists>f. finish f = Some (Some g) \<and>
       (by_cfi = Some (Some f) \<or> by_fp = Some f \<or> allowed \<and> by_scan = Some (Some f, y'))"
  using assms
  by (auto simp: try_callers_def Let_def bind_eq_Some_conv split: option.splits if_splits)

lemma try_callers_returns:
  assumes "by_cfi \<noteq> None" "by_scan \<noteq> None" "\<And>f. finish f \<noteq> None"
  shows "\<exists>fo y'. try_callers by_cfi by_fp by_scan allowed y finish last_frame = Some (fo, last_frame, y') \<and>
    (y' = y \<or> (\<exists>nf. by_scan = Some (nf, y')))"
proof -
  obtain c where c: "by_cfi = Some c" using assms(1) by blast
  obtain nf ys where s: "by_scan = Some (nf, ys)" using assms(2) by (metis not_None_eq surj_pair)
  have f: "\<exists>r. finish f = Some r" for f using assms(3) by (meson not_None_eq)
  let ?frame = "case c of None \<Rightarrow> by_fp | Some f \<Rightarrow> Some f"
  obtain nf' y' where n: "(if allowed \<and> ?frame = None then by_scan else Some (?frame, y)) = Some (nf', y')"
    "y' = y \<or> (\<exists>nf. by_scan = Some (nf, y'))"
    using s by (cases "allowed \<and> ?frame = None") auto
  show ?thesis
  proof (cases nf')
    case None
    then show ?thesis using n c by (auto simp: try_callers_def Let_def)
  next
    case (Some f')
    obtain r where "finish f' = Some r" using f by blast
    then show ?thesis using n c Some by (auto simp: try_callers_def Let_def)
  qed
qed

text \<open>The checks at the end of \<open>GetCallerFrame\<close>; \<open>instr\<close> is the instruction reported for a frame
  with this context.\<close>

definition checked_frame ::
  "('c \<Rightarrow> u64) \<Rightarrow> ('c \<Rightarrow> u64) \<Rightarrow> ('c \<Rightarrow> u64) \<Rightarrow> ('c, 'v, 'z) StackFrameCpu_scheme list
     \<Rightarrow> ('c, 'v, 'z) StackFrameCpu_scheme \<Rightarrow> ('c, 'v, 'z) StackFrameCpu_scheme option" where
  "checked_frame ip sp instr frames f =
     (let c = cpu_context f in
      if TerminateWalk (ip c) (sp c) (sp (cpu_context (last frames))) (length frames = 1) then None
      else Some (f\<lparr>base_frame := (base_frame f)\<lparr>instruction := instr c\<rparr>\<rparr>))"

lemma checked_frame_Some:
  assumes "checked_frame ip sp instr frames f = Some g"
  shows "\<not> TerminateWalk (ip (cpu_context g)) (sp (cpu_context g)) (sp (cpu_context (last frames))) (length frames = 1)"
    "trust (base_frame g) = trust (base_frame f)" "cpu_context g = cpu_context f"
    "context_validity g = context_validity f" "instruction (base_frame g) = instr (cpu_context g)"
  using assms by (auto simp: checked_frame_def Let_def split: if_splits)

text \<open>A CPU walker made of \<open>try_callers\<close> meets the two contracts above.\<close>

locale trying_walker =
  fixes env :: WalkerEnv
    and ops :: "(('c, 'v, 'z) StackFrameCpu_scheme, ('p, 'r) StackFrameSymbolizer) StackwalkerOps"
    and ip :: "'c \<Rightarrow> u64" and sp :: "'c \<Rightarrow> u64"
    and by_cfi :: "MemoryRegion \<Rightarrow> ('c, 'v, 'z) StackFrameCpu_scheme list \<Rightarrow> CFIFrameInfo
      \<Rightarrow> ('c, 'v, 'z) StackFrameCpu_scheme option option"
    and by_fp :: "MemoryRegion \<Rightarrow> ('c, 'v, 'z) StackFrameCpu_scheme list \<Rightarrow> ('c, 'v, 'z) StackFrameCpu_scheme option"
    and by_scan :: "MemoryRegion \<Rightarrow> ('p, 'r) StackFrameSymbolizer \<Rightarrow> ('c, 'v, 'z) StackFrameCpu_scheme list
      \<Rightarrow> (('c, 'v, 'z) StackFrameCpu_scheme option \<times> ('p, 'r) StackFrameSymbolizer) option"
    and finish :: "('c, 'v, 'z) StackFrameCpu_scheme list \<Rightarrow> ('c, 'v, 'z) StackFrameCpu_scheme
      \<Rightarrow> ('c, 'v, 'z) StackFrameCpu_scheme option option"
  assumes caller_tries: "op_GetCallerFrame ops y frames allowed =
      (case w_memory env of
         None \<Rightarrow> Some (None, last frames, y)
       | Some m \<Rightarrow> try_callers (cfi_caller (by_cfi m frames) y (base_frame (last frames))) (by_fp m frames)
           (by_scan m y frames) allowed y (finish frames) (last frames))"
    and context_trust: "op_GetContextFrame ops = Some f \<Longrightarrow> trust (base_frame f) = FRAME_TRUST_CONTEXT"
    and cfi_trust: "by_cfi m frames cfi = Some (Some f) \<Longrightarrow> trust (base_frame f) = FRAME_TRUST_CFI"
    and fp_trust: "by_fp m frames = Some f \<Longrightarrow> trust (base_frame f) = FRAME_TRUST_FP"
    and scan_resolver: "by_scan m y frames = Some (fo, y') \<Longrightarrow> resolver_keeps_frame y \<Longrightarrow> resolver_keeps_frame y'"
    and finish_checked: "finish frames f = Some (Some g) \<Longrightarrow>
      \<not> TerminateWalk (ip (cpu_context g)) (sp (cpu_context g)) (sp (cpu_context (last frames))) (length frames = 1)"
    and finish_trust: "finish frames f = Some (Some g) \<Longrightarrow> trust (base_frame g) = trust (base_frame f)"
begin

lemma caller_origin:
  assumes "op_GetCallerFrame ops y frames allowed = Some (Some g, l, y')"
  shows "\<exists>m f. finish frames f = Some (Some g) \<and>
    ((\<exists>cfi. by_cfi m frames cfi = Some (Some f)) \<or> by_fp m frames = Some f \<or>
     allowed \<and> by_scan m y frames = Some (Some f, y'))"
proof -
  obtain m where "w_memory env = Some m" and t: "try_callers (cfi_caller (by_cfi m frames) y (base_frame (last frames)))
      (by_fp m frames) (by_scan m y frames) allowed y (finish frames) (last frames) = Some (Some g, l, y')"
    using assms unfolding caller_tries by (auto split: option.splits)
  show ?thesis
    using try_callers_cases(3) [OF t refl] by (fastforce simp: cfi_caller_def split: option.splits)
qed

lemma caller_keeps:
  assumes "op_GetCallerFrame ops y frames allowed = Some (fo, l, y')"
  shows "l = last frames" "resolver_keeps_frame y \<Longrightarrow> resolver_keeps_frame y'"
proof -
  show "l = last frames"
    using assms try_callers_cases(1) unfolding caller_tries by (fastforce split: option.splits)
  show "resolver_keeps_frame y'" if "resolver_keeps_frame y"
    using assms that try_callers_cases(2) scan_resolver unfolding caller_tries
    by (fastforce split: option.splits)
qed

end

sublocale trying_walker \<subseteq> monotone_walker ops ip sp
proof (unfold_locales, goal_cases)
  case (1 y frames allowed fo l y')
  then show ?case using caller_keeps(1) by metis
next
  case (2 y frames allowed fo l y')
  then show ?case
    by (cases fo) (auto simp: next_frame_ok_def last_map dest!: caller_origin dest: finish_checked)
qed

sublocale trying_walker \<subseteq> gated_walker ops
proof (unfold_locales, goal_cases)
  case (1 f)
  then show ?case by (simp add: context_trust dubious_def)
next
  case (2 y frames allowed fo l y')
  then show ?case using caller_keeps(1) by metis
next
  case (3 y frames f l y')
  then show ?case
    using caller_origin [OF 3(1)] by (auto simp: dubious_def dest!: finish_trust cfi_trust fp_trust)
next
  case (4 y frames allowed fo l y')
  then show ?case using caller_keeps(2) by metis
qed

locale sized_tries = trying_walker +
  fixes ok :: "'a \<Rightarrow> bool"
  assumes context_ok: "op_GetContextFrame ops = Some f \<Longrightarrow> ok (cpu_context f)"
    and cfi_ok: "by_cfi m frames cfi = Some (Some f) \<Longrightarrow> ok (cpu_context f)"
    and fp_ok: "by_fp m frames = Some f \<Longrightarrow> ok (cpu_context (last frames)) \<Longrightarrow> ok (cpu_context f)"
    and scan_ok: "by_scan m y frames = Some (Some f, y') \<Longrightarrow> ok (cpu_context (last frames)) \<Longrightarrow> ok (cpu_context f)"
    and finish_ok: "finish frames f = Some (Some g) \<Longrightarrow> ok (cpu_context f) \<Longrightarrow> ok (cpu_context g)"

sublocale sized_tries \<subseteq> context_walker ops ok
proof (unfold_locales, goal_cases)
  case (1 f)
  then show ?case by (rule context_ok)
next
  case (2 y frames allowed fo l y')
  then show ?case using caller_keeps(1) by metis
next
  case (3 y frames allowed f l y')
  then show ?case using caller_origin [OF 3(1)] cfi_ok fp_ok scan_ok finish_ok by blast
qed

locale returning_tries = trying_walker +
  fixes ready :: "('p, 'r) StackFrameSymbolizer \<Rightarrow> bool"
  assumes ready_fill: "ready y \<Longrightarrow> FillSourceLineInfo y ms us si bf = (res, bf', y') \<Longrightarrow> ready y'"
    and cfi_returns: "ready y \<Longrightarrow> w_memory env = Some m \<Longrightarrow> FindCFIFrameInfo y bf = Some cfi \<Longrightarrow>
      by_cfi m frames cfi \<noteq> None"
    and scan_returns: "ready y \<Longrightarrow> w_memory env = Some m \<Longrightarrow>
      \<exists>fo y'. by_scan m y frames = Some (fo, y') \<and> ready y'"
    and finish_returns: "ready y \<Longrightarrow> finish frames f \<noteq> None"

sublocale returning_tries \<subseteq> returning_walker ops ready
proof (unfold_locales, goal_cases)
  case (1 y ms us si f res f' y')
  then show ?case by (rule ready_fill)
next
  case (2 y frames allowed)
  show ?case
  proof (cases "w_memory env")
    case None
    then show ?thesis using 2 by (simp add: caller_tries)
  next
    case (Some m)
    obtain so ys where s: "by_scan m y frames = Some (so, ys)" "ready ys"
      using scan_returns [OF 2(1) Some] by blast
    have "\<exists>fo y'. op_GetCallerFrame ops y frames allowed = Some (fo, last frames, y') \<and>
        (y' = y \<or> (\<exists>nf. by_scan m y frames = Some (nf, y')))"
      unfolding caller_tries Some option.case
      by (rule try_callers_returns)
        (use cfi_returns [OF 2(1) Some] s finish_returns [OF 2(1)] in \<open>auto simp: cfi_caller_def split: option.split\<close>)
    then show ?thesis using s 2(1) by auto
  qed
qed

text \<open>The symbolizer conditions under which a walk over the memory of \<open>env\<close> comes back.\<close>

definition walk_ready :: "(MemoryRegion \<Rightarrow> 'w::len word \<Rightarrow> 'w word option) \<Rightarrow> WalkerEnv \<Rightarrow> ('p, 'r) StackFrameSymbolizer \<Rightarrow> bool" where
  "walk_ready get env y \<longleftrightarrow> (\<forall>m. w_memory env = Some m \<longrightarrow> bounded_region m \<and> cfi_safe (get m) y)"

lemma walk_ready_fill:
  "walk_ready get env y \<Longrightarrow> FillSourceLineInfo y ms us si f = (res, f', y') \<Longrightarrow> walk_ready get env y'"
  using cfi_safe_fill by (auto simp: walk_ready_def)

lemma walk_ready_scan:
  assumes "walk_ready get env y" "ScanForReturnAddress env get' y start n = Some (found, y')"
  shows "walk_ready get env y'"
  using assms(1) scan_cfi_safe [OF assms(2)]
  by (auto simp: walk_ready_def)

lemma cfi_no_crash:
  assumes "walk_ready get env y" "w_memory env = Some m" "FindCFIFrameInfo y f = Some cfi"
  shows "fst (FindCallerRegs cfi regs (get m) c0) \<noteq> Crashed" "FindCallerRegs cfi regs (get m) c0 \<noteq> (Crashed, x)"
proof -
  show *: "fst (FindCallerRegs cfi regs (get m) c0) \<noteq> Crashed"
    using assms by (auto simp: walk_ready_def cfi_safe_def FindCFIFrameInfo_def split: option.splits)
  show "FindCallerRegs cfi regs (get m) c0 \<noteq> (Crashed, x)"
    using * by (metis fst_conv)
qed

lemma scan_caller_keeps:
  assumes "scan_caller (ScanForReturnAddress env get y start n) build = Some (fo, y')"
    and "resolver_keeps_frame y"
  shows "resolver_keeps_frame y'"
  using assms scan_keeps by (auto simp: scan_caller_def)

lemma scan_caller_ready:
  assumes "walk_ready get env y" "\<exists>r. ScanForReturnAddress env get' y start n = Some r"
  shows "\<exists>fo y'. scan_caller (ScanForReturnAddress env get' y start n) build = Some (fo, y') \<and>
    walk_ready get env y'"
  using assms walk_ready_scan by (fastforce simp: scan_caller_def)

lemma scan_caller_ready64:
  assumes "walk_ready get env y" "w_memory env = Some m"
  shows "\<exists>fo y'. scan_caller (ScanForReturnAddress env (mem64 m) y start n) build = Some (fo, y') \<and>
    walk_ready get env y'"
  by (rule scan_caller_ready [OF assms(1) scan64_returns]) (use assms in \<open>simp add: walk_ready_def\<close>)

lemma scan_caller_ready32:
  assumes "walk_ready get env y" "w_memory env = Some m"
  shows "\<exists>fo y'. scan_caller (ScanForReturnAddress env (\<lambda>a :: u32. mem32 m (ucast a)) y start n) build = Some (fo, y') \<and>
    walk_ready get env y'"
  by (rule scan_caller_ready [OF assms(1) scan32_returns]) (use assms in \<open>simp add: walk_ready_def\<close>)

section \<open>A small stack to evaluate on\<close>

definition sample_stack64 :: MemoryRegion where
  "sample_stack64 =
     \<lparr>mem_base = 4096, mem_size = 8192, mem8 = (\<lambda>_. None), mem16 = (\<lambda>_. None), 
      mem32 = (\<lambda>a. if a = 4096 then Some 8192 else if a = 4100 then Some 5000
        else if a = 8192 then Some 0 else None),
      mem64 = (\<lambda>a. if a = 4096 then Some 8192 else if a = 4104 then Some 5000
        else if a = 8192 then Some 0 else None)\<rparr>"

definition sample_env64 :: "SystemInfo option \<Rightarrow> WalkerEnv" where
  "sample_env64 si = \<lparr>w_system_info = si, w_memory = Some sample_stack64, w_modules = None, w_unloaded_modules = None\<rparr>"

definition no_symbols :: "(unit, unit) StackFrameSymbolizer" where
  "no_symbols = StackFrameSymbolizer_make None None"

lemma sample_stack64_bounded: "bounded_region sample_stack64"
  by unfold_locales (auto simp: sample_stack64_def word_le_nat_alt split: if_splits)

definition sample_limits :: WalkLimits where
  "sample_limits = \<lparr>max_frames = 8, max_frames_scanned = 4\<rparr>"

lemma no_symbols_safe [simp]: "cfi_safe get no_symbols" "resolver_keeps_frame no_symbols"
  by (simp_all add: cfi_safe_def resolver_keeps_frame_def no_symbols_def StackFrameSymbolizer_make_def)

lemma sample_env64_memory [simp]: "w_memory (sample_env64 si) = Some sample_stack64"
  by (simp add: sample_env64_def)

end
