(* ===== verification/Stackwalker_AMD64.thy ===== *)
theory Stackwalker_AMD64
  imports Stackwalker
begin

text \<open>
  The AMD64 stack walker (\<open>processor/stackwalker_amd64.cc\<close>): the register table of the
  CFI walker, and the three ways to find a caller in the order the code tries them:
  call frame information, the frame pointer, a scan of the stack.
\<close>

section \<open>Context and register table\<close>

text \<open>The members of \<open>MDRawContextAMD64\<close> that the walker reads or writes; the others, which
  it only copies, are the bytes \<open>amd64_other\<close>.\<close>

record MDRawContextAMD64 =
  rax :: u64
  rcx :: u64
  rdx :: u64
  rbx :: u64
  rsp :: u64
  rbp :: u64
  rsi :: u64
  rdi :: u64
  r8 :: u64
  r9 :: u64
  r10 :: u64
  r11 :: u64
  r12 :: u64
  r13 :: u64
  r14 :: u64
  r15 :: u64
  rip :: u64
  amd64_other :: "u8 list"

type_synonym StackFrameAMD64 = "(MDRawContextAMD64, u32) StackFrameCpu"

definition amd64_filled :: "u64 \<Rightarrow> u8 list \<Rightarrow> MDRawContextAMD64" where
  "amd64_filled v other =
     \<lparr>rax = v, rcx = v, rdx = v, rbx = v, rsp = v, rbp = v, rsi = v, rdi = v, r8 = v, r9 = v, r10 = v,
      r11 = v, r12 = v, r13 = v, r14 = v, r15 = v, rip = v, amd64_other = other\<rparr>"

text \<open>The context after \<open>memset(caller_context, 0xda, sizeof(*caller_context))\<close>; the other
  members take the remaining 1096 bytes of the structure.\<close>

definition amd64_poison :: MDRawContextAMD64 where
  "amd64_poison = amd64_filled 0xdadadadadadadada (replicate 1096 0xda)"

definition amd64_row :: "string \<Rightarrow> string option \<Rightarrow> bool \<Rightarrow> nat \<Rightarrow> (MDRawContextAMD64 \<Rightarrow> u64)
    \<Rightarrow> (u64 \<Rightarrow> MDRawContextAMD64 \<Rightarrow> MDRawContextAMD64) \<Rightarrow> (MDRawContextAMD64, u64) RegisterSet" where
  "amd64_row name alternate callee_saves n getter setter =
     \<lparr>rs_name = name, rs_alternate_name = alternate, rs_callee_saves = callee_saves,
      rs_validity_flag = push_bit n 1, rs_get = getter, rs_set = setter\<rparr>"

definition amd64_cfi_register_map :: "(MDRawContextAMD64, u64) RegisterSet list" where
  "amd64_cfi_register_map =
     [amd64_row ''$rax'' None False 0 rax (\<lambda>v c. c\<lparr>rax := v\<rparr>),
      amd64_row ''$rdx'' None False 1 rdx (\<lambda>v c. c\<lparr>rdx := v\<rparr>),
      amd64_row ''$rcx'' None False 2 rcx (\<lambda>v c. c\<lparr>rcx := v\<rparr>),
      amd64_row ''$rbx'' None True 3 rbx (\<lambda>v c. c\<lparr>rbx := v\<rparr>),
      amd64_row ''$rsi'' None False 4 rsi (\<lambda>v c. c\<lparr>rsi := v\<rparr>),
      amd64_row ''$rdi'' None False 5 rdi (\<lambda>v c. c\<lparr>rdi := v\<rparr>),
      amd64_row ''$rbp'' None True 6 rbp (\<lambda>v c. c\<lparr>rbp := v\<rparr>),
      amd64_row ''$rsp'' (Some ''.cfa'') False 7 rsp (\<lambda>v c. c\<lparr>rsp := v\<rparr>),
      amd64_row ''$r8'' None False 8 r8 (\<lambda>v c. c\<lparr>r8 := v\<rparr>),
      amd64_row ''$r9'' None False 9 r9 (\<lambda>v c. c\<lparr>r9 := v\<rparr>),
      amd64_row ''$r10'' None False 10 r10 (\<lambda>v c. c\<lparr>r10 := v\<rparr>),
      amd64_row ''$r11'' None False 11 r11 (\<lambda>v c. c\<lparr>r11 := v\<rparr>),
      amd64_row ''$r12'' None True 12 r12 (\<lambda>v c. c\<lparr>r12 := v\<rparr>),
      amd64_row ''$r13'' None True 13 r13 (\<lambda>v c. c\<lparr>r13 := v\<rparr>),
      amd64_row ''$r14'' None True 14 r14 (\<lambda>v c. c\<lparr>r14 := v\<rparr>),
      amd64_row ''$r15'' None True 15 r15 (\<lambda>v c. c\<lparr>r15 := v\<rparr>),
      amd64_row ''$rip'' (Some ''.ra'') False 16 rip (\<lambda>v c. c\<lparr>rip := v\<rparr>)]"

definition AMD64_VALID_RBP :: u32 where
  "AMD64_VALID_RBP = push_bit 6 1"

definition AMD64_VALID_RSP :: u32 where
  "AMD64_VALID_RSP = push_bit 7 1"

definition AMD64_VALID_RIP :: u32 where
  "AMD64_VALID_RIP = push_bit 16 1"

definition StackFrameAMD64_make :: "FrameTrust \<Rightarrow> MDRawContextAMD64 \<Rightarrow> u32 \<Rightarrow> StackFrameAMD64" where
  "StackFrameAMD64_make t c v =
     \<lparr>base_frame = StackFrame_init\<lparr>trust := t\<rparr>, cpu_context = c, context_validity = v\<rparr>"

text \<open>The assertion in \<open>ReturnAddress\<close> is the precondition: \<open>None\<close> when it fails.\<close>

definition StackFrameAMD64_ReturnAddress :: "StackFrameAMD64 \<Rightarrow> u64 option" where
  "StackFrameAMD64_ReturnAddress f =
     (if context_validity f AND AMD64_VALID_RIP \<noteq> 0 then Some (rip (cpu_context f)) else None)"

section \<open>Operations\<close>

definition amd64_GetContextFrame :: "MDRawContextAMD64 option \<Rightarrow> StackFrameAMD64 option" where
  "amd64_GetContextFrame context =
     (case context of
        None \<Rightarrow> None
      | Some c \<Rightarrow>
          Some \<lparr>base_frame = StackFrame_init\<lparr>trust := FRAME_TRUST_CONTEXT, instruction := rip c\<rparr>,
                cpu_context = c, context_validity = - 1\<rparr>)"

definition amd64_GetCallerByCFIFrameInfo ::
  "MemoryRegion \<Rightarrow> StackFrameAMD64 list \<Rightarrow> CFIFrameInfo \<Rightarrow> StackFrameAMD64 option option" where
  "amd64_GetCallerByCFIFrameInfo memory frames cfi_frame_info =
     (let last_frame = last frames;
          essentials = AMD64_VALID_RIP OR AMD64_VALID_RSP
      in case FindCallerRegisters amd64_cfi_register_map (mem64 memory) cfi_frame_info
                (cpu_context last_frame) (context_validity last_frame) amd64_poison of
           (Crashed, _) \<Rightarrow> None
         | (Ok, Some (c, validity)) \<Rightarrow>
             if validity AND essentials \<noteq> essentials then Some None
             else Some (Some (StackFrameAMD64_make FRAME_TRUST_CFI c validity))
         | _ \<Rightarrow> Some None)"

definition is_non_canonical :: "u64 \<Rightarrow> bool" where
  "is_non_canonical ptr \<longleftrightarrow> 0x7FFFFFFFFFFF < ptr \<and> ptr < 0xFFFF800000000000"

definition amd64_GetCallerByFramePointerRecovery ::
  "MemoryRegion \<Rightarrow> StackFrameAMD64 list \<Rightarrow> StackFrameAMD64 option" where
  "amd64_GetCallerByFramePointerRecovery memory frames =
     (let last_context = cpu_context (last frames);
          last_rbp = rbp last_context
      in if last_rbp mod 8 \<noteq> 0 then None
         else
           (case (mem64 memory (last_rbp + 8), mem64 memory last_rbp) of
              (Some caller_rip, Some caller_rbp) \<Rightarrow>
                (let caller_rsp = last_rbp + 16 in
                 if is_non_canonical caller_rip then None
                 else if caller_rsp \<le> last_rbp \<or> caller_rbp < caller_rsp then None
                 else if mem64 memory caller_rbp = None then None
                 else Some (StackFrameAMD64_make FRAME_TRUST_FP
                        (last_context\<lparr>rip := caller_rip, rsp := caller_rsp, rbp := caller_rbp\<rparr>)
                        (AMD64_VALID_RIP OR AMD64_VALID_RSP OR AMD64_VALID_RBP)))
            | _ \<Rightarrow> None))"

text \<open>The part of \<open>GetCallerByStackScan\<close> that passes a plausible frame pointer on.\<close>

definition amd64_scan_rbp ::
  "MemoryRegion \<Rightarrow> StackFrameAMD64 \<Rightarrow> u64 \<Rightarrow> StackFrameAMD64 \<Rightarrow> StackFrameAMD64" where
  "amd64_scan_rbp memory last_frame caller_rip_address frame =
     (let last_rbp = rbp (cpu_context last_frame);
          with_rbp = (\<lambda>v. frame\<lparr>cpu_context := (cpu_context frame)\<lparr>rbp := v\<rparr>,
            context_validity := context_validity frame OR AMD64_VALID_RBP\<rparr>)
      in if context_validity last_frame AND AMD64_VALID_RBP = 0 then frame
         else if caller_rip_address - 8 = last_rbp then
           (case mem64 memory last_rbp of
              Some caller_rbp \<Rightarrow> if caller_rip_address < caller_rbp then with_rbp caller_rbp else frame
            | None \<Rightarrow> frame)
         else if caller_rip_address + 8 \<le> last_rbp then with_rbp last_rbp
         else frame)"

definition amd64_GetCallerByStackScan ::
  "WalkerEnv \<Rightarrow> MemoryRegion \<Rightarrow> ('p, 'r) StackFrameSymbolizer \<Rightarrow> StackFrameAMD64 list
     \<Rightarrow> (StackFrameAMD64 option \<times> ('p, 'r) StackFrameSymbolizer) option" where
  "amd64_GetCallerByStackScan env memory y frames =
     (let last_frame = last frames;
          last_rsp = rsp (cpu_context last_frame)
      in scan_caller (ScanForReturnAddress_context env (mem64 memory) y last_rsp (length frames = 1))
           (\<lambda>caller_rip_address caller_rip.
              amd64_scan_rbp memory last_frame caller_rip_address
                (StackFrameAMD64_make FRAME_TRUST_SCAN
                   ((cpu_context last_frame)\<lparr>rip := caller_rip, rsp := caller_rip_address + 8\<rparr>)
                   (AMD64_VALID_RIP OR AMD64_VALID_RSP))))"

text \<open>The sandbox constraint of Native Client.\<close>

definition amd64_nacl :: "StackFrameAMD64 \<Rightarrow> StackFrameAMD64" where
  "amd64_nacl f =
     (let low = (\<lambda>v :: u64. ucast (ucast v :: u32));
          c = cpu_context f
      in f\<lparr>cpu_context := c\<lparr>rip := low (rip c), rsp := low (rsp c), rbp := low (rbp c)\<rparr>\<rparr>)"

text \<open>The last steps of \<open>GetCallerFrame\<close> for a frame found in one of the three ways. A null
  \<open>system_info_\<close> is dereferenced here.\<close>

definition amd64_finish ::
  "WalkerEnv \<Rightarrow> StackFrameAMD64 list \<Rightarrow> StackFrameAMD64 \<Rightarrow> StackFrameAMD64 option option" where
  "amd64_finish env frames f =
     (case w_system_info env of
        None \<Rightarrow> None
      | Some si \<Rightarrow>
          Some (checked_frame rip rsp (\<lambda>c. rip c - 1) frames
                  (if os_short si = ''nacl'' then amd64_nacl f else f)))"

definition amd64_GetCallerFrame ::
  "WalkerEnv \<Rightarrow> ('p, 'r) StackFrameSymbolizer \<Rightarrow> StackFrameAMD64 list \<Rightarrow> bool
     \<Rightarrow> (StackFrameAMD64 option \<times> StackFrameAMD64 \<times> ('p, 'r) StackFrameSymbolizer) option" where
  "amd64_GetCallerFrame env y frames stack_scan_allowed =
     (case w_memory env of
        None \<Rightarrow> Some (None, last frames, y)
      | Some memory \<Rightarrow>
          try_callers
            (cfi_caller (amd64_GetCallerByCFIFrameInfo memory frames) y (base_frame (last frames)))
            (amd64_GetCallerByFramePointerRecovery memory frames)
            (amd64_GetCallerByStackScan env memory y frames)
            stack_scan_allowed y (amd64_finish env frames) (last frames))"

definition amd64_ops ::
  "WalkerEnv \<Rightarrow> MDRawContextAMD64 option \<Rightarrow> (StackFrameAMD64, ('p, 'r) StackFrameSymbolizer) StackwalkerOps" where
  "amd64_ops env context =
     \<lparr>op_GetContextFrame = amd64_GetContextFrame context, op_GetCallerFrame = amd64_GetCallerFrame env\<rparr>"

section \<open>The contracts\<close>

interpretation amd64_table: register_table amd64_cfi_register_map
  by (rule register_tableI)
    (simp_all add: amd64_cfi_register_map_def amd64_row_def row_ok_def rows_independent_def)

lemma amd64_finish_checked:
  assumes "amd64_finish env frames f = Some (Some g)"
  shows "\<not> TerminateWalk (rip (cpu_context g)) (rsp (cpu_context g)) (rsp (cpu_context (last frames))) (length frames = 1)"
    "trust (base_frame g) = trust (base_frame f)"
proof -
  obtain si :: SystemInfo where c: "checked_frame rip rsp (\<lambda>c. rip c - 1) frames
      (if os_short si = ''nacl'' then amd64_nacl f else f) = Some g"
    using assms by (cases "w_system_info env") (simp_all add: amd64_finish_def)
  show "\<not> TerminateWalk (rip (cpu_context g)) (rsp (cpu_context g)) (rsp (cpu_context (last frames))) (length frames = 1)"
    by (rule checked_frame_Some(1) [OF c])
  show "trust (base_frame g) = trust (base_frame f)"
    using checked_frame_Some(2) [OF c] by (simp add: amd64_nacl_def Let_def split: if_splits)
qed

lemma amd64_cfi_trust:
  "amd64_GetCallerByCFIFrameInfo memory frames cfi = Some (Some f) \<Longrightarrow> trust (base_frame f) = FRAME_TRUST_CFI"
  by (auto simp: amd64_GetCallerByCFIFrameInfo_def StackFrameAMD64_make_def Let_def
      split: prod.splits status.splits option.splits if_splits)

lemma amd64_fp_trust:
  "amd64_GetCallerByFramePointerRecovery memory frames = Some f \<Longrightarrow> trust (base_frame f) = FRAME_TRUST_FP"
  by (auto simp: amd64_GetCallerByFramePointerRecovery_def StackFrameAMD64_make_def Let_def
      split: option.splits if_splits)

lemma amd64_scan_resolver:
  "amd64_GetCallerByStackScan env memory y frames = Some (fo, y') \<Longrightarrow> resolver_keeps_frame y \<Longrightarrow>
    resolver_keeps_frame y'"
  unfolding amd64_GetCallerByStackScan_def Let_def ScanForReturnAddress_context_def by (rule scan_caller_keeps)

interpretation amd64: trying_walker env "amd64_ops env ctx" rip rsp amd64_GetCallerByCFIFrameInfo
  amd64_GetCallerByFramePointerRecovery "amd64_GetCallerByStackScan env" "amd64_finish env" for env ctx
proof (unfold_locales, goal_cases)
  case (1 y frames allowed)
  show ?case by (simp add: amd64_ops_def amd64_GetCallerFrame_def)
next
  case (2 f)
  then show ?case by (auto simp: amd64_ops_def amd64_GetContextFrame_def split: option.splits)
qed (fact amd64_cfi_trust amd64_fp_trust amd64_scan_resolver amd64_finish_checked)+

lemma amd64_cfi_returns:
  assumes "walk_ready mem64 env y" "w_memory env = Some m" "FindCFIFrameInfo y f = Some cfi"
  shows "amd64_GetCallerByCFIFrameInfo m frames cfi \<noteq> None"
  by (auto simp: amd64_GetCallerByCFIFrameInfo_def FindCallerRegisters_def Let_def cfi_no_crash(2) [OF assms]
      split: prod.splits status.splits option.splits)

lemma amd64_scan_returns:
  assumes "walk_ready mem64 env y" "w_memory env = Some m"
  shows "\<exists>fo y'. amd64_GetCallerByStackScan env m y frames = Some (fo, y') \<and> walk_ready mem64 env y'"
  unfolding amd64_GetCallerByStackScan_def Let_def ScanForReturnAddress_context_def
  by (rule scan_caller_ready64 [OF assms])

interpretation amd64_returns: returning_tries env "amd64_ops env ctx" rip rsp amd64_GetCallerByCFIFrameInfo
  amd64_GetCallerByFramePointerRecovery "amd64_GetCallerByStackScan env" "amd64_finish env"
  "\<lambda>y. w_system_info env \<noteq> None \<and> walk_ready mem64 env y" for env ctx
  by unfold_locales
    (use amd64_cfi_returns amd64_scan_returns in
      \<open>auto simp: walk_ready_fill amd64_finish_def Let_def split: option.splits\<close>)

section \<open>Properties\<close>

text \<open>C1. The stack an AMD64 walk produces is strictly monotonic: every caller's stack pointer
  lies above its callee's (for the first caller it may be equal), and every return address
  lies above the first page.\<close>

theorem amd64_walk_monotone:
  assumes "Walk env lim (amd64_ops env ctx) y ms cs = Some (ok, w, y')" "Suc i < length (ws_frames w)"
  shows "4096 \<le> rip (cpu_context (ws_frames w ! Suc i)) \<and>
    (if i = 0 then rsp (cpu_context (ws_frames w ! i)) \<le> rsp (cpu_context (ws_frames w ! Suc i))
     else rsp (cpu_context (ws_frames w ! i)) < rsp (cpu_context (ws_frames w ! Suc i)))"
  by (rule ascending_frames [OF amd64.Walk_ascending [OF assms(1)] assms(2)])

text \<open>An AMD64 walk never holds more frames found by scanning than \<open>max_frames_scanned\<close>, given
  a resolver that leaves the trust of a frame alone.\<close>

theorem amd64_walk_scan_budget:
  assumes "Walk env lim (amd64_ops env ctx) y ms cs = Some (ok, w, y')" "resolver_keeps_frame y"
  shows "length (filter (\<lambda>f. dubious (trust (base_frame f))) (ws_frames w)) \<le> unat (max_frames_scanned lim)"
  using amd64.Walk_gated [OF assms] by (simp add: dubious_frames_def)


text \<open>Although a null \<open>system_info\<close> is documented as meaning that the system is unknown, the
  AMD64 walker dereferences it as soon as it has found a caller.\<close>

theorem amd64_null_system_info_crashes:
  assumes "w_system_info env = None" "w_memory env = Some memory" "FindCFIFrameInfo y (base_frame (last frames)) = None"
    and "amd64_GetCallerByFramePointerRecovery memory frames \<noteq> None"
  shows "amd64_GetCallerFrame env y frames allowed = None"
  using assms by (auto simp: amd64_GetCallerFrame_def cfi_caller_def try_callers_def amd64_finish_def Let_def)

text \<open>C32. When call frame information yields an AMD64 caller, each register of the table is, in
  this order of preference, the value of its own rule, the value of its alternate name
  (\<open>.cfa\<close> for \<open>$rsp\<close>, \<open>.ra\<close> for \<open>$rip\<close>) or, if it is callee-saved and valid in the callee, the
  callee's value; it is marked valid exactly in these cases.\<close>

theorem amd64_cfi_registers:
  assumes "FindCallerRegisters amd64_cfi_register_map get info ctx validity amd64_poison = (Ok, Some (c, v))"
    and "q \<in> set amd64_cfi_register_map"
  shows "\<exists>regs. FindCallerRegs info (callee_register_values amd64_cfi_register_map ctx validity Map.empty) get
        Map.empty = (Ok, regs) \<and>
      (case recovered q regs ctx validity of
         Some x \<Rightarrow> rs_get q c = x \<and> v AND rs_validity_flag q \<noteq> 0
       | None \<Rightarrow> v AND rs_validity_flag q = 0)"
proof -
  obtain regs where r: "FindCallerRegs info (callee_register_values amd64_cfi_register_map ctx validity Map.empty) get
      Map.empty = (Ok, regs)"
    and c: "populate_caller amd64_cfi_register_map regs ctx validity (amd64_poison, 0) = (c, v)"
    using assms(1) by (auto simp: FindCallerRegisters_def split: prod.splits status.splits)
  show ?thesis
    using r amd64_table.populate_caller_spec [OF assms(2), of regs ctx validity amd64_poison]
    unfolding c fst_conv snd_conv by blast
qed

section \<open>Evaluation on a small stack\<close>

definition sample_context64 :: MDRawContextAMD64 where
  "sample_context64 = (amd64_filled 0 [])\<lparr>rip := 6000, rsp := 4000, rbp := 4096\<rparr>"

definition sample_caller64 :: StackFrameAMD64 where
  "sample_caller64 =
     \<lparr>base_frame = StackFrame_init\<lparr>trust := FRAME_TRUST_FP, instruction := 4999\<rparr>,
      cpu_context = sample_context64\<lparr>rip := 5000, rsp := 4112, rbp := 8192\<rparr>,
      context_validity = AMD64_VALID_RIP OR AMD64_VALID_RSP OR AMD64_VALID_RBP\<rparr>"

lemma sample_walk64_frames:
  "map_option (\<lambda>(ok, w, y). (ok, w)) (Walk (sample_env64 (Some SystemInfo_init)) sample_limits
     (amd64_ops (sample_env64 (Some SystemInfo_init)) (Some sample_context64)) no_symbols [] []) =
   Some (True, \<lparr>ws_frames = [the (amd64_GetContextFrame (Some sample_context64)), sample_caller64],
     ws_scanned_frames = 0, modules_without_symbols = [], modules_with_corrupt_symbols = []\<rparr>)"
  by code_simp

lemma sample_walk64:
  obtains y' where "Walk (sample_env64 (Some SystemInfo_init)) sample_limits
     (amd64_ops (sample_env64 (Some SystemInfo_init)) (Some sample_context64)) no_symbols [] [] =
   Some (True, \<lparr>ws_frames = [the (amd64_GetContextFrame (Some sample_context64)), sample_caller64],
     ws_scanned_frames = 0, modules_without_symbols = [], modules_with_corrupt_symbols = []\<rparr>, y')"
  using sample_walk64_frames by (auto simp: map_option_eq_Some)

lemma sample_frames64:
  "cpu_context (the (amd64_GetContextFrame (Some sample_context64))) = sample_context64"
  "trust (base_frame (the (amd64_GetContextFrame (Some sample_context64)))) = FRAME_TRUST_CONTEXT"
  by (simp_all add: amd64_GetContextFrame_def)

theorem Walk_bounds_witness:
  "\<exists>w y'. Walk (sample_env64 (Some SystemInfo_init)) sample_limits
      (amd64_ops (sample_env64 (Some SystemInfo_init)) (Some sample_context64)) no_symbols [] [] = Some (True, w, y') \<and>
    length (ws_frames w) = 2 \<and> length (ws_frames w) \<le> 9 \<and> distinct (modules_without_symbols w)"
proof (rule sample_walk64)
  fix y'
  assume w: "Walk (sample_env64 (Some SystemInfo_init)) sample_limits
     (amd64_ops (sample_env64 (Some SystemInfo_init)) (Some sample_context64)) no_symbols [] [] =
   Some (True, \<lparr>ws_frames = [the (amd64_GetContextFrame (Some sample_context64)), sample_caller64],
     ws_scanned_frames = 0, modules_without_symbols = [], modules_with_corrupt_symbols = []\<rparr>, y')"
  show ?thesis using w Walk_bounds [OF w] by (auto simp: sample_limits_def)
qed

theorem amd64_walk_monotone_witness:
  "\<exists>w y'. Walk (sample_env64 (Some SystemInfo_init)) sample_limits
      (amd64_ops (sample_env64 (Some SystemInfo_init)) (Some sample_context64)) no_symbols [] [] = Some (True, w, y') \<and>
    length (ws_frames w) = 2 \<and> rsp (cpu_context (ws_frames w ! 0)) \<le> rsp (cpu_context (ws_frames w ! 1))"
proof (rule sample_walk64)
  fix y'
  assume w: "Walk (sample_env64 (Some SystemInfo_init)) sample_limits
     (amd64_ops (sample_env64 (Some SystemInfo_init)) (Some sample_context64)) no_symbols [] [] =
   Some (True, \<lparr>ws_frames = [the (amd64_GetContextFrame (Some sample_context64)), sample_caller64],
     ws_scanned_frames = 0, modules_without_symbols = [], modules_with_corrupt_symbols = []\<rparr>, y')"
  show ?thesis using w amd64_walk_monotone [OF w, of 0] by auto
qed

theorem amd64_walk_scan_budget_witness:
  "\<exists>w y'. Walk (sample_env64 (Some SystemInfo_init)) sample_limits
      (amd64_ops (sample_env64 (Some SystemInfo_init)) (Some sample_context64)) no_symbols [] [] = Some (True, w, y') \<and>
    length (filter (\<lambda>f. dubious (trust (base_frame f))) (ws_frames w)) \<le> 4"
proof (rule sample_walk64)
  fix y'
  assume w: "Walk (sample_env64 (Some SystemInfo_init)) sample_limits
     (amd64_ops (sample_env64 (Some SystemInfo_init)) (Some sample_context64)) no_symbols [] [] =
   Some (True, \<lparr>ws_frames = [the (amd64_GetContextFrame (Some sample_context64)), sample_caller64],
     ws_scanned_frames = 0, modules_without_symbols = [], modules_with_corrupt_symbols = []\<rparr>, y')"
  have "resolver_keeps_frame no_symbols"
    by (simp add: resolver_keeps_frame_def no_symbols_def StackFrameSymbolizer_make_def)
  from amd64_walk_scan_budget [OF w this] w show ?thesis by (auto simp: sample_limits_def)
qed


theorem amd64_null_system_info_crashes_witness:
  "amd64_GetCallerFrame (sample_env64 None) no_symbols [the (amd64_GetContextFrame (Some sample_context64))] True = None"
proof (rule amd64_null_system_info_crashes)
  show "w_system_info (sample_env64 None) = None" "w_memory (sample_env64 None) = Some sample_stack64"
    by (simp_all add: sample_env64_def)
  show "FindCFIFrameInfo no_symbols (base_frame (last [the (amd64_GetContextFrame (Some sample_context64))])) = None"
    by (simp add: FindCFIFrameInfo_def no_symbols_def StackFrameSymbolizer_make_def)
  show "amd64_GetCallerByFramePointerRecovery sample_stack64 [the (amd64_GetContextFrame (Some sample_context64))] \<noteq> None"
    by code_simp
qed

definition sample_callee64 :: MDRawContextAMD64 where
  "sample_callee64 = (amd64_filled 0 [])\<lparr>rsp := 4096, rbp := 7, rbx := 9\<rparr>"

lemma sample_callee64_registers:
  "callee_register_values amd64_cfi_register_map sample_callee64 200 Map.empty =
   [''$rbx'' \<mapsto> 9, ''$rbp'' \<mapsto> 7, ''$rsp'' \<mapsto> 4096]"
  by (simp add: amd64_cfi_register_map_def amd64_row_def sample_callee64_def)

theorem amd64_cfi_registers_witness:
  "\<exists>c v. FindCallerRegisters amd64_cfi_register_map (\<lambda>_. None) sample_info sample_callee64
      200 amd64_poison = (Ok, Some (c, v)) \<and>
    rbx c = 9 \<and> v AND 8 \<noteq> 0"
proof -
  let ?va = "200 :: u32"
  let ?row = "amd64_row ''$rbx'' None True 3 rbx (\<lambda>v c. c\<lparr>rbx := v\<rparr>)"
  let ?regs = "[''$rbp'' \<mapsto> 7, ''$rsp'' \<mapsto> 4104, ''.ra'' \<mapsto> 4096, ''.cfa'' \<mapsto> 4104 :: u64]"
  have f: "FindCallerRegs sample_info [''$rbx'' \<mapsto> 9, ''$rbp'' \<mapsto> 7, ''$rsp'' \<mapsto> 4096 :: u64] (\<lambda>_. None) Map.empty =
      (Ok, ?regs)"
    by (rule sample_info_regs) simp_all
  obtain c v where cv: "FindCallerRegisters amd64_cfi_register_map (\<lambda>_. None) sample_info sample_callee64 ?va amd64_poison =
      (Ok, Some (c, v))"
    by (cases "populate_caller amd64_cfi_register_map ?regs sample_callee64 ?va (amd64_poison, 0)")
      (simp add: FindCallerRegisters_def sample_callee64_registers f)
  have row: "?row \<in> set amd64_cfi_register_map" by (simp add: amd64_cfi_register_map_def)
  have "recovered ?row ?regs sample_callee64 ?va = Some 9"
    by (simp add: recovered_def amd64_row_def sample_callee64_def)
  then have "rbx c = 9 \<and> v AND 8 \<noteq> 0"
    using amd64_cfi_registers [OF cv row] unfolding sample_callee64_registers f by (auto simp: amd64_row_def)
  then show ?thesis using cv by blast
qed

end
