(* ===== verification/Register_Array.thy ===== *)
theory Register_Array
  imports Stackwalker
begin

text \<open>
  Contexts whose registers are an array, as the ARM, ARM64 and MIPS walkers have them: the
  two loops of \<open>GetCallerByCFIFrameInfo\<close> over \<open>register_names\<close>, shared by the walkers, and
  what they leave in the caller's registers.
\<close>

text \<open>Populating the dictionary of the callee's registers; \<open>flag i\<close> is \<open>RegisterValidFlag(i)\<close>.\<close>

fun array_callee_registers ::
  "(nat \<Rightarrow> 'v::len word) \<Rightarrow> string list \<Rightarrow> nat \<Rightarrow> 'v word \<Rightarrow> 'w list \<Rightarrow> (string \<rightharpoonup> 'w) \<Rightarrow> (string \<rightharpoonup> 'w)" where
  "array_callee_registers flag [] i validity iregs m = m"
| "array_callee_registers flag (n # ns) i validity iregs m =
     array_callee_registers flag ns (Suc i) validity iregs
       (if validity AND flag i \<noteq> 0 then m(n \<mapsto> iregs ! i) else m)"

text \<open>Filling the caller's context; \<open>saved i\<close> tells whether register \<open>i\<close> is callee-saved.\<close>

fun array_fill ::
  "(nat \<Rightarrow> 'v::len word) \<Rightarrow> (nat \<Rightarrow> bool) \<Rightarrow> (string \<rightharpoonup> 'w) \<Rightarrow> 'v word \<Rightarrow> 'w list \<Rightarrow> string list \<Rightarrow> nat
     \<Rightarrow> 'w list \<times> 'v word \<Rightarrow> 'w list \<times> 'v word" where
  "array_fill flag saved caller last_validity last_iregs [] i (iregs, validity) = (iregs, validity)"
| "array_fill flag saved caller last_validity last_iregs (n # ns) i (iregs, validity) =
     array_fill flag saved caller last_validity last_iregs ns (Suc i)
       (case caller n of
          Some x \<Rightarrow> (iregs[i := x], validity OR flag i)
        | None \<Rightarrow>
            if saved i \<and> last_validity AND flag i \<noteq> 0
            then (iregs[i := last_iregs ! i], validity OR flag i)
            else (iregs, validity))"

text \<open>Falling back to \<open>.ra\<close> or \<open>.cfa\<close> for a register that was not recovered.\<close>

definition array_alternate ::
  "(nat \<Rightarrow> 'v::len word) \<Rightarrow> (string \<rightharpoonup> 'w) \<Rightarrow> string \<Rightarrow> nat \<Rightarrow> 'w list \<times> 'v word \<Rightarrow> 'w list \<times> 'v word" where
  "array_alternate flag caller n i s =
     (case s of (iregs, validity) \<Rightarrow>
        if validity AND flag i \<noteq> 0 then (iregs, validity)
        else
          (case caller n of
             Some x \<Rightarrow> (iregs[i := x], validity OR flag i)
           | None \<Rightarrow> (iregs, validity)))"

text \<open>\<open>read_unless_null\<close> is the pattern \<open>last_fp && !GetMemoryAtAddress(address, &value)\<close>: a null
  frame pointer is not followed and leaves the value at 0.\<close>

definition read_unless_null :: "('a \<Rightarrow> 'w::len word option) \<Rightarrow> bool \<Rightarrow> 'a \<Rightarrow> 'w word option" where
  "read_unless_null get null address = (if null then Some 0 else get address)"

section \<open>What the loops compute\<close>

lemma array_fill_length [simp]:
  "length (fst (array_fill flag saved caller lv lr ns i s)) = length (fst s)"
proof (induction flag saved caller lv lr ns i s rule: array_fill.induct)
  case (2 flag saved caller lv lr n ns i iregs validity)
  then show ?case by (auto split: option.split)
qed simp

lemma array_alternate_length [simp]:
  "length (fst (array_alternate flag caller n i s)) = length (fst s)"
  by (auto simp: array_alternate_def split: prod.split option.split)

lemma array_alternate_nth:
  assumes "i < length (fst s)"
  shows "fst (array_alternate flag caller n i s) ! k =
      (if k = i \<and> snd s AND flag i = 0 then (case caller n of Some x \<Rightarrow> x | None \<Rightarrow> fst s ! k) else fst s ! k)"
    "bit (snd (array_alternate flag caller n i s)) b \<longleftrightarrow>
      bit (snd s) b \<or> snd s AND flag i = 0 \<and> caller n \<noteq> None \<and> bit (flag i) b"
  using assms by (auto simp: array_alternate_def nth_list_update bit_simps split: prod.split option.split)

text \<open>The value a loop gives to register \<open>i\<close> with name \<open>n\<close>.\<close>

definition array_recovered ::
  "(nat \<Rightarrow> 'v::len word) \<Rightarrow> (nat \<Rightarrow> bool) \<Rightarrow> (string \<rightharpoonup> 'w) \<Rightarrow> 'v word \<Rightarrow> 'w list \<Rightarrow> string \<Rightarrow> nat \<Rightarrow> 'w option" where
  "array_recovered flag saved caller last_validity last_iregs n i =
     (case caller n of
        Some x \<Rightarrow> Some x
      | None \<Rightarrow> if saved i \<and> last_validity AND flag i \<noteq> 0 then Some (last_iregs ! i) else None)"

lemma array_fill_Cons:
  "array_fill flag saved caller lv lr (n # ns) i s =
     array_fill flag saved caller lv lr ns (Suc i)
       (case array_recovered flag saved caller lv lr n i of
          Some x \<Rightarrow> ((fst s)[i := x], snd s OR flag i)
        | None \<Rightarrow> s)"
  by (cases s) (auto simp: array_recovered_def split: option.split)

lemma array_fill_Nil [simp]: "array_fill flag saved caller lv lr [] i s = s"
  by (cases s) simp

lemma array_fill_before:
  "k < i \<Longrightarrow> fst (array_fill flag saved caller lv lr ns i s) ! k = fst s ! k"
proof (induction ns arbitrary: i s)
  case (Cons n ns)
  then show ?case by (auto simp: array_fill_Cons split: option.split)
qed simp

lemma array_fill_nth:
  assumes "k < length ns" "i + length ns \<le> length (fst s)"
  shows "fst (array_fill flag saved caller lv lr ns i s) ! (i + k) =
    (case array_recovered flag saved caller lv lr (ns ! k) (i + k) of
       Some x \<Rightarrow> x
     | None \<Rightarrow> fst s ! (i + k))"
  using assms
proof (induction ns arbitrary: i k s)
  case (Cons n ns)
  show ?case
  proof (cases k)
    case 0
    then show ?thesis using Cons.prems(2) by (auto simp: array_fill_Cons array_fill_before split: option.split)
  next
    case (Suc l)
    then show ?thesis
      using Cons.IH [of l "Suc i" "case array_recovered flag saved caller lv lr n i of
          Some x \<Rightarrow> ((fst s)[i := x], snd s OR flag i) | None \<Rightarrow> s"] Cons.prems
      by (auto simp: array_fill_Cons split: option.split)
  qed
qed simp

text \<open>The bits of the validity mask; registers have flags of their own.\<close>

lemma array_fill_validity:
  "bit (snd (array_fill flag saved caller lv lr ns i s)) b \<longleftrightarrow>
     bit (snd s) b \<or>
     (\<exists>k < length ns. array_recovered flag saved caller lv lr (ns ! k) (i + k) \<noteq> None \<and> bit (flag (i + k)) b)"
proof (induction ns arbitrary: i s)
  case (Cons n ns)
  have "(\<exists>k < Suc (length ns). P k) \<longleftrightarrow> P 0 \<or> (\<exists>k < length ns. P (Suc k))" for P
    using less_Suc_eq_0_disj by auto
  then show ?case
    by (cases "array_recovered flag saved caller lv lr n i")
      (auto simp: array_fill_Cons Cons.IH bit_simps)
qed simp

text \<open>The flag of register \<open>n\<close> where every register has its bit.\<close>

definition bit_flag :: "nat \<Rightarrow> 'v::len word" where
  "bit_flag n = push_bit n 1"

lemma bit_flag_iff: "bit (bit_flag i :: 'v::len word) b \<longleftrightarrow> i < LENGTH('v) \<and> b = i"
  by (auto simp: bit_flag_def bit_simps possible_bit_word)

lemma and_bit_flag: "i < LENGTH('v) \<Longrightarrow> (v :: 'v::len word) AND bit_flag i \<noteq> 0 \<longleftrightarrow> bit v i"
proof -
  assume i: "i < LENGTH('v)"
  have "v AND bit_flag i = 0 \<longleftrightarrow> (\<forall>b. \<not> bit (v AND bit_flag i) b)"
    by (metis bit_0_eq bit_eqI bot_apply bot_bool_def)
  then show ?thesis using i by (auto simp: bit_simps bit_flag_iff)
qed

lemma array_fill_bit:
  assumes "k < length ns" "length ns \<le> LENGTH('v)"
  shows "bit (snd (array_fill bit_flag saved caller lv lr ns 0 (iregs, 0 :: 'v::len word))) k \<longleftrightarrow>
    array_recovered bit_flag saved caller lv lr (ns ! k) k \<noteq> None"
  unfolding array_fill_validity using assms by (auto simp: bit_flag_iff)

lemma essential_bits:
  assumes "i < LENGTH('v)" "j < LENGTH('v)"
  shows "(v :: 'v::len word) AND (bit_flag i OR bit_flag j) = bit_flag i OR bit_flag j \<longleftrightarrow> bit v i \<and> bit v j"
proof -
  have "v AND (bit_flag i OR bit_flag j) = bit_flag i OR bit_flag j \<longleftrightarrow>
      (\<forall>b. b = i \<or> b = j \<longrightarrow> bit v b)"
    using assms unfolding bit_eq_iff [of "v AND (bit_flag i OR bit_flag j)"] by (auto simp: bit_simps bit_flag_iff)
  then show ?thesis by blast
qed

section \<open>A rule set for a leaf function\<close>

text \<open>The rules of a function that has not touched the stack: the frame address is the stack
  pointer and the return address is in the link register.\<close>

definition leaf_info :: "string \<Rightarrow> string \<Rightarrow> CFIFrameInfo" where
  "leaf_info sp lr = \<lparr>cfa_rule = sp, ra_rule = lr, register_rules = []\<rparr>"

lemma leaf_info_regs:
  fixes c :: "string \<rightharpoonup> 'w::len word"
  assumes "name_token TYPE('w) sp" "name_token TYPE('w) lr" "lr \<noteq> ''.cfa''" "c sp = Some a" "c lr = Some r"
  shows "FindCallerRegs (leaf_info sp lr) c memory Map.empty = (Ok, [''.ra'' \<mapsto> r, ''.cfa'' \<mapsto> a])"
proof -
  let ?w = "c(''.cfa'' \<mapsto> a)"
  have "EvaluateForValue (Some memory) sp (working_evaluator c) = (Ok, Some a, working_evaluator c)"
    by (rule rule_expr [where e = "Var sp"]) (use assms in simp_all)
  moreover have "EvaluateForValue (Some memory) lr (working_evaluator ?w) = (Ok, Some r, working_evaluator ?w)"
    by (rule rule_expr [where e = "Var lr"]) (use assms in simp_all)
  moreover have "sp \<noteq> []" "lr \<noteq> []" using assms(1,2) by (auto simp: name_token_def plain_token_def)
  ultimately show ?thesis by (simp add: FindCallerRegs_def leaf_info_def Let_def del: fun_upd_apply)
qed

end
