(* ===== verification/Stackwalker_ARM.thy ===== *)
theory Stackwalker_ARM
  imports Register_Array
begin

text \<open>
  The ARM stack walker (\<open>processor/stackwalker_arm.cc\<close>), for 32-bit words. \<open>fp_register\<close> is the
  number of the frame pointer register, or -1 when frame pointers are not used.
\<close>

section \<open>Context\<close>

text \<open>\<open>MDRawContextARM\<close> is laid out as \<open>context_flags\<close>, then the 16 words of \<open>iregs\<close>, then \<open>cpsr\<close>,
  then \<open>float_save\<close> (\<open>fpscr\<close>, 32 double words, 8 words), without padding. \<open>arm_words\<close> holds all
  the words from \<open>iregs\<close> on, because the loops of \<open>GetCallerByCFIFrameInfo\<close> run over 26 names
  and index \<open>iregs\<close> with each: entry 16 of \<open>iregs\<close> is the word of \<open>cpsr\<close>, and later entries are
  words of \<open>float_save\<close>.\<close>

record MDRawContextARM =
  arm_context_flags :: u32
  arm_words :: "u32 list"

type_synonym StackFrameARM = "(MDRawContextARM, u32) StackFrameCpu"

abbreviation (input) ARM_SP :: nat where "ARM_SP \<equiv> 13"
abbreviation (input) ARM_LR :: nat where "ARM_LR \<equiv> 14"
abbreviation (input) ARM_PC :: nat where "ARM_PC \<equiv> 15"

definition arm_cpsr :: "MDRawContextARM \<Rightarrow> u32" where
  "arm_cpsr c = arm_words c ! 16"

definition arm_ok :: "MDRawContextARM \<Rightarrow> bool" where
  "arm_ok c \<longleftrightarrow> length (arm_words c) = 91"

definition arm_pc :: "MDRawContextARM \<Rightarrow> u64" where
  "arm_pc c = ucast (arm_words c ! ARM_PC)"

definition arm_sp :: "MDRawContextARM \<Rightarrow> u64" where
  "arm_sp c = ucast (arm_words c ! ARM_SP)"

definition arm_zero :: MDRawContextARM where
  "arm_zero = \<lparr>arm_context_flags = 0, arm_words = replicate 91 0\<rparr>"

definition arm_register_names :: "string list" where
  "arm_register_names =
     [''r0'', ''r1'', ''r2'', ''r3'', ''r4'', ''r5'', ''r6'', ''r7'', ''r8'', ''r9'', ''r10'', ''r11'', ''r12'',
      ''sp'', ''lr'', ''pc'', ''f0'', ''f1'', ''f2'', ''f3'', ''f4'', ''f5'', ''f6'', ''f7'', ''fps'', ''cpsr'']"

definition StackFrameARM_make :: "FrameTrust \<Rightarrow> MDRawContextARM \<Rightarrow> u32 \<Rightarrow> StackFrameARM" where
  "StackFrameARM_make t c v =
     \<lparr>base_frame = StackFrame_init\<lparr>trust := t\<rparr>, cpu_context = c, context_validity = v\<rparr>"

section \<open>Operations\<close>

definition arm_GetContextFrame :: "MDRawContextARM option \<Rightarrow> StackFrameARM option" where
  "arm_GetContextFrame context =
     (case context of
        None \<Rightarrow> None
      | Some c \<Rightarrow>
          Some \<lparr>base_frame = StackFrame_init\<lparr>trust := FRAME_TRUST_CONTEXT, instruction := arm_pc c\<rparr>,
                cpu_context = c, context_validity = - 1\<rparr>)"

text \<open>The fallback to \<open>.ra\<close>. With frame pointers it is the link register that the rule gives; the
  program counter is the callee's link register.\<close>

definition arm_ra ::
  "int \<Rightarrow> (string \<rightharpoonup> u32) \<Rightarrow> StackFrameARM \<Rightarrow> u32 list \<times> u32 \<Rightarrow> u32 list \<times> u32" where
  "arm_ra fp_register caller last_frame s =
     (case s of (iregs, validity) \<Rightarrow>
        if validity AND bit_flag ARM_PC \<noteq> 0 then (iregs, validity)
        else
          (case caller ''.ra'' of
             None \<Rightarrow> (iregs, validity)
           | Some ra \<Rightarrow>
               if fp_register = -1 then (iregs[ARM_PC := ra], validity OR bit_flag ARM_PC)
               else (iregs[ARM_LR := ra, ARM_PC := arm_words (cpu_context last_frame) ! ARM_LR],
                     validity OR bit_flag ARM_PC OR bit_flag ARM_LR)))"

definition arm_caller_registers ::
  "int \<Rightarrow> (string \<rightharpoonup> u32) \<Rightarrow> StackFrameARM \<Rightarrow> u32 list \<times> u32" where
  "arm_caller_registers fp_register caller last_frame =
     array_alternate bit_flag caller ''.cfa'' ARM_SP
       (arm_ra fp_register caller last_frame
         (array_fill bit_flag (\<lambda>i. 4 \<le> i \<and> i \<le> 11) caller (context_validity last_frame)
           (arm_words (cpu_context last_frame)) arm_register_names 0 (arm_words arm_zero, 0)))"

definition arm_GetCallerByCFIFrameInfo ::
  "int \<Rightarrow> MemoryRegion \<Rightarrow> StackFrameARM list \<Rightarrow> CFIFrameInfo \<Rightarrow> StackFrameARM option option" where
  "arm_GetCallerByCFIFrameInfo fp_register memory frames cfi_frame_info =
     (let last_frame = last frames;
          callee_registers = array_callee_registers bit_flag arm_register_names 0
            (context_validity last_frame) (arm_words (cpu_context last_frame)) Map.empty;
          essentials = bit_flag ARM_SP OR bit_flag ARM_PC
      in case FindCallerRegs cfi_frame_info callee_registers (\<lambda>a. mem32 memory (ucast a)) Map.empty of
           (Crashed, _) \<Rightarrow> None
         | (Failed, _) \<Rightarrow> Some None
         | (Ok, caller) \<Rightarrow>
             (case arm_caller_registers fp_register caller last_frame of
                (iregs, validity) \<Rightarrow>
                  if validity AND essentials \<noteq> essentials then Some None
                  else Some (Some (StackFrameARM_make FRAME_TRUST_CFI
                         (arm_zero\<lparr>arm_words := iregs\<rparr>) validity))))"

definition arm_GetCallerByStackScan ::
  "WalkerEnv \<Rightarrow> MemoryRegion \<Rightarrow> ('p, 'r) StackFrameSymbolizer \<Rightarrow> StackFrameARM list
     \<Rightarrow> (StackFrameARM option \<times> ('p, 'r) StackFrameSymbolizer) option" where
  "arm_GetCallerByStackScan env memory y frames =
     (let c = cpu_context (last frames);
          last_sp = arm_words c ! ARM_SP
      in scan_caller
           (ScanForReturnAddress_context env (\<lambda>a. mem32 memory (ucast a)) y last_sp (length frames = 1))
           (\<lambda>caller_sp caller_pc.
              StackFrameARM_make FRAME_TRUST_SCAN
                (c\<lparr>arm_words := (arm_words c)[ARM_PC := caller_pc, ARM_SP := caller_sp + 4]\<rparr>)
                (bit_flag ARM_PC OR bit_flag ARM_SP)))"

definition arm_GetCallerByFramePointer :: "nat \<Rightarrow> MemoryRegion \<Rightarrow> StackFrameARM list \<Rightarrow> StackFrameARM option" where
  "arm_GetCallerByFramePointer fp_register memory frames =
     (let last_frame = last frames;
          c = cpu_context last_frame;
          last_fp = arm_words c ! fp_register
      in if context_validity last_frame AND bit_flag fp_register = 0 then None
         else do {
           caller_fp \<leftarrow> read_unless_null (mem32 memory) (last_fp = 0) (ucast last_fp);
           caller_lr \<leftarrow> read_unless_null (mem32 memory) (last_fp = 0) (ucast (last_fp + 4));
           let caller_sp = (if last_fp \<noteq> 0 then last_fp + 8 else arm_words c ! ARM_SP);
           Some (StackFrameARM_make FRAME_TRUST_FP
             (c\<lparr>arm_words := (arm_words c)[fp_register := caller_fp, ARM_SP := caller_sp,
                  ARM_PC := arm_words c ! ARM_LR, ARM_LR := caller_lr]\<rparr>)
             (bit_flag ARM_PC OR bit_flag ARM_LR OR bit_flag fp_register OR bit_flag ARM_SP))
         })"

definition arm_finish :: "StackFrameARM list \<Rightarrow> StackFrameARM \<Rightarrow> StackFrameARM option option" where
  "arm_finish frames f =
     Some (checked_frame arm_pc arm_sp (\<lambda>c. ucast (arm_words c ! ARM_PC - 2)) frames f)"

definition arm_by_fp :: "int \<Rightarrow> MemoryRegion \<Rightarrow> StackFrameARM list \<Rightarrow> StackFrameARM option" where
  "arm_by_fp fp_register memory frames =
     (if 0 \<le> fp_register then arm_GetCallerByFramePointer (nat fp_register) memory frames else None)"

definition arm_GetCallerFrame ::
  "int \<Rightarrow> WalkerEnv \<Rightarrow> ('p, 'r) StackFrameSymbolizer \<Rightarrow> StackFrameARM list \<Rightarrow> bool
     \<Rightarrow> (StackFrameARM option \<times> StackFrameARM \<times> ('p, 'r) StackFrameSymbolizer) option" where
  "arm_GetCallerFrame fp_register env y frames stack_scan_allowed =
     (case w_memory env of
        None \<Rightarrow> Some (None, last frames, y)
      | Some memory \<Rightarrow>
          try_callers
            (cfi_caller (arm_GetCallerByCFIFrameInfo fp_register memory frames) y (base_frame (last frames)))
            (arm_by_fp fp_register memory frames)
            (arm_GetCallerByStackScan env memory y frames)
            stack_scan_allowed y (arm_finish frames) (last frames))"

definition arm_ops ::
  "int \<Rightarrow> WalkerEnv \<Rightarrow> MDRawContextARM option \<Rightarrow> (StackFrameARM, ('p, 'r) StackFrameSymbolizer) StackwalkerOps" where
  "arm_ops fp_register env context =
     \<lparr>op_GetContextFrame = arm_GetContextFrame context, op_GetCallerFrame = arm_GetCallerFrame fp_register env\<rparr>"

section \<open>The contracts\<close>

lemma arm_cfi_cases:
  assumes "arm_GetCallerByCFIFrameInfo fpr memory frames cfi = Some (Some f)"
  obtains caller where
    "FindCallerRegs cfi (array_callee_registers bit_flag arm_register_names 0 (context_validity (last frames))
        (arm_words (cpu_context (last frames))) Map.empty) (\<lambda>a. mem32 memory (ucast a)) Map.empty = (Ok, caller)"
    "f = StackFrameARM_make FRAME_TRUST_CFI
       (arm_zero\<lparr>arm_words := fst (arm_caller_registers fpr caller (last frames))\<rparr>)
       (snd (arm_caller_registers fpr caller (last frames)))"
  using assms
  by (auto simp: arm_GetCallerByCFIFrameInfo_def Let_def split: prod.splits status.splits if_splits)

lemma arm_finish_Some:
  "arm_finish frames f = Some (Some g) \<Longrightarrow>
     checked_frame arm_pc arm_sp (\<lambda>c. ucast (arm_words c ! ARM_PC - 2)) frames f = Some g"
  by (simp add: arm_finish_def)

interpretation arm: trying_walker env "arm_ops fpr env ctx" arm_pc arm_sp "arm_GetCallerByCFIFrameInfo fpr"
  "arm_by_fp fpr" "arm_GetCallerByStackScan env" arm_finish for fpr env ctx
proof (unfold_locales, goal_cases)
  case (1 y frames allowed)
  show ?case by (simp add: arm_ops_def arm_GetCallerFrame_def)
next
  case (2 f)
  then show ?case by (auto simp: arm_ops_def arm_GetContextFrame_def split: option.splits)
next
  case (3 m frames cfi f)
  then show ?case by (auto elim!: arm_cfi_cases simp: StackFrameARM_make_def)
next
  case (4 m frames f)
  then show ?case
    by (auto simp: arm_by_fp_def arm_GetCallerByFramePointer_def StackFrameARM_make_def Let_def bind_eq_Some_conv
        split: if_splits)
next
  case (5 m y frames fo y')
  then show ?case
    unfolding arm_GetCallerByStackScan_def Let_def ScanForReturnAddress_context_def by (rule scan_caller_keeps)
next
  case (6 frames f g)
  then show ?case by (rule checked_frame_Some(1) [OF arm_finish_Some])
next
  case (7 frames f g)
  then show ?case by (rule checked_frame_Some(2) [OF arm_finish_Some])
qed

interpretation arm_returns: returning_tries env "arm_ops fpr env ctx" arm_pc arm_sp
  "arm_GetCallerByCFIFrameInfo fpr" "arm_by_fp fpr" "arm_GetCallerByStackScan env" arm_finish
  "walk_ready (\<lambda>m (a :: u32). mem32 m (ucast a)) env" for fpr env ctx
proof (unfold_locales, goal_cases)
  case (1 y ms us si bf res bf' y')
  then show ?case by (rule walk_ready_fill)
next
  case (2 y m bf cfi frames)
  then show ?case
    by (auto simp: arm_GetCallerByCFIFrameInfo_def Let_def cfi_no_crash(2) [OF 2] split: prod.splits status.splits)
next
  case (3 y m frames)
  then show ?case
    unfolding arm_GetCallerByStackScan_def Let_def ScanForReturnAddress_context_def by (rule scan_caller_ready32)
qed (simp add: arm_finish_def)

lemma arm_ra_length: "length (fst (arm_ra fpr caller last_frame s)) = length (fst s)"
  by (cases s) (simp add: arm_ra_def split: option.split)

lemma arm_caller_registers_length: "length (fst (arm_caller_registers fpr caller last_frame)) = 91"
  by (simp add: arm_caller_registers_def arm_ra_length arm_zero_def)

interpretation arm_sized: sized_tries env "arm_ops fpr env ctx" arm_pc arm_sp
  "arm_GetCallerByCFIFrameInfo fpr" "arm_by_fp fpr" "arm_GetCallerByStackScan env" arm_finish
  "\<lambda>c. pred_option arm_ok ctx \<longrightarrow> arm_ok c" for fpr env ctx
proof (unfold_locales, goal_cases)
  case (1 f)
  then show ?case by (auto simp: arm_ops_def arm_GetContextFrame_def split: option.splits)
next
  case (2 m frames cfi f)
  then show ?case
    by (auto elim!: arm_cfi_cases simp: StackFrameARM_make_def arm_ok_def arm_caller_registers_length)
next
  case (3 m frames f)
  then show ?case
    by (auto simp: arm_by_fp_def arm_GetCallerByFramePointer_def StackFrameARM_make_def arm_ok_def Let_def
        bind_eq_Some_conv split: if_splits)
next
  case (4 m y frames f y')
  then show ?case
    by (auto simp: arm_GetCallerByStackScan_def scan_caller_def StackFrameARM_make_def arm_ok_def Let_def)
next
  case (5 frames f g)
  then show ?case by (simp add: checked_frame_Some(3) [OF arm_finish_Some [OF 5(1)]])
qed

section \<open>Properties\<close>

text \<open>C36. An ARM walk, with or without frame pointers, returns a stack whose stack pointers
  ascend strictly after the first step and whose return addresses lie above the first
  page; every frame has a complete context.\<close>

theorem arm_walk_sound:
  assumes "Walk env lim (arm_ops fp_register env (Some c)) y ms cs = Some (ok, w, y')" "arm_ok c"
    and "Suc i < length (ws_frames w)"
  shows "let f = ws_frames w ! i; g = ws_frames w ! Suc i in
    arm_ok (cpu_context f) \<and> arm_ok (cpu_context g) \<and> 4096 \<le> arm_pc (cpu_context g) \<and>
    (if i = 0 then arm_sp (cpu_context f) \<le> arm_sp (cpu_context g)
     else arm_sp (cpu_context f) < arm_sp (cpu_context g))"
proof -
  have ok: "arm_ok (cpu_context (ws_frames w ! j))" if "j < length (ws_frames w)" for j
    using arm_sized.Walk_contexts_ok [OF assms(1)] assms(2) nth_mem [OF that] by simp
  show ?thesis
    unfolding Let_def
    by (intro conjI ok ascending_frames [OF arm.Walk_ascending [OF assms(1)] assms(3)]) (use assms(3) in simp_all)
qed

text \<open>An ARM walk comes back, whatever the frame pointer register, when the memory keeps to
  its bounds and no rule set of the resolver makes the evaluator crash; the scan, whose
  32-bit location may wrap around, ends because the memory does.\<close>

theorem arm_walk_returns:
  assumes "\<And>memory. w_memory env = Some memory \<Longrightarrow>
    bounded_region memory \<and> cfi_safe (\<lambda>a :: u32. mem32 memory (ucast a)) y"
  shows "\<exists>r. Walk env lim (arm_ops fp_register env ctx) y ms cs = Some r"
  by (rule arm_returns.Walk_returns) (use assms in \<open>simp add: walk_ready_def\<close>)

text \<open>The words after the call frame information has been applied, apart from the stack pointer,
  the link register and the program counter.\<close>

lemma arm_names: "length arm_register_names = 26" "arm_register_names ! 16 = ''f0''"
  "arm_register_names ! 25 = ''cpsr''"
  by (simp_all add: arm_register_names_def)

lemma arm_caller_registers_nth:
  assumes "k < 26" "k \<notin> {ARM_SP, ARM_LR, ARM_PC}"
  shows "fst (arm_caller_registers fpr caller last_frame) ! k =
    (case array_recovered bit_flag (\<lambda>i. 4 \<le> i \<and> i \<le> 11) caller (context_validity last_frame)
        (arm_words (cpu_context last_frame)) (arm_register_names ! k) k of Some x \<Rightarrow> x | None \<Rightarrow> 0)"
proof -
  have ra: "fst (arm_ra fpr caller last_frame s) ! k = fst s ! k" for s
    using assms(2) by (cases s) (simp add: arm_ra_def split: option.split)
  have z: "length (arm_words arm_zero) = 91" "arm_words arm_zero ! k = 0"
    using assms(1) by (simp_all add: arm_zero_def)
  show ?thesis
    using array_fill_nth [of k arm_register_names 0 "(arm_words arm_zero, 0 :: u32)"] assms
    by (simp add: arm_caller_registers_def array_alternate_nth arm_ra_length z arm_names ra split: option.split)
qed

text \<open>C39. The loops over \<open>register_names\<close> run past the end of \<open>iregs\<close>, which has 16 entries. The
  visible effect: the word of \<open>cpsr\<close> in a caller found by call frame information is the value
  of the rule for \<open>f0\<close> (or zero if there is none), never that of the rule for \<open>cpsr\<close>, which
  ends up in word 8 of \<open>float_save\<close>.\<close>

theorem arm_cfi_cpsr_out_of_bounds:
  assumes "arm_GetCallerByCFIFrameInfo fp_register memory frames cfi = Some (Some f)"
  shows "\<exists>caller. FindCallerRegs cfi
        (array_callee_registers bit_flag arm_register_names 0 (context_validity (last frames))
          (arm_words (cpu_context (last frames))) Map.empty) (\<lambda>a. mem32 memory (ucast a)) Map.empty = (Ok, caller) \<and>
      arm_cpsr (cpu_context f) = (case caller ''f0'' of Some x \<Rightarrow> x | None \<Rightarrow> 0) \<and>
      arm_words (cpu_context f) ! 25 = (case caller ''cpsr'' of Some x \<Rightarrow> x | None \<Rightarrow> 0)"
proof -
  obtain caller where c: "FindCallerRegs cfi
        (array_callee_registers bit_flag arm_register_names 0 (context_validity (last frames))
          (arm_words (cpu_context (last frames))) Map.empty) (\<lambda>a. mem32 memory (ucast a)) Map.empty = (Ok, caller)"
    and f: "f = StackFrameARM_make FRAME_TRUST_CFI
       (arm_zero\<lparr>arm_words := fst (arm_caller_registers fp_register caller (last frames))\<rparr>)
       (snd (arm_caller_registers fp_register caller (last frames)))"
    using assms by (rule arm_cfi_cases)
  show ?thesis
    using c by (intro exI [of _ caller])
      (simp add: f StackFrameARM_make_def arm_cpsr_def arm_caller_registers_nth arm_names array_recovered_def
        split: option.split)
qed

section \<open>Evaluation on a small stack\<close>

definition sample_context_arm :: MDRawContextARM where
  "sample_context_arm =
     arm_zero\<lparr>arm_words := replicate 11 0 @ [4096, 0, 4000, 5000, 6000, 77] @ replicate 74 0\<rparr>"

lemma sample_arm_frames:
  "map_option (\<lambda>(ok, w, y). length (ws_frames w)) (Walk (sample_env64 None) sample_limits
     (arm_ops 11 (sample_env64 None) (Some sample_context_arm)) no_symbols [] []) = Some 2"
  by code_simp

lemma sample_arm_ok: "arm_ok sample_context_arm"
  by (simp add: arm_ok_def sample_context_arm_def)

theorem arm_walk_sound_witness:
  "\<exists>ok w y'. Walk (sample_env64 None) sample_limits
     (arm_ops 11 (sample_env64 None) (Some sample_context_arm)) no_symbols [] [] = Some (ok, w, y') \<and>
   length (ws_frames w) = 2 \<and> arm_sp (cpu_context (ws_frames w ! 0)) \<le> arm_sp (cpu_context (ws_frames w ! 1))"
proof -
  obtain ok w y' where w: "Walk (sample_env64 None) sample_limits
     (arm_ops 11 (sample_env64 None) (Some sample_context_arm)) no_symbols [] [] = Some (ok, w, y')"
    "length (ws_frames w) = 2"
    using sample_arm_frames by (auto simp: map_option_eq_Some)
  show ?thesis using arm_walk_sound [OF w(1) sample_arm_ok, of 0] w by (auto simp: Let_def)
qed

theorem arm_walk_returns_witness:
  "\<exists>r. Walk (sample_env64 None) default_limits (arm_ops 7 (sample_env64 None) (Some sample_context_arm))
     no_symbols [] [] = Some r"
  by (rule arm_walk_returns) (simp add: sample_stack64_bounded)

definition sample_leaf_arm :: StackFrameARM where
  "sample_leaf_arm = the (arm_GetContextFrame (Some sample_context_arm))"

lemma sample_leaf_arm_regs:
  "FindCallerRegs (leaf_info ''sp'' ''lr'')
     (array_callee_registers bit_flag arm_register_names 0 (context_validity (last [sample_leaf_arm]))
       (arm_words (cpu_context (last [sample_leaf_arm]))) Map.empty) (\<lambda>a. mem32 sample_stack64 (ucast a)) Map.empty =
   (Ok, [''.ra'' \<mapsto> 5000, ''.cfa'' \<mapsto> 4000])"
proof (rule leaf_info_regs)
  show "array_callee_registers bit_flag arm_register_names 0 (context_validity (last [sample_leaf_arm]))
       (arm_words (cpu_context (last [sample_leaf_arm]))) Map.empty ''sp'' = Some 4000"
    by code_simp
  show "array_callee_registers bit_flag arm_register_names 0 (context_validity (last [sample_leaf_arm]))
       (arm_words (cpu_context (last [sample_leaf_arm]))) Map.empty ''lr'' = Some 5000"
    by code_simp
qed (simp_all add: rule_expr_simps)

theorem arm_cfi_cpsr_out_of_bounds_witness:
  "\<exists>f. arm_GetCallerByCFIFrameInfo (-1) sample_stack64 [sample_leaf_arm] (leaf_info ''sp'' ''lr'') = Some (Some f) \<and>
     arm_cpsr (cpu_context f) = 0 \<and> arm_cpsr (cpu_context sample_leaf_arm) = 77"
proof -
  have "snd (arm_caller_registers (-1) [''.ra'' \<mapsto> 5000, ''.cfa'' \<mapsto> 4000] sample_leaf_arm)
      AND (bit_flag 13 OR bit_flag 15) = bit_flag 13 OR bit_flag 15"
    by code_simp
  then obtain f where f: "arm_GetCallerByCFIFrameInfo (-1) sample_stack64 [sample_leaf_arm]
      (leaf_info ''sp'' ''lr'') = Some (Some f)"
    using sample_leaf_arm_regs
    by (cases "arm_caller_registers (-1) [''.ra'' \<mapsto> 5000, ''.cfa'' \<mapsto> 4000] sample_leaf_arm")
      (simp add: arm_GetCallerByCFIFrameInfo_def Let_def)
  have "arm_cpsr (cpu_context sample_leaf_arm) = 77" by code_simp
  then show ?thesis
    using f arm_cfi_cpsr_out_of_bounds [OF f] unfolding sample_leaf_arm_regs by auto
qed

end
