(* ===== verification/Stackwalker_ARM64.thy ===== *)
theory Stackwalker_ARM64
  imports Register_Array
begin

text \<open>
  The ARM64 stack walker (\<open>processor/stackwalker_arm64.cc\<close>). The registers \<open>x0\<close> to \<open>x28\<close>, the
  frame pointer, the link register, the stack pointer and the program counter are the
  33 entries of the array \<open>iregs\<close>.
\<close>

section \<open>Context\<close>

record MDRawContextARM64 =
  arm64_iregs :: "u64 list"
  arm64_other :: "u8 list"

type_synonym StackFrameARM64 = "(MDRawContextARM64, u64) StackFrameCpu"

abbreviation (input) ARM64_FP :: nat where "ARM64_FP \<equiv> 29"
abbreviation (input) ARM64_LR :: nat where "ARM64_LR \<equiv> 30"
abbreviation (input) ARM64_SP :: nat where "ARM64_SP \<equiv> 31"
abbreviation (input) ARM64_PC :: nat where "ARM64_PC \<equiv> 32"

definition arm64_ok :: "MDRawContextARM64 \<Rightarrow> bool" where
  "arm64_ok c \<longleftrightarrow> length (arm64_iregs c) = 33"

definition arm64_pc :: "MDRawContextARM64 \<Rightarrow> u64" where
  "arm64_pc c = arm64_iregs c ! ARM64_PC"

definition arm64_sp :: "MDRawContextARM64 \<Rightarrow> u64" where
  "arm64_sp c = arm64_iregs c ! ARM64_SP"

text \<open>A value-initialised context: all 796 bytes are zero, 264 of them the registers.\<close>

definition arm64_zero :: MDRawContextARM64 where
  "arm64_zero = \<lparr>arm64_iregs = replicate 33 0, arm64_other = replicate 532 0\<rparr>"

definition arm64_register_names :: "string list" where
  "arm64_register_names =
     [''x0'', ''x1'', ''x2'', ''x3'', ''x4'', ''x5'', ''x6'', ''x7'', ''x8'', ''x9'', ''x10'', ''x11'', ''x12'',
      ''x13'', ''x14'', ''x15'', ''x16'', ''x17'', ''x18'', ''x19'', ''x20'', ''x21'', ''x22'', ''x23'', ''x24'',
      ''x25'', ''x26'', ''x27'', ''x28'', ''x29'', ''x30'', ''sp'', ''pc'']"

definition StackFrameARM64_make :: "FrameTrust \<Rightarrow> MDRawContextARM64 \<Rightarrow> u64 \<Rightarrow> StackFrameARM64" where
  "StackFrameARM64_make t c v =
     \<lparr>base_frame = StackFrame_init\<lparr>trust := t\<rparr>, cpu_context = c, context_validity = v\<rparr>"

section \<open>Operations\<close>

definition arm64_GetContextFrame :: "MDRawContextARM64 option \<Rightarrow> StackFrameARM64 option" where
  "arm64_GetContextFrame context =
     (case context of
        None \<Rightarrow> None
      | Some c \<Rightarrow>
          Some \<lparr>base_frame = StackFrame_init\<lparr>trust := FRAME_TRUST_CONTEXT, instruction := arm64_pc c\<rparr>,
                cpu_context = c, context_validity = - 1\<rparr>)"

text \<open>The registers of the caller and their validity, from what the call frame information
  gives.\<close>

definition arm64_caller_registers :: "(string \<rightharpoonup> u64) \<Rightarrow> StackFrameARM64 \<Rightarrow> u64 list \<times> u64" where
  "arm64_caller_registers caller last_frame =
     array_alternate bit_flag caller ''.cfa'' ARM64_SP
       (array_alternate bit_flag caller ''.ra'' ARM64_PC
         (array_fill bit_flag (\<lambda>i. 19 \<le> i \<and> i \<le> 29) caller (context_validity last_frame)
           (arm64_iregs (cpu_context last_frame)) arm64_register_names 0 (arm64_iregs arm64_zero, 0)))"

definition arm64_GetCallerByCFIFrameInfo ::
  "MemoryRegion \<Rightarrow> StackFrameARM64 list \<Rightarrow> CFIFrameInfo \<Rightarrow> StackFrameARM64 option option" where
  "arm64_GetCallerByCFIFrameInfo memory frames cfi_frame_info =
     (let last_frame = last frames;
          callee_registers = array_callee_registers bit_flag arm64_register_names 0
            (context_validity last_frame) (arm64_iregs (cpu_context last_frame)) Map.empty;
          essentials = bit_flag ARM64_SP OR bit_flag ARM64_PC
      in case FindCallerRegs cfi_frame_info callee_registers (mem64 memory) Map.empty of
           (Crashed, _) \<Rightarrow> None
         | (Failed, _) \<Rightarrow> Some None
         | (Ok, caller) \<Rightarrow>
             (case arm64_caller_registers caller last_frame of
                (iregs, validity) \<Rightarrow>
                  if validity AND essentials \<noteq> essentials then Some None
                  else Some (Some (StackFrameARM64_make FRAME_TRUST_CFI
                         (arm64_zero\<lparr>arm64_iregs := iregs\<rparr>) validity))))"

definition arm64_GetCallerByStackScan ::
  "WalkerEnv \<Rightarrow> MemoryRegion \<Rightarrow> ('p, 'r) StackFrameSymbolizer \<Rightarrow> StackFrameARM64 list
     \<Rightarrow> (StackFrameARM64 option \<times> ('p, 'r) StackFrameSymbolizer) option" where
  "arm64_GetCallerByStackScan env memory y frames =
     (let c = cpu_context (last frames) in
      scan_caller (ScanForReturnAddress_context env (mem64 memory) y (arm64_sp c) (length frames = 1))
        (\<lambda>caller_sp caller_pc.
           StackFrameARM64_make FRAME_TRUST_SCAN
             (c\<lparr>arm64_iregs := (arm64_iregs c)[ARM64_PC := caller_pc, ARM64_SP := caller_sp + 8]\<rparr>)
             (bit_flag ARM64_PC OR bit_flag ARM64_SP)))"

definition arm64_GetCallerByFramePointer :: "MemoryRegion \<Rightarrow> StackFrameARM64 list \<Rightarrow> StackFrameARM64 option" where
  "arm64_GetCallerByFramePointer memory frames =
     (let c = cpu_context (last frames);
          last_fp = arm64_iregs c ! ARM64_FP
      in do {
        caller_fp \<leftarrow> read_unless_null (mem64 memory) (last_fp = 0) last_fp;
        caller_lr \<leftarrow> read_unless_null (mem64 memory) (last_fp = 0) (last_fp + 8);
        let caller_sp = (if last_fp \<noteq> 0 then last_fp + 16 else arm64_sp c);
        Some (StackFrameARM64_make FRAME_TRUST_FP
          (c\<lparr>arm64_iregs := (arm64_iregs c)[ARM64_FP := caller_fp, ARM64_SP := caller_sp,
               ARM64_PC := arm64_iregs c ! ARM64_LR, ARM64_LR := caller_lr]\<rparr>)
          (bit_flag ARM64_PC OR bit_flag ARM64_LR OR bit_flag ARM64_FP OR bit_flag ARM64_SP))
      })"

definition arm64_finish :: "StackFrameARM64 list \<Rightarrow> StackFrameARM64 \<Rightarrow> StackFrameARM64 option option" where
  "arm64_finish frames f = Some (checked_frame arm64_pc arm64_sp (\<lambda>c. arm64_pc c - 4) frames f)"

definition arm64_GetCallerFrame ::
  "WalkerEnv \<Rightarrow> ('p, 'r) StackFrameSymbolizer \<Rightarrow> StackFrameARM64 list \<Rightarrow> bool
     \<Rightarrow> (StackFrameARM64 option \<times> StackFrameARM64 \<times> ('p, 'r) StackFrameSymbolizer) option" where
  "arm64_GetCallerFrame env y frames stack_scan_allowed =
     (case w_memory env of
        None \<Rightarrow> Some (None, last frames, y)
      | Some memory \<Rightarrow>
          try_callers
            (cfi_caller (arm64_GetCallerByCFIFrameInfo memory frames) y (base_frame (last frames)))
            (arm64_GetCallerByFramePointer memory frames)
            (arm64_GetCallerByStackScan env memory y frames)
            stack_scan_allowed y (arm64_finish frames) (last frames))"

definition arm64_ops ::
  "WalkerEnv \<Rightarrow> MDRawContextARM64 option \<Rightarrow> (StackFrameARM64, ('p, 'r) StackFrameSymbolizer) StackwalkerOps" where
  "arm64_ops env context =
     \<lparr>op_GetContextFrame = arm64_GetContextFrame context, op_GetCallerFrame = arm64_GetCallerFrame env\<rparr>"

section \<open>The contracts\<close>

lemma arm64_cfi_cases:
  assumes "arm64_GetCallerByCFIFrameInfo memory frames cfi = Some (Some f)"
  obtains caller where
    "FindCallerRegs cfi (array_callee_registers bit_flag arm64_register_names 0 (context_validity (last frames))
        (arm64_iregs (cpu_context (last frames))) Map.empty) (mem64 memory) Map.empty = (Ok, caller)"
    "f = StackFrameARM64_make FRAME_TRUST_CFI
       (arm64_zero\<lparr>arm64_iregs := fst (arm64_caller_registers caller (last frames))\<rparr>)
       (snd (arm64_caller_registers caller (last frames)))"
    "bit (snd (arm64_caller_registers caller (last frames))) 31"
    "bit (snd (arm64_caller_registers caller (last frames))) 32"
  using assms
  by (auto simp: essential_bits arm64_GetCallerByCFIFrameInfo_def Let_def split: prod.splits status.splits if_splits)

lemma arm64_finish_Some:
  "arm64_finish frames f = Some (Some g) \<Longrightarrow>
     checked_frame arm64_pc arm64_sp (\<lambda>c. arm64_pc c - 4) frames f = Some g"
  by (simp add: arm64_finish_def)

interpretation arm64: trying_walker env "arm64_ops env ctx" arm64_pc arm64_sp arm64_GetCallerByCFIFrameInfo
  arm64_GetCallerByFramePointer "arm64_GetCallerByStackScan env" arm64_finish for env ctx
proof (unfold_locales, goal_cases)
  case (1 y frames allowed)
  show ?case by (simp add: arm64_ops_def arm64_GetCallerFrame_def)
next
  case (2 f)
  then show ?case by (auto simp: arm64_ops_def arm64_GetContextFrame_def split: option.splits)
next
  case (3 m frames cfi f)
  then show ?case by (auto elim!: arm64_cfi_cases simp: StackFrameARM64_make_def)
next
  case (4 m frames f)
  then show ?case
    by (auto simp: arm64_GetCallerByFramePointer_def StackFrameARM64_make_def Let_def bind_eq_Some_conv)
next
  case (5 m y frames fo y')
  then show ?case
    unfolding arm64_GetCallerByStackScan_def Let_def ScanForReturnAddress_context_def by (rule scan_caller_keeps)
next
  case (6 frames f g)
  then show ?case by (rule checked_frame_Some(1) [OF arm64_finish_Some])
next
  case (7 frames f g)
  then show ?case by (rule checked_frame_Some(2) [OF arm64_finish_Some])
qed

interpretation arm64_returns: returning_tries env "arm64_ops env ctx" arm64_pc arm64_sp
  arm64_GetCallerByCFIFrameInfo arm64_GetCallerByFramePointer "arm64_GetCallerByStackScan env" arm64_finish
  "walk_ready mem64 env" for env ctx
proof (unfold_locales, goal_cases)
  case (1 y ms us si bf res bf' y')
  then show ?case by (rule walk_ready_fill)
next
  case (2 y m bf cfi frames)
  then show ?case
    by (auto simp: arm64_GetCallerByCFIFrameInfo_def Let_def cfi_no_crash(2) [OF 2] split: prod.splits status.splits)
next
  case (3 y m frames)
  then show ?case
    unfolding arm64_GetCallerByStackScan_def Let_def ScanForReturnAddress_context_def by (rule scan_caller_ready64)
qed (simp add: arm64_finish_def)

interpretation arm64_sized: sized_tries env "arm64_ops env ctx" arm64_pc arm64_sp
  arm64_GetCallerByCFIFrameInfo arm64_GetCallerByFramePointer "arm64_GetCallerByStackScan env" arm64_finish
  "\<lambda>c. pred_option arm64_ok ctx \<longrightarrow> arm64_ok c" for env ctx
proof (unfold_locales, goal_cases)
  case (1 f)
  then show ?case by (auto simp: arm64_ops_def arm64_GetContextFrame_def split: option.splits)
next
  case (2 m frames cfi f)
  then show ?case
    by (auto elim!: arm64_cfi_cases simp: StackFrameARM64_make_def arm64_ok_def arm64_caller_registers_def arm64_zero_def)
next
  case (3 m frames f)
  then show ?case
    by (auto simp: arm64_GetCallerByFramePointer_def StackFrameARM64_make_def arm64_ok_def Let_def bind_eq_Some_conv)
next
  case (4 m y frames f y')
  then show ?case
    by (auto simp: arm64_GetCallerByStackScan_def scan_caller_def StackFrameARM64_make_def arm64_ok_def Let_def)
next
  case (5 frames f g)
  then show ?case by (simp add: checked_frame_Some(3) [OF arm64_finish_Some [OF 5(1)]])
qed

section \<open>Properties\<close>

text \<open>C35. An ARM64 walk returns a stack whose stack pointers ascend strictly after the first
  step, whose return addresses lie above the first page, and whose frames all have the 33
  registers of the initial context.\<close>

theorem arm64_walk_sound:
  assumes "Walk env lim (arm64_ops env (Some c)) y ms cs = Some (ok, w, y')" "arm64_ok c"
    and "Suc i < length (ws_frames w)"
  shows "let f = ws_frames w ! i; g = ws_frames w ! Suc i in
    arm64_ok (cpu_context f) \<and> arm64_ok (cpu_context g) \<and> 4096 \<le> arm64_pc (cpu_context g) \<and>
    (if i = 0 then arm64_sp (cpu_context f) \<le> arm64_sp (cpu_context g)
     else arm64_sp (cpu_context f) < arm64_sp (cpu_context g))"
proof -
  have ok: "arm64_ok (cpu_context (ws_frames w ! j))" if "j < length (ws_frames w)" for j
    using arm64_sized.Walk_contexts_ok [OF assms(1)] assms(2) nth_mem [OF that] by simp
  show ?thesis
    unfolding Let_def
    by (intro conjI ok ascending_frames [OF arm64.Walk_ascending [OF assms(1)] assms(3)]) (use assms(3) in simp_all)
qed

text \<open>An ARM64 walk comes back when the memory keeps to its bounds and no rule set of the
  resolver makes the evaluator crash; unlike the AMD64 walker it needs no system
  information.\<close>

theorem arm64_walk_returns:
  assumes "\<And>memory. w_memory env = Some memory \<Longrightarrow> bounded_region memory \<and> cfi_safe (mem64 memory) y"
  shows "\<exists>r. Walk env lim (arm64_ops env ctx) y ms cs = Some r"
  by (rule arm64_returns.Walk_returns) (use assms in \<open>simp add: walk_ready_def\<close>)

text \<open>The registers after the call frame information has been applied.\<close>

lemma arm64_names: "length arm64_register_names = 33" "arm64_register_names ! 31 = ''sp''"
  "arm64_register_names ! 32 = ''pc''"
  by (simp_all add: arm64_register_names_def)

definition arm64_recovered :: "(string \<rightharpoonup> u64) \<Rightarrow> StackFrameARM64 \<Rightarrow> nat \<Rightarrow> u64 option" where
  "arm64_recovered caller last_frame k =
     (case array_recovered bit_flag (\<lambda>i. 19 \<le> i \<and> i \<le> 29) caller (context_validity last_frame)
             (arm64_iregs (cpu_context last_frame)) (arm64_register_names ! k) k of
        Some x \<Rightarrow> Some x
      | None \<Rightarrow> if k = ARM64_PC then caller ''.ra'' else if k = ARM64_SP then caller ''.cfa'' else None)"

lemma arm64_caller_registers_nth:
  assumes "k < 33"
  shows "fst (arm64_caller_registers caller last_frame) ! k =
      (case arm64_recovered caller last_frame k of Some x \<Rightarrow> x | None \<Rightarrow> 0)"
    "bit (snd (arm64_caller_registers caller last_frame)) k \<longleftrightarrow> arm64_recovered caller last_frame k \<noteq> None"
proof -
  let ?s = "array_fill bit_flag (\<lambda>i. 19 \<le> i \<and> i \<le> 29) caller (context_validity last_frame)
      (arm64_iregs (cpu_context last_frame)) arm64_register_names 0 (arm64_iregs arm64_zero, 0)"
  let ?r = "\<lambda>k. array_recovered bit_flag (\<lambda>i. 19 \<le> i \<and> i \<le> 29) caller (context_validity last_frame)
      (arm64_iregs (cpu_context last_frame)) (arm64_register_names ! k) k"
  have n: "fst ?s ! k = (case ?r k of Some x \<Rightarrow> x | None \<Rightarrow> 0)" if "k < 33" for k
    using array_fill_nth [of k arm64_register_names 0 "(arm64_iregs arm64_zero, 0 :: u64)"] that
    by (simp add: arm64_names arm64_zero_def split: option.split)
  have b: "bit (snd ?s) k \<longleftrightarrow> ?r k \<noteq> None" if "k < 33" for k
    using array_fill_bit [of k arm64_register_names, where 'v = 64] that by (simp add: arm64_names)
  have f: "v AND bit_flag i = 0 \<longleftrightarrow> \<not> bit v i" if "i < 64" for v :: u64 and i
    using and_bit_flag [of i v] that by auto
  have l: "length (arm64_iregs arm64_zero) = 33" by (simp add: arm64_zero_def)
  show "fst (arm64_caller_registers caller last_frame) ! k =
      (case arm64_recovered caller last_frame k of Some x \<Rightarrow> x | None \<Rightarrow> 0)"
    using assms
    by (auto simp: n arm64_caller_registers_def arm64_recovered_def array_alternate_nth l f b bit_flag_iff
        split: option.split)
  show "bit (snd (arm64_caller_registers caller last_frame)) k \<longleftrightarrow> arm64_recovered caller last_frame k \<noteq> None"
    using assms
    by (auto simp: arm64_caller_registers_def arm64_recovered_def array_alternate_nth l f b bit_flag_iff
        split: option.split)
qed

text \<open>When call frame information yields an ARM64 caller, register \<open>k\<close> holds the value of its
  own rule, else, if it is one of \<open>x19\<close> to \<open>x29\<close> and valid in the callee, the callee's value,
  else, for the program counter and the stack pointer, the value of \<open>.ra\<close> or \<open>.cfa\<close>, and its
  validity bit is set; in all other cases the register is zero and its bit clear. The
  program counter and the stack pointer are always valid.\<close>

theorem arm64_cfi_registers:
  assumes "arm64_GetCallerByCFIFrameInfo memory frames cfi = Some (Some f)" "k < 33"
  shows "\<exists>caller. FindCallerRegs cfi
        (array_callee_registers bit_flag arm64_register_names 0 (context_validity (last frames))
          (arm64_iregs (cpu_context (last frames))) Map.empty) (mem64 memory) Map.empty = (Ok, caller) \<and>
      (case arm64_recovered caller (last frames) k of
         Some x \<Rightarrow> arm64_iregs (cpu_context f) ! k = x \<and> bit (context_validity f) k
       | None \<Rightarrow> k \<noteq> ARM64_SP \<and> k \<noteq> ARM64_PC \<and> arm64_iregs (cpu_context f) ! k = 0 \<and> \<not> bit (context_validity f) k)"
proof -
  obtain caller where r: "FindCallerRegs cfi
      (array_callee_registers bit_flag arm64_register_names 0 (context_validity (last frames))
        (arm64_iregs (cpu_context (last frames))) Map.empty) (mem64 memory) Map.empty = (Ok, caller)"
    and f: "f = StackFrameARM64_make FRAME_TRUST_CFI
       (arm64_zero\<lparr>arm64_iregs := fst (arm64_caller_registers caller (last frames))\<rparr>)
       (snd (arm64_caller_registers caller (last frames)))"
    and e: "bit (snd (arm64_caller_registers caller (last frames))) 31"
      "bit (snd (arm64_caller_registers caller (last frames))) 32"
    using assms(1) by (rule arm64_cfi_cases)
  show ?thesis
    using r f e arm64_caller_registers_nth [OF assms(2), of caller "last frames"]
    by (intro exI [of _ caller]) (auto simp: StackFrameARM64_make_def split: option.split)
qed

text \<open>Without call frame information the walker follows the frame record the ARM64 ABI puts
  at the frame pointer: the caller's program counter is the callee's link register, its
  frame pointer and link register are the two words of the record, its stack pointer is
  just past it, and these four registers are the valid ones.\<close>

theorem arm64_frame_record:
  assumes "w_memory env = Some memory" "FindCFIFrameInfo y (base_frame (last frames)) = None"
    and "arm64_ok (cpu_context (last frames))"
    and "fp = arm64_iregs (cpu_context (last frames)) ! ARM64_FP" "fp \<noteq> 0"
    and "mem64 memory fp = Some caller_fp" "mem64 memory (fp + 8) = Some caller_lr"
    and "lr = arm64_iregs (cpu_context (last frames)) ! ARM64_LR"
    and "\<not> TerminateWalk lr (fp + 16) (arm64_sp (cpu_context (last frames))) (length frames = 1)"
  shows "\<exists>f. arm64_GetCallerFrame env y frames allowed = Some (Some f, last frames, y) \<and>
    instruction (base_frame f) = lr - 4 \<and> trust (base_frame f) = FRAME_TRUST_FP \<and>
    arm64_iregs (cpu_context f) = (arm64_iregs (cpu_context (last frames)))
      [ARM64_FP := caller_fp, ARM64_LR := caller_lr, ARM64_SP := fp + 16, ARM64_PC := lr] \<and>
    (\<forall>k. bit (context_validity f) k \<longleftrightarrow> k \<in> {ARM64_FP, ARM64_LR, ARM64_SP, ARM64_PC})"
proof -
  let ?c = "cpu_context (last frames)"
  let ?f = "StackFrameARM64_make FRAME_TRUST_FP
      (?c\<lparr>arm64_iregs := (arm64_iregs ?c)[ARM64_FP := caller_fp, ARM64_SP := fp + 16, ARM64_PC := lr,
        ARM64_LR := caller_lr]\<rparr>)
      (bit_flag ARM64_PC OR bit_flag ARM64_LR OR bit_flag ARM64_FP OR bit_flag ARM64_SP)"
  have "arm64_GetCallerByFramePointer memory frames = Some ?f"
    using assms by (simp add: arm64_GetCallerByFramePointer_def read_unless_null_def Let_def)
  moreover have "checked_frame arm64_pc arm64_sp (\<lambda>c. arm64_pc c - 4) frames ?f =
      Some (?f\<lparr>base_frame := (base_frame ?f)\<lparr>instruction := lr - 4\<rparr>\<rparr>)"
    using assms(3,9) by (simp add: checked_frame_def arm64_pc_def arm64_sp_def arm64_ok_def StackFrameARM64_make_def Let_def)
  ultimately have "arm64_GetCallerFrame env y frames allowed =
      Some (Some (?f\<lparr>base_frame := (base_frame ?f)\<lparr>instruction := lr - 4\<rparr>\<rparr>), last frames, y)"
    using assms(1,2) by (simp add: arm64_GetCallerFrame_def try_callers_def cfi_caller_def arm64_finish_def)
  then show ?thesis
    by (auto simp: StackFrameARM64_make_def bit_flag_iff bit_simps list_update_swap)
qed

section \<open>Evaluation on a small stack\<close>

definition sample_context_arm64 :: MDRawContextARM64 where
  "sample_context_arm64 = arm64_zero\<lparr>arm64_iregs := replicate 29 0 @ [4096, 5000, 4000, 6000]\<rparr>"

lemma sample_arm64_frames:
  "map_option (\<lambda>(ok, w, y). length (ws_frames w)) (Walk (sample_env64 None) sample_limits
     (arm64_ops (sample_env64 None) (Some sample_context_arm64)) no_symbols [] []) = Some 2"
  by code_simp

lemma sample_arm64_ok [simp]: "arm64_ok sample_context_arm64"
  by (simp add: arm64_ok_def sample_context_arm64_def)

theorem arm64_walk_sound_witness:
  "\<exists>ok w y'. Walk (sample_env64 None) sample_limits
     (arm64_ops (sample_env64 None) (Some sample_context_arm64)) no_symbols [] [] = Some (ok, w, y') \<and>
   length (ws_frames w) = 2 \<and> arm64_sp (cpu_context (ws_frames w ! 0)) \<le> arm64_sp (cpu_context (ws_frames w ! 1))"
proof -
  obtain ok w y' where w: "Walk (sample_env64 None) sample_limits
     (arm64_ops (sample_env64 None) (Some sample_context_arm64)) no_symbols [] [] = Some (ok, w, y')"
    "length (ws_frames w) = 2"
    using sample_arm64_frames by (auto simp: map_option_eq_Some)
  show ?thesis using arm64_walk_sound [OF w(1) sample_arm64_ok, of 0] w by (auto simp: Let_def)
qed

theorem arm64_walk_returns_witness:
  "\<exists>r. Walk (sample_env64 None) default_limits (arm64_ops (sample_env64 None) (Some sample_context_arm64))
     no_symbols [] [] = Some r"
  by (rule arm64_walk_returns) (simp add: sample_stack64_bounded)

theorem arm64_frame_record_witness:
  "\<exists>f. arm64_GetCallerFrame (sample_env64 None) no_symbols
       [the (arm64_GetContextFrame (Some sample_context_arm64))] True =
     Some (Some f, the (arm64_GetContextFrame (Some sample_context_arm64)), no_symbols) \<and>
   instruction (base_frame f) = 4996 \<and> arm64_iregs (cpu_context f) = replicate 29 0 @ [8192, 5000, 4112, 5000]"
proof -
  let ?fr = "[the (arm64_GetContextFrame (Some sample_context_arm64))]"
  have c: "cpu_context (last ?fr) = sample_context_arm64" by (simp add: arm64_GetContextFrame_def)
  have r: "arm64_iregs sample_context_arm64 = replicate 29 0 @ [4096, 5000, 4000, 6000]"
    by (simp add: sample_context_arm64_def)
  show ?thesis
    using arm64_frame_record [of "sample_env64 None" sample_stack64 no_symbols ?fr 4096 8192 5000 5000 True]
    unfolding c r
    by (auto simp: FindCFIFrameInfo_def no_symbols_def StackFrameSymbolizer_make_def arm64_ok_def r arm64_sp_def
        TerminateWalk_def nth_append list_update_append sample_stack64_def)
qed

definition sample_leaf_arm64 :: StackFrameARM64 where
  "sample_leaf_arm64 = the (arm64_GetContextFrame (Some sample_context_arm64))"

lemma sample_leaf_arm64_regs:
  "FindCallerRegs (leaf_info ''sp'' ''x30'')
     (array_callee_registers bit_flag arm64_register_names 0 (context_validity (last [sample_leaf_arm64]))
       (arm64_iregs (cpu_context (last [sample_leaf_arm64]))) Map.empty) (mem64 sample_stack64) Map.empty =
   (Ok, [''.ra'' \<mapsto> 5000, ''.cfa'' \<mapsto> 4000])"
proof (rule leaf_info_regs)
  show "array_callee_registers bit_flag arm64_register_names 0 (context_validity (last [sample_leaf_arm64]))
       (arm64_iregs (cpu_context (last [sample_leaf_arm64]))) Map.empty ''sp'' = Some 4000"
    by code_simp
  show "array_callee_registers bit_flag arm64_register_names 0 (context_validity (last [sample_leaf_arm64]))
       (arm64_iregs (cpu_context (last [sample_leaf_arm64]))) Map.empty ''x30'' = Some 5000"
    by code_simp
qed (simp_all add: rule_expr_simps)

theorem arm64_cfi_registers_witness:
  "\<exists>f. arm64_GetCallerByCFIFrameInfo sample_stack64 [sample_leaf_arm64] (leaf_info ''sp'' ''x30'') = Some (Some f) \<and>
     arm64_iregs (cpu_context f) ! 32 = 5000 \<and> bit (context_validity f) 32"
proof -
  have "snd (arm64_caller_registers [''.ra'' \<mapsto> 5000, ''.cfa'' \<mapsto> 4000] sample_leaf_arm64)
      AND (bit_flag 31 OR bit_flag 32) = bit_flag 31 OR bit_flag 32"
    by code_simp
  then obtain f where f: "arm64_GetCallerByCFIFrameInfo sample_stack64 [sample_leaf_arm64]
      (leaf_info ''sp'' ''x30'') = Some (Some f)"
    using sample_leaf_arm64_regs
    by (cases "arm64_caller_registers [''.ra'' \<mapsto> 5000, ''.cfa'' \<mapsto> 4000] sample_leaf_arm64")
      (simp add: arm64_GetCallerByCFIFrameInfo_def Let_def)
  have "arm64_recovered [''.ra'' \<mapsto> 5000, ''.cfa'' \<mapsto> 4000] (last [sample_leaf_arm64]) 32 = Some 5000"
    by code_simp
  then show ?thesis
    using f arm64_cfi_registers [OF f, of 32] unfolding sample_leaf_arm64_regs by auto
qed

end
