(* ===== verification/Stackwalker_Chain.thy ===== *)
theory Stackwalker_Chain
  imports Stackwalker
begin

text \<open>
  The walkers that only follow a chain of saved frames: PowerPC (\<open>processor/stackwalker_ppc.cc\<close>),
  64-bit PowerPC (\<open>processor/stackwalker_ppc64.cc\<close>), SPARC (\<open>processor/stackwalker_sparc.cc\<close>), and the
  walker over a given list of addresses (\<open>processor/stackwalker_address_list.cc\<close>). None of them
  asks the symbolizer for anything while looking for a caller, and none scans.
\<close>

section \<open>The contract\<close>

lemma ascending_short [simp]: "ascending ip sp []" "ascending ip sp [c]"
  by (simp_all add: ascending_def)

locale chain_walker =
  fixes ops :: "(('c, 'v, 'z) StackFrameCpu_scheme, ('p, 'r) StackFrameSymbolizer) StackwalkerOps"
    and next_frame :: "('c, 'v, 'z) StackFrameCpu_scheme list \<Rightarrow> ('c, 'v, 'z) StackFrameCpu_scheme option"
    and ip :: "'c \<Rightarrow> u64" and sp :: "'c \<Rightarrow> u64"
    and ok :: "'c \<Rightarrow> bool" and saved :: "'c \<Rightarrow> 'c \<Rightarrow> bool"
  assumes caller_is_next: "op_GetCallerFrame ops y frames allowed = Some (next_frame frames, last frames, y)"
    and context_trust: "op_GetContextFrame ops = Some f \<Longrightarrow> trust (base_frame f) = FRAME_TRUST_CONTEXT"
    and context_ok: "op_GetContextFrame ops = Some f \<Longrightarrow> ok (cpu_context f)"
    and next_trust: "next_frame frames = Some f \<Longrightarrow> trust (base_frame f) = FRAME_TRUST_FP"
    and next_checked: "next_frame frames = Some f \<Longrightarrow> ok (cpu_context (last frames)) \<Longrightarrow>
      \<not> TerminateWalk (ip (cpu_context f)) (sp (cpu_context f)) (sp (cpu_context (last frames))) (length frames = 1)"
    and next_saved: "next_frame frames = Some f \<Longrightarrow> ok (cpu_context (last frames)) \<Longrightarrow>
      ok (cpu_context f) \<and> saved (cpu_context (last frames)) (cpu_context f)"
begin

lemma Walk_chain:
  assumes "Walk env lim ops y ms cs = Some (b, w, y')"
  shows "(\<forall>f\<in>set (ws_frames w). ok (cpu_context f)) \<and> successively saved (map cpu_context (ws_frames w)) \<and>
    ascending ip sp (map cpu_context (ws_frames w))"
proof (rule walk_loop_invariant [OF assms [unfolded Walk_def],
      where I = "\<lambda>y fo w. ((\<forall>f\<in>set (ws_frames w). ok (cpu_context f)) \<and>
          successively saved (map cpu_context (ws_frames w)) \<and> ascending ip sp (map cpu_context (ws_frames w))) \<and>
        next_frame_ok ip sp (map cpu_context (ws_frames w)) fo \<and>
        (\<forall>f. fo = Some f \<longrightarrow> ok (cpu_context f) \<and>
           (ws_frames w \<noteq> [] \<longrightarrow> saved (cpu_context (last (ws_frames w))) (cpu_context f)))"
      and J = "\<lambda>y w. (\<forall>f\<in>set (ws_frames w). ok (cpu_context f)) \<and>
          successively saved (map cpu_context (ws_frames w)) \<and> ascending ip sp (map cpu_context (ws_frames w))"],
      goal_cases)
  case 1
  then show ?case using context_ok by (simp add: next_frame_ok_def)
next
  case (3 y f w res filled y1)
  then show ?case
    by (cases "ws_frames w = []")
      (auto simp: walk_push_def ascending_snoc next_frame_ok_def successively_append_iff last_map)
next
  case (5 y w fs f n l y')
  then have n: "n = next_frame (fs @ [f])" "l = f" "ok (cpu_context f)" by (auto simp: caller_is_next)
  then show ?case
    using 5 next_checked [of "fs @ [f]"] next_saved [of "fs @ [f]"] by (auto simp: next_frame_ok_def)
qed auto

lemma Walk_linked:
  assumes "Walk env lim ops y ms cs = Some (b, w, y')" "Suc i < length (ws_frames w)"
  shows "let c = cpu_context (ws_frames w ! i); d = cpu_context (ws_frames w ! Suc i) in
    saved c d \<and> 4096 \<le> ip d \<and> (if i = 0 then sp c \<le> sp d else sp c < sp d)"
proof -
  note c = Walk_chain [OF assms(1)]
  have "saved (cpu_context (ws_frames w ! i)) (cpu_context (ws_frames w ! Suc i))"
    using c assms(2) by (simp add: successively_conv_nth)
  then show ?thesis using ascending_frames [OF _ assms(2), of ip sp] c by (auto simp: Let_def)
qed

end

sublocale chain_walker \<subseteq> gated_walker ops
proof (unfold_locales, goal_cases)
  case (1 f)
  then show ?case by (simp add: context_trust dubious_def)
next
  case (3 y frames f l y')
  then have "next_frame frames = Some f" by (simp add: caller_is_next)
  then show ?case by (simp add: dubious_def next_trust)
qed (simp_all add: caller_is_next)

section \<open>PowerPC\<close>

text \<open>The two PowerPC contexts differ in the width of their registers, and the 64-bit one has no
  \<open>mq\<close>; \<open>ppc_rest\<close> holds the registers after \<open>gpr\<close>, which the walkers only copy.\<close>

record 'w MDRawContextPPC =
  ppc_context_flags :: 'w
  ppc_srr0 :: 'w
  ppc_srr1 :: 'w
  ppc_gpr :: "'w list"
  ppc_rest :: "'w list"

type_synonym StackFramePPC = "(u32 MDRawContextPPC, u32) StackFrameCpu"
type_synonym StackFramePPC64 = "(u64 MDRawContextPPC, u32) StackFrameCpu"

definition PPC_VALID_SRR0 :: u32 where
  "PPC_VALID_SRR0 = 1"

definition PPC_VALID_GPR1 :: u32 where
  "PPC_VALID_GPR1 = 2"

text \<open>A memory that does not end below 4 GB is dropped when a 32-bit walker is built.\<close>

definition memory_below_4G :: "MemoryRegion option \<Rightarrow> MemoryRegion option" where
  "memory_below_4G memory =
     (case memory of
        None \<Rightarrow> None
      | Some m \<Rightarrow> if mem_base m + ucast (mem_size m) - 1 > 0xffffffff then None else Some m)"

definition StackwalkerPPC_env :: "WalkerEnv \<Rightarrow> WalkerEnv" where
  "StackwalkerPPC_env env = env\<lparr>w_memory := memory_below_4G (w_memory env)\<rparr>"

definition ppc_GetContextFrame ::
  "('w::len word) MDRawContextPPC option \<Rightarrow> ('w word MDRawContextPPC, u32) StackFrameCpu option" where
  "ppc_GetContextFrame context =
     (case context of
        None \<Rightarrow> None
      | Some c \<Rightarrow>
          Some \<lparr>base_frame = StackFrame_init\<lparr>trust := FRAME_TRUST_CONTEXT, instruction := ucast (ppc_srr0 c)\<rparr>,
                cpu_context = c, context_validity = - 1\<rparr>)"

text \<open>The caller, given how a register-sized word is read, where above the saved stack pointer
  the return address lies and how far the instruction is taken back from it.\<close>

definition ppc_next_frame ::
  "('w::len word \<Rightarrow> 'w word option) \<Rightarrow> 'w word \<Rightarrow> 'w word \<Rightarrow> ('w word MDRawContextPPC, u32) StackFrameCpu list
     \<Rightarrow> ('w word MDRawContextPPC, u32) StackFrameCpu option" where
  "ppc_next_frame get offset instruction_size frames =
     (let last_context = cpu_context (last frames);
          last_sp = ppc_gpr last_context ! 1
      in do {
        stack_pointer \<leftarrow> get last_sp;
        if stack_pointer \<le> last_sp then None
        else do {
          return_address \<leftarrow> get (stack_pointer + offset);
          if return_address \<le> 1 then None
          else if TerminateWalk (ucast return_address) (ucast stack_pointer) (ucast last_sp) (length frames = 1)
          then None
          else Some \<lparr>base_frame = StackFrame_init\<lparr>trust := FRAME_TRUST_FP,
                       instruction := ucast (return_address - instruction_size)\<rparr>,
                     cpu_context = last_context\<lparr>ppc_srr0 := return_address,
                       ppc_gpr := (ppc_gpr last_context)[1 := stack_pointer]\<rparr>,
                     context_validity = PPC_VALID_SRR0 OR PPC_VALID_GPR1\<rparr>
        }
      })"

definition ppc_GetCallerFrame ::
  "WalkerEnv \<Rightarrow> ('p, 'r) StackFrameSymbolizer \<Rightarrow> StackFramePPC list \<Rightarrow> bool
     \<Rightarrow> (StackFramePPC option \<times> StackFramePPC \<times> ('p, 'r) StackFrameSymbolizer) option" where
  "ppc_GetCallerFrame env y frames stack_scan_allowed =
     (case w_memory env of
        None \<Rightarrow> Some (None, last frames, y)
      | Some memory \<Rightarrow> Some (ppc_next_frame (\<lambda>a. mem32 memory (ucast a)) 8 4 frames, last frames, y))"

definition ppc64_GetCallerFrame ::
  "WalkerEnv \<Rightarrow> ('p, 'r) StackFrameSymbolizer \<Rightarrow> StackFramePPC64 list \<Rightarrow> bool
     \<Rightarrow> (StackFramePPC64 option \<times> StackFramePPC64 \<times> ('p, 'r) StackFrameSymbolizer) option" where
  "ppc64_GetCallerFrame env y frames stack_scan_allowed =
     (case w_memory env of
        None \<Rightarrow> Some (None, last frames, y)
      | Some memory \<Rightarrow> Some (ppc_next_frame (mem64 memory) 16 8 frames, last frames, y))"

definition ppc_ops ::
  "WalkerEnv \<Rightarrow> u32 MDRawContextPPC option \<Rightarrow> (StackFramePPC, ('p, 'r) StackFrameSymbolizer) StackwalkerOps" where
  "ppc_ops env context =
     \<lparr>op_GetContextFrame = ppc_GetContextFrame context,
      op_GetCallerFrame = ppc_GetCallerFrame (StackwalkerPPC_env env)\<rparr>"

definition ppc64_ops ::
  "WalkerEnv \<Rightarrow> u64 MDRawContextPPC option \<Rightarrow> (StackFramePPC64, ('p, 'r) StackFrameSymbolizer) StackwalkerOps" where
  "ppc64_ops env context =
     \<lparr>op_GetContextFrame = ppc_GetContextFrame context, op_GetCallerFrame = ppc64_GetCallerFrame env\<rparr>"

section \<open>SPARC\<close>

record MDRawContextSPARC =
  sparc_context_flags :: u32
  sparc_flag_pad :: u32
  sparc_g_r :: "u64 list"
  sparc_ccr :: u64
  sparc_pc :: u64
  sparc_rest :: "u64 list"

type_synonym StackFrameSPARC = "(MDRawContextSPARC, u32) StackFrameCpu"

definition sparc_GetContextFrame :: "MDRawContextSPARC option \<Rightarrow> StackFrameSPARC option" where
  "sparc_GetContextFrame context =
     (case context of
        None \<Rightarrow> None
      | Some c \<Rightarrow>
          Some \<lparr>base_frame = StackFrame_init\<lparr>trust := FRAME_TRUST_CONTEXT, instruction := sparc_pc c\<rparr>,
                cpu_context = c, context_validity = - 1\<rparr>)"

definition sparc_next_frame :: "MemoryRegion \<Rightarrow> StackFrameSPARC list \<Rightarrow> StackFrameSPARC option" where
  "sparc_next_frame memory frames =
     (let last_context = cpu_context (last frames);
          stack_pointer = sparc_g_r last_context ! 30;
          last_sp = sparc_g_r last_context ! 14
      in if stack_pointer \<le> last_sp then None
         else do {
           return_address \<leftarrow> mem32 memory (stack_pointer + 60);
           if return_address \<le> 1 then None
           else do {
             stack_base \<leftarrow> mem32 memory (stack_pointer + 56);
             if stack_base \<le> 1 then None
             else if TerminateWalk (ucast return_address) stack_pointer last_sp (length frames = 1) then None
             else Some \<lparr>base_frame = StackFrame_init\<lparr>trust := FRAME_TRUST_FP, instruction := ucast return_address\<rparr>,
                        cpu_context = last_context\<lparr>
                          sparc_g_r := (sparc_g_r last_context)[14 := stack_pointer, 30 := ucast stack_base],
                          sparc_pc := ucast (return_address + 8)\<rparr>,
                        context_validity = 7\<rparr>
           }
         })"

definition sparc_GetCallerFrame ::
  "WalkerEnv \<Rightarrow> ('p, 'r) StackFrameSymbolizer \<Rightarrow> StackFrameSPARC list \<Rightarrow> bool
     \<Rightarrow> (StackFrameSPARC option \<times> StackFrameSPARC \<times> ('p, 'r) StackFrameSymbolizer) option" where
  "sparc_GetCallerFrame env y frames stack_scan_allowed =
     (case w_memory env of
        None \<Rightarrow> Some (None, last frames, y)
      | Some memory \<Rightarrow> Some (sparc_next_frame memory frames, last frames, y))"

definition sparc_ops ::
  "WalkerEnv \<Rightarrow> MDRawContextSPARC option \<Rightarrow> (StackFrameSPARC, ('p, 'r) StackFrameSymbolizer) StackwalkerOps" where
  "sparc_ops env context =
     \<lparr>op_GetContextFrame = sparc_GetContextFrame context, op_GetCallerFrame = sparc_GetCallerFrame env\<rparr>"

section \<open>A list of addresses\<close>

type_synonym StackFrameAddress = "(unit, unit) StackFrameCpu"

definition prewalked_frame :: "u64 \<Rightarrow> StackFrameAddress" where
  "prewalked_frame a =
     \<lparr>base_frame = StackFrame_init\<lparr>instruction := a, trust := FRAME_TRUST_PREWALKED\<rparr>,
      cpu_context = (), context_validity = ()\<rparr>"

definition address_list_GetContextFrame :: "u64 list \<Rightarrow> StackFrameAddress option" where
  "address_list_GetContextFrame addresses =
     (if length addresses = 0 then None else Some (prewalked_frame (addresses ! 0)))"

definition address_list_GetCallerFrame ::
  "u64 list \<Rightarrow> ('p, 'r) StackFrameSymbolizer \<Rightarrow> StackFrameAddress list \<Rightarrow> bool
     \<Rightarrow> (StackFrameAddress option \<times> StackFrameAddress \<times> ('p, 'r) StackFrameSymbolizer) option" where
  "address_list_GetCallerFrame addresses y frames stack_scan_allowed =
     (let frame_index = length frames
      in Some (if length addresses \<le> frame_index then None
               else Some (prewalked_frame (addresses ! frame_index)), last frames, y))"

definition address_list_ops ::
  "u64 list \<Rightarrow> (StackFrameAddress, ('p, 'r) StackFrameSymbolizer) StackwalkerOps" where
  "address_list_ops addresses =
     \<lparr>op_GetContextFrame = address_list_GetContextFrame addresses,
      op_GetCallerFrame = address_list_GetCallerFrame addresses\<rparr>"

definition address_list_env :: "CodeModules option \<Rightarrow> WalkerEnv" where
  "address_list_env modules =
     \<lparr>w_system_info = None, w_memory = None, w_modules = modules, w_unloaded_modules = None\<rparr>"

section \<open>What the walks return\<close>

definition ppc_ok :: "('w::len word) MDRawContextPPC \<Rightarrow> bool" where
  "ppc_ok c \<longleftrightarrow> length (ppc_gpr c) = 32"

definition ppc_ip :: "('w::len word) MDRawContextPPC \<Rightarrow> u64" where
  "ppc_ip c = ucast (ppc_srr0 c)"

definition ppc_sp :: "('w::len word) MDRawContextPPC \<Rightarrow> u64" where
  "ppc_sp c = ucast (ppc_gpr c ! 1)"

text \<open>The caller's registers were saved by the callee: the stack pointer at the callee's stack
  pointer, the return address above the caller's.\<close>

definition ppc_saved ::
  "('w::len word \<Rightarrow> 'w word option) \<Rightarrow> 'w word \<Rightarrow> 'w word MDRawContextPPC \<Rightarrow> 'w word MDRawContextPPC \<Rightarrow> bool" where
  "ppc_saved get offset c d \<longleftrightarrow>
     ppc_gpr c ! 1 < ppc_gpr d ! 1 \<and> get (ppc_gpr c ! 1) = Some (ppc_gpr d ! 1) \<and>
     get (ppc_gpr d ! 1 + offset) = Some (ppc_srr0 d) \<and>
     d = c\<lparr>ppc_srr0 := ppc_srr0 d, ppc_gpr := (ppc_gpr c)[1 := ppc_gpr d ! 1]\<rparr>"

lemma ppc_next_frame_Some:
  assumes "ppc_next_frame get offset n frames = Some f" "ppc_ok (cpu_context (last frames))"
  shows "ppc_ok (cpu_context f)" "ppc_saved get offset (cpu_context (last frames)) (cpu_context f)"
    "\<not> TerminateWalk (ppc_ip (cpu_context f)) (ppc_sp (cpu_context f)) (ppc_sp (cpu_context (last frames))) (length frames = 1)"
    "trust (base_frame f) = FRAME_TRUST_FP"
  using assms
  by (auto simp: ppc_next_frame_def ppc_ok_def ppc_saved_def ppc_ip_def ppc_sp_def Let_def bind_eq_Some_conv
      split: if_splits)

lemma ppc_next_trust: "ppc_next_frame get offset n frames = Some f \<Longrightarrow> trust (base_frame f) = FRAME_TRUST_FP"
  by (auto simp: ppc_next_frame_def Let_def bind_eq_Some_conv split: if_splits)

lemma ppc_context_frame:
  "ppc_GetContextFrame ctx = Some f \<Longrightarrow> trust (base_frame f) = FRAME_TRUST_CONTEXT \<and> ctx = Some (cpu_context f)"
  by (auto simp: ppc_GetContextFrame_def split: option.splits)

definition ppc_read32 :: "WalkerEnv \<Rightarrow> u32 \<Rightarrow> u32 option" where
  "ppc_read32 env a = (case memory_below_4G (w_memory env) of None \<Rightarrow> None | Some m \<Rightarrow> mem32 m (ucast a))"

definition ppc_read64 :: "WalkerEnv \<Rightarrow> u64 \<Rightarrow> u64 option" where
  "ppc_read64 env a = (case w_memory env of None \<Rightarrow> None | Some m \<Rightarrow> mem64 m a)"

lemma ppc_GetCallerFrame_next:
  "ppc_GetCallerFrame (StackwalkerPPC_env env) y frames allowed =
     Some (ppc_next_frame (ppc_read32 env) 8 4 frames, last frames, y)"
  by (cases "memory_below_4G (w_memory env)")
    (simp_all add: ppc_GetCallerFrame_def StackwalkerPPC_env_def ppc_read32_def [abs_def] ppc_next_frame_def Let_def)

lemma ppc64_GetCallerFrame_next:
  "ppc64_GetCallerFrame env y frames allowed = Some (ppc_next_frame (ppc_read64 env) 16 8 frames, last frames, y)"
  by (cases "w_memory env")
    (simp_all add: ppc64_GetCallerFrame_def ppc_read64_def [abs_def] ppc_next_frame_def Let_def)

text \<open>The contracts are met by walks that start from a complete context.\<close>

interpretation ppc: chain_walker "ppc_ops env (if ppc_ok c then Some c else None)"
  "ppc_next_frame (ppc_read32 env) 8 4" ppc_ip ppc_sp ppc_ok "ppc_saved (ppc_read32 env) 8" for env c
  by unfold_locales
    (auto simp: ppc_ops_def ppc_GetCallerFrame_next ppc_GetContextFrame_def
      intro: ppc_next_frame_Some ppc_next_trust dest: ppc_next_frame_Some(3) split: if_splits)

interpretation ppc64: chain_walker "ppc64_ops env (if ppc_ok c then Some c else None)"
  "ppc_next_frame (ppc_read64 env) 16 8" ppc_ip ppc_sp ppc_ok "ppc_saved (ppc_read64 env) 16" for env c
  by unfold_locales
    (auto simp: ppc64_ops_def ppc64_GetCallerFrame_next ppc_GetContextFrame_def
      intro: ppc_next_frame_Some ppc_next_trust dest: ppc_next_frame_Some(3) split: if_splits)

definition sparc_ok :: "MDRawContextSPARC \<Rightarrow> bool" where
  "sparc_ok c \<longleftrightarrow> length (sparc_g_r c) = 32"

definition sparc_ip :: "MDRawContextSPARC \<Rightarrow> u64" where
  "sparc_ip c = ucast (ucast (sparc_pc c) - 8 :: u32)"

definition sparc_sp :: "MDRawContextSPARC \<Rightarrow> u64" where
  "sparc_sp c = sparc_g_r c ! 14"

definition sparc_saved :: "WalkerEnv \<Rightarrow> MDRawContextSPARC \<Rightarrow> MDRawContextSPARC \<Rightarrow> bool" where
  "sparc_saved env c d \<longleftrightarrow>
     sparc_g_r c ! 14 < sparc_g_r c ! 30 \<and> (\<exists>m i7 i6. w_memory env = Some m \<and> mem32 m (sparc_g_r c ! 30 + 60) = Some i7 \<and>
        mem32 m (sparc_g_r c ! 30 + 56) = Some i6 \<and>
        d = c\<lparr>sparc_g_r := (sparc_g_r c)[14 := sparc_g_r c ! 30, 30 := ucast i6], sparc_pc := ucast (i7 + 8)\<rparr>)"

definition sparc_next :: "WalkerEnv \<Rightarrow> StackFrameSPARC list \<Rightarrow> StackFrameSPARC option" where
  "sparc_next env frames = (case w_memory env of None \<Rightarrow> None | Some m \<Rightarrow> sparc_next_frame m frames)"

lemma ucast_u32_u64 [simp]: "ucast (ucast (x :: u32) :: u64) = x"
  by transfer simp

lemma sparc_next_Some:
  assumes "sparc_next env frames = Some f" "sparc_ok (cpu_context (last frames))"
  shows "sparc_ok (cpu_context f) \<and> sparc_saved env (cpu_context (last frames)) (cpu_context f)"
    "\<not> TerminateWalk (sparc_ip (cpu_context f)) (sparc_sp (cpu_context f)) (sparc_sp (cpu_context (last frames)))
       (length frames = 1)"
    "trust (base_frame f) = FRAME_TRUST_FP"
  using assms
  by (auto simp: sparc_next_def sparc_next_frame_def sparc_ok_def sparc_saved_def sparc_ip_def sparc_sp_def Let_def
      bind_eq_Some_conv split: if_splits option.splits)

lemma sparc_next_trust: "sparc_next env frames = Some f \<Longrightarrow> trust (base_frame f) = FRAME_TRUST_FP"
  by (auto simp: sparc_next_def sparc_next_frame_def Let_def bind_eq_Some_conv split: if_splits option.splits)

lemma sparc_GetCallerFrame_next:
  "sparc_GetCallerFrame env y frames allowed = Some (sparc_next env frames, last frames, y)"
  by (simp add: sparc_GetCallerFrame_def sparc_next_def split: option.split)

interpretation sparc: chain_walker "sparc_ops env (if sparc_ok c then Some c else None)" "sparc_next env"
  sparc_ip sparc_sp sparc_ok "sparc_saved env" for env c
proof (unfold_locales, goal_cases)
  case (5 frames f)
  then show ?case by (rule sparc_next_Some(2))
next
  case (6 frames f)
  then show ?case by (rule sparc_next_Some(1))
qed (auto simp: sparc_ops_def sparc_GetCallerFrame_next sparc_GetContextFrame_def sparc_next_trust split: if_splits)

interpretation ppc_returns: returning_walker "ppc_ops env ctx" "\<lambda>y. True" for env ctx
  by unfold_locales (simp_all add: ppc_ops_def ppc_GetCallerFrame_next)

interpretation ppc64_returns: returning_walker "ppc64_ops env ctx" "\<lambda>y. True" for env ctx
  by unfold_locales (simp_all add: ppc64_ops_def ppc64_GetCallerFrame_next)

interpretation sparc_returns: returning_walker "sparc_ops env ctx" "\<lambda>y. True" for env ctx
  by unfold_locales (simp_all add: sparc_ops_def sparc_GetCallerFrame_next)

text \<open>A PowerPC walk returns the chain of frames saved in memory: each stack pointer is the
  word at its callee's stack pointer and lies above it, each return address is the word 8
  above its stack pointer and lies above the first page, and no other register changes.\<close>

theorem ppc_walk_back_chain:
  assumes "Walk env lim (ppc_ops env (Some c)) y ms cs = Some (ok, w, y')" "ppc_ok c"
    and "Suc i < length (ws_frames w)"
  shows "let d = cpu_context (ws_frames w ! i); e = cpu_context (ws_frames w ! Suc i) in
    ppc_gpr d ! 1 < ppc_gpr e ! 1 \<and> ppc_read32 env (ppc_gpr d ! 1) = Some (ppc_gpr e ! 1) \<and>
    ppc_read32 env (ppc_gpr e ! 1 + 8) = Some (ppc_srr0 e) \<and> 4096 \<le> ppc_ip e \<and>
    e = d\<lparr>ppc_srr0 := ppc_srr0 e, ppc_gpr := (ppc_gpr d)[1 := ppc_gpr e ! 1]\<rparr>"
  using ppc.Walk_linked [where env = env and c = c] assms by (fastforce simp: Let_def ppc_saved_def)

text \<open>Walks over PowerPC, 64-bit PowerPC and SPARC stacks always come back: whatever the context,
  the memory, the modules and the symbolizer.\<close>

theorem chain_walks_return:
  "(\<exists>r. Walk env lim (ppc_ops env ctx) y ms cs = Some r) \<and>
   (\<exists>r. Walk env lim (ppc64_ops env ctx64) y ms cs = Some r) \<and>
   (\<exists>r. Walk env lim (sparc_ops env ctx_sparc) y ms cs = Some r)"
  by (intro conjI ppc_returns.Walk_returns ppc64_returns.Walk_returns sparc_returns.Walk_returns) simp_all

section \<open>Walking a list\<close>

definition prewalked :: "u64 list \<Rightarrow> nat \<Rightarrow> StackFrameAddress option" where
  "prewalked addresses n = (if n < length addresses then Some (prewalked_frame (addresses ! n)) else None)"

lemma prewalked_ops:
  "op_GetContextFrame (address_list_ops addresses) = prewalked addresses 0"
  "op_GetCallerFrame (address_list_ops addresses) y frames allowed =
     Some (prewalked addresses (length frames), last frames, y)"
  by (auto simp: address_list_ops_def address_list_GetContextFrame_def address_list_GetCallerFrame_def prewalked_def Let_def)

lemma walk_loop_prewalked:
  assumes "ops = address_list_ops addresses" "fo = prewalked addresses (length (ws_frames w))"
    "resolver_keeps_frame y" "length (ws_frames w) \<le> unat (max_frames lim)"
    "map (\<lambda>f. instruction (base_frame f)) (ws_frames w) = take (length (ws_frames w)) addresses"
  shows "\<exists>ok w' y'. walk_loop env lim ops y fo w = Some (ok, w', y') \<and>
    map (\<lambda>f. instruction (base_frame f)) (ws_frames w') = take (length (ws_frames w')) addresses \<and>
    (ok \<longrightarrow> length (ws_frames w') = min (length addresses) (Suc (unat (max_frames lim)))) \<and>
    (supplier y = None \<longrightarrow> ok)"
  using assms
proof (induction env lim ops y fo w rule: walk_loop.induct)
  case (1 env lim ops y w)
  then have n: "length addresses \<le> length (ws_frames w)" by (auto simp: prewalked_def split: if_splits)
  moreover have "length (ws_frames w) \<le> length addresses"
    using arg_cong [OF 1(5), of length] by simp
  ultimately show ?case using 1 by (intro exI [of _ True] exI [of _ w] exI [of _ y]) simp
next
  case (2 env lim ops y frame w)
  obtain res filled y1 where f: "FillSourceLineInfo y (w_modules env) (w_unloaded_modules env)
      (w_system_info env) (base_frame frame) = (res, filled, y1)" by (metis prod_cases3)
  let ?n = "length (ws_frames w)"
  have n: "?n < length addresses" and fr: "frame = prewalked_frame (addresses ! ?n)"
    using 2(3) by (auto simp: prewalked_def split: if_splits)
  have i: "instruction filled = addresses ! ?n" and y1: "resolver_keeps_frame y1"
    using FillSourceLineInfo_keeps(1,3) [OF 2(4) f] fr by (simp_all add: prewalked_frame_def)
  have s: "supplier y = None \<Longrightarrow> supplier y1 = None \<and> res \<noteq> kInterrupt"
    using f FillSourceLineInfo_collaborators(2) [OF f]
    by (auto simp: FillSourceLineInfo_def Let_def corruption_result_def split: option.splits if_splits prod.splits)
  let ?w1 = "walk_push res (frame\<lparr>base_frame := filled\<rparr>) w"
  have w1: "map (\<lambda>f. instruction (base_frame f)) (ws_frames ?w1) = take (length (ws_frames ?w1)) addresses"
    "length (ws_frames ?w1) = Suc ?n" "ws_frames ?w1 = ws_frames w @ [frame\<lparr>base_frame := filled\<rparr>]"
    using n i 2(6) by (simp_all add: walk_push_def take_Suc_conv_app_nth)
  consider (interrupt) "res = kInterrupt" | (limit) "res \<noteq> kInterrupt" "unat (max_frames lim) < Suc ?n"
    | (more) "res \<noteq> kInterrupt" "Suc ?n \<le> unat (max_frames lim)" by linarith
  then show ?case
  proof cases
    case interrupt
    then have "walk_loop env lim ops y (Some frame) w = Some (False, w, y1)" by (simp add: f)
    moreover have "supplier y \<noteq> None" using s interrupt by blast
    ultimately show ?thesis using 2(6) by (intro exI [of _ False] exI [of _ w] exI [of _ y1]) simp
  next
    case limit
    then have "walk_loop env lim ops y (Some frame) w = Some (True, ?w1, y1)" by (simp add: f w1(2) Let_def)
    moreover have "length (ws_frames ?w1) = min (length addresses) (Suc (unat (max_frames lim)))"
      using limit n 2(5) w1(2) by simp
    ultimately show ?thesis using w1(1) by (intro exI [of _ True] exI [of _ ?w1] exI [of _ y1]) simp
  next
    case more
    let ?w2 = "?w1\<lparr>ws_frames := ws_frames w @ [frame\<lparr>base_frame := filled\<rparr>]\<rparr>"
    have g: "op_GetCallerFrame ops y1 (ws_frames ?w1) (ws_scanned_frames ?w1 < max_frames_scanned lim) =
        Some (prewalked addresses (Suc ?n), frame\<lparr>base_frame := filled\<rparr>, y1)"
      by (simp add: 2(2) prewalked_ops w1(2,3))
    have "walk_loop env lim ops y (Some frame) w = walk_loop env lim ops y1 (prewalked addresses (Suc ?n)) ?w2"
      using more by (simp add: f w1(2) Let_def g)
    moreover have "\<exists>ok w' y'. walk_loop env lim ops y1 (prewalked addresses (Suc ?n)) ?w2 = Some (ok, w', y') \<and>
        map (\<lambda>f. instruction (base_frame f)) (ws_frames w') = take (length (ws_frames w')) addresses \<and>
        (ok \<longrightarrow> length (ws_frames w') = min (length addresses) (Suc (unat (max_frames lim)))) \<and>
        (supplier y1 = None \<longrightarrow> ok)"
      by (rule "2.IH" [OF f [symmetric] refl _ refl _ g refl refl 2(2)])
        (use more w1 y1 in simp_all)
    ultimately show ?thesis using s by metis
  qed
qed

text \<open>Walking a list of addresses gives back those addresses: the walk always returns, its frames
  are the first of the list in order, and unless the symbol supplier interrupts it they are all
  of them, up to one more than the limit on frames.\<close>

theorem address_list_walk:
  assumes "resolver_keeps_frame y"
  shows "\<exists>ok w y'. Walk env lim (address_list_ops addresses) y ms cs = Some (ok, w, y') \<and>
    map (\<lambda>f. instruction (base_frame f)) (ws_frames w) = take (length (ws_frames w)) addresses \<and>
    (ok \<longrightarrow> length (ws_frames w) = min (length addresses) (Suc (unat (max_frames lim)))) \<and>
    (supplier y = None \<longrightarrow> ok)"
  unfolding Walk_def by (rule walk_loop_prewalked) (use assms in \<open>simp_all add: prewalked_ops\<close>)

theorem address_list_walk_witness:
  "\<exists>w y'. Walk (address_list_env None) sample_limits (address_list_ops [5000, 6000, 7000]) no_symbols [] [] =
      Some (True, w, y') \<and> map (\<lambda>f. instruction (base_frame f)) (ws_frames w) = [5000, 6000, 7000]"
proof -
  have "min (length [5000, 6000, 7000 :: u64]) (Suc (unat (max_frames sample_limits))) = 3"
    by (simp add: sample_limits_def)
  moreover have "supplier no_symbols = None" by (simp add: no_symbols_def StackFrameSymbolizer_make_def)
  ultimately show ?thesis
    using address_list_walk [OF no_symbols_safe(2), of "address_list_env None" sample_limits "[5000, 6000, 7000]" "[]" "[]"]
    by fastforce
qed

definition sample_ppc :: "u32 MDRawContextPPC" where
  "sample_ppc = \<lparr>ppc_context_flags = 0, ppc_srr0 = 9000, ppc_srr1 = 0, ppc_gpr = replicate 32 4096, ppc_rest = []\<rparr>"

definition sample_ppc_stack :: MemoryRegion where
  "sample_ppc_stack = sample_stack64\<lparr>mem32 := (\<lambda>a. if a = 4096 then Some 4112 else if a = 4120 then Some 5000 else None)\<rparr>"

definition sample_ppc_env :: WalkerEnv where
  "sample_ppc_env = \<lparr>w_system_info = None, w_memory = Some sample_ppc_stack, w_modules = None, w_unloaded_modules = None\<rparr>"

theorem ppc_walk_back_chain_witness:
  "\<exists>w y'. Walk sample_ppc_env sample_limits (ppc_ops sample_ppc_env (Some sample_ppc)) no_symbols [] [] = Some (True, w, y') \<and>
    ppc_read32 sample_ppc_env (ppc_gpr (cpu_context (ws_frames w ! 0)) ! 1) = Some (ppc_gpr (cpu_context (ws_frames w ! 1)) ! 1) \<and>
    ppc_srr0 (cpu_context (ws_frames w ! 1)) = 5000"
proof -
  let ?r = "Walk sample_ppc_env sample_limits (ppc_ops sample_ppc_env (Some sample_ppc)) no_symbols [] []"
  have "map_option (\<lambda>(ok, w, y). ok \<and> length (ws_frames w) = 2 \<and> ppc_srr0 (cpu_context (ws_frames w ! 1)) = 5000) ?r =
    Some True" by code_simp
  then obtain w y' where r: "?r = Some (True, w, y')" "length (ws_frames w) = 2"
    "ppc_srr0 (cpu_context (ws_frames w ! 1)) = 5000" by auto
  have "ppc_ok sample_ppc" by (simp add: ppc_ok_def sample_ppc_def)
  from ppc_walk_back_chain [OF r(1) this, of 0] r show ?thesis by (auto simp: Let_def)
qed

end
