(* ===== verification/Stackwalker_X86.thy ===== *)
theory Stackwalker_X86
  imports Stackwalker_Chain
begin

text \<open>
  The x86 stack walker (\<open>processor/stackwalker_x86.cc\<close>). It tries Windows frame information first,
  then call frame information, then the frame pointer with a scan as its fallback. Offsets that
  the code keeps in \<open>int\<close> are only added to 32-bit unsigned values, so they are \<open>u32\<close> here too.
\<close>

section \<open>Context and register table\<close>

text \<open>The members of \<open>MDRawContextX86\<close> that the walker reads or writes; the others, which it only
  copies, are the bytes \<open>x86_other\<close>.\<close>

record MDRawContextX86 =
  edi :: u32
  esi :: u32
  ebx :: u32
  edx :: u32
  ecx :: u32
  eax :: u32
  ebp :: u32
  eip :: u32
  esp :: u32
  x86_other :: "u8 list"

record StackFrameX86 = "(MDRawContextX86, u32) StackFrameCpu" +
  x86_windows_frame_info :: "WindowsFrameInfo option"
  x86_cfi_frame_info :: "CFIFrameInfo option"

text \<open>The context after \<open>memset(caller_context, 0xda, sizeof(*caller_context))\<close>; the other members
  take the remaining 680 bytes of the structure.\<close>

definition x86_poison :: MDRawContextX86 where
  "x86_poison =
     (let v = 0xdadadada
      in \<lparr>edi = v, esi = v, ebx = v, edx = v, ecx = v, eax = v, ebp = v, eip = v, esp = v,
          x86_other = replicate 680 0xda\<rparr>)"

definition x86_row :: "string \<Rightarrow> string option \<Rightarrow> bool \<Rightarrow> nat \<Rightarrow> (MDRawContextX86 \<Rightarrow> u32)
    \<Rightarrow> (u32 \<Rightarrow> MDRawContextX86 \<Rightarrow> MDRawContextX86) \<Rightarrow> (MDRawContextX86, u32) RegisterSet" where
  "x86_row name alternate callee_saves n getter setter =
     \<lparr>rs_name = name, rs_alternate_name = alternate, rs_callee_saves = callee_saves,
      rs_validity_flag = push_bit n 1, rs_get = getter, rs_set = setter\<rparr>"

definition x86_cfi_register_map :: "(MDRawContextX86, u32) RegisterSet list" where
  "x86_cfi_register_map =
     [x86_row ''$eip'' (Some ''.ra'') False 0 eip (\<lambda>v c. c\<lparr>eip := v\<rparr>),
      x86_row ''$esp'' (Some ''.cfa'') False 1 esp (\<lambda>v c. c\<lparr>esp := v\<rparr>),
      x86_row ''$ebp'' None True 2 ebp (\<lambda>v c. c\<lparr>ebp := v\<rparr>),
      x86_row ''$eax'' None False 3 eax (\<lambda>v c. c\<lparr>eax := v\<rparr>),
      x86_row ''$ebx'' None True 4 ebx (\<lambda>v c. c\<lparr>ebx := v\<rparr>),
      x86_row ''$ecx'' None False 5 ecx (\<lambda>v c. c\<lparr>ecx := v\<rparr>),
      x86_row ''$edx'' None False 6 edx (\<lambda>v c. c\<lparr>edx := v\<rparr>),
      x86_row ''$esi'' None True 7 esi (\<lambda>v c. c\<lparr>esi := v\<rparr>),
      x86_row ''$edi'' None True 8 edi (\<lambda>v c. c\<lparr>edi := v\<rparr>)]"

definition X86_VALID_EIP :: u32 where "X86_VALID_EIP = push_bit 0 1"
definition X86_VALID_ESP :: u32 where "X86_VALID_ESP = push_bit 1 1"
definition X86_VALID_EBP :: u32 where "X86_VALID_EBP = push_bit 2 1"
definition X86_VALID_EBX :: u32 where "X86_VALID_EBX = push_bit 4 1"
definition X86_VALID_ESI :: u32 where "X86_VALID_ESI = push_bit 7 1"
definition X86_VALID_EDI :: u32 where "X86_VALID_EDI = push_bit 8 1"

definition x86_essentials :: u32 where
  "x86_essentials = X86_VALID_EIP OR X86_VALID_ESP OR X86_VALID_EBP"

definition StackFrameX86_make :: "FrameTrust \<Rightarrow> MDRawContextX86 \<Rightarrow> u32 \<Rightarrow> StackFrameX86" where
  "StackFrameX86_make t c v =
     \<lparr>base_frame = StackFrame_init\<lparr>trust := t\<rparr>, cpu_context = c, context_validity = v,
      x86_windows_frame_info = None, x86_cfi_frame_info = None\<rparr>"

text \<open>The assertion in \<open>ReturnAddress\<close> is the precondition: \<open>None\<close> when it fails.\<close>

definition StackFrameX86_ReturnAddress :: "StackFrameX86 \<Rightarrow> u64 option" where
  "StackFrameX86_ReturnAddress f =
     (if context_validity f AND X86_VALID_EIP \<noteq> 0 then Some (ucast (eip (cpu_context f))) else None)"

definition StackwalkerX86_env :: "WalkerEnv \<Rightarrow> WalkerEnv" where
  "StackwalkerX86_env env = env\<lparr>w_memory := memory_below_4G (w_memory env)\<rparr>"

definition kMaxReasonableGapBetweenFrames :: u32 where
  "kMaxReasonableGapBetweenFrames = 128 * 1024"

definition x86_GetContextFrame :: "MDRawContextX86 option \<Rightarrow> StackFrameX86 option" where
  "x86_GetContextFrame context =
     (case context of
        None \<Rightarrow> None
      | Some c \<Rightarrow>
          (let f = StackFrameX86_make FRAME_TRUST_CONTEXT c (- 1)
           in Some (f\<lparr>base_frame := (base_frame f)\<lparr>instruction := ucast (eip c)\<rparr>\<rparr>)))"

text \<open>A 32-bit word at a 32-bit address.\<close>

definition x86_read :: "MemoryRegion \<Rightarrow> u32 \<Rightarrow> u32 option" where
  "x86_read memory a = mem32 memory (ucast a)"

section \<open>Windows frame information\<close>

text \<open>The size of the parameters pushed for the callee of the last frame, if that is known.\<close>

definition x86_callee_parameter_size :: "StackFrameX86 list \<Rightarrow> u32" where
  "x86_callee_parameter_size frames =
     (if 2 \<le> length frames
      then (case x86_windows_frame_info (frames ! (length frames - 2)) of
              Some info \<Rightarrow> if valid info AND VALID_PARAMETER_SIZE \<noteq> 0 then parameter_size info else 0
            | None \<Rightarrow> 0)
      else 0)"

text \<open>The first scan, three words from the calculated place, and the second one for a system call
  whose return address is still on the stack. A failing scan leaves the place as it was.\<close>

definition x86_ra_search ::
  "WalkerEnv \<Rightarrow> MemoryRegion \<Rightarrow> ('p, 'r) StackFrameSymbolizer \<Rightarrow> StackFrameX86 \<Rightarrow> WindowsFrameInfo \<Rightarrow> u32
     \<Rightarrow> (u32 \<times> ('p, 'r) StackFrameSymbolizer) option" where
  "x86_ra_search env memory y last_frame last_frame_info raSearchStartOld =
     do {
       (r1, y1) \<leftarrow> ScanForReturnAddress env (x86_read memory) y raSearchStartOld 3;
       (case r1 of
          None \<Rightarrow> Some (raSearchStartOld, y1)
        | Some (raSearchStart, found) \<Rightarrow>
            if trust (base_frame last_frame) = FRAME_TRUST_CONTEXT \<and>
               wfi_type last_frame_info = STACK_INFO_FPO \<and>
               raSearchStartOld = raSearchStart \<and> found = eip (cpu_context last_frame)
            then do {
              (r2, y2) \<leftarrow> ScanForReturnAddress env (x86_read memory) y1 (raSearchStart + 4) 3;
              Some (case r2 of None \<Rightarrow> raSearchStart + 4 | Some (location, _) \<Rightarrow> location, y2)
            }
            else Some (raSearchStart, y1))
     }"

text \<open>The program string to run, and whether the frame pointer may have to be looked for.\<close>

definition x86_program :: "StackFrameX86 \<Rightarrow> WindowsFrameInfo \<Rightarrow> string \<times> bool" where
  "x86_program last_frame last_frame_info =
     (if program_string last_frame_info \<noteq> [] then (program_string last_frame_info, True)
      else if allocates_base_pointer last_frame_info then
        (''$eip .raSearchStart ^ = '' @ ''$ebp $esp .cbCalleeParams + .cbSavedRegs + 8 - ^ = '' @
         ''$esp .raSearchStart 4 + ='', True)
      else
        (''$eip .raSearchStart ^ = '' @ ''$esp .raSearchStart 4 + ='' @
         (if context_validity last_frame AND X86_VALID_EBX \<noteq> 0 then '' $ebx $ebx ='' else []), False))"

definition x86_dictionary :: "StackFrameX86 \<Rightarrow> WindowsFrameInfo \<Rightarrow> u32 \<Rightarrow> u32 \<Rightarrow> string \<rightharpoonup> u32" where
  "x86_dictionary last_frame last_frame_info callee_params raSearchStart =
     (let c = cpu_context last_frame;
          registers = [''$ebp'' \<mapsto> ebp c, ''$esp'' \<mapsto> esp c];
          registers' = (if context_validity last_frame AND X86_VALID_EBX \<noteq> 0
                        then registers(''$ebx'' \<mapsto> ebx c) else registers)
      in registers'(''.cbCalleeParams'' \<mapsto> callee_params,
           ''.cbSavedRegs'' \<mapsto> saved_register_size last_frame_info,
           ''.cbLocals'' \<mapsto> local_size last_frame_info,
           ''.cbParams'' \<mapsto> parameter_size last_frame_info,
           ''.raSearchStart'' \<mapsto> raSearchStart, ''.raSearch'' \<mapsto> raSearchStart))"

text \<open>\<open>dictionary[name]\<close>, which creates a missing entry with the value 0.\<close>

definition dictionary_at :: "(string \<rightharpoonup> u32) \<Rightarrow> string \<Rightarrow> u32" where
  "dictionary_at dict name = (case dict name of None \<Rightarrow> 0 | Some v \<Rightarrow> v)"

text \<open>The search for a saved frame pointer, from the highest address down. It may step below
  address 0; then it ends where the memory does.\<close>

partial_function (option) x86_ebp_search :: "(u32 \<Rightarrow> u32 option) \<Rightarrow> u32 \<Rightarrow> u32 \<Rightarrow> u32 option option" where
  "x86_ebp_search get location_end location =
     (if location_end \<le> location then
        (case get location of
           None \<Rightarrow> Some None
         | Some candidate \<Rightarrow>
             if get candidate \<noteq> None then Some (Some candidate)
             else x86_ebp_search get location_end (location - 4))
      else Some None)"

declare x86_ebp_search.simps [code]

text \<open>What the evaluation leaves: how far the result can be trusted, the dictionary and which
  variables the program assigned. \<open>None\<close> inside is a failure.\<close>

record Win32Caller =
  wc_trust :: FrameTrust
  wc_dictionary :: "string \<rightharpoonup> u32"
  wc_assigned :: "string \<rightharpoonup> bool"
  wc_offset :: u32

definition x86_evaluate ::
  "WalkerEnv \<Rightarrow> MemoryRegion \<Rightarrow> ('p, 'r) StackFrameSymbolizer \<Rightarrow> StackFrameX86 list \<Rightarrow> bool \<Rightarrow> string
     \<Rightarrow> (string \<rightharpoonup> u32) \<Rightarrow> (Win32Caller option \<times> ('p, 'r) StackFrameSymbolizer) option" where
  "x86_evaluate env memory y frames stack_scan_allowed program dict =
     (case Evaluate (Some (x86_read memory)) program \<lparr>stack = [], dictionary = dict, assigned = Map.empty\<rparr> of
        (Crashed, _) \<Rightarrow> None
      | (r, st) \<Rightarrow>
          if r = Ok \<and> assigned st ''$eip'' \<noteq> None \<and> assigned st ''$esp'' \<noteq> None
          then Some (Some \<lparr>wc_trust = FRAME_TRUST_CFI, wc_dictionary = dictionary st,
                      wc_assigned = assigned st, wc_offset = 0\<rparr>, y)
          else if \<not> stack_scan_allowed then Some (None, y)
          else
            map_option (\<lambda>(found, y'). (map_option (\<lambda>(location, ip).
                \<lparr>wc_trust = FRAME_TRUST_SCAN,
                 wc_dictionary = (dictionary st)(''$eip'' \<mapsto> ip, ''$esp'' \<mapsto> location + 4),
                 wc_assigned = assigned st, wc_offset = 0\<rparr>) found, y'))
              (ScanForReturnAddress_context env (x86_read memory) y (esp (cpu_context (last frames)))
                 (length frames = 1)))"

text \<open>A return address outside every module is replaced by one found by scanning.\<close>

definition x86_better_ra ::
  "WalkerEnv \<Rightarrow> MemoryRegion \<Rightarrow> ('p, 'r) StackFrameSymbolizer \<Rightarrow> bool \<Rightarrow> bool \<Rightarrow> Win32Caller
     \<Rightarrow> (Win32Caller \<times> ('p, 'r) StackFrameSymbolizer) option" where
  "x86_better_ra env memory y first_unwind stack_scan_allowed w =
     (let dict = wc_dictionary w;
          location_start = dictionary_at dict ''.raSearchStart'' + 4
      in case w_modules env of
           None \<Rightarrow> Some (w, y)
         | Some ms \<Rightarrow>
             if cms_GetModuleForAddress ms (ucast (dictionary_at dict ''$eip'')) \<noteq> None \<or> \<not> stack_scan_allowed
             then Some (w, y)
             else
               map_option (\<lambda>(found, y').
                   (case found of
                      None \<Rightarrow> w
                    | Some (location, ip) \<Rightarrow>
                        w\<lparr>wc_trust := FRAME_TRUST_CFI_SCAN,
                          wc_dictionary := dict(''$eip'' \<mapsto> ip, ''$esp'' \<mapsto> location + 4),
                          wc_offset := location - location_start\<rparr>, y'))
                 (ScanForReturnAddress_context env (x86_read memory) y location_start first_unwind))"

definition x86_recover_ebp ::
  "MemoryRegion \<Rightarrow> StackFrameX86 \<Rightarrow> WindowsFrameInfo \<Rightarrow> u32 \<Rightarrow> u32 \<Rightarrow> Win32Caller \<Rightarrow> Win32Caller option" where
  "x86_recover_ebp memory last_frame last_frame_info callee_params raSearchStart w =
     (let dict = wc_dictionary w;
          ebp_value = dictionary_at dict ''$ebp'';
          has_skipped_frames = (wc_trust w \<noteq> FRAME_TRUST_CFI \<and> ebp_value \<le> raSearchStart + wc_offset w)
      in if has_skipped_frames \<or> x86_read memory ebp_value = None then
           (let fp_search_bytes = saved_register_size last_frame_info + wc_offset w;
                location_end = esp (cpu_context last_frame) + callee_params
            in map_option (\<lambda>found. case found of
                   None \<Rightarrow> w
                 | Some candidate \<Rightarrow> w\<lparr>wc_dictionary := dict(''$ebp'' \<mapsto> candidate)\<rparr>)
                 (x86_ebp_search (x86_read memory) location_end (location_end + fp_search_bytes)))
         else Some w)"

text \<open>The frame built from the dictionary.\<close>

definition x86_keep ::
  "Win32Caller \<Rightarrow> string \<Rightarrow> u32 \<Rightarrow> (u32 \<Rightarrow> MDRawContextX86 \<Rightarrow> MDRawContextX86) \<Rightarrow> MDRawContextX86 \<times> u32
     \<Rightarrow> MDRawContextX86 \<times> u32" where
  "x86_keep w name flag setter cv =
     (if wc_assigned w name \<noteq> None
      then (setter (dictionary_at (wc_dictionary w) name) (fst cv), snd cv OR flag) else cv)"

definition x86_win_frame :: "StackFrameX86 \<Rightarrow> Win32Caller \<Rightarrow> StackFrameX86" where
  "x86_win_frame last_frame w =
     (let d = dictionary_at (wc_dictionary w);
          c = (cpu_context last_frame)\<lparr>eip := d ''$eip'', esp := d ''$esp'', ebp := d ''$ebp''\<rparr>;
          cv = x86_keep w ''$edi'' X86_VALID_EDI (\<lambda>v c. c\<lparr>edi := v\<rparr>)
                 (x86_keep w ''$esi'' X86_VALID_ESI (\<lambda>v c. c\<lparr>esi := v\<rparr>)
                   (x86_keep w ''$ebx'' X86_VALID_EBX (\<lambda>v c. c\<lparr>ebx := v\<rparr>) (c, x86_essentials)))
      in StackFrameX86_make (wc_trust w) (fst cv) (snd cv))"

text \<open>The corrections to what the program found, unless it says that the stack has ended.\<close>

definition x86_correct ::
  "WalkerEnv \<Rightarrow> MemoryRegion \<Rightarrow> ('p, 'r) StackFrameSymbolizer \<Rightarrow> StackFrameX86 list \<Rightarrow> WindowsFrameInfo \<Rightarrow> bool
     \<Rightarrow> bool \<Rightarrow> u32 \<Rightarrow> Win32Caller \<Rightarrow> (Win32Caller \<times> ('p, 'r) StackFrameSymbolizer) option" where
  "x86_correct env memory y frames last_frame_info stack_scan_allowed recover_ebp raSearchStart w =
     (if dictionary_at (wc_dictionary w) ''$eip'' = 0 \<and> dictionary_at (wc_dictionary w) ''$ebp'' = 0
      then Some (w, y)
      else do {
        (w', y') \<leftarrow> x86_better_ra env memory y (length frames = 1) stack_scan_allowed w;
        w'' \<leftarrow> (if recover_ebp
                then x86_recover_ebp memory (last frames) last_frame_info (x86_callee_parameter_size frames)
                       raSearchStart w'
                else Some w');
        Some (w'', y')
      })"

definition x86_ra_start :: "StackFrameX86 list \<Rightarrow> WindowsFrameInfo \<Rightarrow> u32" where
  "x86_ra_start frames last_frame_info =
     esp (cpu_context (last frames)) + x86_callee_parameter_size frames + local_size last_frame_info +
     saved_register_size last_frame_info"

text \<open>A program with an alignment operator starts from the frame pointer.\<close>

definition x86_aligned_ra :: "StackFrameX86 \<Rightarrow> string \<Rightarrow> u32 \<Rightarrow> u32" where
  "x86_aligned_ra last_frame program raSearchStart =
     (if X86_VALID_EBP AND context_validity last_frame \<noteq> 0 \<and> CHR ''@'' \<in> set program
      then ebp (cpu_context last_frame) + 4 else raSearchStart)"

definition x86_GetCallerByWindowsFrameInfo ::
  "WalkerEnv \<Rightarrow> MemoryRegion \<Rightarrow> ('p, 'r) StackFrameSymbolizer \<Rightarrow> StackFrameX86 list \<Rightarrow> WindowsFrameInfo \<Rightarrow> bool
     \<Rightarrow> (StackFrameX86 option \<times> ('p, 'r) StackFrameSymbolizer) option" where
  "x86_GetCallerByWindowsFrameInfo env memory y frames last_frame_info stack_scan_allowed =
     (if valid last_frame_info \<noteq> VALID_ALL then Some (None, y)
      else
        (let last_frame = last frames;
             (program, recover_ebp) = x86_program last_frame last_frame_info
         in do {
           (ra, y1) \<leftarrow> x86_ra_search env memory y last_frame last_frame_info (x86_ra_start frames last_frame_info);
           let raSearchStart = x86_aligned_ra last_frame program ra;
           (wo, y2) \<leftarrow> x86_evaluate env memory y1 frames stack_scan_allowed program
                        (x86_dictionary last_frame last_frame_info (x86_callee_parameter_size frames) raSearchStart);
           (case wo of
              None \<Rightarrow> Some (None, y2)
            | Some w \<Rightarrow>
                map_option (\<lambda>(w', y3). (Some (x86_win_frame last_frame w'), y3))
                  (x86_correct env memory y2 frames last_frame_info stack_scan_allowed recover_ebp raSearchStart w))
         }))"

section \<open>Call frame information and frame pointer\<close>

definition x86_GetCallerByCFIFrameInfo ::
  "MemoryRegion \<Rightarrow> StackFrameX86 list \<Rightarrow> CFIFrameInfo \<Rightarrow> StackFrameX86 option option" where
  "x86_GetCallerByCFIFrameInfo memory frames cfi_frame_info =
     (let last_frame = last frames
      in case FindCallerRegisters x86_cfi_register_map (x86_read memory) cfi_frame_info
                (cpu_context last_frame) (context_validity last_frame) x86_poison of
           (Crashed, _) \<Rightarrow> None
         | (Ok, Some (c, validity)) \<Rightarrow>
             if validity AND x86_essentials \<noteq> x86_essentials then Some None
             else Some (Some (StackFrameX86_make FRAME_TRUST_CFI c validity))
         | _ \<Rightarrow> Some None)"

text \<open>The frame pointer of a caller found by scanning: the word below the return address if it
  looks like one, else unchanged.\<close>

definition x86_restored_ebp :: "MemoryRegion \<Rightarrow> u32 \<Rightarrow> u32 \<Rightarrow> u32" where
  "x86_restored_ebp memory last_ebp caller_esp =
     (let restored_ebp_chain = caller_esp - 8 in
      case x86_read memory restored_ebp_chain of
        None \<Rightarrow> last_ebp
      | Some caller_ebp \<Rightarrow>
          if caller_ebp \<le> restored_ebp_chain \<or>
             kMaxReasonableGapBetweenFrames < caller_ebp - restored_ebp_chain
          then last_ebp else caller_ebp)"

definition x86_GetCallerByEBPAtBase ::
  "WalkerEnv \<Rightarrow> MemoryRegion \<Rightarrow> ('p, 'r) StackFrameSymbolizer \<Rightarrow> StackFrameX86 list \<Rightarrow> bool
     \<Rightarrow> (StackFrameX86 option \<times> ('p, 'r) StackFrameSymbolizer) option" where
  "x86_GetCallerByEBPAtBase env memory y frames stack_scan_allowed =
     (let c = cpu_context (last frames);
          last_esp = esp c;
          last_ebp = ebp c;
          frame = (\<lambda>t caller_eip caller_esp caller_ebp.
            StackFrameX86_make t (c\<lparr>eip := caller_eip, esp := caller_esp, ebp := caller_ebp\<rparr>) x86_essentials)
      in case (x86_read memory (last_ebp + 4), x86_read memory last_ebp) of
           (Some caller_eip, Some caller_ebp) \<Rightarrow>
             Some (Some (frame FRAME_TRUST_FP caller_eip (last_ebp + 8) caller_ebp), y)
         | _ \<Rightarrow>
             if \<not> stack_scan_allowed then Some (None, y)
             else
               scan_caller (ScanForReturnAddress_context env (x86_read memory) y last_esp (length frames = 1))
                 (\<lambda>location caller_eip.
                    frame FRAME_TRUST_SCAN caller_eip (location + 4)
                      (x86_restored_ebp memory last_ebp (location + 4))))"

section \<open>The caller\<close>

definition x86_ip :: "MDRawContextX86 \<Rightarrow> u64" where
  "x86_ip c = ucast (eip c)"

definition x86_sp :: "MDRawContextX86 \<Rightarrow> u64" where
  "x86_sp c = ucast (esp c)"

definition x86_finish :: "StackFrameX86 list \<Rightarrow> StackFrameX86 \<Rightarrow> StackFrameX86 option" where
  "x86_finish frames f = checked_frame x86_ip x86_sp (\<lambda>c. ucast (eip c - 1)) frames f"

text \<open>The three methods in order. The information found is kept in the last frame.\<close>

definition x86_try_windows ::
  "WalkerEnv \<Rightarrow> MemoryRegion \<Rightarrow> ('p, 'r) StackFrameSymbolizer \<Rightarrow> StackFrameX86 list \<Rightarrow> bool
     \<Rightarrow> (StackFrameX86 option \<times> StackFrameX86 \<times> ('p, 'r) StackFrameSymbolizer) option" where
  "x86_try_windows env memory y frames stack_scan_allowed =
     (case FindWindowsFrameInfo y (base_frame (last frames)) of
        None \<Rightarrow> Some (None, last frames, y)
      | Some info \<Rightarrow>
          map_option (\<lambda>(f, y'). (f, (last frames)\<lparr>x86_windows_frame_info := Some info\<rparr>, y'))
            (x86_GetCallerByWindowsFrameInfo env memory y frames info stack_scan_allowed))"

definition x86_try_cfi ::
  "MemoryRegion \<Rightarrow> ('p, 'r) StackFrameSymbolizer \<Rightarrow> StackFrameX86 list \<Rightarrow> StackFrameX86
     \<Rightarrow> (StackFrameX86 option \<times> StackFrameX86) option" where
  "x86_try_cfi memory y frames last_frame =
     (case FindCFIFrameInfo y (base_frame (last frames)) of
        None \<Rightarrow> Some (None, last_frame)
      | Some cfi \<Rightarrow>
          map_option (\<lambda>f. (f, last_frame\<lparr>x86_cfi_frame_info := Some cfi\<rparr>))
            (x86_GetCallerByCFIFrameInfo memory frames cfi))"

definition x86_GetCallerFrame ::
  "WalkerEnv \<Rightarrow> ('p, 'r) StackFrameSymbolizer \<Rightarrow> StackFrameX86 list \<Rightarrow> bool
     \<Rightarrow> (StackFrameX86 option \<times> StackFrameX86 \<times> ('p, 'r) StackFrameSymbolizer) option" where
  "x86_GetCallerFrame env y frames stack_scan_allowed =
     (case w_memory env of
        None \<Rightarrow> Some (None, last frames, y)
      | Some memory \<Rightarrow>
          do {
            (f1, l1, y1) \<leftarrow> x86_try_windows env memory y frames stack_scan_allowed;
            (f2, l2) \<leftarrow> (if f1 = None then x86_try_cfi memory y1 frames l1 else Some (f1, l1));
            (f3, y3) \<leftarrow> (if f2 = None then x86_GetCallerByEBPAtBase env memory y1 frames stack_scan_allowed
                          else Some (f2, y1));
            Some (Option.bind f3 (x86_finish frames), l2, y3)
          })"

definition x86_ops ::
  "WalkerEnv \<Rightarrow> MDRawContextX86 option \<Rightarrow> (StackFrameX86, ('p, 'r) StackFrameSymbolizer) StackwalkerOps" where
  "x86_ops env context =
     \<lparr>op_GetContextFrame = x86_GetContextFrame context,
      op_GetCallerFrame = x86_GetCallerFrame (StackwalkerX86_env env)\<rparr>"

section \<open>What the methods keep\<close>

text \<open>Every scan of the walker goes through \<open>ScanForReturnAddress\<close>, so what a scan keeps of the
  symbolizer the whole search for a caller keeps.\<close>

definition scan_invariant :: "WalkerEnv \<Rightarrow> MemoryRegion \<Rightarrow> (('p, 'r) StackFrameSymbolizer \<Rightarrow> bool) \<Rightarrow> bool" where
  "scan_invariant env memory P \<longleftrightarrow>
     (\<forall>y start n found y'. ScanForReturnAddress env (x86_read memory) y start n = Some (found, y') \<longrightarrow> P y \<longrightarrow> P y')"

lemma scan_invariantD:
  "scan_invariant env memory P \<Longrightarrow> ScanForReturnAddress env (x86_read memory) y start n = Some (found, y') \<Longrightarrow>
     P y \<Longrightarrow> P y'"
  unfolding scan_invariant_def by blast

lemma x86_ra_search_keeps:
  assumes "scan_invariant env memory P" "P y" "x86_ra_search env memory y l info start = Some (ra, y')"
  shows "P y'"
proof -
  obtain r1 y1 where r1: "ScanForReturnAddress env (x86_read memory) y start 3 = Some (r1, y1)"
    using assms(3) by (auto simp: x86_ra_search_def bind_eq_Some_conv)
  note y1 = scan_invariantD [OF assms(1) r1 assms(2)]
  show ?thesis
    using assms(3) y1
    by (cases r1) (auto simp: x86_ra_search_def r1 bind_eq_Some_conv split: if_splits
        dest: scan_invariantD [OF assms(1) _ y1])
qed

lemma x86_evaluate_keeps:
  assumes "scan_invariant env memory P" "P y"
    and "x86_evaluate env memory y frames allowed program dict = Some (wo, y')"
  shows "P y'" "wo = Some w \<Longrightarrow> wc_trust w \<in> {FRAME_TRUST_CFI, FRAME_TRUST_SCAN}"
    "wo = Some w \<Longrightarrow> \<not> allowed \<Longrightarrow> wc_trust w = FRAME_TRUST_CFI"
  using assms(2,3) scan_invariantD [OF assms(1)]
  by (auto simp: x86_evaluate_def ScanForReturnAddress_context_def split: prod.splits status.splits if_splits)

lemma x86_better_ra_keeps:
  assumes "scan_invariant env memory P" "P y" "x86_better_ra env memory y b allowed w = Some (w', y')"
  shows "P y'" "\<not> allowed \<Longrightarrow> w' = w"
  using assms(2,3) scan_invariantD [OF assms(1)]
  by (auto simp: x86_better_ra_def ScanForReturnAddress_context_def Let_def split: option.splits if_splits)

lemma x86_recover_ebp_keeps:
  "x86_recover_ebp memory l info p ra w = Some w' \<Longrightarrow> wc_trust w' = wc_trust w"
  by (auto simp: x86_recover_ebp_def Let_def split: if_splits option.splits)

lemma x86_win_frame_trust [simp]: "trust (base_frame (x86_win_frame l w)) = wc_trust w"
  by (simp add: x86_win_frame_def StackFrameX86_make_def Let_def)

lemma x86_correct_keeps:
  assumes "scan_invariant env memory P" "P y"
    and "x86_correct env memory y frames info allowed b ra w = Some (w', y')"
  shows "P y'" "\<not> allowed \<Longrightarrow> wc_trust w' = wc_trust w"
proof -
  have "(w' = w \<and> y' = y) \<or> (\<exists>w1. x86_better_ra env memory y (length frames = 1) allowed w = Some (w1, y') \<and>
      wc_trust w' = wc_trust w1)"
    using assms(3) by (auto simp: x86_correct_def bind_eq_Some_conv split: if_splits dest!: x86_recover_ebp_keeps)
  then show "P y'" "\<not> allowed \<Longrightarrow> wc_trust w' = wc_trust w"
    using x86_better_ra_keeps [OF assms(1,2)] assms(2) by blast+
qed

lemma x86_windows_cases:
  assumes "x86_GetCallerByWindowsFrameInfo env memory y frames info allowed = Some (fo, y')"
  obtains "fo = None" "y' = y"
  | start ra y1 program dict wo y2 where
    "x86_ra_search env memory y (last frames) info start = Some (ra, y1)"
    "x86_evaluate env memory y1 frames allowed program dict = Some (wo, y2)"
    "wo = None \<and> fo = None \<and> y' = y2 \<or>
     (\<exists>w b ra' w'. wo = Some w \<and> x86_correct env memory y2 frames info allowed b ra' w = Some (w', y') \<and>
        fo = Some (x86_win_frame (last frames) w'))"
proof (cases "valid info \<noteq> VALID_ALL")
  case True
  then show ?thesis using assms that(1) by (simp add: x86_GetCallerByWindowsFrameInfo_def)
next
  case False
  obtain program b where p: "x86_program (last frames) info = (program, b)" by fastforce
  obtain ra y1 where r: "x86_ra_search env memory y (last frames) info (x86_ra_start frames info) = Some (ra, y1)"
    using assms False by (auto simp: x86_GetCallerByWindowsFrameInfo_def Let_def bind_eq_Some_conv p)
  let ?ra = "x86_aligned_ra (last frames) program ra"
  obtain wo y2 where e: "x86_evaluate env memory y1 frames allowed program
      (x86_dictionary (last frames) info (x86_callee_parameter_size frames) ?ra) = Some (wo, y2)"
    using assms False by (auto simp: x86_GetCallerByWindowsFrameInfo_def Let_def bind_eq_Some_conv p r)
  have "wo = None \<and> fo = None \<and> y' = y2 \<or>
     (\<exists>w b ra' w'. wo = Some w \<and> x86_correct env memory y2 frames info allowed b ra' w = Some (w', y') \<and>
        fo = Some (x86_win_frame (last frames) w'))"
    using assms False by (cases wo) (auto simp: x86_GetCallerByWindowsFrameInfo_def Let_def p r e)
  then show ?thesis by (rule that(2) [OF r e])
qed

lemma x86_windows_keeps:
  assumes "scan_invariant env memory P" "P y"
    and "x86_GetCallerByWindowsFrameInfo env memory y frames info allowed = Some (fo, y')"
  shows "P y'" "fo = Some f \<Longrightarrow> \<not> allowed \<Longrightarrow> trust (base_frame f) = FRAME_TRUST_CFI"
proof -
  have "P y' \<and> (\<forall>f. fo = Some f \<longrightarrow> \<not> allowed \<longrightarrow> trust (base_frame f) = FRAME_TRUST_CFI)"
    using assms(3)
  proof (cases rule: x86_windows_cases)
    case (2 start ra y1 program dict wo y2)
    have y1: "P y1" by (rule x86_ra_search_keeps [OF assms(1,2) 2(1)])
    note y2 = x86_evaluate_keeps [OF assms(1) y1 2(2)]
    show ?thesis using 2(3) y2 x86_correct_keeps [OF assms(1) y2(1)] by fastforce
  qed (use assms(2) in simp)
  then show "P y'" "fo = Some f \<Longrightarrow> \<not> allowed \<Longrightarrow> trust (base_frame f) = FRAME_TRUST_CFI" by blast+
qed

lemma x86_ebp_keeps:
  assumes "scan_invariant env memory P" "P y"
    and "x86_GetCallerByEBPAtBase env memory y frames allowed = Some (fo, y')"
  shows "P y'" "fo = Some f \<Longrightarrow> \<not> allowed \<Longrightarrow> trust (base_frame f) = FRAME_TRUST_FP"
  using assms(2,3) scan_invariantD [OF assms(1)]
  by (auto simp: x86_GetCallerByEBPAtBase_def ScanForReturnAddress_context_def scan_caller_def StackFrameX86_make_def
      Let_def split: option.splits if_splits)

lemma x86_cfi_trust:
  "x86_GetCallerByCFIFrameInfo memory frames cfi = Some (Some f) \<Longrightarrow> trust (base_frame f) = FRAME_TRUST_CFI"
  by (auto simp: x86_GetCallerByCFIFrameInfo_def StackFrameX86_make_def Let_def
      split: prod.splits status.splits option.splits if_splits)

lemma x86_try_windows_keeps:
  assumes "scan_invariant env memory P" "P y" "x86_try_windows env memory y frames allowed = Some (fo, l, y')"
  shows "P y'" "cpu_context l = cpu_context (last frames)" "base_frame l = base_frame (last frames)"
    "fo = Some f \<Longrightarrow> \<not> allowed \<Longrightarrow> trust (base_frame f) = FRAME_TRUST_CFI"
  using assms(2,3) x86_windows_keeps [OF assms(1,2)]
  by (auto simp: x86_try_windows_def split: option.splits)

lemma x86_try_cfi_keeps:
  assumes "x86_try_cfi memory y frames l = Some (fo, l')"
  shows "cpu_context l' = cpu_context l" "base_frame l' = base_frame l"
    "fo = Some f \<Longrightarrow> trust (base_frame f) = FRAME_TRUST_CFI"
  using assms x86_cfi_trust by (auto simp: x86_try_cfi_def split: option.splits)

lemma x86_caller_keeps:
  assumes "\<And>m. w_memory env = Some m \<Longrightarrow> scan_invariant env m P" "P y"
    and "x86_GetCallerFrame env y frames allowed = Some (fo, l, y')"
  shows "P y' \<and> cpu_context l = cpu_context (last frames) \<and> base_frame l = base_frame (last frames) \<and>
    (\<forall>g. fo = Some g \<longrightarrow> (\<exists>f. x86_finish frames f = Some g \<and>
       (\<not> allowed \<longrightarrow> trust (base_frame f) \<in> {FRAME_TRUST_CFI, FRAME_TRUST_FP})))"
proof (cases "w_memory env")
  case None
  then show ?thesis using assms(2,3) by (simp add: x86_GetCallerFrame_def)
next
  case (Some m)
  note inv = assms(1) [OF Some]
  obtain f1 l1 y1 where w: "x86_try_windows env m y frames allowed = Some (f1, l1, y1)"
    using assms(3) Some by (auto simp: x86_GetCallerFrame_def bind_eq_Some_conv)
  note kw = x86_try_windows_keeps [OF inv assms(2) w]
  obtain f2 l2 where c: "(if f1 = None then x86_try_cfi m y1 frames l1 else Some (f1, l1)) = Some (f2, l2)"
    using assms(3) Some w by (auto simp: x86_GetCallerFrame_def bind_eq_Some_conv)
  have kc: "cpu_context l2 = cpu_context l1" "base_frame l2 = base_frame l1"
    "f2 = Some f \<Longrightarrow> \<not> allowed \<Longrightarrow> trust (base_frame f) = FRAME_TRUST_CFI" for f
    using c kw(4) x86_try_cfi_keeps by (auto split: if_splits)
  obtain f3 y3 where e: "(if f2 = None then x86_GetCallerByEBPAtBase env m y1 frames allowed else Some (f2, y1)) =
      Some (f3, y3)"
    using assms(3) Some w c by (auto simp: x86_GetCallerFrame_def bind_eq_Some_conv)
  have ke: "P y3" "f3 = Some f \<Longrightarrow> \<not> allowed \<Longrightarrow> trust (base_frame f) \<in> {FRAME_TRUST_CFI, FRAME_TRUST_FP}" for f
    using e kc(3) kw(1) x86_ebp_keeps [OF inv kw(1)] by (auto split: if_splits)
  have "fo = Option.bind f3 (x86_finish frames)" "l = l2" "y' = y3"
    using assms(3) Some w c e by (simp_all add: x86_GetCallerFrame_def)
  then show ?thesis using ke kc kw(2,3) by (auto simp: bind_eq_Some_conv)
qed

lemma resolver_scan_invariant: "scan_invariant env memory resolver_keeps_frame"
  unfolding scan_invariant_def using scan_keeps by blast

lemma x86_env_ops: "op_GetCallerFrame (x86_ops env ctx) = x86_GetCallerFrame (StackwalkerX86_env env)"
  by (simp add: x86_ops_def)

lemma x86_finish_Some:
  assumes "x86_finish frames f = Some g"
  shows "\<not> TerminateWalk (x86_ip (cpu_context g)) (x86_sp (cpu_context g)) (x86_sp (cpu_context (last frames)))
      (length frames = 1)" "trust (base_frame g) = trust (base_frame f)"
  using checked_frame_Some(1,2) [OF assms [unfolded x86_finish_def]] by simp_all

lemma x86_caller_simple:
  assumes "x86_GetCallerFrame env y frames allowed = Some (fo, l, y')"
  shows "cpu_context l = cpu_context (last frames) \<and> base_frame l = base_frame (last frames) \<and>
    (\<forall>g. fo = Some g \<longrightarrow> (\<exists>f. x86_finish frames f = Some g \<and>
       (\<not> allowed \<longrightarrow> trust (base_frame f) \<in> {FRAME_TRUST_CFI, FRAME_TRUST_FP})))"
proof -
  have "scan_invariant env m (\<lambda>_. True)" for m by (simp add: scan_invariant_def)
  from x86_caller_keeps [OF this _ assms] show ?thesis by blast
qed

interpretation x86: monotone_walker "x86_ops env ctx" x86_ip x86_sp for env ctx
proof (unfold_locales, goal_cases)
  case (1 y frames allowed fo l y')
  then show ?case using x86_caller_simple by (metis x86_env_ops)
next
  case (2 y frames allowed fo l y')
  then show ?case
    using x86_caller_simple [of _ y frames allowed fo l y'] x86_finish_Some(1)
    by (fastforce simp: x86_env_ops next_frame_ok_def last_map)
qed

interpretation x86_gated: gated_walker "x86_ops env ctx" for env ctx
proof (unfold_locales, goal_cases)
  case (1 f)
  then show ?case
    by (auto simp: x86_ops_def x86_GetContextFrame_def StackFrameX86_make_def dubious_def Let_def split: option.splits)
next
  case (2 y frames allowed fo l y')
  then show ?case using x86_caller_simple by (metis x86_env_ops)
next
  case (3 y frames f l y')
  then show ?case
    using x86_caller_simple [of _ y frames False "Some f" l y'] x86_finish_Some(2)
    by (fastforce simp: x86_env_ops dubious_def)
next
  case (4 y frames allowed fo l y')
  then show ?case
    using x86_caller_keeps [OF resolver_scan_invariant _ 4(1) [unfolded x86_env_ops]] by blast
qed

section \<open>The walk comes back\<close>

lemma x86_read_eq: "x86_read memory = (\<lambda>a. mem32 memory (ucast a))"
  by (simp add: fun_eq_iff x86_read_def)

lemma x86_ebp_search_steps:
  assumes "location - of_nat k * 4 < location_end \<or> get (location - of_nat k * 4) = None"
  shows "\<exists>r. x86_ebp_search get location_end location = Some r"
  using assms
proof (induction k arbitrary: location)
  case 0
  then show ?case by (subst x86_ebp_search.simps) (auto split: option.split)
next
  case (Suc k)
  have "location - of_nat (Suc k) * 4 = location - 4 - of_nat k * 4" by (simp add: algebra_simps)
  from Suc.prems [unfolded this] have "\<exists>r. x86_ebp_search get location_end (location - 4) = Some r" by (rule Suc.IH)
  then show ?case by (subst x86_ebp_search.simps) (auto split: option.split)
qed

text \<open>Stepping down by 4 reaches what stepping up by 4 does.\<close>

lemma x86_ebp_search_returns:
  assumes "bounded_region memory"
  shows "\<exists>r. x86_ebp_search (x86_read memory) location_end location = Some r"
proof -
  obtain k where k: "mem32 memory (ucast (location + of_nat k * 4)) = None"
    using bounded_region.wrap_unreadable [OF assms] by blast
  have e: "(of_nat ((2 ^ 30 - 1) * k) * 4 :: u32) = - (of_nat k * 4)"
  proof -
    have "(of_nat (2 ^ 30 - 1) * 4 :: u32) = - 4" by simp
    moreover have "(of_nat ((2 ^ 30 - 1) * k) * 4 :: u32) = (of_nat (2 ^ 30 - 1) * 4) * of_nat k"
      by (simp only: of_nat_mult ac_simps)
    ultimately show ?thesis by (simp only: mult_minus_left mult_minus_right mult.commute)
  qed
  have "x86_read memory (location - of_nat ((2 ^ 30 - 1) * k) * 4) = None"
    unfolding e x86_read_def diff_minus_eq_add by (rule k)
  then show ?thesis using x86_ebp_search_steps [where k = "(2 ^ 30 - 1) * k"] by blast
qed

text \<open>What the walk needs of the resolver: no program string it may return makes the evaluator
  crash.\<close>

definition windows_safe :: "(u32 \<Rightarrow> u32 option) \<Rightarrow> ('p, 'r) StackFrameSymbolizer \<Rightarrow> bool" where
  "windows_safe get y \<longleftrightarrow>
     (\<forall>ops r r' f info dict. resolver y = Some (ops, r) \<longrightarrow> res_FindWindowsFrameInfo ops r' f = Some info \<longrightarrow>
        fst (Evaluate (Some get) (program_string info)
          \<lparr>stack = [], dictionary = dict, assigned = Map.empty\<rparr>) \<noteq> Crashed)"

definition x86_ready :: "WalkerEnv \<Rightarrow> ('p, 'r) StackFrameSymbolizer \<Rightarrow> bool" where
  "x86_ready env y \<longleftrightarrow> (\<forall>m. w_memory env = Some m \<longrightarrow>
     bounded_region m \<and> cfi_safe (x86_read m) y \<and> windows_safe (x86_read m) y)"

lemma x86_ready_cong:
  assumes "map_option fst (resolver y') = map_option fst (resolver y)" "x86_ready env y"
  shows "x86_ready env y'"
  using assms unfolding x86_ready_def cfi_safe_def windows_safe_def
  by (cases "resolver y"; cases "resolver y'") fastforce+

lemma x86_ready_fill: "x86_ready env y \<Longrightarrow> FillSourceLineInfo y ms us si f = (res, f', y') \<Longrightarrow> x86_ready env y'"
  by (rule x86_ready_cong [OF FillSourceLineInfo_collaborators(1)])

lemma x86_ready_scan: "scan_invariant env m (x86_ready env')"
proof -
  have p: "x86_ready env' (snd (plausible_return_address env y a))" if "x86_ready env' y" for y a
    using x86_ready_fill [OF that]
    by (auto simp: plausible_return_address_def InstructionAddressSeemsValid_def that split: option.splits prod.splits)
  show ?thesis
    unfolding scan_invariant_def ScanForReturnAddress_def Let_def
    using scan_loop_keeps [where P = "x86_ready env'"] p by (metis snd_conv)
qed

lemma x86_scan_returns:
  assumes "bounded_region memory"
  shows "\<exists>r. ScanForReturnAddress env (x86_read memory) y start n = Some r"
  unfolding x86_read_eq by (rule scan32_returns [OF assms])

lemma x86_builtin_programs_safe:
  "\<forall>t\<in>set (tokens is_space (''$eip .raSearchStart ^ = '' @ ''$ebp $esp .cbCalleeParams + .cbSavedRegs + 8 - ^ = '' @
     ''$esp .raSearchStart 4 + ='')). safe_token t \<and> safe_token (tl t)"
  "\<forall>t\<in>set (tokens is_space (''$eip .raSearchStart ^ = '' @ ''$esp .raSearchStart 4 + ='' @ '' $ebx $ebx ='')).
     safe_token t \<and> safe_token (tl t)"
  "\<forall>t\<in>set (tokens is_space (''$eip .raSearchStart ^ = '' @ ''$esp .raSearchStart 4 + ='' @ [])).
     safe_token t \<and> safe_token (tl t)"
  by code_simp+

lemma x86_program_safe:
  assumes "\<And>dict. fst (Evaluate (Some get) (program_string info) \<lparr>stack = [], dictionary = dict, assigned = Map.empty\<rparr>) \<noteq> Crashed"
  shows "fst (Evaluate (Some get) (fst (x86_program l info)) \<lparr>stack = [], dictionary = dict, assigned = Map.empty\<rparr>) \<noteq> Crashed"
proof (cases "program_string info = []")
  case True
  then have "\<forall>t\<in>set (tokens is_space (fst (x86_program l info))). safe_token t \<and> safe_token (tl t)"
    using x86_builtin_programs_safe by (simp only: x86_program_def fst_conv if_False split: if_split) simp
  then show ?thesis by (rule Evaluate_no_crash) simp
qed (simp add: x86_program_def assms)

lemma x86_ra_search_returns:
  assumes "bounded_region memory"
  shows "\<exists>r. x86_ra_search env memory y l info start = Some r"
proof -
  obtain r1 y1 where r1: "ScanForReturnAddress env (x86_read memory) y start 3 = Some (r1, y1)"
    using x86_scan_returns [OF assms] by (metis surj_pair)
  obtain r2 where r2: "ScanForReturnAddress env (x86_read memory) y1 (start + 4) 3 = Some r2"
    using x86_scan_returns [OF assms] by blast
  show ?thesis using r1 r2 by (cases r1) (auto simp: x86_ra_search_def split: prod.split)
qed

lemma x86_evaluate_returns:
  assumes "bounded_region memory"
    and "fst (Evaluate (Some (x86_read memory)) program \<lparr>stack = [], dictionary = dict, assigned = Map.empty\<rparr>) \<noteq> Crashed"
  shows "\<exists>r. x86_evaluate env memory y frames allowed program dict = Some r"
proof -
  obtain e st where e: "Evaluate (Some (x86_read memory)) program \<lparr>stack = [], dictionary = dict, assigned = Map.empty\<rparr> =
      (e, st)" by fastforce
  obtain r where r: "ScanForReturnAddress_context env (x86_read memory) y (esp (cpu_context (last frames))) (length frames = 1) =
      Some r"
    unfolding ScanForReturnAddress_context_def using x86_scan_returns [OF assms(1)] by blast
  show ?thesis using assms(2) e r by (cases e) (simp_all add: x86_evaluate_def)
qed

lemma x86_correct_returns:
  assumes "bounded_region memory"
  shows "\<exists>r. x86_correct env memory y frames info allowed b ra w = Some r"
proof -
  have "\<exists>r. x86_better_ra env memory y first allowed w = Some r" for first
  proof -
    obtain s where "ScanForReturnAddress_context env (x86_read memory) y
        (dictionary_at (wc_dictionary w) ''.raSearchStart'' + 4) first = Some s"
      unfolding ScanForReturnAddress_context_def using x86_scan_returns [OF assms] by blast
    then show ?thesis by (auto simp: x86_better_ra_def Let_def split: option.split)
  qed
  then obtain w' y' where b: "x86_better_ra env memory y (length frames = 1) allowed w = Some (w', y')"
    by (metis surj_pair)
  have "\<exists>r. x86_recover_ebp memory (last frames) info (x86_callee_parameter_size frames) ra w' = Some r"
    using x86_ebp_search_returns [OF assms] by (auto simp: x86_recover_ebp_def Let_def)
  then show ?thesis using b by (auto simp: x86_correct_def)
qed

lemma x86_windows_returns:
  assumes "bounded_region memory"
    and "\<And>dict. fst (Evaluate (Some (x86_read memory)) (program_string info)
      \<lparr>stack = [], dictionary = dict, assigned = Map.empty\<rparr>) \<noteq> Crashed"
  shows "\<exists>r. x86_GetCallerByWindowsFrameInfo env memory y frames info allowed = Some r"
proof -
  obtain program b where p: "x86_program (last frames) info = (program, b)" by fastforce
  obtain ra y1 where r: "x86_ra_search env memory y (last frames) info (x86_ra_start frames info) = Some (ra, y1)"
    using x86_ra_search_returns [OF assms(1)] by (metis surj_pair)
  let ?ra = "x86_aligned_ra (last frames) program ra"
  let ?d = "x86_dictionary (last frames) info (x86_callee_parameter_size frames) ?ra"
  have "\<exists>r. x86_evaluate env memory y1 frames allowed program ?d = Some r"
    using x86_program_safe [OF assms(2), of "last frames" ?d] by (intro x86_evaluate_returns [OF assms(1)]) (simp add: p)
  then obtain wo y2 where e: "x86_evaluate env memory y1 frames allowed program ?d = Some (wo, y2)"
    by (metis surj_pair)
  show ?thesis
  proof (cases wo)
    case (Some w)
    obtain c where "x86_correct env memory y2 frames info allowed b ?ra w = Some c"
      using x86_correct_returns [OF assms(1)] by blast
    then show ?thesis using p r e Some by (simp add: x86_GetCallerByWindowsFrameInfo_def Let_def)
  qed (use p r e in \<open>simp add: x86_GetCallerByWindowsFrameInfo_def Let_def\<close>)
qed

lemma x86_ebp_returns:
  assumes "bounded_region memory"
  shows "\<exists>r. x86_GetCallerByEBPAtBase env memory y frames allowed = Some r"
proof -
  obtain r where "ScanForReturnAddress_context env (x86_read memory) y (esp (cpu_context (last frames))) (length frames = 1) =
      Some r"
    unfolding ScanForReturnAddress_context_def using x86_scan_returns [OF assms] by blast
  then show ?thesis by (auto simp: x86_GetCallerByEBPAtBase_def scan_caller_def Let_def split: option.split)
qed

lemma x86_cfi_returns:
  assumes "cfi_safe (x86_read m) y" "FindCFIFrameInfo y f = Some cfi"
  shows "x86_GetCallerByCFIFrameInfo m frames cfi \<noteq> None"
proof -
  have "fst (FindCallerRegs cfi regs (x86_read m) c0) \<noteq> Crashed" for regs c0
    using assms by (auto simp: cfi_safe_def FindCFIFrameInfo_def split: option.splits)
  then have "FindCallerRegs cfi regs (x86_read m) c0 \<noteq> (Crashed, x)" for regs c0 x by (metis fst_conv)
  then show ?thesis
    by (auto simp: x86_GetCallerByCFIFrameInfo_def FindCallerRegisters_def Let_def
        split: prod.splits status.splits option.splits)
qed

lemma x86_caller_returns:
  assumes "x86_ready env y"
  shows "\<exists>fo l y'. x86_GetCallerFrame env y frames allowed = Some (fo, l, y') \<and> x86_ready env y'"
proof (cases "w_memory env")
  case None
  then show ?thesis using assms by (simp add: x86_GetCallerFrame_def)
next
  case (Some m)
  then have m: "bounded_region m" "cfi_safe (x86_read m) y" "windows_safe (x86_read m) y"
    using assms by (simp_all add: x86_ready_def)
  have "\<exists>r. x86_try_windows env m y frames allowed = Some r"
  proof (cases "FindWindowsFrameInfo y (base_frame (last frames))")
    case info: (Some info)
    have "\<exists>r. x86_GetCallerByWindowsFrameInfo env m y frames info allowed = Some r"
      by (rule x86_windows_returns [OF m(1)])
        (use m(3) info in \<open>auto simp: windows_safe_def FindWindowsFrameInfo_def split: option.splits\<close>)
    then show ?thesis using info by (auto simp: x86_try_windows_def)
  qed (simp add: x86_try_windows_def)
  then obtain f1 l1 y1 where w: "x86_try_windows env m y frames allowed = Some (f1, l1, y1)" by (metis prod_cases3)
  have y1: "x86_ready env y1" by (rule x86_try_windows_keeps(1) [OF x86_ready_scan assms w])
  then have s1: "cfi_safe (x86_read m) y1" using Some by (simp add: x86_ready_def)
  have "\<exists>r. x86_try_cfi m y1 frames l1 = Some r"
    using x86_cfi_returns [OF s1] by (fastforce simp: x86_try_cfi_def split: option.split)
  then obtain f2 l2 where c: "(if f1 = None then x86_try_cfi m y1 frames l1 else Some (f1, l1)) = Some (f2, l2)"
    by (cases f1) auto
  obtain f3 y3 where e: "(if f2 = None then x86_GetCallerByEBPAtBase env m y1 frames allowed else Some (f2, y1)) =
      Some (f3, y3)"
    using x86_ebp_returns [OF m(1), of env y1 frames allowed] by (cases f2) auto
  have "x86_ready env y3"
    using e y1 x86_ebp_keeps(1) [OF x86_ready_scan y1] by (auto split: if_splits)
  then show ?thesis using Some w c e by (simp add: x86_GetCallerFrame_def)
qed

interpretation x86_returns: returning_walker "x86_ops env ctx" "x86_ready (StackwalkerX86_env env)" for env ctx
proof (unfold_locales, goal_cases)
  case (1 y ms us si f res f' y')
  then show ?case by (rule x86_ready_fill)
next
  case (2 y frames allowed)
  then show ?case unfolding x86_env_ops using x86_caller_returns by blast
qed

section \<open>Properties\<close>

text \<open>C6. In the stack an x86 walk returns, every caller's stack pointer lies above its callee's (the
  first may be equal), every return address lies above the first page, and at most
  \<open>max_frames_scanned\<close> frames were found by scanning.\<close>

theorem x86_walk_sound:
  assumes "Walk env lim (x86_ops env ctx) y ms cs = Some (ok, w, y')" "resolver_keeps_frame y"
  shows "(\<forall>i. Suc i < length (ws_frames w) \<longrightarrow>
      (let c = cpu_context (ws_frames w ! i); d = cpu_context (ws_frames w ! Suc i) in
       4096 \<le> x86_ip d \<and> (if i = 0 then x86_sp c \<le> x86_sp d else x86_sp c < x86_sp d))) \<and>
    dubious_frames (ws_frames w) \<le> unat (max_frames_scanned lim)"
proof (intro conjI allI impI)
  fix i
  assume "Suc i < length (ws_frames w)"
  from ascending_frames [OF x86.Walk_ascending [OF assms(1)] this]
  show "let c = cpu_context (ws_frames w ! i); d = cpu_context (ws_frames w ! Suc i) in
       4096 \<le> x86_ip d \<and> (if i = 0 then x86_sp c \<le> x86_sp d else x86_sp c < x86_sp d)"
    unfolding Let_def .
next
  show "dubious_frames (ws_frames w) \<le> unat (max_frames_scanned lim)"
    by (rule x86_gated.Walk_gated [OF assms])
qed


text \<open>The program for a function that neither has a program string nor allocates a frame pointer.\<close>

definition fpo_program :: "StackFrameX86 \<Rightarrow> (string \<times> u32 expr) list" where
  "fpo_program l =
     [(''$eip'', Deref (Var ''.raSearchStart'')),
      (''$esp'', Bin BINARY_OP_ADD (Var ''.raSearchStart'') (Const 4))] @
     (if context_validity l AND X86_VALID_EBX \<noteq> 0 then [(''$ebx'', Var ''$ebx'')] else [])"

lemma fpo_program_ok: "program_ok (fpo_program l)"
  by (simp add: fpo_program_def program_ok_def name_token_def plain_token_def is_space_def binary_operation_def
      literal_of_def extract_unsigned_def is_digit_def)

lemma fpo_program_text:
  assumes "program_string info = []" "\<not> allocates_base_pointer info"
  shows "x86_program l info = (join (program_tokens (fpo_program l)), False)"
proof -
  have "join (program_tokens [(''$eip'', Deref (Var ''.raSearchStart'')),
      (''$esp'', Bin BINARY_OP_ADD (Var ''.raSearchStart'') (Const (4 :: u32))), (''$ebx'', Var ''$ebx'')]) =
      ''$eip .raSearchStart ^ = '' @ ''$esp .raSearchStart 4 + ='' @ '' $ebx $ebx =''"
    "join (program_tokens [(''$eip'', Deref (Var ''.raSearchStart'')),
      (''$esp'', Bin BINARY_OP_ADD (Var ''.raSearchStart'') (Const (4 :: u32)))]) =
      ''$eip .raSearchStart ^ = '' @ ''$esp .raSearchStart 4 + ='' @ []" by code_simp+
  then show ?thesis using assms by (simp add: x86_program_def fpo_program_def)
qed

lemma fpo_program_run:
  assumes "get ra = Some ip" "dict = x86_dictionary l info n ra"
  shows "run_program (Some get) dict (fpo_program l) = Some (dict(''$eip'' \<mapsto> ip, ''$esp'' \<mapsto> ra + 4))"
  using assms by (auto simp: fpo_program_def x86_dictionary_def Let_def fun_eq_iff)

lemma fpo_program_marks:
  "mark_assigned Map.empty (fpo_program l) ''$eip'' = Some True"
  "mark_assigned Map.empty (fpo_program l) ''$esp'' = Some True"
  "mark_assigned Map.empty (fpo_program l) ''$esi'' = None"
  "mark_assigned Map.empty (fpo_program l) ''$edi'' = None"
  "mark_assigned Map.empty (fpo_program l) ''$ebx'' =
     (if context_validity l AND X86_VALID_EBX \<noteq> 0 then Some True else None)"
  by (simp_all add: mark_assigned_def fpo_program_def)

lemma flag_and: "(x :: u32) AND push_bit n 1 = (if bit x n then push_bit n 1 else 0)"
  by (rule bit_eqI) (auto simp: bit_simps)

lemma x86_dictionary_registers:
  fixes l :: StackFrameX86 and info :: WindowsFrameInfo and n ra ip sp :: u32
  defines "d \<equiv> (x86_dictionary l info n ra)(''$eip'' \<mapsto> ip, ''$esp'' \<mapsto> sp)"
  shows "dictionary_at d ''$eip'' = ip" "dictionary_at d ''$esp'' = sp"
    "dictionary_at d ''$ebp'' = ebp (cpu_context l)"
    "context_validity l AND X86_VALID_EBX \<noteq> 0 \<Longrightarrow> dictionary_at d ''$ebx'' = ebx (cpu_context l)"
  by (simp_all add: d_def dictionary_at_def x86_dictionary_def Let_def)

text \<open>For a function that omits the frame pointer, whose return address lies in a module, Windows
  frame information gives a caller with the return address at the place found above the locals and
  saved registers, the stack pointer just above it, and all other registers unchanged.\<close>

theorem x86_fpo_caller:
  assumes "valid info = VALID_ALL" "program_string info = []" "\<not> allocates_base_pointer info"
    and "x86_ra_search env memory y (last frames) info (x86_ra_start frames info) = Some (ra, y1)"
    and "x86_read memory ra = Some ip"
    and "w_modules env = Some ms" "cms_GetModuleForAddress ms (ucast ip) \<noteq> None"
  shows "x86_GetCallerByWindowsFrameInfo env memory y frames info allowed =
    Some (Some (StackFrameX86_make FRAME_TRUST_CFI ((cpu_context (last frames))\<lparr>eip := ip, esp := ra + 4\<rparr>)
      (x86_essentials OR context_validity (last frames) AND X86_VALID_EBX)), y1)"
proof -
  let ?l = "last frames"
  let ?d = "x86_dictionary ?l info (x86_callee_parameter_size frames) ra"
  let ?d' = "?d(''$eip'' \<mapsto> ip, ''$esp'' \<mapsto> ra + 4)"
  let ?p = "fpo_program ?l"
  let ?w = "\<lparr>wc_trust = FRAME_TRUST_CFI, wc_dictionary = ?d', wc_assigned = mark_assigned Map.empty ?p, wc_offset = 0\<rparr>"
  have prog: "x86_program ?l info = (join (program_tokens ?p), False)" by (rule fpo_program_text [OF assms(2,3)])
  have "CHR ''@'' \<notin> set (fst (x86_program ?l info))" using assms(2,3) by (simp add: x86_program_def)
  then have ra: "x86_aligned_ra ?l (join (program_tokens ?p)) ra = ra" by (simp add: x86_aligned_ra_def prog)
  let ?st = "\<lparr>stack = [], dictionary = ?d, assigned = Map.empty\<rparr>"
  have run: "run_program (Some (x86_read memory)) (dictionary ?st) ?p = Some ?d'"
    using fpo_program_run [of "x86_read memory" ra ip ?d, OF assms(5) refl] by simp
  have "Evaluate (Some (x86_read memory)) (join (program_tokens ?p)) ?st =
      (Ok, \<lparr>stack = [], dictionary = ?d', assigned = mark_assigned Map.empty ?p\<rparr>)"
    using Evaluate_assignments [OF fpo_program_ok _ run] by simp
  then have e: "x86_evaluate env memory y1 frames allowed (join (program_tokens ?p)) ?d = Some (Some ?w, y1)"
    using fpo_program_marks [of ?l] by (simp add: x86_evaluate_def ex_bool_eq)
  have c: "x86_correct env memory y1 frames info allowed False ra ?w = Some (?w, y1)"
    using assms(6,7) by (simp add: x86_correct_def x86_better_ra_def x86_dictionary_registers Let_def)
  have "x86_win_frame ?l ?w = StackFrameX86_make FRAME_TRUST_CFI ((cpu_context ?l)\<lparr>eip := ip, esp := ra + 4\<rparr>)
      (x86_essentials OR context_validity ?l AND X86_VALID_EBX)"
    using flag_and [of "context_validity ?l" 4, folded X86_VALID_EBX_def]
    by (cases "context_validity ?l AND X86_VALID_EBX = 0")
      (simp_all add: x86_win_frame_def x86_keep_def fpo_program_marks x86_dictionary_registers Let_def split: if_splits)
  then show ?thesis using assms(1,4) e c by (simp add: x86_GetCallerByWindowsFrameInfo_def prog ra Let_def)
qed
section \<open>A small stack to walk\<close>

definition sample_x86 :: MDRawContextX86 where
  "sample_x86 = \<lparr>edi = 0, esi = 0, ebx = 0, edx = 0, ecx = 0, eax = 0, ebp = 4096, eip = 9000, esp = 4096, x86_other = []\<rparr>"

lemma no_symbols_windows_safe: "windows_safe get no_symbols"
  by (simp add: windows_safe_def no_symbols_def StackFrameSymbolizer_make_def)

theorem x86_walk_sound_witness:
  "\<exists>w y'. Walk (sample_env64 None) sample_limits (x86_ops (sample_env64 None) (Some sample_x86)) no_symbols [] [] =
      Some (True, w, y') \<and> x86_sp (cpu_context (ws_frames w ! 0)) \<le> x86_sp (cpu_context (ws_frames w ! 1)) \<and>
    dubious_frames (ws_frames w) \<le> 4"
proof -
  let ?r = "Walk (sample_env64 None) sample_limits (x86_ops (sample_env64 None) (Some sample_x86)) no_symbols [] []"
  have "map_option (\<lambda>(ok, w, y). ok \<and> length (ws_frames w) = 2) ?r = Some True" by code_simp
  then obtain w y' where r: "?r = Some (True, w, y')" "length (ws_frames w) = 2" by auto
  have l: "unat (max_frames_scanned sample_limits) = 4" by (simp add: sample_limits_def)
  note s = x86_walk_sound [OF r(1) no_symbols_safe(2)]
  show ?thesis
    using r(1) s [THEN conjunct1, rule_format, of 0] s [THEN conjunct2] by (auto simp: Let_def r(2) l)
qed


definition sample_fpo_info :: WindowsFrameInfo where
  "sample_fpo_info = WindowsFrameInfo_init\<lparr>wfi_type := STACK_INFO_FPO, valid := VALID_ALL, local_size := 4\<rparr>"

definition sample_fpo_env :: WalkerEnv where
  "sample_fpo_env = (sample_env64 None)\<lparr>w_modules := Some (BasicCodeModules_interface sample_basic_modules)\<rparr>"

theorem x86_fpo_caller_witness:
  "\<exists>y1. x86_GetCallerByWindowsFrameInfo sample_fpo_env sample_stack64 no_symbols
     [StackFrameX86_make FRAME_TRUST_CFI sample_x86 0] sample_fpo_info False =
   Some (Some (StackFrameX86_make FRAME_TRUST_CFI (sample_x86\<lparr>eip := 5000, esp := 4104\<rparr>) x86_essentials), y1)"
proof -
  let ?fs = "[StackFrameX86_make FRAME_TRUST_CFI sample_x86 0]"
  have "map_option fst (x86_ra_search sample_fpo_env sample_stack64 no_symbols (last ?fs) sample_fpo_info
      (x86_ra_start ?fs sample_fpo_info)) = Some 4100" by code_simp
  then obtain y1 where ra: "x86_ra_search sample_fpo_env sample_stack64 no_symbols (last ?fs) sample_fpo_info
      (x86_ra_start ?fs sample_fpo_info) = Some (4100, y1)" by auto
  have ip: "x86_read sample_stack64 4100 = Some 5000" by code_simp
  have ms: "w_modules sample_fpo_env = Some (BasicCodeModules_interface sample_basic_modules)"
    by (simp add: sample_fpo_env_def)
  have m: "cms_GetModuleForAddress (BasicCodeModules_interface sample_basic_modules) (ucast (5000 :: u32)) \<noteq> None"
    by code_simp
  have i: "valid sample_fpo_info = VALID_ALL" "program_string sample_fpo_info = []"
    "\<not> allocates_base_pointer sample_fpo_info" by (simp_all add: sample_fpo_info_def WindowsFrameInfo_init_def)
  show ?thesis
    using x86_fpo_caller [OF i ra ip ms m, of False] by (simp add: StackFrameX86_make_def)
qed

end
