(* ===== verification/Stackwalker_MIPS.thy ===== *)
theory Stackwalker_MIPS
  imports Register_Array
begin

text \<open>
  The MIPS stack walker (\<open>processor/stackwalker_mips.cc\<close>), for 32-bit and 64-bit processors. The
  source has the code of \<open>GetCallerByCFIFrameInfo\<close> and of \<open>GetCallerByStackScan\<close> twice, once
  for each width; here each has one definition over words of any width, with the differences between
  the copies as arguments, and the flags of the context choose between its instances.
\<close>

section \<open>Context\<close>

text \<open>\<open>mips_rest\<close> holds the members of \<open>MDRawContextMIPS\<close> that the walker only copies.\<close>

record MDRawContextMIPS =
  mips_context_flags :: u32
  mips_iregs :: "u64 list"
  mips_epc :: u64
  mips_rest :: "u64 list"

type_synonym StackFrameMIPS = "(MDRawContextMIPS, u32) StackFrameCpu"

abbreviation (input) MIPS_S0 :: nat where "MIPS_S0 \<equiv> 16"
abbreviation (input) MIPS_S7 :: nat where "MIPS_S7 \<equiv> 23"
abbreviation (input) MIPS_GP :: nat where "MIPS_GP \<equiv> 28"
abbreviation (input) MIPS_SP :: nat where "MIPS_SP \<equiv> 29"
abbreviation (input) MIPS_FP :: nat where "MIPS_FP \<equiv> 30"
abbreviation (input) MIPS_RA :: nat where "MIPS_RA \<equiv> 31"
abbreviation (input) MIPS_PC :: nat where "MIPS_PC \<equiv> 34"

definition MD_CONTEXT_MIPS :: u32 where
  "MD_CONTEXT_MIPS = 0x00040000"

definition MD_CONTEXT_MIPS64 :: u32 where
  "MD_CONTEXT_MIPS64 = 0x00080000"

definition mips_ok :: "MDRawContextMIPS \<Rightarrow> bool" where
  "mips_ok c \<longleftrightarrow> length (mips_iregs c) = 32"

definition mips_sp :: "MDRawContextMIPS \<Rightarrow> u64" where
  "mips_sp c = mips_iregs c ! MIPS_SP"

definition mips_zero :: MDRawContextMIPS where
  "mips_zero = \<lparr>mips_context_flags = 0, mips_iregs = replicate 32 0, mips_epc = 0, mips_rest = []\<rparr>"

definition mips_valid_flag :: "nat \<Rightarrow> u32" where
  "mips_valid_flag n =
     (if MIPS_S0 \<le> n \<and> n \<le> MIPS_S7 then push_bit (n - MIPS_S0) 1
      else if MIPS_GP \<le> n \<and> n \<le> MIPS_RA then push_bit (n - MIPS_GP + 8) 1
      else if n = MIPS_PC then push_bit 12 1
      else 0)"

definition kRegisterNames :: "string list" where
  "kRegisterNames =
     [''$zero'', ''$at'', ''$v0'', ''$v1'', ''$a0'', ''$a1'', ''$a2'', ''$a3'', ''$to'', ''$t1'',
      ''$t2'', ''$t3'', ''$t4'', ''$t5'', ''$t6'', ''$t7'', ''$s0'', ''$s1'', ''$s2'', ''$s3'',
      ''$s4'', ''$s5'', ''$s6'', ''$s7'', ''$t8'', ''$t9'', ''$k0'', ''$k1'', ''$gp'', ''$sp'',
      ''$fp'', ''$ra'']"

section \<open>Construction\<close>

text \<open>The constructor drops a memory that does not fit the address space. It reads the flags of
  the context to choose the check, and crashes when there is a memory but no context.\<close>

definition mips_memory_fits :: "u32 \<Rightarrow> MemoryRegion \<Rightarrow> bool" where
  "mips_memory_fits flags m \<longleftrightarrow>
     (if flags AND MD_CONTEXT_MIPS64 \<noteq> 0
      then \<not> 0xffffffffffffffff - mem_base m < ucast (mem_size m - 1)
      else \<not> 0xffffffff - mem_base m < ucast (mem_size m - 1))"

definition StackwalkerMIPS_env :: "WalkerEnv \<Rightarrow> MDRawContextMIPS option \<Rightarrow> WalkerEnv option" where
  "StackwalkerMIPS_env env context =
     (case w_memory env of
        None \<Rightarrow> Some env
      | Some m \<Rightarrow>
          (case context of
             None \<Rightarrow> None
           | Some c \<Rightarrow> Some (if mips_memory_fits (mips_context_flags c) m then env else env\<lparr>w_memory := None\<rparr>)))"

definition mips_GetContextFrame :: "MDRawContextMIPS option \<Rightarrow> StackFrameMIPS option" where
  "mips_GetContextFrame context =
     (case context of
        None \<Rightarrow> None
      | Some c \<Rightarrow>
          Some \<lparr>base_frame = StackFrame_init\<lparr>trust := FRAME_TRUST_CONTEXT, instruction := mips_epc c\<rparr>,
                cpu_context = c, context_validity = - 1\<rparr>)"

section \<open>Call frame information\<close>

text \<open>The dictionary of the callee has all registers, whether valid or not.\<close>

definition mips_callee_registers :: "u64 list \<Rightarrow> (string \<rightharpoonup> 'w::len word)" where
  "mips_callee_registers iregs = [kRegisterNames [\<mapsto>] map ucast iregs]"

text \<open>The registers that a callee saves. The copy for 64 bits counts \<open>$gp\<close> among them.\<close>

definition mips_saved :: "bool \<Rightarrow> nat \<Rightarrow> bool" where
  "mips_saved wide i \<longleftrightarrow>
     MIPS_S0 \<le> i \<and> i \<le> MIPS_S7 \<or> (if wide then MIPS_GP \<le> i else MIPS_GP < i) \<and> i < MIPS_RA"

text \<open>\<open>caller_registers\<close> after \<open>.cfa\<close> and \<open>.ra\<close> have been entered as \<open>$sp\<close>, \<open>$ra\<close> and \<open>$pc\<close>.\<close>

definition mips_caller_registers :: "(string \<rightharpoonup> 'w::len word) \<Rightarrow> (string \<rightharpoonup> 'w word)" where
  "mips_caller_registers caller =
     (let with_sp = (case caller ''.cfa'' of None \<Rightarrow> caller | Some cfa \<Rightarrow> caller(''$sp'' \<mapsto> cfa));
          pc_size = of_nat (LENGTH('w) div 8)
      in case with_sp ''.ra'' of
           None \<Rightarrow> with_sp(''$pc'' \<mapsto> 0)
         | Some ra \<Rightarrow> with_sp(''$ra'' \<mapsto> ra, ''$pc'' \<mapsto> ra - 2 * pc_size))"

definition subscript :: "(string \<rightharpoonup> 'w::len word) \<Rightarrow> string \<Rightarrow> 'w word" where
  "subscript m n = (case m n of None \<Rightarrow> 0 | Some x \<Rightarrow> x)"

text \<open>The frame built from the values that the rules gave.\<close>

definition mips_cfi_frame :: "bool \<Rightarrow> (string \<rightharpoonup> 'w::len word) \<Rightarrow> StackFrameMIPS \<Rightarrow> StackFrameMIPS" where
  "mips_cfi_frame wide caller last_frame =
     (let regs = mips_caller_registers caller;
          (iregs, validity) =
            array_fill mips_valid_flag (mips_saved wide) (\<lambda>n. map_option ucast (regs n)) (context_validity last_frame)
              (mips_iregs (cpu_context last_frame)) kRegisterNames 0 (mips_iregs mips_zero, 0);
          pc = ucast (subscript regs ''$pc'')
      in \<lparr>base_frame = StackFrame_init\<lparr>trust := FRAME_TRUST_CFI, instruction := pc\<rparr>,
          cpu_context = mips_zero\<lparr>mips_iregs := iregs[MIPS_RA := ucast (subscript regs ''$ra'')], mips_epc := pc\<rparr>,
          context_validity = validity OR mips_valid_flag MIPS_PC OR mips_valid_flag MIPS_RA\<rparr>)"

definition mips_cfi_caller ::
  "bool \<Rightarrow> ('w::len word \<Rightarrow> 'w word option) \<Rightarrow> StackFrameMIPS list \<Rightarrow> CFIFrameInfo \<Rightarrow> StackFrameMIPS option option" where
  "mips_cfi_caller wide get frames cfi_frame_info =
     (let last_frame = last frames;
          callee_registers = mips_callee_registers (mips_iregs (cpu_context last_frame))
      in case FindCallerRegs cfi_frame_info callee_registers get callee_registers of
           (Crashed, _) \<Rightarrow> None
         | (Failed, _) \<Rightarrow> Some None
         | (Ok, caller) \<Rightarrow> Some (Some (mips_cfi_frame wide caller last_frame)))"

abbreviation mips_read32 :: "MemoryRegion \<Rightarrow> u32 \<Rightarrow> u32 option" where
  "mips_read32 memory \<equiv> \<lambda>a. mem32 memory (ucast a)"

text \<open>The flags are those of the walker's own context, not of the last frame.\<close>

definition mips_is_32 :: "MDRawContextMIPS \<Rightarrow> bool" where
  "mips_is_32 context \<longleftrightarrow> mips_context_flags context AND MD_CONTEXT_MIPS \<noteq> 0"

definition mips_GetCallerByCFIFrameInfo ::
  "MDRawContextMIPS \<Rightarrow> MemoryRegion \<Rightarrow> StackFrameMIPS list \<Rightarrow> CFIFrameInfo \<Rightarrow> StackFrameMIPS option option" where
  "mips_GetCallerByCFIFrameInfo context memory frames cfi_frame_info =
     (if mips_is_32 context then mips_cfi_caller False (mips_read32 memory) frames cfi_frame_info
      else mips_cfi_caller True (mem64 memory) frames cfi_frame_info)"

section \<open>Scanning\<close>

definition kMaxFrameStackSize :: nat where
  "kMaxFrameStackSize = 1024"

definition kMinArgsOnStack :: nat where
  "kMinArgsOnStack = 4"

text \<open>The new \<open>count\<close>: the words skipped are subtracted in \<open>size_t\<close> and the result goes into an
  \<open>int\<close>.\<close>

definition mips_count :: "int \<Rightarrow> 'w::len word \<Rightarrow> 'w word \<Rightarrow> int" where
  "mips_count count caller_sp last_sp =
     sint (word_of_int (count - uint (caller_sp - last_sp) div int (LENGTH('w) div 8)) :: u32)"

text \<open>The loop that looks for a word that is a plausible return address and has a plausible
  frame pointer below it. The location of the frame pointer is computed in \<open>size_t\<close>.\<close>

partial_function (option) mips_scan_loop ::
  "('y \<Rightarrow> 'w::len word \<Rightarrow> int \<Rightarrow> (('w word \<times> 'w word) option \<times> 'y) option) \<Rightarrow> (u64 \<Rightarrow> 'w word option)
     \<Rightarrow> 'w word \<Rightarrow> int \<Rightarrow> 'y \<Rightarrow> (('w word \<times> 'w word \<times> 'w word \<times> int) option \<times> 'y) option" where
  "mips_scan_loop scan get last_sp count y =
     (case scan y last_sp count of
        None \<Rightarrow> None
      | Some (None, y') \<Rightarrow> Some (None, y')
      | Some (Some (caller_sp, caller_pc), y') \<Rightarrow>
          (case get (ucast caller_sp - of_nat (LENGTH('w) div 8)) of
             None \<Rightarrow> Some (None, y')
           | Some caller_fp \<Rightarrow>
               if of_nat kMaxFrameStackSize \<le> caller_fp - caller_sp \<and> 0 < mips_count count caller_sp last_sp
               then mips_scan_loop scan get (caller_sp + of_nat (LENGTH('w) div 8))
                      (mips_count count caller_sp last_sp) y'
               else Some (Some (caller_sp, caller_pc, caller_fp, mips_count count caller_sp last_sp), y')))"

declare mips_scan_loop.simps [code]

text \<open>The frame built from what the loop found. \<open>$ra\<close> is computed in \<open>size_t\<close>.\<close>

definition mips_scan_frame ::
  "'w::len word \<times> 'w word \<times> 'w word \<times> int \<Rightarrow> StackFrameMIPS \<Rightarrow> StackFrameMIPS option" where
  "mips_scan_frame found last_frame =
     (case found of
        (caller_sp, caller_pc, caller_fp, count) \<Rightarrow>
          if count = 0 then None
          else
            (let word_size = LENGTH('w) div 8;
                 sp = caller_sp + of_nat word_size;
                 pc = caller_pc - 2 * of_nat word_size;
                 c = cpu_context last_frame
             in Some \<lparr>base_frame = StackFrame_init\<lparr>trust := FRAME_TRUST_SCAN, instruction := ucast pc\<rparr>,
                  cpu_context = c\<lparr>mips_epc := ucast pc,
                    mips_iregs := (mips_iregs c)[MIPS_SP := ucast sp, MIPS_FP := ucast caller_fp,
                      MIPS_RA := ucast pc + 2 * of_nat word_size]\<rparr>,
                  context_validity = mips_valid_flag MIPS_PC OR mips_valid_flag MIPS_SP OR
                    mips_valid_flag MIPS_FP OR mips_valid_flag MIPS_RA\<rparr>))"

text \<open>\<open>skip_args\<close> tells that the four words of arguments at the stack pointer are passed over, which
  the copy for 32 bits does in all frames but the topmost.\<close>

definition mips_scan_caller ::
  "WalkerEnv \<Rightarrow> (u64 \<Rightarrow> 'w::len word option) \<Rightarrow> bool \<Rightarrow> ('p, 'r) StackFrameSymbolizer \<Rightarrow> StackFrameMIPS list
     \<Rightarrow> (StackFrameMIPS option \<times> ('p, 'r) StackFrameSymbolizer) option" where
  "mips_scan_caller env get skip_args y frames =
     (let last_frame = last frames;
          word_size = LENGTH('w) div 8;
          sp = (ucast (mips_sp (cpu_context last_frame)) :: 'w word);
          words = int (kMaxFrameStackSize div word_size);
          last_sp = (if skip_args then sp + of_nat (kMinArgsOnStack * word_size) else sp);
          count = (if skip_args then words - int kMinArgsOnStack else words)
      in do {
        (found, y') \<leftarrow> mips_scan_loop (ScanForReturnAddress env (\<lambda>a. get (ucast a))) get last_sp count y;
        Some (case found of None \<Rightarrow> None | Some r \<Rightarrow> mips_scan_frame r last_frame, y')
      })"

definition mips_GetCallerByStackScan ::
  "WalkerEnv \<Rightarrow> MDRawContextMIPS \<Rightarrow> MemoryRegion \<Rightarrow> ('p, 'r) StackFrameSymbolizer \<Rightarrow> StackFrameMIPS list
     \<Rightarrow> (StackFrameMIPS option \<times> ('p, 'r) StackFrameSymbolizer) option" where
  "mips_GetCallerByStackScan env context memory y frames =
     (if mips_is_32 context then mips_scan_caller env (mem32 memory) (1 < length frames) y frames
      else mips_scan_caller env (mem64 memory) False y frames)"

section \<open>The caller\<close>

definition mips_finish :: "StackFrameMIPS list \<Rightarrow> StackFrameMIPS \<Rightarrow> StackFrameMIPS option option" where
  "mips_finish frames f =
     Some (if TerminateWalk (mips_epc (cpu_context f)) (mips_sp (cpu_context f))
                (mips_sp (cpu_context (last frames))) (length frames = 1)
           then None else Some f)"

text \<open>A null context is dereferenced; it only gets here with a memory if the constructor has
  survived dereferencing it before.\<close>

definition mips_GetCallerFrame ::
  "WalkerEnv \<Rightarrow> MDRawContextMIPS option \<Rightarrow> ('p, 'r) StackFrameSymbolizer \<Rightarrow> StackFrameMIPS list \<Rightarrow> bool
     \<Rightarrow> (StackFrameMIPS option \<times> StackFrameMIPS \<times> ('p, 'r) StackFrameSymbolizer) option" where
  "mips_GetCallerFrame env context y frames stack_scan_allowed =
     (case w_memory env of
        None \<Rightarrow> Some (None, last frames, y)
      | Some memory \<Rightarrow>
          do { c \<leftarrow> context;
               try_callers
                 (cfi_caller (mips_GetCallerByCFIFrameInfo c memory frames) y (base_frame (last frames)))
                 None
                 (mips_GetCallerByStackScan env c memory y frames)
                 stack_scan_allowed y (mips_finish frames) (last frames) })"

definition mips_ops ::
  "WalkerEnv \<Rightarrow> MDRawContextMIPS option \<Rightarrow> (StackFrameMIPS, ('p, 'r) StackFrameSymbolizer) StackwalkerOps" where
  "mips_ops env context =
     \<lparr>op_GetContextFrame = mips_GetContextFrame context, op_GetCallerFrame = mips_GetCallerFrame env context\<rparr>"

section \<open>The scan ends\<close>

lemma mips_scan_loop_returns:
  fixes get' :: "'w::len word \<Rightarrow> 'w word option"
  assumes "get' (last_sp + of_nat n * of_nat (LENGTH('w) div 8)) = None"
  shows "\<exists>r. mips_scan_loop (ScanForReturnAddress env get') get last_sp count y = Some r"
  using assms
proof (induction n arbitrary: last_sp count y rule: less_induct)
  case (less n)
  let ?step = "of_nat (LENGTH('w) div 8) :: 'w word"
  obtain found y' where s: "ScanForReturnAddress env get' y last_sp count = Some (found, y')"
    using scan_loop_returns [of _ last_sp n ?step get'] less.prems
    by (fastforce simp: ScanForReturnAddress_def Let_def)
  show ?case
  proof (cases found)
    case None
    then show ?thesis using s by (subst mips_scan_loop.simps) simp
  next
    case (Some lp)
    obtain caller_sp caller_pc where lp: "found = Some (caller_sp, caller_pc)" using Some by (cases lp) simp
    obtain k where k: "caller_sp = last_sp + of_nat k * ?step" "\<forall>j\<le>k. get' (last_sp + of_nat j * ?step) \<noteq> None"
      using scan_loop_found [OF s [unfolded ScanForReturnAddress_def Let_def]] lp
      unfolding scan_found_def by auto
    have kn: "k < n" using k(2) less.prems by (meson not_less)
    then have "caller_sp + ?step + of_nat (n - Suc k) * ?step = last_sp + of_nat n * ?step"
      by (simp add: k(1) of_nat_diff algebra_simps)
    then have "get' (caller_sp + ?step + of_nat (n - Suc k) * ?step) = None" using less.prems by simp
    then have IH: "\<exists>r. mips_scan_loop (ScanForReturnAddress env get') get (caller_sp + ?step) c y' = Some r" for c
      using less.IH [of "n - Suc k"] kn by simp
    show ?thesis
      using s lp IH by (subst mips_scan_loop.simps) (auto split: option.split)
  qed
qed

lemma mips_scan_loop_keeps:
  assumes "mips_scan_loop scan get last_sp count y = Some r"
    and "\<And>y l c found y'. scan y l c = Some (found, y') \<Longrightarrow> P y \<Longrightarrow> P y'" "P y"
  shows "P (snd r)"
proof -
  have "(\<forall>y l c found y'. scan y l c = Some (found, y') \<longrightarrow> P y \<longrightarrow> P y') \<longrightarrow> P y \<longrightarrow> P (snd r)"
    using assms(1)
  proof (rule mips_scan_loop.raw_induct
      [where P = "\<lambda>scan get last_sp count y r.
         (\<forall>y l c found y'. scan y l c = Some (found, y') \<longrightarrow> P y \<longrightarrow> P y') \<longrightarrow> P y \<longrightarrow> P (snd r)", rotated], goal_cases)
    case (1 rec scan get last_sp count y r)
    show ?case
    proof (intro impI)
      assume k: "\<forall>y l c found y'. scan y l c = Some (found, y') \<longrightarrow> P y \<longrightarrow> P y'" and y: "P y"
      obtain found y' where s: "scan y last_sp count = Some (found, y')"
        using 1(2) by (cases "scan y last_sp count") auto
      have y': "P y'" using k y s by blast
      have IH: "rec scan get l c y' = Some r \<Longrightarrow> P (snd r)" for l c using 1(1) k y' by blast
      show "P (snd r)"
        using 1(2) s y' IH by (auto split: option.splits if_splits)
    qed
  qed
  then show ?thesis using assms(2,3) by blast
qed

lemma mips_scan_caller_keeps:
  fixes get :: "u64 \<Rightarrow> 'w::len word option"
  assumes "mips_scan_caller env get skip_args y frames = Some (fo, y')"
    and "\<And>y l c found y'. ScanForReturnAddress env (\<lambda>a :: 'w word. get (ucast a)) y l c = Some (found, y') \<Longrightarrow> P y \<Longrightarrow> P y'"
    and "P y"
  shows "P y'"
proof -
  obtain l c found where "mips_scan_loop (ScanForReturnAddress env (\<lambda>a :: 'w word. get (ucast a))) get l c y = Some (found, y')"
    using assms(1) by (auto simp: mips_scan_caller_def Let_def bind_eq_Some_conv)
  from mips_scan_loop_keeps [where P = P, OF this] show ?thesis using assms(2,3) by simp
qed

lemma mips_scan_caller_returns:
  fixes get :: "u64 \<Rightarrow> 'w::len word option"
  assumes "\<And>l. \<exists>n. get (ucast ((l :: 'w word) + of_nat n * of_nat (LENGTH('w) div 8))) = None"
  shows "\<exists>fo y'. mips_scan_caller env get skip_args y frames = Some (fo, y')"
proof -
  have r: "mips_scan_loop (ScanForReturnAddress env (\<lambda>a :: 'w word. get (ucast a))) get l c y \<noteq> None" for l c
  proof -
    obtain n where "get (ucast (l + of_nat n * of_nat (LENGTH('w) div 8))) = None" using assms by blast
    from mips_scan_loop_returns [where get' = "\<lambda>a. get (ucast a)", OF this] show ?thesis by blast
  qed
  have "mips_scan_caller env get skip_args y frames \<noteq> None"
    unfolding mips_scan_caller_def Let_def using r by (simp add: bind_eq_None_conv del: not_None_eq split: prod.split)
  then show ?thesis by auto
qed


section \<open>The contracts\<close>

definition mips_ready :: "WalkerEnv \<Rightarrow> MDRawContextMIPS \<Rightarrow> ('p, 'r) StackFrameSymbolizer \<Rightarrow> bool" where
  "mips_ready env c y \<longleftrightarrow> (if mips_is_32 c then walk_ready mips_read32 env y else walk_ready mem64 env y)"

lemma mips_cfi_cases:
  assumes "mips_cfi_caller wide get frames cfi = Some (Some f)"
  obtains caller where "FindCallerRegs cfi (mips_callee_registers (mips_iregs (cpu_context (last frames)))) get
      (mips_callee_registers (mips_iregs (cpu_context (last frames)))) = (Ok, caller)"
    "f = mips_cfi_frame wide caller (last frames)"
  using assms by (auto simp: mips_cfi_caller_def Let_def split: prod.splits status.splits)

lemma mips_cfi_frame_simps:
  "trust (base_frame (mips_cfi_frame wide caller f)) = FRAME_TRUST_CFI"
  "length (mips_iregs (cpu_context (mips_cfi_frame wide caller f))) = 32"
proof -
  let ?fill = "array_fill mips_valid_flag (mips_saved wide) (\<lambda>n. map_option ucast (mips_caller_registers caller n))
    (context_validity f) (mips_iregs (cpu_context f)) kRegisterNames 0 (mips_iregs mips_zero, 0)"
  obtain iregs v where f: "?fill = (iregs, v)" by fastforce
  have "length (fst ?fill) = 32" by (simp add: mips_zero_def)
  then have "length iregs = 32" by (simp add: f)
  then show "trust (base_frame (mips_cfi_frame wide caller f)) = FRAME_TRUST_CFI"
    "length (mips_iregs (cpu_context (mips_cfi_frame wide caller f))) = 32"
    by (simp_all add: mips_cfi_frame_def Let_def f)
qed

lemma mips_scan_caller_length:
  fixes get :: "u64 \<Rightarrow> 'w::len word option"
  assumes "mips_scan_caller env get skip_args y frames = Some (Some f, y')"
  shows "length (mips_iregs (cpu_context f)) = length (mips_iregs (cpu_context (last frames)))"
proof -
  obtain r :: "'w word \<times> 'w word \<times> 'w word \<times> int" where "mips_scan_frame r (last frames) = Some f"
    using assms by (auto simp: mips_scan_caller_def Let_def bind_eq_Some_conv split: option.splits)
  then show ?thesis by (cases r) (auto simp: mips_scan_frame_def Let_def split: if_splits)
qed

interpretation mips: trying_walker env "mips_ops env (Some c)" mips_epc mips_sp "mips_GetCallerByCFIFrameInfo c"
  "\<lambda>m frames. None" "mips_GetCallerByStackScan env c" mips_finish for env c
proof (unfold_locales, goal_cases)
  case (1 y frames allowed)
  show ?case by (simp add: mips_ops_def mips_GetCallerFrame_def split: option.split)
next
  case (2 f)
  then show ?case by (auto simp: mips_ops_def mips_GetContextFrame_def)
next
  case (3 m frames cfi f)
  then show ?case
    by (auto simp: mips_GetCallerByCFIFrameInfo_def mips_cfi_frame_simps elim!: mips_cfi_cases split: if_splits)
next
  case (5 m y frames fo y')
  then show ?case
    by (auto simp: mips_GetCallerByStackScan_def split: if_splits
        elim!: mips_scan_caller_keeps [where P = resolver_keeps_frame] dest: scan_keeps)
next
  case (6 frames f g)
  then show ?case by (auto simp: mips_finish_def split: if_splits)
next
  case (7 frames f g)
  then show ?case by (auto simp: mips_finish_def split: if_splits)
qed simp

lemma mips_scan_ready:
  assumes "mips_ready env c y" "w_memory env = Some m"
  shows "\<exists>fo y'. mips_GetCallerByStackScan env c m y frames = Some (fo, y') \<and> mips_ready env c y'"
proof -
  have b: "bounded_region m" using assms by (auto simp: mips_ready_def walk_ready_def split: if_splits)
  have n32: "\<exists>n. mem32 m (ucast ((l :: u32) + of_nat n * of_nat (LENGTH(32) div 8))) = None" for l
    using bounded_region.wrap_unreadable [OF b, of l] by simp
  have n64: "\<exists>n. mem64 m (ucast ((l :: u64) + of_nat n * of_nat (LENGTH(64) div 8))) = None" for l
  proof -
    have "mem64 m l = None \<or> mem64 m (l + 2 ^ 32) = None" by (rule bounded_region.far_unreadable [OF b])
    then show ?thesis
    proof
      assume "mem64 m l = None"
      then show ?thesis by (intro exI [of _ 0]) simp
    next
      assume "mem64 m (l + 2 ^ 32) = None"
      then show ?thesis by (intro exI [of _ "2 ^ 29"]) simp
    qed
  qed
  obtain fo y' where s: "mips_GetCallerByStackScan env c m y frames = Some (fo, y')"
    unfolding mips_GetCallerByStackScan_def
    using mips_scan_caller_returns [of "mem32 m" env "1 < length frames" y frames, OF n32]
      mips_scan_caller_returns [of "mem64 m" env False y frames, OF n64] by presburger
  have "mips_ready env c y'"
  proof (cases "mips_is_32 c")
    case True
    then have h: "mips_scan_caller env (mem32 m) (1 < length frames) y frames = Some (fo, y')" "walk_ready mips_read32 env y"
      using s assms(1) by (simp_all add: mips_GetCallerByStackScan_def mips_ready_def)
    have "walk_ready mips_read32 env y'"
      by (rule mips_scan_caller_keeps [where P = "walk_ready mips_read32 env", OF h(1) _ h(2)]) (rule walk_ready_scan)
    then show ?thesis using True by (simp add: mips_ready_def)
  next
    case False
    then have h: "mips_scan_caller env (mem64 m) False y frames = Some (fo, y')" "walk_ready mem64 env y"
      using s assms(1) by (simp_all add: mips_GetCallerByStackScan_def mips_ready_def)
    have "walk_ready mem64 env y'"
      by (rule mips_scan_caller_keeps [where P = "walk_ready mem64 env", OF h(1) _ h(2)]) (rule walk_ready_scan)
    then show ?thesis using False by (simp add: mips_ready_def)
  qed
  then show ?thesis using s by blast
qed

interpretation mips_returns: returning_tries env "mips_ops env (Some c)" mips_epc mips_sp "mips_GetCallerByCFIFrameInfo c"
  "\<lambda>m frames. None" "mips_GetCallerByStackScan env c" mips_finish "mips_ready env c" for env c
proof (unfold_locales, goal_cases)
  case (1 y ms us si bf res bf' y')
  then show ?case by (auto simp: mips_ready_def intro: walk_ready_fill split: if_splits)
next
  case (2 y m bf cfi frames)
  show ?case
  proof (cases "mips_is_32 c")
    case True
    then have "walk_ready mips_read32 env y" using 2(1) by (simp add: mips_ready_def)
    from cfi_no_crash(2) [OF this 2(2,3)] True show ?thesis
      by (auto simp: mips_GetCallerByCFIFrameInfo_def mips_cfi_caller_def Let_def split: prod.splits status.splits)
  next
    case False
    then have "walk_ready mem64 env y" using 2(1) by (simp add: mips_ready_def)
    from cfi_no_crash(2) [OF this 2(2,3)] False show ?thesis
      by (auto simp: mips_GetCallerByCFIFrameInfo_def mips_cfi_caller_def Let_def split: prod.splits status.splits)
  qed
next
  case (3 y m frames)
  then show ?case by (rule mips_scan_ready)
qed (simp add: mips_finish_def)

interpretation mips_sized: sized_tries env "mips_ops env (Some c)" mips_epc mips_sp "mips_GetCallerByCFIFrameInfo c"
  "\<lambda>m frames. None" "mips_GetCallerByStackScan env c" mips_finish "\<lambda>d. mips_ok c \<longrightarrow> mips_ok d" for env c
proof (unfold_locales, goal_cases)
  case (1 f)
  then show ?case by (auto simp: mips_ops_def mips_GetContextFrame_def)
next
  case (2 m frames cfi f)
  then show ?case
    by (auto simp: mips_GetCallerByCFIFrameInfo_def mips_ok_def mips_cfi_frame_simps elim!: mips_cfi_cases split: if_splits)
next
  case (4 m y frames f y')
  then show ?case
    unfolding mips_GetCallerByStackScan_def by (metis mips_scan_caller_length mips_ok_def)
next
  case (5 frames f g)
  then show ?case by (auto simp: mips_finish_def split: if_splits)
qed simp


section \<open>Properties\<close>


lemma mips_names:
  "length kRegisterNames = 32" "kRegisterNames ! MIPS_SP = ''$sp''" "kRegisterNames ! MIPS_RA = ''$ra''"
  "kRegisterNames ! 8 = ''$to''"
  by (simp_all add: kRegisterNames_def)

lemma mips_zero_iregs: "length (mips_iregs mips_zero) = 32" "i < 32 \<Longrightarrow> mips_iregs mips_zero ! i = 0"
  by (simp_all add: mips_zero_def)

lemma mips_name_other:
  assumes "i < 31" "i \<noteq> MIPS_SP"
  shows "kRegisterNames ! i \<notin> {''$sp'', ''$ra'', ''$pc''}"
proof -
  have "distinct (kRegisterNames @ [''$pc''])" by code_simp
  moreover have "kRegisterNames ! i \<in> set kRegisterNames" by (rule nth_mem) (use assms mips_names(1) in simp)
  ultimately have "kRegisterNames ! i \<noteq> kRegisterNames ! MIPS_SP" "kRegisterNames ! i \<noteq> kRegisterNames ! MIPS_RA"
    "kRegisterNames ! i \<noteq> ''$pc''"
    using assms by (auto simp: mips_names(1) nth_eq_iff_index_eq simp del: nth_mem)
  then show ?thesis by (simp add: mips_names)
qed

text \<open>C38. The registers of a MIPS caller that call frame information gives. The stack pointer is the
  canonical frame address and the return address register the value of the rule for \<open>.ra\<close>; the
  program counter is two words of the processor's width before it. Every other register has the
  value of the rule for its name, or is taken over from the callee if it is one that a callee
  saves, or is zero. In the table of names \<open>$t0\<close> is misspelt, so its value comes from a rule
  for \<open>$to\<close>.\<close>

theorem mips_cfi_registers:
  fixes get :: "'w::len word \<Rightarrow> 'w word option"
  assumes "mips_cfi_caller wide get frames cfi = Some (Some f)"
  shows "\<exists>caller cfa ra. FindCallerRegs cfi (mips_callee_registers (mips_iregs (cpu_context (last frames)))) get
        (mips_callee_registers (mips_iregs (cpu_context (last frames)))) = (Ok, caller) \<and>
      caller ''.cfa'' = Some cfa \<and> caller ''.ra'' = Some ra \<and>
      mips_sp (cpu_context f) = ucast cfa \<and> mips_iregs (cpu_context f) ! 31 = ucast ra \<and>
      mips_epc (cpu_context f) = ucast (ra - 2 * of_nat (LENGTH('w) div 8)) \<and>
      instruction (base_frame f) = mips_epc (cpu_context f) \<and>
      mips_iregs (cpu_context f) ! 8 = (case caller ''$to'' of Some x \<Rightarrow> ucast x | None \<Rightarrow> 0) \<and>
      (\<forall>i<31. i \<noteq> 29 \<longrightarrow> mips_iregs (cpu_context f) ! i =
         (case caller (kRegisterNames ! i) of
            Some x \<Rightarrow> ucast x
          | None \<Rightarrow>
              if mips_saved wide i \<and> context_validity (last frames) AND mips_valid_flag i \<noteq> 0
              then mips_iregs (cpu_context (last frames)) ! i else 0))"
proof -
  let ?last = "last frames"
  let ?callee = "mips_callee_registers (mips_iregs (cpu_context ?last)) :: string \<rightharpoonup> 'w word"
  obtain caller where c: "FindCallerRegs cfi ?callee get ?callee = (Ok, caller)" "f = mips_cfi_frame wide caller ?last"
    using assms by (rule mips_cfi_cases)
  obtain cfa ra where r: "caller ''.cfa'' = Some cfa" "caller ''.ra'' = Some ra"
    using c(1) by (auto simp: FindCallerRegs_def Let_def split: if_splits prod.splits status.splits option.splits)
  let ?regs = "mips_caller_registers caller"
  have regs: "?regs = caller(''$sp'' \<mapsto> cfa, ''$ra'' \<mapsto> ra, ''$pc'' \<mapsto> ra - 2 * of_nat (LENGTH('w) div 8))"
    by (simp add: mips_caller_registers_def r)
  let ?fill = "array_fill mips_valid_flag (mips_saved wide) (\<lambda>n. map_option ucast (?regs n))
    (context_validity ?last) (mips_iregs (cpu_context ?last)) kRegisterNames 0 (mips_iregs mips_zero, 0)"
  obtain iregs v where fill: "?fill = (iregs, v)" by fastforce
  have n: "iregs ! i = (case array_recovered mips_valid_flag (mips_saved wide) (\<lambda>n. map_option ucast (?regs n))
        (context_validity ?last) (mips_iregs (cpu_context ?last)) (kRegisterNames ! i) i of Some x \<Rightarrow> x | None \<Rightarrow> 0)"
    if "i < 32" for i
    using array_fill_nth [of i kRegisterNames 0 "(mips_iregs mips_zero, 0)" mips_valid_flag "mips_saved wide"
        "\<lambda>n. map_option ucast (?regs n)" "context_validity ?last" "mips_iregs (cpu_context ?last)"] that
    by (simp add: fill mips_names(1) mips_zero_iregs split: option.splits)
  have len: "length iregs = 32"
    using array_fill_length [of mips_valid_flag "mips_saved wide" "\<lambda>n. map_option ucast (?regs n)" "context_validity ?last"
        "mips_iregs (cpu_context ?last)" kRegisterNames 0 "(mips_iregs mips_zero, 0)"]
    by (simp add: fill mips_zero_iregs)
  have sub: "subscript ?regs ''$ra'' = ra" "subscript ?regs ''$pc'' = ra - 2 * of_nat (LENGTH('w) div 8)"
    by (simp_all add: subscript_def regs)
  have f: "mips_iregs (cpu_context f) = iregs[31 := ucast ra]"
    "mips_epc (cpu_context f) = ucast (ra - 2 * of_nat (LENGTH('w) div 8))"
    "instruction (base_frame f) = mips_epc (cpu_context f)"
    using sub by (simp_all add: c(2) mips_cfi_frame_def Let_def fill)
  have other: "iregs ! i = (case caller (kRegisterNames ! i) of Some x \<Rightarrow> ucast x
      | None \<Rightarrow> if mips_saved wide i \<and> context_validity ?last AND mips_valid_flag i \<noteq> 0
          then mips_iregs (cpu_context ?last) ! i else 0)" if "i < 31" "i \<noteq> 29" for i
    using n [of i] that mips_name_other [OF that] by (auto simp: array_recovered_def regs split: option.split)
  have "iregs ! 29 = ucast cfa" using n [of 29] by (simp add: mips_names array_recovered_def regs)
  moreover have "iregs ! 8 = (case caller ''$to'' of Some x \<Rightarrow> ucast x | None \<Rightarrow> 0)"
    using other [of 8] by (simp add: mips_names mips_saved_def split: option.split)
  ultimately show ?thesis
    using c(1) r f other len by (intro exI [of _ caller] exI [of _ cfa] exI [of _ ra]) (simp add: mips_sp_def)
qed


section \<open>Evaluation on a small stack\<close>

text \<open>A 32-bit context whose stack pointer is the bottom of \<open>sample_stack64\<close>.\<close>

definition sample_context_mips :: MDRawContextMIPS where
  "sample_context_mips = mips_zero\<lparr>mips_context_flags := MD_CONTEXT_MIPS, mips_epc := 6000,
     mips_iregs := (mips_iregs mips_zero)[8 := 77, MIPS_SP := 4096, MIPS_RA := 5000]\<rparr>"

lemma sample_mips_ok: "mips_ok sample_context_mips" "mips_is_32 sample_context_mips"
  by (simp_all add: mips_ok_def sample_context_mips_def mips_zero_def mips_is_32_def MD_CONTEXT_MIPS_def)


definition sample_leaf_mips :: StackFrameMIPS where
  "sample_leaf_mips = the (mips_GetContextFrame (Some sample_context_mips))"

lemma sample_leaf_mips_caller:
  "\<exists>f. mips_cfi_caller False (mips_read32 sample_stack64) [sample_leaf_mips] (leaf_info ''$sp'' ''$ra'') = Some (Some f)"
proof -
  let ?c = "mips_callee_registers (mips_iregs (cpu_context sample_leaf_mips)) :: string \<rightharpoonup> u32"
  have "?c ''$sp'' = Some 4096" "?c ''$ra'' = Some 5000" by code_simp+
  then have "\<exists>caller. FindCallerRegs (leaf_info ''$sp'' ''$ra'') ?c (mips_read32 sample_stack64) ?c = (Ok, caller)"
    using leaf_info_regs [of "''$sp''" "''$ra''" ?c 4096 5000 "mips_read32 sample_stack64"]
    by (auto simp: rule_expr_simps FindCallerRegs_def leaf_info_def)
  then show ?thesis by (auto simp: mips_cfi_caller_def Let_def)
qed

text \<open>The value of \<open>$t0\<close> is lost.\<close>

theorem mips_cfi_registers_witness:
  "\<exists>f. mips_cfi_caller False (mips_read32 sample_stack64) [sample_leaf_mips] (leaf_info ''$sp'' ''$ra'') = Some (Some f) \<and>
     instruction (base_frame f) = mips_epc (cpu_context f) \<and> mips_iregs (cpu_context sample_leaf_mips) ! 8 = 77"
proof -
  obtain f where f: "mips_cfi_caller False (mips_read32 sample_stack64) [sample_leaf_mips] (leaf_info ''$sp'' ''$ra'') = Some (Some f)"
    using sample_leaf_mips_caller by blast
  have "mips_iregs (cpu_context sample_leaf_mips) ! 8 = 77" by code_simp
  then show ?thesis using f mips_cfi_registers [OF f] by blast
qed

end
