(* ===== verification/Stackwalker_CPU.thy ===== *)
theory Stackwalker_CPU
  imports Stackwalker_AMD64 Stackwalker_ARM Stackwalker_ARM64 Stackwalker_MIPS Stackwalker_Chain Stackwalker_X86
begin

text \<open>
  The CPU context of a dump (\<open>google_breakpad/processor/dump_context.h\<close>, \<open>processor/dump_context.cc\<close>) and
  the choice of a walker for it (\<open>Stackwalker::StackwalkerForCPU\<close> in \<open>processor/stackwalker.cc\<close>).
\<close>

section \<open>The context of a dump\<close>

definition MD_CONTEXT_CPU_MASK :: u32 where
  "MD_CONTEXT_CPU_MASK = 0xffffff00"

definition MD_CONTEXT_X86 :: u32 where "MD_CONTEXT_X86 = 0x00010000"
definition MD_CONTEXT_PPC :: u32 where "MD_CONTEXT_PPC = 0x20000000"
definition MD_CONTEXT_PPC64 :: u32 where "MD_CONTEXT_PPC64 = 0x01000000"
definition MD_CONTEXT_AMD64 :: u32 where "MD_CONTEXT_AMD64 = 0x00100000"
definition MD_CONTEXT_SPARC :: u32 where "MD_CONTEXT_SPARC = 0x10000000"
definition MD_CONTEXT_ARM :: u32 where "MD_CONTEXT_ARM = 0x40000000"
definition MD_CONTEXT_ARM64 :: u32 where "MD_CONTEXT_ARM64 = 0x80000000"

lemmas md_context_defs = MD_CONTEXT_X86_def MD_CONTEXT_PPC_def MD_CONTEXT_PPC64_def MD_CONTEXT_AMD64_def
  MD_CONTEXT_SPARC_def MD_CONTEXT_ARM_def MD_CONTEXT_ARM64_def MD_CONTEXT_MIPS_def MD_CONTEXT_MIPS64_def

text \<open>The union of pointers: the constructor is the member that was written last.\<close>

datatype RawContext =
    CtxX86 MDRawContextX86
  | CtxPPC "u32 MDRawContextPPC"
  | CtxPPC64 "u64 MDRawContextPPC"
  | CtxAMD64 MDRawContextAMD64
  | CtxSPARC MDRawContextSPARC
  | CtxARM MDRawContextARM
  | CtxARM64 MDRawContextARM64
  | CtxMIPS MDRawContextMIPS

record DumpContext =
  dc_valid :: bool
  dc_context :: "RawContext option"
  dc_context_flags :: u32

definition DumpContext_init :: DumpContext where
  "DumpContext_init = \<lparr>dc_valid = False, dc_context = None, dc_context_flags = 0\<rparr>"

definition GetContextCPU :: "DumpContext \<Rightarrow> u32" where
  "GetContextCPU d = (if dc_valid d then dc_context_flags d AND MD_CONTEXT_CPU_MASK else 0)"

definition GetContextFlags :: "DumpContext \<Rightarrow> u32" where
  "GetContextFlags d = dc_context_flags d"

text \<open>Reading a member of the union, \<open>sel\<close> being the part of \<open>RawContext\<close> that it stands for. The
  inner \<open>None\<close> is \<open>NULL\<close>; a pointer that was stored as another member gives no result.\<close>

definition union_member :: "(RawContext \<Rightarrow> 'c option) \<Rightarrow> DumpContext \<Rightarrow> 'c option option" where
  "union_member sel d = (case dc_context d of None \<Rightarrow> Some None | Some c \<Rightarrow> map_option Some (sel c))"

definition GetContextX86 :: "DumpContext \<Rightarrow> MDRawContextX86 option option" where
  "GetContextX86 d =
     (if GetContextCPU d \<noteq> MD_CONTEXT_X86 then Some None
      else union_member (\<lambda>c. case c of CtxX86 x86 \<Rightarrow> Some x86 | _ \<Rightarrow> None) d)"

definition GetContextPPC :: "DumpContext \<Rightarrow> u32 MDRawContextPPC option option" where
  "GetContextPPC d =
     (if GetContextCPU d \<noteq> MD_CONTEXT_PPC then Some None
      else union_member (\<lambda>c. case c of CtxPPC ppc \<Rightarrow> Some ppc | _ \<Rightarrow> None) d)"

definition GetContextPPC64 :: "DumpContext \<Rightarrow> u64 MDRawContextPPC option option" where
  "GetContextPPC64 d =
     (if GetContextCPU d \<noteq> MD_CONTEXT_PPC64 then Some None
      else union_member (\<lambda>c. case c of CtxPPC64 ppc64 \<Rightarrow> Some ppc64 | _ \<Rightarrow> None) d)"

definition GetContextAMD64 :: "DumpContext \<Rightarrow> MDRawContextAMD64 option option" where
  "GetContextAMD64 d =
     (if GetContextCPU d \<noteq> MD_CONTEXT_AMD64 then Some None
      else union_member (\<lambda>c. case c of CtxAMD64 amd64 \<Rightarrow> Some amd64 | _ \<Rightarrow> None) d)"

definition GetContextSPARC :: "DumpContext \<Rightarrow> MDRawContextSPARC option option" where
  "GetContextSPARC d =
     (if GetContextCPU d \<noteq> MD_CONTEXT_SPARC then Some None
      else union_member (\<lambda>c. case c of CtxSPARC sparc \<Rightarrow> Some sparc | _ \<Rightarrow> None) d)"

definition GetContextARM :: "DumpContext \<Rightarrow> MDRawContextARM option option" where
  "GetContextARM d =
     (if GetContextCPU d \<noteq> MD_CONTEXT_ARM then Some None
      else union_member (\<lambda>c. case c of CtxARM arm \<Rightarrow> Some arm | _ \<Rightarrow> None) d)"

definition GetContextARM64 :: "DumpContext \<Rightarrow> MDRawContextARM64 option option" where
  "GetContextARM64 d =
     (if GetContextCPU d \<noteq> MD_CONTEXT_ARM64 then Some None
      else union_member (\<lambda>c. case c of CtxARM64 arm64 \<Rightarrow> Some arm64 | _ \<Rightarrow> None) d)"

definition GetContextMIPS :: "DumpContext \<Rightarrow> MDRawContextMIPS option option" where
  "GetContextMIPS d =
     (if GetContextCPU d \<noteq> MD_CONTEXT_MIPS \<and> GetContextCPU d \<noteq> MD_CONTEXT_MIPS64 then Some None
      else union_member (\<lambda>c. case c of CtxMIPS mips \<Rightarrow> Some mips | _ \<Rightarrow> None) d)"

text \<open>A register through a pointer that may be null.\<close>

definition deref :: "('c \<Rightarrow> 'a) \<Rightarrow> 'c option option \<Rightarrow> 'a option" where
  "deref reg p = (case p of Some (Some c) \<Rightarrow> Some (reg c) | _ \<Rightarrow> None)"

definition GetInstructionPointer :: "DumpContext \<Rightarrow> (bool \<times> u64) option" where
  "GetInstructionPointer d =
     (if \<not> dc_valid d then Some (False, 0)
      else
        (let cpu = GetContextCPU d in
         if cpu = MD_CONTEXT_AMD64 then map_option (Pair True) (deref rip (GetContextAMD64 d))
         else if cpu = MD_CONTEXT_ARM then map_option (Pair True) (deref arm_pc (GetContextARM d))
         else if cpu = MD_CONTEXT_ARM64 then map_option (Pair True) (deref arm64_pc (GetContextARM64 d))
         else if cpu = MD_CONTEXT_PPC then map_option (Pair True) (deref (\<lambda>c. ucast (ppc_srr0 c)) (GetContextPPC d))
         else if cpu = MD_CONTEXT_PPC64 then map_option (Pair True) (deref ppc_srr0 (GetContextPPC64 d))
         else if cpu = MD_CONTEXT_SPARC then map_option (Pair True) (deref sparc_pc (GetContextSPARC d))
         else if cpu = MD_CONTEXT_X86 then map_option (Pair True) (deref (\<lambda>c. ucast (eip c)) (GetContextX86 d))
         else if cpu = MD_CONTEXT_MIPS \<or> cpu = MD_CONTEXT_MIPS64
         then map_option (Pair True) (deref mips_epc (GetContextMIPS d))
         else Some (False, 0)))"

definition GetStackPointer :: "DumpContext \<Rightarrow> (bool \<times> u64) option" where
  "GetStackPointer d =
     (if \<not> dc_valid d then Some (False, 0)
      else
        (let cpu = GetContextCPU d in
         if cpu = MD_CONTEXT_AMD64 then map_option (Pair True) (deref rsp (GetContextAMD64 d))
         else if cpu = MD_CONTEXT_ARM then map_option (Pair True) (deref arm_sp (GetContextARM d))
         else if cpu = MD_CONTEXT_ARM64 then map_option (Pair True) (deref arm64_sp (GetContextARM64 d))
         else if cpu = MD_CONTEXT_PPC then map_option (Pair True) (deref (\<lambda>c. ucast (ppc_gpr c ! 1)) (GetContextPPC d))
         else if cpu = MD_CONTEXT_PPC64 then map_option (Pair True) (deref (\<lambda>c. ppc_gpr c ! 1) (GetContextPPC64 d))
         else if cpu = MD_CONTEXT_SPARC then map_option (Pair True) (deref (\<lambda>c. sparc_g_r c ! 14) (GetContextSPARC d))
         else if cpu = MD_CONTEXT_X86 then map_option (Pair True) (deref (\<lambda>c. ucast (esp c)) (GetContextX86 d))
         else if cpu = MD_CONTEXT_MIPS \<or> cpu = MD_CONTEXT_MIPS64
         then map_option (Pair True) (deref mips_sp (GetContextMIPS d))
         else Some (False, 0)))"

definition SetContextFlags :: "u32 \<Rightarrow> DumpContext \<Rightarrow> DumpContext" where
  "SetContextFlags flags d = d\<lparr>dc_context_flags := flags\<rparr>"

definition SetContextX86 :: "MDRawContextX86 option \<Rightarrow> DumpContext \<Rightarrow> DumpContext" where
  "SetContextX86 p d = d\<lparr>dc_context := map_option CtxX86 p\<rparr>"

definition SetContextPPC :: "u32 MDRawContextPPC option \<Rightarrow> DumpContext \<Rightarrow> DumpContext" where
  "SetContextPPC p d = d\<lparr>dc_context := map_option CtxPPC p\<rparr>"

definition SetContextPPC64 :: "u64 MDRawContextPPC option \<Rightarrow> DumpContext \<Rightarrow> DumpContext" where
  "SetContextPPC64 p d = d\<lparr>dc_context := map_option CtxPPC64 p\<rparr>"

definition SetContextAMD64 :: "MDRawContextAMD64 option \<Rightarrow> DumpContext \<Rightarrow> DumpContext" where
  "SetContextAMD64 p d = d\<lparr>dc_context := map_option CtxAMD64 p\<rparr>"

definition SetContextSPARC :: "MDRawContextSPARC option \<Rightarrow> DumpContext \<Rightarrow> DumpContext" where
  "SetContextSPARC p d = d\<lparr>dc_context := map_option CtxSPARC p\<rparr>"

definition SetContextARM :: "MDRawContextARM option \<Rightarrow> DumpContext \<Rightarrow> DumpContext" where
  "SetContextARM p d = d\<lparr>dc_context := map_option CtxARM p\<rparr>"

definition SetContextARM64 :: "MDRawContextARM64 option \<Rightarrow> DumpContext \<Rightarrow> DumpContext" where
  "SetContextARM64 p d = d\<lparr>dc_context := map_option CtxARM64 p\<rparr>"

definition SetContextMIPS :: "MDRawContextMIPS option \<Rightarrow> DumpContext \<Rightarrow> DumpContext" where
  "SetContextMIPS p d = d\<lparr>dc_context := map_option CtxMIPS p\<rparr>"

definition FreeContext :: "DumpContext \<Rightarrow> DumpContext" where
  "FreeContext d = d\<lparr>dc_context_flags := 0, dc_context := None\<rparr>"

section \<open>Choosing a walker\<close>

text \<open>A walker for one CPU: what its constructor was given. The MIPS walker has the memory that its
  constructor left it.\<close>

datatype CpuWalker =
    WalkerX86 WalkerEnv "MDRawContextX86 option"
  | WalkerPPC WalkerEnv "u32 MDRawContextPPC option"
  | WalkerPPC64 WalkerEnv "u64 MDRawContextPPC option"
  | WalkerAMD64 WalkerEnv "MDRawContextAMD64 option"
  | WalkerSPARC WalkerEnv "MDRawContextSPARC option"
  | WalkerMIPS WalkerEnv "MDRawContextMIPS option"
  | WalkerARM int WalkerEnv "MDRawContextARM option"
  | WalkerARM64 WalkerEnv "MDRawContextARM64 option"

definition MD_CONTEXT_ARM_REG_IOS_FP :: int where
  "MD_CONTEXT_ARM_REG_IOS_FP = 7"

text \<open>The outer option is the crash on a null \<open>system_info\<close> for ARM or on a null context for MIPS.\<close>

definition StackwalkerForCPU ::
  "SystemInfo option \<Rightarrow> DumpContext option \<Rightarrow> MemoryRegion option \<Rightarrow> CodeModules option \<Rightarrow> CodeModules option
     \<Rightarrow> CpuWalker option option" where
  "StackwalkerForCPU system_info context memory modules unloaded_modules =
     (case context of
        None \<Rightarrow> Some None
      | Some d \<Rightarrow>
          (let cpu = GetContextCPU d;
               env = \<lparr>w_system_info = system_info, w_memory = memory, w_modules = modules,
                      w_unloaded_modules = unloaded_modules\<rparr>
           in if cpu = MD_CONTEXT_X86 then do { c \<leftarrow> GetContextX86 d; Some (Some (WalkerX86 env c)) }
              else if cpu = MD_CONTEXT_PPC then do { c \<leftarrow> GetContextPPC d; Some (Some (WalkerPPC env c)) }
              else if cpu = MD_CONTEXT_PPC64 then do { c \<leftarrow> GetContextPPC64 d; Some (Some (WalkerPPC64 env c)) }
              else if cpu = MD_CONTEXT_AMD64 then do { c \<leftarrow> GetContextAMD64 d; Some (Some (WalkerAMD64 env c)) }
              else if cpu = MD_CONTEXT_SPARC then do { c \<leftarrow> GetContextSPARC d; Some (Some (WalkerSPARC env c)) }
              else if cpu = MD_CONTEXT_MIPS \<or> cpu = MD_CONTEXT_MIPS64
              then do { c \<leftarrow> GetContextMIPS d;
                        env' \<leftarrow> StackwalkerMIPS_env env c;
                        Some (Some (WalkerMIPS env' c)) }
              else if cpu = MD_CONTEXT_ARM
              then do { si \<leftarrow> system_info;
                        let fp_register = (if os_short si = ''ios'' then MD_CONTEXT_ARM_REG_IOS_FP else -1);
                        c \<leftarrow> GetContextARM d;
                        Some (Some (WalkerARM fp_register env c)) }
              else if cpu = MD_CONTEXT_ARM64 then do { c \<leftarrow> GetContextARM64 d; Some (Some (WalkerARM64 env c)) }
              else Some None))"

text \<open>Calling \<open>Walk\<close> and \<open>GetContextFrame\<close> on it; a caller sees the frames as \<open>StackFrame\<close>.\<close>

definition as_frames :: "('c, 'v, 'z) StackFrameCpu_scheme WalkState \<Rightarrow> StackFrame WalkState" where
  "as_frames w = \<lparr>ws_frames = map base_frame (ws_frames w), ws_scanned_frames = ws_scanned_frames w,
     modules_without_symbols = modules_without_symbols w,
     modules_with_corrupt_symbols = modules_with_corrupt_symbols w\<rparr>"

definition walk_as_frames ::
  "WalkerEnv \<Rightarrow> WalkLimits \<Rightarrow> (('c, 'v, 'z) StackFrameCpu_scheme, ('p, 'r) StackFrameSymbolizer) StackwalkerOps
     \<Rightarrow> ('p, 'r) StackFrameSymbolizer \<Rightarrow> CodeModule list \<Rightarrow> CodeModule list
     \<Rightarrow> (bool \<times> StackFrame WalkState \<times> ('p, 'r) StackFrameSymbolizer) option" where
  "walk_as_frames env lim ops y ms cs = map_option (\<lambda>(ok, w, y'). (ok, as_frames w, y')) (Walk env lim ops y ms cs)"

fun cpu_Walk ::
  "CpuWalker \<Rightarrow> WalkLimits \<Rightarrow> ('p, 'r) StackFrameSymbolizer \<Rightarrow> CodeModule list \<Rightarrow> CodeModule list
     \<Rightarrow> (bool \<times> StackFrame WalkState \<times> ('p, 'r) StackFrameSymbolizer) option" where
  "cpu_Walk (WalkerX86 env c) lim y ms cs = walk_as_frames env lim (x86_ops env c) y ms cs"
| "cpu_Walk (WalkerPPC env c) lim y ms cs = walk_as_frames env lim (ppc_ops env c) y ms cs"
| "cpu_Walk (WalkerPPC64 env c) lim y ms cs = walk_as_frames env lim (ppc64_ops env c) y ms cs"
| "cpu_Walk (WalkerAMD64 env c) lim y ms cs = walk_as_frames env lim (amd64_ops env c) y ms cs"
| "cpu_Walk (WalkerSPARC env c) lim y ms cs = walk_as_frames env lim (sparc_ops env c) y ms cs"
| "cpu_Walk (WalkerMIPS env c) lim y ms cs = walk_as_frames env lim (mips_ops env c) y ms cs"
| "cpu_Walk (WalkerARM fp_register env c) lim y ms cs = walk_as_frames env lim (arm_ops fp_register env c) y ms cs"
| "cpu_Walk (WalkerARM64 env c) lim y ms cs = walk_as_frames env lim (arm64_ops env c) y ms cs"

fun cpu_GetContextFrame :: "CpuWalker \<Rightarrow> StackFrame option" where
  "cpu_GetContextFrame (WalkerX86 env c) = map_option base_frame (x86_GetContextFrame c)"
| "cpu_GetContextFrame (WalkerPPC env c) = map_option base_frame (ppc_GetContextFrame c)"
| "cpu_GetContextFrame (WalkerPPC64 env c) = map_option base_frame (ppc_GetContextFrame c)"
| "cpu_GetContextFrame (WalkerAMD64 env c) = map_option base_frame (amd64_GetContextFrame c)"
| "cpu_GetContextFrame (WalkerSPARC env c) = map_option base_frame (sparc_GetContextFrame c)"
| "cpu_GetContextFrame (WalkerMIPS env c) = map_option base_frame (mips_GetContextFrame c)"
| "cpu_GetContextFrame (WalkerARM fp_register env c) = map_option base_frame (arm_GetContextFrame c)"
| "cpu_GetContextFrame (WalkerARM64 env c) = map_option base_frame (arm64_GetContextFrame c)"


section \<open>Every context is walked\<close>

text \<open>What \<open>MinidumpContext::Read\<close> leaves behind: a valid context whose flags name the CPU of the
  structure that was stored.\<close>

definition context_matches :: "DumpContext \<Rightarrow> bool" where
  "context_matches d \<longleftrightarrow> dc_valid d \<and>
     (case dc_context d of
        None \<Rightarrow> False
      | Some (CtxX86 _) \<Rightarrow> GetContextCPU d = MD_CONTEXT_X86
      | Some (CtxPPC _) \<Rightarrow> GetContextCPU d = MD_CONTEXT_PPC
      | Some (CtxPPC64 _) \<Rightarrow> GetContextCPU d = MD_CONTEXT_PPC64
      | Some (CtxAMD64 _) \<Rightarrow> GetContextCPU d = MD_CONTEXT_AMD64
      | Some (CtxSPARC _) \<Rightarrow> GetContextCPU d = MD_CONTEXT_SPARC
      | Some (CtxARM _) \<Rightarrow> GetContextCPU d = MD_CONTEXT_ARM
      | Some (CtxARM64 _) \<Rightarrow> GetContextCPU d = MD_CONTEXT_ARM64
      | Some (CtxMIPS _) \<Rightarrow> GetContextCPU d \<in> {MD_CONTEXT_MIPS, MD_CONTEXT_MIPS64})"

lemmas get_context_defs = GetContextX86_def GetContextPPC_def GetContextPPC64_def GetContextAMD64_def
  GetContextSPARC_def GetContextARM_def GetContextARM64_def GetContextMIPS_def union_member_def

lemmas selects = StackwalkerForCPU_def GetInstructionPointer_def get_context_defs md_context_defs deref_def
  StackwalkerMIPS_env_def mips_GetContextFrame_def x86_GetContextFrame_def ppc_GetContextFrame_def
  amd64_GetContextFrame_def sparc_GetContextFrame_def arm_GetContextFrame_def arm64_GetContextFrame_def
  arm64_pc_def StackFrameX86_make_def Let_def

text \<open>The contract under which all the walkers come back.\<close>

definition walkable :: "MemoryRegion option \<Rightarrow> ('p, 'r) StackFrameSymbolizer \<Rightarrow> bool" where
  "walkable memory y \<longleftrightarrow>
     (\<forall>m. memory = Some m \<longrightarrow> bounded_region m \<and> cfi_safe (mem64 m) y \<and>
        cfi_safe (\<lambda>a :: u32. mem32 m (ucast a)) y \<and> windows_safe (\<lambda>a :: u32. mem32 m (ucast a)) y)"

fun walker_env :: "CpuWalker \<Rightarrow> WalkerEnv" where
  "walker_env (WalkerX86 env c) = env"
| "walker_env (WalkerPPC env c) = env"
| "walker_env (WalkerPPC64 env c) = env"
| "walker_env (WalkerAMD64 env c) = env"
| "walker_env (WalkerSPARC env c) = env"
| "walker_env (WalkerMIPS env c) = env"
| "walker_env (WalkerARM fp_register env c) = env"
| "walker_env (WalkerARM64 env c) = env"

lemma walk_as_frames_Some: "(\<exists>r. walk_as_frames env lim ops y ms cs = Some r) \<longleftrightarrow> (\<exists>r. Walk env lim ops y ms cs = Some r)"
  by (auto simp: walk_as_frames_def)

lemma x86_read_alt: "x86_read m = (\<lambda>a. mem32 m (ucast a))"
  by (rule ext) (simp add: x86_read_def)

lemma cpu_Walk_returns:
  assumes "walkable (w_memory (walker_env w)) y" "w_system_info (walker_env w) \<noteq> None"
    and "\<And>env. w \<noteq> WalkerMIPS env None"
  shows "\<exists>r. cpu_Walk w lim y ms cs = Some r"
proof (cases w)
  case (WalkerX86 env c)
  then have "x86_ready (StackwalkerX86_env env) y"
    using assms(1) by (auto simp: walkable_def x86_ready_def x86_read_alt StackwalkerX86_env_def memory_below_4G_def split: option.splits if_splits)
  then show ?thesis unfolding WalkerX86 cpu_Walk.simps walk_as_frames_Some by (rule x86_returns.Walk_returns)
next
  case (WalkerPPC env c)
  show ?thesis unfolding WalkerPPC cpu_Walk.simps walk_as_frames_Some by (rule ppc_returns.Walk_returns) simp
next
  case (WalkerPPC64 env c)
  show ?thesis unfolding WalkerPPC64 cpu_Walk.simps walk_as_frames_Some by (rule ppc64_returns.Walk_returns) simp
next
  case (WalkerSPARC env c)
  show ?thesis unfolding WalkerSPARC cpu_Walk.simps walk_as_frames_Some by (rule sparc_returns.Walk_returns) simp
next
  case (WalkerAMD64 env c)
  show ?thesis
    unfolding WalkerAMD64 cpu_Walk.simps walk_as_frames_Some
    by (rule amd64_returns.Walk_returns) (use assms WalkerAMD64 in \<open>simp add: walk_ready_def walkable_def\<close>)
next
  case (WalkerMIPS env c)
  then obtain d where d: "c = Some d" using assms(3) by (cases c) auto
  show ?thesis
    unfolding WalkerMIPS d cpu_Walk.simps walk_as_frames_Some
    by (rule mips_returns.Walk_returns) (use assms WalkerMIPS in \<open>simp add: mips_ready_def walk_ready_def walkable_def\<close>)
next
  case (WalkerARM fp_register env c)
  show ?thesis
    unfolding WalkerARM cpu_Walk.simps walk_as_frames_Some
    by (rule arm_returns.Walk_returns) (use assms WalkerARM in \<open>simp add: walk_ready_def walkable_def\<close>)
next
  case (WalkerARM64 env c)
  show ?thesis
    unfolding WalkerARM64 cpu_Walk.simps walk_as_frames_Some
    by (rule arm64_returns.Walk_returns) (use assms WalkerARM64 in \<open>simp add: walk_ready_def walkable_def\<close>)
qed

text \<open>The selection finds the walker of the context's CPU, which starts at the instruction that
  \<open>GetInstructionPointer\<close> reports.\<close>

lemma StackwalkerForCPU_selects:
  assumes "context_matches d"
  shows "\<exists>w f. StackwalkerForCPU (Some si) (Some d) memory modules unloaded_modules = Some (Some w) \<and>
    GetInstructionPointer d = Some (True, instruction f) \<and> cpu_GetContextFrame w = Some f \<and>
    trust f = FRAME_TRUST_CONTEXT \<and> w_system_info (walker_env w) = Some si \<and>
    (w_memory (walker_env w) = memory \<or> w_memory (walker_env w) = None) \<and> (\<forall>env. w \<noteq> WalkerMIPS env None)"
proof -
  obtain c where c: "dc_context d = Some c" and v: "dc_valid d"
    using assms by (auto simp: context_matches_def split: option.splits)
  show ?thesis
  proof (cases c)
    case (CtxX86 m)
    then have "GetContextCPU d = MD_CONTEXT_X86" using assms c by (simp add: context_matches_def)
    then show ?thesis using c v CtxX86 by (auto simp: selects)
  next
    case (CtxPPC m)
    then have "GetContextCPU d = MD_CONTEXT_PPC" using assms c by (simp add: context_matches_def)
    then show ?thesis using c v CtxPPC by (auto simp: selects)
  next
    case (CtxPPC64 m)
    then have "GetContextCPU d = MD_CONTEXT_PPC64" using assms c by (simp add: context_matches_def)
    then show ?thesis using c v CtxPPC64 by (auto simp: selects)
  next
    case (CtxAMD64 m)
    then have "GetContextCPU d = MD_CONTEXT_AMD64" using assms c by (simp add: context_matches_def)
    then show ?thesis using c v CtxAMD64 by (auto simp: selects)
  next
    case (CtxSPARC m)
    then have "GetContextCPU d = MD_CONTEXT_SPARC" using assms c by (simp add: context_matches_def)
    then show ?thesis using c v CtxSPARC by (auto simp: selects)
  next
    case (CtxARM m)
    then have "GetContextCPU d = MD_CONTEXT_ARM" using assms c by (simp add: context_matches_def)
    then show ?thesis using c v CtxARM by (auto simp: selects)
  next
    case (CtxARM64 m)
    then have "GetContextCPU d = MD_CONTEXT_ARM64" using assms c by (simp add: context_matches_def)
    then show ?thesis using c v CtxARM64 by (auto simp: selects)
  next
    case (CtxMIPS m)
    then have "GetContextCPU d = MD_CONTEXT_MIPS \<or> GetContextCPU d = MD_CONTEXT_MIPS64"
      using assms c by (simp add: context_matches_def)
    then show ?thesis using c v CtxMIPS by (cases memory) (auto simp: selects)
  qed
qed


definition sample_dump_context :: DumpContext where
  "sample_dump_context = SetContextFlags (MD_CONTEXT_MIPS OR 2) (SetContextMIPS (Some sample_context_mips)
     (DumpContext_init\<lparr>dc_valid := True\<rparr>))"


end
