(* ===== verification/Address_Map.thy ===== *)
theory Address_Map
  imports Std_Map
begin

text \<open>
  \<open>AddressMap\<close> (\<open>processor/address_map.h\<close>, \<open>processor/address_map-inl.h\<close>): entries at single
  addresses, looked up by the highest address that is not above the one asked for.
\<close>

type_synonym ('a, 'e) AddressMap = "('a, 'e) std_map"

definition AddressMap_init :: "('a, 'e) AddressMap" where
  "AddressMap_init = []"

definition AddressMap_Store ::
  "('a::linorder, 'e) AddressMap \<Rightarrow> 'a \<Rightarrow> 'e \<Rightarrow> bool \<times> ('a, 'e) AddressMap" where
  "AddressMap_Store m address entry =
     (if map_find m address \<noteq> length m then (False, m) else (True, map_insert m address entry))"

text \<open>The entry and the address it was stored at.\<close>

definition AddressMap_Retrieve :: "('a::linorder, 'e) AddressMap \<Rightarrow> 'a \<Rightarrow> ('e \<times> 'a) option" where
  "AddressMap_Retrieve m address =
     (let iterator = upper_bound m address in
      if iterator = 0 then None
      else Some (snd (m ! (iterator - 1)), fst (m ! (iterator - 1))))"

definition AddressMap_Clear :: "('a, 'e) AddressMap \<Rightarrow> ('a, 'e) AddressMap" where
  "AddressMap_Clear m = []"

lemma AddressMap_Store_ok: "map_ok m \<Longrightarrow> map_ok (snd (AddressMap_Store m a e))"
  by (simp add: AddressMap_Store_def map_ok_insert)

lemma AddressMap_Retrieve_Some:
  assumes "map_ok m" "AddressMap_Retrieve m a = Some (e, b)"
  shows "(b, e) \<in> set m" "b \<le> a" "(b', e') \<in> set m \<Longrightarrow> b' \<le> a \<Longrightarrow> b' \<le> b"
proof -
  let ?u = "upper_bound m a"
  have u: "0 < ?u" "m ! (?u - 1) = (b, e)"
    using assms(2) by (auto simp: AddressMap_Retrieve_def Let_def prod_eq_iff split: if_splits)
  have l: "?u - 1 < length m" using u(1) upper_bound_le [of m a] by linarith
  show "(b, e) \<in> set m" using l u(2) by (metis nth_mem)
  show "b \<le> a" using upper_bound_below [of "?u - 1" m a] u by simp
  show "b' \<le> b" if mem: "(b', e') \<in> set m" and le: "b' \<le> a"
  proof -
    obtain i where i: "i < length m" "m ! i = (b', e')" using mem by (auto simp: in_set_conv_nth)
    have "i < ?u"
      using upper_bound_above [OF assms(1), of a i] i le by (metis fst_conv leD not_le_imp_less)
    then have "i = ?u - 1 \<or> i < ?u - 1" by linarith
    then show ?thesis using map_ok_nth [OF assms(1), of i "?u - 1"] i(2) u l by auto
  qed
qed

lemma AddressMap_Retrieve_None:
  assumes "map_ok m" "AddressMap_Retrieve m a = None" "(b, e) \<in> set m"
  shows "a < b"
proof -
  have "upper_bound m a = 0" using assms(2) by (simp add: AddressMap_Retrieve_def Let_def split: if_splits)
  then show ?thesis using upper_bound_above [OF assms(1), of a] assms(3) by (force simp: in_set_conv_nth)
qed

inductive AddressMap_reachable :: "('a::linorder, 'e) AddressMap \<Rightarrow> bool" where
  am_init: "AddressMap_reachable AddressMap_init"
| am_store: "AddressMap_reachable m \<Longrightarrow> AddressMap_reachable (snd (AddressMap_Store m a e))"
| am_clear: "AddressMap_reachable m \<Longrightarrow> AddressMap_reachable (AddressMap_Clear m)"

lemma AddressMap_reachable_ok: "AddressMap_reachable m \<Longrightarrow> map_ok m"
  by (induction rule: AddressMap_reachable.induct)
    (simp_all add: AddressMap_init_def AddressMap_Store_ok AddressMap_Clear_def)

text \<open>In every address map the class can build, \<open>Store\<close> refuses exactly the addresses that are
  taken and otherwise adds the entry, and \<open>Retrieve\<close> returns the entry with the highest
  address not above the one asked for.\<close>

theorem AddressMap_Store_Retrieve:
  assumes "AddressMap_reachable m"
  shows "(case AddressMap_Store m a e of (stored, m') \<Rightarrow>
      (stored \<longleftrightarrow> a \<notin> fst ` set m) \<and> set m' = (if stored then insert (a, e) (set m) else set m)) \<and>
    (case AddressMap_Retrieve m a of
       None \<Rightarrow> \<forall>x\<in>set m. a < fst x
     | Some (e', b) \<Rightarrow> (b, e') \<in> set m \<and> b \<le> a \<and> (\<forall>x\<in>set m. fst x \<le> a \<longrightarrow> fst x \<le> b))"
proof -
  note ok = AddressMap_reachable_ok [OF assms]
  have "case AddressMap_Store m a e of (stored, m') \<Rightarrow>
      (stored \<longleftrightarrow> a \<notin> fst ` set m) \<and> set m' = (if stored then insert (a, e) (set m) else set m)"
    using map_find_iff [OF ok, of a] set_insert_new [OF ok, of a e] by (auto simp: AddressMap_Store_def)
  moreover have "case AddressMap_Retrieve m a of
       None \<Rightarrow> \<forall>x\<in>set m. a < fst x
     | Some (e', b) \<Rightarrow> (b, e') \<in> set m \<and> b \<le> a \<and> (\<forall>x\<in>set m. fst x \<le> a \<longrightarrow> fst x \<le> b)"
    using AddressMap_Retrieve_Some [OF ok, of a] AddressMap_Retrieve_None [OF ok, of a]
    by (auto split: option.split)
  ultimately show ?thesis by blast
qed

definition sample_addresses :: "(u64, nat) AddressMap" where
  "sample_addresses = snd (AddressMap_Store (snd (AddressMap_Store AddressMap_init 16 1)) 32 2)"

theorem AddressMap_Store_Retrieve_witness:
  "\<not> fst (AddressMap_Store sample_addresses 16 7) \<and> AddressMap_Retrieve sample_addresses 31 = Some (1, 16) \<and>
   (16, 1) \<in> set sample_addresses"
proof -
  have r: "AddressMap_reachable sample_addresses"
    unfolding sample_addresses_def by (intro AddressMap_reachable.intros)
  have "16 \<in> fst ` set sample_addresses" by code_simp
  moreover have g: "AddressMap_Retrieve sample_addresses 31 = Some (1, 16)" by code_simp
  ultimately show ?thesis
    using AddressMap_Store_Retrieve [OF r, of 16 7] AddressMap_Store_Retrieve [OF r, of 31 7] by (auto simp: case_prod_beta)
qed

end
