(* ===== verification/Map_Serializers.thy ===== *)
theory Map_Serializers
  imports Memory_Region Address_Map Range_Map Contained_Range_Map Bp_Strings "HOL-Library.Monad_Syntax"
begin

text \<open>
  Serialization of the maps of a module into one block of memory
  (\<open>processor/simple_serializer.h\<close>, \<open>simple_serializer-inl.h\<close>, \<open>map_serializers.h\<close>,
  \<open>map_serializers-inl.h\<close>).

  The block is a list of bytes and a destination pointer is a position in it. A write outside the
  block is \<open>None\<close>, so that a result \<open>Some\<close> is also the statement that the code stayed inside
  the memory it had allocated. The writers fill three regions of the block at the same time,
  the offsets, the keys and the values; the locale \<open>serializer\<close> says that what they leave is
  a given sequence of bytes, and its instances give that sequence for every serialized type.
  The host is little-endian and \<open>size_t\<close> has no bound.
\<close>

section \<open>Blocks of memory\<close>

type_synonym buffer = "u8 list"

definition wr :: "buffer \<Rightarrow> nat \<Rightarrow> u8 list \<Rightarrow> buffer option" where
  "wr buf dest bs =
     (if dest + length bs \<le> length buf
      then Some (take dest buf @ bs @ drop (dest + length bs) buf) else None)"

definition rd :: "buffer \<Rightarrow> int \<Rightarrow> nat \<Rightarrow> u8 list option" where
  "rd buf p n = (if 0 \<le> p \<and> nat p + n \<le> length buf then Some (take n (drop (nat p) buf)) else None)"

definition holds :: "buffer \<Rightarrow> int \<Rightarrow> u8 list \<Rightarrow> bool" where
  "holds buf p bs \<longleftrightarrow> rd buf p (length bs) = Some bs"

lemma wr_middle: "length old = length bs \<Longrightarrow> wr (pre @ old @ post) (length pre) bs = Some (pre @ bs @ post)"
  by (simp add: wr_def)

lemma holds_iff: "holds buf p bs \<longleftrightarrow> (\<exists>pre post. buf = pre @ bs @ post \<and> p = int (length pre))"
proof
  assume "holds buf p bs"
  then have p: "0 \<le> p" "nat p + length bs \<le> length buf" "take (length bs) (drop (nat p) buf) = bs"
    by (auto simp: holds_def rd_def split: if_splits)
  have "buf = take (nat p) buf @ bs @ drop (nat p + length bs) buf"
    using p(3) take_mid_drop [of "nat p" "nat p + length bs" buf] by simp
  then show "\<exists>pre post. buf = pre @ bs @ post \<and> p = int (length pre)"
    using p(1,2) by (intro exI [of _ "take (nat p) buf"] exI [of _ "drop (nat p + length bs) buf"]) simp
next
  assume "\<exists>pre post. buf = pre @ bs @ post \<and> p = int (length pre)"
  then show "holds buf p bs" by (auto simp: holds_def rd_def)
qed

lemma holds_append:
  "holds buf p (xs @ ys) \<longleftrightarrow> holds buf p xs \<and> holds buf (p + int (length xs)) ys"
proof
  assume "holds buf p (xs @ ys)"
  then obtain pre post where b: "buf = pre @ xs @ ys @ post" "p = int (length pre)" by (auto simp: holds_iff)
  have "buf = (pre @ xs) @ ys @ post" using b(1) by simp
  then show "holds buf p xs \<and> holds buf (p + int (length xs)) ys"
    unfolding holds_iff using b by (metis length_append of_nat_add)
next
  assume a: "holds buf p xs \<and> holds buf (p + int (length xs)) ys"
  then obtain pre post where b: "buf = pre @ xs @ post" "p = int (length pre)" by (auto simp: holds_iff)
  obtain pre' post' where c: "buf = pre' @ ys @ post'" "p + int (length xs) = int (length pre')"
    using a unfolding holds_iff by blast
  have "length pre' = length (pre @ xs)" using b(2) c(2) by simp
  moreover have "pre' @ ys @ post' = (pre @ xs) @ post" using b(1) c(1) by simp
  ultimately have "pre' = pre @ xs" by (metis append_eq_append_conv)
  then show "holds buf p (xs @ ys)" unfolding holds_iff using b(2) c(1) by (metis append_assoc)
qed

lemma holds_concat_nth:
  assumes "holds buf p (concat (map f xs))" "i < length xs"
  shows "holds buf (p + int (length (concat (map f (take i xs))))) (f (xs ! i))"
proof -
  have "concat (map f xs) = concat (map f (take i xs)) @ f (xs ! i) @ concat (map f (drop (Suc i) xs))"
    by (subst id_take_nth_drop [OF assms(2)]) simp
  then show ?thesis using assms(1) by (simp add: holds_append)
qed

lemma length_concat_const: "(\<And>x. x \<in> set xs \<Longrightarrow> length (f x) = n) \<Longrightarrow> length (concat (map f xs)) = n * length xs"
  by (induction xs) (simp_all add: algebra_simps)

lemma length_concat_map: "length (concat (map f xs)) = sum_list (map (\<lambda>x. length (f x)) xs)"
  by (induction xs) simp_all

lemma holds_array_nth:
  assumes "holds buf p (concat (map f xs))" "i < length xs" "\<And>x. x \<in> set xs \<Longrightarrow> length (f x) = n"
  shows "holds buf (p + int n * int i) (f (xs ! i))"
proof -
  have "length (concat (map f (take i xs))) = n * length (take i xs)"
    by (rule length_concat_const) (auto intro: assms(3) dest: in_set_takeD)
  then have "length (concat (map f (take i xs))) = n * i" using assms(2) by simp
  then show ?thesis using holds_concat_nth [OF assms(1,2)] by simp
qed

lemma rd_holds: "holds buf p bs \<Longrightarrow> n = length bs \<Longrightarrow> rd buf p n = Some bs"
  by (simp add: holds_def)

section \<open>Bytes of a value\<close>

definition le_bytes :: "'w::len word \<Rightarrow> u8 list" where
  "le_bytes w = map (\<lambda>i. ucast (drop_bit (8 * i) w)) [0..<LENGTH('w) div 8]"

lemma length_le_bytes [simp]: "length (le_bytes (w :: 'w::len word)) = LENGTH('w) div 8"
  by (simp add: le_bytes_def)

lemma le_value_bytes:
  fixes w :: "'w::len word"
  assumes "8 dvd LENGTH('w)"
  shows "le_value (le_bytes w) = w"
proof (rule bit_word_eqI)
  fix n assume n: "n < LENGTH('w)"
  then have d: "n div 8 < LENGTH('w) div 8" using assms by (metis dvd_div_mult_self less_mult_imp_div_less)
  have "8 * (n div 8) + n mod 8 = n" by simp
  then show "bit (le_value (le_bytes w) :: 'w word) n = bit w n"
    using n d by (simp add: bit_le_value le_bytes_def bit_simps)
qed

lemma le_value_u32 [simp]: "le_value (le_bytes (w :: u32)) = w"
  by (rule le_value_bytes) simp

lemma le_value_u64 [simp]: "le_value (le_bytes (w :: u64)) = w"
  by (rule le_value_bytes) simp

definition byte_of_char :: "char \<Rightarrow> u8" where
  "byte_of_char c = word_of_nat (of_char c)"

definition char_of_byte :: "u8 \<Rightarrow> char" where
  "char_of_byte b = char_of (unat b)"

lemma char_of_byte_of_char [simp]: "char_of_byte (byte_of_char c) = c"
proof -
  have "of_char c < (2::nat) ^ LENGTH(8)" by simp
  then have "unat (word_of_nat (of_char c) :: u8) = of_char c" by (simp add: unat_word_ariths unsigned_of_nat take_bit_nat_eq_self)
  then show ?thesis by (simp add: char_of_byte_def byte_of_char_def)
qed

lemma byte_of_char_0: "byte_of_char c = 0 \<longleftrightarrow> c = NUL"
proof
  assume "byte_of_char c = 0"
  then have "char_of_byte (byte_of_char c) = char_of_byte 0" by (rule arg_cong)
  then show "c = NUL" unfolding char_of_byte_of_char by (simp add: char_of_byte_def char_of_def)
qed (simp add: byte_of_char_def)

section \<open>Serializers\<close>

text \<open>What the template class \<open>SimpleSerializer\<close> provides for a type: the size of a value, and the
  writer, which takes the block and the destination and returns the block and the address
  after the last byte.\<close>

record 'a Serializer =
  ser_SizeOf :: "'a \<Rightarrow> nat"
  ser_Write :: "'a \<Rightarrow> buffer \<times> nat \<Rightarrow> (buffer \<times> nat) option"

definition advance :: "u8 list \<Rightarrow> buffer \<times> nat \<Rightarrow> (buffer \<times> nat) option" where
  "advance bs = (\<lambda>(buf, dest). do { buf' \<leftarrow> wr buf dest bs; Some (buf', dest + length bs) })"

definition word_serializer :: "('w::len word) Serializer" where
  "word_serializer = \<lparr>ser_SizeOf = (\<lambda>_. LENGTH('w) div 8), ser_Write = (\<lambda>w. advance (le_bytes w))\<rparr>"

definition int32_serializer :: "int Serializer" where
  "int32_serializer =
     \<lparr>ser_SizeOf = (\<lambda>_. 4), ser_Write = (\<lambda>n. advance (le_bytes (word_of_int n :: u32)))\<rparr>"

definition bool_serializer :: "bool Serializer" where
  "bool_serializer =
     \<lparr>ser_SizeOf = (\<lambda>_. 1), ser_Write = (\<lambda>b. advance [if b then 255 else 0])\<rparr>"

definition bool_read :: "buffer \<Rightarrow> int \<Rightarrow> (bool \<times> int) option" where
  "bool_read buf source = map_option (\<lambda>bs. (hd bs \<noteq> 0, source + 1)) (rd buf source 1)"

text \<open>\<open>strcpy\<close> stops at the first terminator, the destination moves by the length of the string
  object.\<close>

definition string_serializer :: "string Serializer" where
  "string_serializer =
     \<lparr>ser_SizeOf = (\<lambda>s. length s + 1),
      ser_Write = (\<lambda>s (buf, dest).
        do { buf' \<leftarrow> wr buf dest (map byte_of_char (cstr s) @ [0]); Some (buf', dest + (length s + 1)) })\<rparr>"

section \<open>Map serializers\<close>

text \<open>The loop shared by the three map writers: \<open>offsets\<close> and \<open>key_address\<close> are the cursors into the
  first two regions, \<open>dest\<close> into the third.\<close>

fun write_nodes ::
  "('k \<Rightarrow> buffer \<times> nat \<Rightarrow> (buffer \<times> nat) option) \<Rightarrow> ('v \<Rightarrow> buffer \<times> nat \<Rightarrow> (buffer \<times> nat) option) \<Rightarrow>
   nat \<Rightarrow> nat \<Rightarrow> nat \<Rightarrow> nat \<Rightarrow> ('k \<times> 'v) list \<Rightarrow> buffer \<times> nat \<Rightarrow> (buffer \<times> nat) option" where
  "write_nodes write_key write_value start offsets index key_address [] (buf, dest) = Some (buf, dest)"
| "write_nodes write_key write_value start offsets index key_address (kv # m) (buf, dest) =
     do { buf1 \<leftarrow> wr buf (offsets + 4 * index) (le_bytes (word_of_nat (dest - start) :: u32));
          (buf2, key_address') \<leftarrow> write_key (fst kv) (buf1, key_address);
          (buf3, dest') \<leftarrow> write_value (snd kv) (buf2, dest);
          write_nodes write_key write_value start offsets (index + 1) key_address' m (buf3, dest') }"

definition write_map ::
  "nat \<Rightarrow> ('k \<Rightarrow> buffer \<times> nat \<Rightarrow> (buffer \<times> nat) option) \<Rightarrow> ('v \<Rightarrow> buffer \<times> nat \<Rightarrow> (buffer \<times> nat) option) \<Rightarrow>
   ('k \<times> 'v) list \<Rightarrow> buffer \<times> nat \<Rightarrow> (buffer \<times> nat) option" where
  "write_map key_size write_key write_value m s =
     do { (buf, offsets) \<leftarrow> ser_Write word_serializer (word_of_nat (length m) :: u32) s;
          write_nodes write_key write_value (snd s) offsets 0 (offsets + 4 * length m) m
            (buf, offsets + 4 * length m + key_size * length m) }"

definition StdMapSerializer :: "nat \<Rightarrow> 'k Serializer \<Rightarrow> 'v Serializer \<Rightarrow> ('k, 'v) std_map Serializer" where
  "StdMapSerializer key_size key_serializer value_serializer =
     \<lparr>ser_SizeOf = (\<lambda>m. (1 + length m) * 4 +
        sum_list (map (\<lambda>kv. ser_SizeOf key_serializer (fst kv) + ser_SizeOf value_serializer (snd kv)) m)),
      ser_Write = write_map key_size (ser_Write key_serializer) (ser_Write value_serializer)\<rparr>"

text \<open>The value of a range is its base followed by its entry; the delta is not written.\<close>

definition RangeMapSerializer ::
  "'e Serializer \<Rightarrow> (u64, 'e) RangeMap Serializer" where
  "RangeMapSerializer entry_serializer =
     \<lparr>ser_SizeOf = (\<lambda>m. (1 + length (rmap m)) * 4 +
        sum_list (map (\<lambda>hr. ser_SizeOf word_serializer (fst hr) + ser_SizeOf word_serializer (r_base (snd hr)) +
          ser_SizeOf entry_serializer (r_entry (snd hr))) (rmap m))),
      ser_Write = (\<lambda>m. write_map 8 (ser_Write word_serializer)
        (\<lambda>r s. do { s' \<leftarrow> ser_Write word_serializer (r_base r) s; ser_Write entry_serializer (r_entry r) s' })
        (rmap m))\<rparr>"

lemma write_nodes_cong [fundef_cong]:
  assumes "m = m'" "\<And>kv s. kv \<in> set m' \<Longrightarrow> wv (snd kv) s = wv' (snd kv) s"
    "wk = wk'" "start = start'" "offsets = offsets'" "index = index'" "ka = ka'" "s = s'"
  shows "write_nodes wk wv start offsets index ka m s = write_nodes wk' wv' start' offsets' index' ka' m' s'"
  unfolding assms(1,3-8) using assms(2)
proof (induction m' arbitrary: index' ka' s')
  case Nil
  then show ?case by (cases s') simp
next
  case (Cons kv m)
  obtain buf dest where s: "s' = (buf, dest)" by (cases s')
  have "write_nodes wk' wv start' offsets' i k m s = write_nodes wk' wv' start' offsets' i k m s" for i k s
    by (rule Cons.IH) (simp add: Cons.prems)
  then show ?case using Cons.prems [of kv] by (simp add: s)
qed

lemma write_map_cong [fundef_cong]:
  assumes "m = m'" "\<And>kv s. kv \<in> set m' \<Longrightarrow> wv (snd kv) s = wv' (snd kv) s" "n = n'" "wk = wk'" "s = s'"
  shows "write_map n wk wv m s = write_map n' wk' wv' m' s'"
proof -
  have "write_nodes wk' wv st off i k m' s = write_nodes wk' wv' st off i k m' s" for st off i k s
    by (rule write_nodes_cong) (simp_all add: assms(2))
  then show ?thesis unfolding assms(1,3,4,5) by (simp add: write_map_def)
qed

lemma size_kid_mem: "kv \<in> set (crm_kids m) \<Longrightarrow> size (snd kv) < size m"
  using size_kid [of _ m] by (auto simp: in_set_conv_nth)

function ContainedRangeMap_SizeOf :: "'e Serializer \<Rightarrow> (u64, 'e) ContainedRangeMap \<Rightarrow> nat" where
  "ContainedRangeMap_SizeOf entry_serializer m =
     ser_SizeOf word_serializer (crm_base m) + ser_SizeOf entry_serializer (crm_entry m) + 4 + 4 +
     (case crm_map m of
        None \<Rightarrow> 0
      | Some _ \<Rightarrow> length (crm_kids m) * 4 +
          sum_list (map (\<lambda>kv. ser_SizeOf word_serializer (fst kv) + ContainedRangeMap_SizeOf entry_serializer (snd kv))
            (crm_kids m)))"
  by pat_completeness auto
termination
  by (relation "measure (\<lambda>(e, m). size m)") (simp_all add: size_kid_mem)

function ContainedRangeMap_Write ::
  "'e Serializer \<Rightarrow> (u64, 'e) ContainedRangeMap \<Rightarrow> buffer \<times> nat \<Rightarrow> (buffer \<times> nat) option" where
  "ContainedRangeMap_Write entry_serializer m s =
     do { s1 \<leftarrow> ser_Write word_serializer (crm_base m) s;
          s2 \<leftarrow> ser_Write word_serializer (word_of_nat (ser_SizeOf entry_serializer (crm_entry m)) :: u32) s1;
          s3 \<leftarrow> ser_Write entry_serializer (crm_entry m) s2;
          (case crm_map m of
             None \<Rightarrow> ser_Write word_serializer (0 :: u32) s3
           | Some _ \<Rightarrow> write_map 8 (ser_Write word_serializer) (ContainedRangeMap_Write entry_serializer)
                         (crm_kids m) s3) }"
  by pat_completeness auto
termination
  by (relation "measure (\<lambda>(e, m, s). size m)") (simp_all add: size_kid_mem)

declare ContainedRangeMap_SizeOf.simps [simp del] ContainedRangeMap_Write.simps [simp del]

definition ContainedRangeMapSerializer :: "'e Serializer \<Rightarrow> (u64, 'e) ContainedRangeMap Serializer" where
  "ContainedRangeMapSerializer entry_serializer =
     \<lparr>ser_SizeOf = ContainedRangeMap_SizeOf entry_serializer,
      ser_Write = ContainedRangeMap_Write entry_serializer\<rparr>"

text \<open>\<open>Serialize\<close>: the size is cut to an \<open>unsigned int\<close>, a block of that size is allocated (its bytes are
  \<open>fresh\<close>) and written from its start.\<close>

definition Serialize :: "(nat \<Rightarrow> u8) \<Rightarrow> 'a Serializer \<Rightarrow> 'a \<Rightarrow> (buffer \<times> nat) option" where
  "Serialize fresh ser m =
     (let size_to_alloc = ser_SizeOf ser m mod 2 ^ 32
      in do { (buf, _) \<leftarrow> ser_Write ser m (map fresh [0..<size_to_alloc], 0); Some (buf, size_to_alloc) })"

section \<open>The contract of a serializer\<close>

text \<open>A writer that replaces the bytes at the destination by \<open>bs\<close> and moves behind them.\<close>

definition writes :: "(buffer \<times> nat \<Rightarrow> (buffer \<times> nat) option) \<Rightarrow> u8 list \<Rightarrow> bool" where
  "writes w bs \<longleftrightarrow> (\<forall>pre old post. length old = length bs \<longrightarrow>
     w (pre @ old @ post, length pre) = Some (pre @ bs @ post, length pre + length bs))"

lemma writesI:
  assumes "\<And>pre old post. length old = length bs \<Longrightarrow>
    w (pre @ old @ post, length pre) = Some (pre @ bs @ post, length pre + length bs)"
  shows "writes w bs"
  using assms by (simp add: writes_def)

lemma writesD:
  "writes w bs \<Longrightarrow> length old = length bs \<Longrightarrow> d = length pre \<Longrightarrow>
     w (pre @ old @ post, d) = Some (pre @ bs @ post, length pre + length bs)"
  by (simp add: writes_def)

lemma writes_skip [intro]: "writes Some []"
  by (simp add: writes_def)

lemma writes_seq [intro]:
  assumes "writes w1 b1" "writes w2 b2"
  shows "writes (\<lambda>s. do { s' \<leftarrow> w1 s; w2 s' }) (b1 @ b2)"
proof (rule writesI)
  fix pre old post :: "u8 list"
  assume "length old = length (b1 @ b2)"
  then obtain o1 o2 where o: "old = o1 @ o2" "length o1 = length b1" "length o2 = length b2"
    by (intro that [of "take (length b1) old" "drop (length b1) old"]) simp_all
  show "do { s' \<leftarrow> w1 (pre @ old @ post, length pre); w2 s' } =
      Some (pre @ (b1 @ b2) @ post, length pre + length (b1 @ b2))"
    using writesD [OF assms(1) o(2) refl, of pre "o2 @ post"] writesD [OF assms(2) o(3) refl, of "pre @ b1" post] o(1)
    by (simp add: add.assoc)
qed

lemma writes_advance [intro]: "writes (advance bs) bs"
  by (simp add: writes_def advance_def wr_middle)

text \<open>\<open>bytes\<close> is the sequence a value is written as. The size is right as long as it fits an
  \<open>unsigned int\<close>, and the writer replaces exactly as many bytes as it announces.\<close>

locale serializer =
  fixes ser :: "'a Serializer" and bytes :: "'a \<Rightarrow> u8 list" and ok :: "'a \<Rightarrow> bool"
  assumes SizeOf: "ok x \<Longrightarrow> length (bytes x) < 2 ^ 32 \<Longrightarrow> ser_SizeOf ser x = length (bytes x)"
    and Write: "ok x \<Longrightarrow> writes (ser_Write ser x) (bytes x)"
begin

text \<open>A serialized value fills the block that was allocated for it.\<close>

lemma Serialize_bytes:
  assumes "ok x" "length (bytes x) < 2 ^ 32"
  shows "Serialize fresh ser x = Some (bytes x, length (bytes x))"
  using writesD [OF Write [OF assms(1)], of "map fresh [0..<length (bytes x)]" 0 "[]" "[]"] SizeOf [OF assms] assms(2)
  by (simp add: Serialize_def Let_def)

end

interpretation u64_ser: serializer "word_serializer :: u64 Serializer" le_bytes "\<lambda>_. True"
  by unfold_locales (simp_all add: word_serializer_def writes_advance)

interpretation u32_ser: serializer "word_serializer :: u32 Serializer" le_bytes "\<lambda>_. True"
  by unfold_locales (simp_all add: word_serializer_def writes_advance)

interpretation int32_ser: serializer int32_serializer "\<lambda>n. le_bytes (word_of_int n :: u32)" "\<lambda>_. True"
  by unfold_locales (simp_all add: int32_serializer_def writes_advance)

interpretation bool_ser: serializer bool_serializer "\<lambda>b. [if b then 255 else 0]" "\<lambda>_. True"
  by unfold_locales (simp_all add: bool_serializer_def writes_advance)

definition cstring_bytes :: "string \<Rightarrow> u8 list" where
  "cstring_bytes s = map byte_of_char s @ [0]"

lemma length_cstring_bytes [simp]: "length (cstring_bytes s) = length s + 1"
  by (simp add: cstring_bytes_def)

lemma cstr_id: "NUL \<notin> set s \<Longrightarrow> cstr s = s"
  by (auto simp: cstr_def takeWhile_eq_all_conv)

interpretation string_ser: serializer string_serializer cstring_bytes "\<lambda>s. NUL \<notin> set s"
  by unfold_locales (simp_all add: string_serializer_def cstring_bytes_def cstr_id wr_middle writes_def)

section \<open>The layout of a map\<close>

fun value_offsets :: "nat \<Rightarrow> nat list \<Rightarrow> nat list" where
  "value_offsets first [] = []"
| "value_offsets first (n # ns) = first # value_offsets (first + n) ns"

definition u32_bytes :: "nat \<Rightarrow> u8 list" where
  "u32_bytes n = le_bytes (word_of_nat n :: u32)"

lemma length_u32_bytes [simp]: "length (u32_bytes n) = 4"
  by (simp add: u32_bytes_def)

definition map_layout :: "nat \<Rightarrow> ('k \<Rightarrow> u8 list) \<Rightarrow> ('v \<Rightarrow> u8 list) \<Rightarrow> ('k, 'v) std_map \<Rightarrow> u8 list" where
  "map_layout key_size kb vb m =
     u32_bytes (length m) @
     concat (map u32_bytes (value_offsets ((1 + length m) * 4 + key_size * length m) (map (\<lambda>kv. length (vb (snd kv))) m))) @
     concat (map (\<lambda>kv. kb (fst kv)) m) @ concat (map (\<lambda>kv. vb (snd kv)) m)"

lemma length_value_offsets [simp]: "length (value_offsets first ns) = length ns"
  by (induction ns arbitrary: first) simp_all

lemma nth_value_offsets: "i < length ns \<Longrightarrow> value_offsets first ns ! i = first + sum_list (take i ns)"
  by (induction ns arbitrary: first i) (auto simp: nth_Cons split: nat.split)

lemma length_concat_u32 [simp]: "length (concat (map u32_bytes ns)) = 4 * length ns"
  by (rule length_concat_const) simp

lemma length_map_layout:
  assumes "\<And>kv. kv \<in> set m \<Longrightarrow> length (kb (fst kv)) = key_size"
  shows "length (map_layout key_size kb vb m) =
    (1 + length m) * 4 + key_size * length m + sum_list (map (\<lambda>kv. length (vb (snd kv))) m)"
proof -
  have "length (concat (map (\<lambda>kv. kb (fst kv)) m)) = key_size * length m"
    by (rule length_concat_const) (simp add: assms)
  then show ?thesis by (simp add: map_layout_def length_concat_map [of "\<lambda>kv. vb (snd kv)"])
qed

text \<open>One writer for the keys, one for the values. The invariant of the loop: the block is split at
  the three cursors into written and unwritten parts.\<close>

lemma write_nodes_layout:
  assumes key: "\<And>kv. kv \<in> set m \<Longrightarrow> writes (wk (fst kv)) (kb (fst kv))"
    and val: "\<And>kv. kv \<in> set m \<Longrightarrow> writes (wv (snd kv)) (vb (snd kv))"
    and O: "length O' = 4 * length m" and K: "length K = length (concat (map (\<lambda>kv. kb (fst kv)) m))"
    and V: "length V = length (concat (map (\<lambda>kv. vb (snd kv)) m))"
    and off: "offsets + 4 * index = length A" and ka: "ka = length (A @ O' @ B)"
    and dest: "dest = length (A @ O' @ B @ K @ C)" and start: "dest = start + first"
  shows "write_nodes wk wv start offsets index ka m (A @ O' @ B @ K @ C @ V @ D, dest) =
    Some (A @ concat (map u32_bytes (value_offsets first (map (\<lambda>kv. length (vb (snd kv))) m))) @
        B @ concat (map (\<lambda>kv. kb (fst kv)) m) @ C @ concat (map (\<lambda>kv. vb (snd kv)) m) @ D,
      dest + length (concat (map (\<lambda>kv. vb (snd kv)) m)))"
  using assms
proof (induction m arbitrary: A O' B K C V index ka dest first)
  case (Cons kv m)
  let ?k = "kb (fst kv)" and ?v = "vb (snd kv)"
  obtain o1 O2 where O': "O' = o1 @ O2" "length o1 = 4" "length O2 = 4 * length m"
    using Cons.prems(3) by (intro that [of "take 4 O'" "drop 4 O'"]) simp_all
  obtain k1 K2 where K: "K = k1 @ K2" "length k1 = length ?k" "length K2 = length (concat (map (\<lambda>kv. kb (fst kv)) m))"
    using Cons.prems(4) by (intro that [of "take (length ?k) K" "drop (length ?k) K"]) simp_all
  obtain v1 V2 where V: "V = v1 @ V2" "length v1 = length ?v" "length V2 = length (concat (map (\<lambda>kv. vb (snd kv)) m))"
    using Cons.prems(5) by (intro that [of "take (length ?v) V" "drop (length ?v) V"]) simp_all
  let ?o = "u32_bytes first"
  have w1: "wr (A @ O' @ B @ K @ C @ V @ D) (offsets + 4 * index) (le_bytes (word_of_nat (dest - start) :: u32)) =
      Some (A @ ?o @ O2 @ B @ K @ C @ V @ D)"
    using wr_middle [of o1 ?o A "O2 @ B @ K @ C @ V @ D"] Cons.prems(6,9) O' by (simp add: u32_bytes_def)
  have w2: "wk (fst kv) (A @ ?o @ O2 @ B @ K @ C @ V @ D, ka) =
      Some (A @ ?o @ O2 @ B @ ?k @ K2 @ C @ V @ D, length ((A @ ?o) @ O2 @ B @ ?k))"
    using writesD [OF Cons.prems(1) [of kv], of k1 ka "A @ ?o @ O2 @ B" "K2 @ C @ V @ D"] Cons.prems(7) O' K by simp
  have w3: "wv (snd kv) (A @ ?o @ O2 @ B @ ?k @ K2 @ C @ V @ D, dest) =
      Some (A @ ?o @ O2 @ B @ ?k @ K2 @ C @ ?v @ V2 @ D, dest + length ?v)"
    using writesD [OF Cons.prems(2) [of kv], of v1 dest "A @ ?o @ O2 @ B @ ?k @ K2 @ C" "V2 @ D"] Cons.prems(8) O' K V by simp
  have "write_nodes wk wv start offsets (index + 1) (length ((A @ ?o) @ O2 @ B @ ?k)) m
      ((A @ ?o) @ O2 @ (B @ ?k) @ K2 @ (C @ ?v) @ V2 @ D, dest + length ?v) =
    Some ((A @ ?o) @ concat (map u32_bytes (value_offsets (first + length ?v) (map (\<lambda>kv. length (vb (snd kv))) m))) @
        (B @ ?k) @ concat (map (\<lambda>kv. kb (fst kv)) m) @ (C @ ?v) @ concat (map (\<lambda>kv. vb (snd kv)) m) @ D,
      dest + length ?v + length (concat (map (\<lambda>kv. vb (snd kv)) m)))"
    by (rule Cons.IH) (use Cons.prems O' K V in simp_all)
  then show ?case by (simp add: w1 w2 w3)
qed simp

lemma write_map_layout:
  assumes key: "\<And>kv. kv \<in> set m \<Longrightarrow> writes (wk (fst kv)) (kb (fst kv))"
    and val: "\<And>kv. kv \<in> set m \<Longrightarrow> writes (wv (snd kv)) (vb (snd kv))"
    and size: "\<And>kv. kv \<in> set m \<Longrightarrow> length (kb (fst kv)) = n"
  shows "writes (write_map n wk wv m) (map_layout n kb vb m)"
proof (rule writesI)
  fix pre old post :: "u8 list"
  assume old: "length old = length (map_layout n kb vb m)"
  let ?V = "concat (map (\<lambda>kv. vb (snd kv)) m)"
  have kl: "length (concat (map (\<lambda>kv. kb (fst kv)) m)) = n * length m" by (rule length_concat_const) (simp add: size)
  have l: "length old = 4 + 4 * length m + n * length m + length ?V" using old kl by (simp add: map_layout_def)
  obtain h O' K V where h: "old = h @ O' @ K @ V" "length h = 4" "length O' = 4 * length m"
    "length K = n * length m" "length V = length ?V"
    by (rule that [of "take 4 old" "take (4 * length m) (drop 4 old)"
          "take (n * length m) (drop (4 + 4 * length m) old)" "drop (4 + 4 * length m + n * length m) old"])
      (simp_all add: l take_mid_drop [of 4 "4 + 4 * length m"] flip: append_assoc take_add)
  have w: "ser_Write word_serializer (word_of_nat (length m) :: u32) (pre @ old @ post, length pre) =
      Some (pre @ u32_bytes (length m) @ O' @ K @ V @ post, length pre + 4)"
    using writesD [OF u32_ser.Write, of h "word_of_nat (length m)" _ pre "O' @ K @ V @ post"] h by (simp add: u32_bytes_def)
  have "write_nodes wk wv (length pre) (length pre + 4) 0 (length pre + 4 + 4 * length m) m
      ((pre @ u32_bytes (length m)) @ O' @ [] @ K @ [] @ V @ post, length pre + 4 + 4 * length m + n * length m) =
    Some ((pre @ u32_bytes (length m)) @
        concat (map u32_bytes (value_offsets ((1 + length m) * 4 + n * length m) (map (\<lambda>kv. length (vb (snd kv))) m))) @
        [] @ concat (map (\<lambda>kv. kb (fst kv)) m) @ [] @ ?V @ post,
      length pre + 4 + 4 * length m + n * length m + length ?V)"
    by (rule write_nodes_layout [where kb = kb and vb = vb, OF key val]) (use h kl in simp_all)
  then show "write_map n wk wv m (pre @ old @ post, length pre) =
      Some (pre @ map_layout n kb vb m @ post, length pre + length (map_layout n kb vb m))"
    by (simp add: write_map_def w map_layout_def kl)
qed

text \<open>A map serializer built from serializers of its keys and values is a serializer; the laws of the
  parts give those of the whole.\<close>

lemma sum_list_sizes:
  assumes "\<And>x. x \<in> set xs \<Longrightarrow> f x = c + g x"
  shows "sum_list (map f xs) = c * length xs + (sum_list (map g xs) :: nat)"
  using assms by (induction xs) simp_all

lemma length_value_le_layout:
  "kv \<in> set m \<Longrightarrow> length (vb (snd kv)) \<le> length (map_layout n kb vb m)"
  using member_le_sum_list [of "length (vb (snd kv))" "map (\<lambda>kv. length (vb (snd kv))) m"]
  by (force simp: map_layout_def length_concat_map [of "\<lambda>kv. vb (snd kv)"])

locale map_serializer =
  k: serializer ks kb kok + v: serializer vs vb vok
  for ks :: "'k::linorder Serializer" and kb kok and vs :: "'v Serializer" and vb vok +
  fixes n :: nat
  assumes key_size: "kok x \<Longrightarrow> length (kb x) = n" and key_small: "n < 2 ^ 32"
begin

lemma layout_length:
  assumes "\<forall>kv\<in>set m. kok (fst kv) \<and> vok (snd kv)"
  shows "length (map_layout n kb vb m) = (1 + length m) * 4 + n * length m + sum_list (map (\<lambda>kv. length (vb (snd kv))) m)"
  using assms key_size by (intro length_map_layout) blast

end

sublocale map_serializer \<subseteq> m: serializer "StdMapSerializer n ks vs" "map_layout n kb vb"
  "\<lambda>m. \<forall>kv\<in>set m. kok (fst kv) \<and> vok (snd kv)"
proof
  fix m :: "('k, 'v) std_map"
  assume ok: "\<forall>kv\<in>set m. kok (fst kv) \<and> vok (snd kv)"
  show "ser_SizeOf (StdMapSerializer n ks vs) m = length (map_layout n kb vb m)"
    if "length (map_layout n kb vb m) < 2 ^ 32"
  proof -
    have "ser_SizeOf ks (fst kv) + ser_SizeOf vs (snd kv) = n + length (vb (snd kv))" if kv: "kv \<in> set m" for kv
      using k.SizeOf [of "fst kv"] v.SizeOf [of "snd kv"] ok kv key_size [of "fst kv"] key_small
        length_value_le_layout [OF kv, of vb n kb] \<open>length (map_layout n kb vb m) < 2 ^ 32\<close> by simp
    from sum_list_sizes [OF this] show ?thesis
      unfolding layout_length [OF ok] by (simp add: StdMapSerializer_def)
  qed
  show "writes (ser_Write (StdMapSerializer n ks vs) m) (map_layout n kb vb m)"
    unfolding StdMapSerializer_def Serializer.simps using ok
    by (intro write_map_layout) (simp_all add: k.Write v.Write key_size)
qed

definition range_bytes :: "('e \<Rightarrow> u8 list) \<Rightarrow> (u64, 'e) Range \<Rightarrow> u8 list" where
  "range_bytes eb r = le_bytes (r_base r) @ eb (r_entry r)"

definition range_map_layout :: "('e \<Rightarrow> u8 list) \<Rightarrow> (u64, 'e) RangeMap \<Rightarrow> u8 list" where
  "range_map_layout eb m = map_layout 8 le_bytes (range_bytes eb) (rmap m)"

definition entry_fits :: "('e \<Rightarrow> bool) \<Rightarrow> ('e \<Rightarrow> u8 list) \<Rightarrow> 'e \<Rightarrow> bool" where
  "entry_fits eok eb x \<longleftrightarrow> eok x \<and> length (eb x) < 2 ^ 32"

locale entry_serializer = e: serializer es eb eok
  for es :: "'e Serializer" and eb eok
sublocale entry_serializer \<subseteq> r: serializer "RangeMapSerializer es" "range_map_layout eb"
  "\<lambda>m. \<forall>hr\<in>set (rmap m). eok (r_entry (snd hr))"
proof
  fix m :: "(u64, 'e) RangeMap"
  assume ok: "\<forall>hr\<in>set (rmap m). eok (r_entry (snd hr))"
  let ?L = "range_map_layout eb m"
  show "ser_SizeOf (RangeMapSerializer es) m = length ?L" if small: "length ?L < 2 ^ 32"
  proof -
    have "ser_SizeOf word_serializer (fst hr) + ser_SizeOf word_serializer (r_base (snd hr)) +
        ser_SizeOf es (r_entry (snd hr)) = 8 + length (range_bytes eb (snd hr))" if hr: "hr \<in> set (rmap m)" for hr
      using e.SizeOf [of "r_entry (snd hr)"] ok hr small
        length_value_le_layout [OF hr, of "range_bytes eb" 8 le_bytes]
      by (simp add: range_map_layout_def range_bytes_def word_serializer_def)
    from sum_list_sizes [OF this] show ?thesis
      by (simp add: RangeMapSerializer_def range_map_layout_def length_map_layout)
  qed
  show "writes (ser_Write (RangeMapSerializer es) m) ?L"
    unfolding RangeMapSerializer_def Serializer.simps range_map_layout_def using ok
    by (intro write_map_layout) (auto simp: range_bytes_def intro!: u64_ser.Write e.Write)
qed

section \<open>The layout of a tree of ranges\<close>

lemma map_layout_cong [fundef_cong]:
  assumes "m = m'" "\<And>kv. kv \<in> set m' \<Longrightarrow> vb (snd kv) = vb' (snd kv)" "n = n'" "kb = kb'"
  shows "map_layout n kb vb m = map_layout n' kb' vb' m'"
proof -
  have "map (\<lambda>kv. vb (snd kv)) m' = map (\<lambda>kv. vb' (snd kv)) m'"
    "map (\<lambda>kv. length (vb (snd kv))) m' = map (\<lambda>kv. length (vb' (snd kv))) m'" using assms(2) by simp_all
  then show ?thesis unfolding assms(1,3,4) map_layout_def by argo
qed

function crm_layout :: "('e \<Rightarrow> u8 list) \<Rightarrow> (u64, 'e) ContainedRangeMap \<Rightarrow> u8 list" where
  "crm_layout eb m =
     le_bytes (crm_base m) @ u32_bytes (length (eb (crm_entry m))) @ eb (crm_entry m) @
     map_layout 8 le_bytes (crm_layout eb) (crm_kids m)"
  by pat_completeness auto
termination
  by (relation "measure (\<lambda>(e, m). size m)") (simp_all add: size_kid_mem)

function crm_all :: "('e \<Rightarrow> bool) \<Rightarrow> ('a, 'e) ContainedRangeMap \<Rightarrow> bool" where
  "crm_all P m \<longleftrightarrow> P (crm_entry m) \<and> (\<forall>kv\<in>set (crm_kids m). crm_all P (snd kv))"
  by pat_completeness auto
termination
  by (relation "measure (\<lambda>(e, m). size m)") (simp_all add: size_kid_mem)

declare crm_layout.simps [simp del] crm_all.simps [simp del]

context entry_serializer
begin

lemma crm_SizeOf:
  assumes "crm_all (entry_fits eok eb) m" "length (crm_layout eb m) < 2 ^ 32"
  shows "ContainedRangeMap_SizeOf es m = length (crm_layout eb m)"
  using assms
proof (induction "size m" arbitrary: m rule: less_induct)
  case less
  let ?L = "map_layout 8 le_bytes (crm_layout eb) (crm_kids m)"
  have all: "entry_fits eok eb (crm_entry m)" "\<And>kv. kv \<in> set (crm_kids m) \<Longrightarrow> crm_all (entry_fits eok eb) (snd kv)"
    using less.prems(1) by (auto simp: crm_all.simps [of _ m])
  have small: "length ?L < 2 ^ 32" using less.prems(2) by (simp add: crm_layout.simps [of _ m])
  have e: "ser_SizeOf es (crm_entry m) = length (eb (crm_entry m))" using e.SizeOf all(1) by (simp add: entry_fits_def)
  have "ContainedRangeMap_SizeOf es (snd kv) = length (crm_layout eb (snd kv))" if kv: "kv \<in> set (crm_kids m)" for kv
    using length_value_le_layout [OF kv, of "crm_layout eb" 8 le_bytes] small
    by (intro less.hyps size_kid_mem [OF kv] all(2) [OF kv]) simp
  then have "sum_list (map (\<lambda>kv. ser_SizeOf word_serializer (fst kv) + ContainedRangeMap_SizeOf es (snd kv)) (crm_kids m)) =
      8 * length (crm_kids m) + sum_list (map (\<lambda>kv. length (crm_layout eb (snd kv))) (crm_kids m))"
    by (intro sum_list_sizes) (simp add: word_serializer_def)
  moreover have "crm_map m = None \<Longrightarrow> crm_kids m = []" by (cases m rule: crm_kids.cases) simp_all
  moreover have "length (crm_layout eb m) = 8 + 4 + length (eb (crm_entry m)) + (1 + length (crm_kids m)) * 4 +
      8 * length (crm_kids m) + sum_list (map (\<lambda>kv. length (crm_layout eb (snd kv))) (crm_kids m))"
    by (simp add: crm_layout.simps [of _ m] length_map_layout)
  ultimately show ?case
    unfolding ContainedRangeMap_SizeOf.simps [of es m] e
    by (cases "crm_map m") (simp_all add: word_serializer_def)
qed

lemma crm_Write:
  assumes "crm_all (entry_fits eok eb) m"
  shows "writes (ContainedRangeMap_Write es m) (crm_layout eb m)"
  using assms
proof (induction "size m" arbitrary: m rule: less_induct)
  case less
  have all: "entry_fits eok eb (crm_entry m)" "\<And>kv. kv \<in> set (crm_kids m) \<Longrightarrow> crm_all (entry_fits eok eb) (snd kv)"
    using less.prems by (auto simp: crm_all.simps [of _ m])
  then have e: "eok (crm_entry m)" "ser_SizeOf es (crm_entry m) = length (eb (crm_entry m))"
    using e.SizeOf by (simp_all add: entry_fits_def)
  have kids: "writes (write_map 8 (ser_Write word_serializer) (ContainedRangeMap_Write es) (crm_kids m))
      (map_layout 8 le_bytes (crm_layout eb) (crm_kids m))"
    using less.hyps [OF size_kid_mem all(2)] by (intro write_map_layout) (simp_all add: u64_ser.Write)
  have none: "map_layout 8 le_bytes (crm_layout eb) (crm_kids m) = le_bytes (0 :: u32)" if "crm_map m = None"
    using that by (cases m rule: crm_kids.cases) (simp_all add: map_layout_def u32_bytes_def)
  have "writes (\<lambda>s. case crm_map m of None \<Rightarrow> ser_Write word_serializer (0 :: u32) s
      | Some _ \<Rightarrow> write_map 8 (ser_Write word_serializer) (ContainedRangeMap_Write es) (crm_kids m) s)
      (map_layout 8 le_bytes (crm_layout eb) (crm_kids m))"
    using kids none by (cases "crm_map m") (simp_all add: u32_ser.Write)
  then show ?case
    unfolding ContainedRangeMap_Write.simps [of es m, abs_def] crm_layout.simps [of eb m] u32_bytes_def e(2)
    by (intro writes_seq u64_ser.Write u32_ser.Write e.Write e(1)) simp_all
qed

end

sublocale entry_serializer \<subseteq> c: serializer "ContainedRangeMapSerializer es" "crm_layout eb" "crm_all (entry_fits eok eb)"
  by unfold_locales (simp_all add: ContainedRangeMapSerializer_def crm_SizeOf crm_Write)

end
