(* ===== verification/Static_Map.thy ===== *)
theory Static_Map
  imports Map_Serializers
begin

text \<open>
  The maps that are searched in place in a serialized block (\<open>processor/static_map.h\<close>,
  \<open>static_map-inl.h\<close>, \<open>static_map_iterator.h\<close>, \<open>static_map_iterator-inl.h\<close>).

  A pointer into the block is an \<open>int\<close>, \<open>None\<close> where it is the null pointer; the key type of the
  template is a record that says how many bytes a key has and which value they stand for. A
  read outside the block, and every use of a null pointer, is the result \<open>None\<close>.
\<close>

section \<open>Data\<close>

record 'k KeyType =
  key_sizeof :: nat
  key_of_bytes :: "u8 list \<Rightarrow> 'k"

definition MemAddr_key :: "u64 KeyType" where
  "MemAddr_key = \<lparr>key_sizeof = 8, key_of_bytes = le_value\<rparr>"

definition int_key :: "int KeyType" where
  "int_key = \<lparr>key_sizeof = 4, key_of_bytes = (\<lambda>bs. sint (le_value bs :: u32))\<rparr>"

record StaticMap =
  sm_raw_data :: "int option"
  sm_num_nodes :: int
  sm_offsets :: int
  sm_keys :: int

record StaticMapIterator =
  it_index :: int
  it_base :: "int option"
  it_num_nodes :: int
  it_offsets :: int
  it_keys :: int

definition rd32 :: "buffer \<Rightarrow> int \<Rightarrow> u32 option" where
  "rd32 buf p = map_option le_value (rd buf p 4)"

section \<open>Iterators\<close>

definition StaticMapIterator_new :: "buffer \<Rightarrow> int option \<Rightarrow> int \<Rightarrow> StaticMapIterator option" where
  "StaticMapIterator_new buf base index =
     do { p \<leftarrow> base;
          n \<leftarrow> rd32 buf p;
          Some \<lparr>it_index = index, it_base = Some p, it_num_nodes = sint n, it_offsets = p + 4,
                it_keys = p + (1 + sint n) * 4\<rparr> }"

definition Iterator_IsValid :: "StaticMapIterator \<Rightarrow> bool" where
  "Iterator_IsValid it \<longleftrightarrow> \<not> (it_base it = None \<or> it_index it < 0 \<or> it_num_nodes it < it_index it)"

definition Iterator_inc :: "StaticMapIterator \<Rightarrow> StaticMapIterator" where
  "Iterator_inc it =
     (if \<not> Iterator_IsValid it then it
      else it\<lparr>it_index := (if it_num_nodes it < it_index it + 1 then it_num_nodes it else it_index it + 1)\<rparr>)"

text \<open>The postfix operator returns the old iterator as well.\<close>

definition Iterator_postinc :: "StaticMapIterator \<Rightarrow> StaticMapIterator \<times> StaticMapIterator" where
  "Iterator_postinc it =
     (if \<not> Iterator_IsValid it then (it, it)
      else (it, it\<lparr>it_index := (if it_num_nodes it < it_index it + 1 then it_num_nodes it else it_index it + 1)\<rparr>))"

definition Iterator_dec :: "StaticMapIterator \<Rightarrow> StaticMapIterator" where
  "Iterator_dec it =
     (if \<not> Iterator_IsValid it then it
      else it\<lparr>it_index := (if it_index it - 1 < 0 then 0 else it_index it - 1)\<rparr>)"

definition Iterator_postdec :: "StaticMapIterator \<Rightarrow> StaticMapIterator \<times> StaticMapIterator" where
  "Iterator_postdec it =
     (if \<not> Iterator_IsValid it then (it, it)
      else (it, it\<lparr>it_index := (if it_index it - 1 < 0 then 0 else it_index it - 1)\<rparr>))"

definition Iterator_GetKeyPtr :: "'k KeyType \<Rightarrow> StaticMapIterator \<Rightarrow> int option" where
  "Iterator_GetKeyPtr kt it =
     (if \<not> Iterator_IsValid it then None else Some (it_keys it + int (key_sizeof kt) * it_index it))"

text \<open>\<open>GetKey\<close> reads through the pointer.\<close>

definition Iterator_GetKey :: "'k KeyType \<Rightarrow> buffer \<Rightarrow> StaticMapIterator \<Rightarrow> 'k option" where
  "Iterator_GetKey kt buf it =
     do { p \<leftarrow> Iterator_GetKeyPtr kt it; map_option (key_of_bytes kt) (rd buf p (key_sizeof kt)) }"

text \<open>The inner option is the returned pointer, the outer one the read of the offset.\<close>

definition Iterator_GetValueRawPtr :: "buffer \<Rightarrow> StaticMapIterator \<Rightarrow> int option option" where
  "Iterator_GetValueRawPtr buf it =
     (if \<not> Iterator_IsValid it then Some None
      else do { base \<leftarrow> it_base it; off \<leftarrow> rd32 buf (it_offsets it + 4 * it_index it);
                Some (Some (base + int (unat off))) })"

definition Iterator_eq :: "StaticMapIterator \<Rightarrow> StaticMapIterator \<Rightarrow> bool" where
  "Iterator_eq x y \<longleftrightarrow> it_base x = it_base y \<and> it_index x = it_index y"

section \<open>Maps\<close>

definition DefaultCompare :: "'k::linorder \<Rightarrow> 'k \<Rightarrow> int" where
  "DefaultCompare k1 k2 = (if k1 < k2 then - 1 else if k1 = k2 then 0 else 1)"

definition StaticMap_init :: StaticMap where
  "StaticMap_init = \<lparr>sm_raw_data = None, sm_num_nodes = 0, sm_offsets = 0, sm_keys = 0\<rparr>"

definition StaticMap_new :: "buffer \<Rightarrow> int \<Rightarrow> StaticMap option" where
  "StaticMap_new buf raw_data =
     do { n \<leftarrow> rd32 buf raw_data;
          Some \<lparr>sm_raw_data = Some raw_data, sm_num_nodes = sint n, sm_offsets = raw_data + 4,
                sm_keys = raw_data + (1 + sint n) * 4\<rparr> }"

definition IteratorAtIndex :: "buffer \<Rightarrow> StaticMap \<Rightarrow> int \<Rightarrow> StaticMapIterator option" where
  "IteratorAtIndex buf m index = StaticMapIterator_new buf (sm_raw_data m) index"

definition StaticMap_begin :: "buffer \<Rightarrow> StaticMap \<Rightarrow> StaticMapIterator option" where
  "StaticMap_begin buf m = IteratorAtIndex buf m 0"

definition StaticMap_end :: "buffer \<Rightarrow> StaticMap \<Rightarrow> StaticMapIterator option" where
  "StaticMap_end buf m = IteratorAtIndex buf m (sm_num_nodes m)"

definition GetKeyAtIndex :: "'k::zero KeyType \<Rightarrow> buffer \<Rightarrow> StaticMap \<Rightarrow> int \<Rightarrow> 'k option" where
  "GetKeyAtIndex kt buf m index =
     (if index < 0 \<or> sm_num_nodes m \<le> index then Some 0
      else map_option (key_of_bytes kt) (rd buf (sm_keys m + int (key_sizeof kt) * index) (key_sizeof kt)))"

text \<open>The loop that the three searches share: \<open>Inl\<close> is the early return at an equal key, \<open>Inr\<close> the
  value of \<open>begin\<close> when the loop ends. \<open>get\<close> is \<open>GetKeyAtIndex\<close>.\<close>

function bsearch :: "(int \<Rightarrow> 'k::linorder option) \<Rightarrow> 'k \<Rightarrow> int \<Rightarrow> int \<Rightarrow> (int + int) option" where
  "bsearch get key first finish =
     (if first < finish then
        (let middle = first + (finish - first) div 2 in
         do { k \<leftarrow> get middle;
              (let compare_result = DefaultCompare key k in
               if compare_result = 0 then Some (Inl middle)
               else if compare_result < 0 then bsearch get key first middle
               else bsearch get key (middle + 1) finish) })
      else Some (Inr first))"
  by pat_completeness auto
termination
  by (relation "measure (\<lambda>(get, key, first, finish). nat (finish - first))") (auto simp: DefaultCompare_def)

declare bsearch.simps [simp del]

definition StaticMap_find :: "'k::{linorder, zero} KeyType \<Rightarrow> buffer \<Rightarrow> StaticMap \<Rightarrow> 'k \<Rightarrow> StaticMapIterator option" where
  "StaticMap_find kt buf m key =
     do { r \<leftarrow> bsearch (GetKeyAtIndex kt buf m) key 0 (sm_num_nodes m);
          (case r of Inl middle \<Rightarrow> IteratorAtIndex buf m middle | Inr _ \<Rightarrow> StaticMap_end buf m) }"

definition StaticMap_lower_bound :: "'k::{linorder, zero} KeyType \<Rightarrow> buffer \<Rightarrow> StaticMap \<Rightarrow> 'k \<Rightarrow> StaticMapIterator option" where
  "StaticMap_lower_bound kt buf m key =
     do { r \<leftarrow> bsearch (GetKeyAtIndex kt buf m) key 0 (sm_num_nodes m);
          (case r of Inl middle \<Rightarrow> IteratorAtIndex buf m middle | Inr first \<Rightarrow> IteratorAtIndex buf m first) }"

definition StaticMap_upper_bound :: "'k::{linorder, zero} KeyType \<Rightarrow> buffer \<Rightarrow> StaticMap \<Rightarrow> 'k \<Rightarrow> StaticMapIterator option" where
  "StaticMap_upper_bound kt buf m key =
     do { r \<leftarrow> bsearch (GetKeyAtIndex kt buf m) key 0 (sm_num_nodes m);
          (case r of Inl middle \<Rightarrow> IteratorAtIndex buf m (middle + 1) | Inr first \<Rightarrow> IteratorAtIndex buf m first) }"

text \<open>The loop over the nodes of \<open>ValidateInMemoryStructure\<close>, for \<open>n\<close> remaining nodes.\<close>

fun validate_nodes :: "'k::{linorder, zero} KeyType \<Rightarrow> buffer \<Rightarrow> StaticMap \<Rightarrow> int \<Rightarrow> nat \<Rightarrow> bool option" where
  "validate_nodes kt buf m node_index 0 = Some True"
| "validate_nodes kt buf m node_index (Suc n) =
     do { off \<leftarrow> rd32 buf (sm_offsets m + 4 * node_index);
          prev \<leftarrow> rd32 buf (sm_offsets m + 4 * (node_index - 1));
          if off \<le> prev then Some False
          else do { k \<leftarrow> GetKeyAtIndex kt buf m node_index;
                    k' \<leftarrow> GetKeyAtIndex kt buf m (node_index - 1);
                    if DefaultCompare k k' \<le> 0 then Some False
                    else validate_nodes kt buf m (node_index + 1) n } }"

definition ValidateInMemoryStructure :: "'k::{linorder, zero} KeyType \<Rightarrow> buffer \<Rightarrow> StaticMap \<Rightarrow> bool option" where
  "ValidateInMemoryStructure kt buf m =
     (case sm_raw_data m of
        None \<Rightarrow> Some False
      | Some raw \<Rightarrow>
          do { num_nodes \<leftarrow> rd32 buf raw;
               if sint num_nodes < 0 then Some False
               else
                 do { first_ok \<leftarrow>
                        (if sm_num_nodes m = 0 then Some True
                         else
                           (let first_offset = 4 * (sm_num_nodes m + 1) + int (key_sizeof kt) * sm_num_nodes m in
                            if 0xffffffff < first_offset then Some False
                            else do { off \<leftarrow> rd32 buf (sm_offsets m); Some (off = word_of_int first_offset) }));
                      if \<not> first_ok then Some False
                      else validate_nodes kt buf m 1 (nat (sm_num_nodes m - 1)) } })"


section \<open>Binary search\<close>

text \<open>What a search for \<open>key\<close> in the list \<open>ks\<close> has to return.\<close>

fun search_result :: "'k::linorder list \<Rightarrow> 'k \<Rightarrow> int + int \<Rightarrow> bool" where
  "search_result ks key (Inl i) \<longleftrightarrow> 0 \<le> i \<and> nat i < length ks \<and> ks ! nat i = key"
| "search_result ks key (Inr i) \<longleftrightarrow> 0 \<le> i \<and> nat i \<le> length ks \<and> (\<forall>j<nat i. ks ! j < key) \<and>
     (\<forall>j. nat i \<le> j \<and> j < length ks \<longrightarrow> key < ks ! j)"

text \<open>\<open>get\<close> reads the sorted list \<open>ks\<close> at every index the search can ask for.\<close>

lemma bsearch_spec:
  assumes get: "\<And>i. i < length ks \<Longrightarrow> get (int i) = Some (ks ! i)" and sorted: "sorted_wrt (<) ks"
    and "0 \<le> first" "first \<le> finish" "finish \<le> int (length ks)"
    and "\<And>i. i < nat first \<Longrightarrow> ks ! i < key"
    and "\<And>i. nat finish \<le> i \<Longrightarrow> i < length ks \<Longrightarrow> key < ks ! i"
  shows "\<exists>r. bsearch get key first finish = Some r \<and> search_result ks key r"
  using assms(3-)
proof (induction "nat (finish - first)" arbitrary: first finish rule: less_induct)
  case less
  show ?case
  proof (cases "first < finish")
    case False
    then have "first = finish" using less.prems(2) by simp
    then show ?thesis using less.prems by (subst bsearch.simps) auto
  next
    case True
    define middle where "middle = first + (finish - first) div 2"
    have m: "first \<le> middle" "middle < finish" "0 \<le> middle" "nat middle < length ks"
      using True less.prems(1,3) by (auto simp: middle_def)
    have g: "get middle = Some (ks ! nat middle)" using get [of "nat middle"] m by simp
    note step = bsearch.simps [of get key first finish]
    consider (eq) "key = ks ! nat middle" | (lt) "key < ks ! nat middle" | (gt) "ks ! nat middle < key"
      by fastforce
    then show ?thesis
    proof cases
      case eq
      then show ?thesis
        using True g m by (subst step) (simp add: Let_def middle_def [symmetric] DefaultCompare_def)
    next
      case lt
      have "key < ks ! i" if "nat middle \<le> i" "i < length ks" for i
        using lt sorted_wrt_less_nth [OF sorted, of "nat middle" i] that by (cases "i = nat middle") auto
      then have "\<exists>r. bsearch get key first middle = Some r \<and> search_result ks key r"
        using m less.prems by (intro less.hyps) auto
      then show ?thesis
        using True g lt by (subst step) (simp add: Let_def middle_def [symmetric] DefaultCompare_def)
    next
      case gt
      have "ks ! i < key" if "i < nat (middle + 1)" for i
      proof (cases "i = nat middle")
        case False
        then have "i < nat middle" using that m(3) by linarith
        then show ?thesis using gt sorted_wrt_less_nth [OF sorted _ m(4)] by fastforce
      qed (simp add: gt)
      then have "\<exists>r. bsearch get key (middle + 1) finish = Some r \<and> search_result ks key r"
        using m less.prems by (intro less.hyps) auto
      then show ?thesis
        using True g gt by (subst step) (auto simp: Let_def middle_def [symmetric] DefaultCompare_def)
    qed
  qed
qed

section \<open>Validated maps\<close>

definition static_keys :: "'k::{linorder, zero} KeyType \<Rightarrow> buffer \<Rightarrow> StaticMap \<Rightarrow> 'k list" where
  "static_keys kt buf m = map (\<lambda>i. the (GetKeyAtIndex kt buf m (int i))) [0..<nat (sm_num_nodes m)]"

text \<open>A map made from the block that passes its own check and whose keys lie in the block. (The
  check alone does not read the key of a map with one node.)\<close>

definition static_ok :: "'k::{linorder, zero} KeyType \<Rightarrow> buffer \<Rightarrow> StaticMap \<Rightarrow> bool" where
  "static_ok kt buf m \<longleftrightarrow>
     Option.bind (sm_raw_data m) (StaticMap_new buf) = Some m \<and>
     ValidateInMemoryStructure kt buf m = Some True \<and>
     list_all (\<lambda>i. GetKeyAtIndex kt buf m (int i) \<noteq> None) [0..<nat (sm_num_nodes m)]"

lemma length_static_keys [simp]: "length (static_keys kt buf m) = nat (sm_num_nodes m)"
  by (simp add: static_keys_def)

lemma static_ok_raw:
  assumes "static_ok kt buf m"
  shows "\<exists>p. sm_raw_data m = Some p \<and> map_option sint (rd32 buf p) = Some (sm_num_nodes m) \<and>
    sm_offsets m = p + 4 \<and> sm_keys m = p + (1 + sm_num_nodes m) * 4"
  using assms by (auto simp: static_ok_def StaticMap_new_def bind_eq_Some_conv)

lemma static_ok_num: "static_ok kt buf m \<Longrightarrow> 0 \<le> sm_num_nodes m"
  using static_ok_raw [of kt buf m]
  by (auto simp: static_ok_def ValidateInMemoryStructure_def split: if_splits)

lemma static_ok_key:
  assumes "static_ok kt buf m" "i < nat (sm_num_nodes m)"
  shows "GetKeyAtIndex kt buf m (int i) = Some (static_keys kt buf m ! i)"
  using assms by (auto simp: static_ok_def static_keys_def list_all_iff)

lemma validate_nodes_sorted:
  assumes "validate_nodes kt buf m (int i) n = Some True" "i \<le> j" "j < i + n"
  shows "\<exists>k k'. GetKeyAtIndex kt buf m (int j - 1) = Some k \<and> GetKeyAtIndex kt buf m (int j) = Some k' \<and> k < k'"
  using assms
proof (induction n arbitrary: i)
  case (Suc n)
  show ?case
  proof (cases "j = i")
    case True
    then show ?thesis
      using Suc.prems(1) by (auto simp: bind_eq_Some_conv DefaultCompare_def split: if_splits)
  next
    case False
    have "validate_nodes kt buf m (int (Suc i)) n = Some True"
      using Suc.prems(1) by (auto simp: bind_eq_Some_conv add.commute split: if_splits)
    then show ?thesis using Suc.IH [of "Suc i"] Suc.prems False by simp
  qed
qed simp

lemma static_ok_sorted:
  assumes "static_ok kt buf m"
  shows "sorted_wrt (<) (static_keys kt buf m)"
proof (rule sorted_wrt_iff_nth_Suc_transp [THEN iffD2])
  show "transp ((<) :: 'a \<Rightarrow> 'a \<Rightarrow> bool)" by simp
  have v: "validate_nodes kt buf m (int 1) (nat (sm_num_nodes m - 1)) = Some True"
    using assms by (auto simp: static_ok_def ValidateInMemoryStructure_def bind_eq_Some_conv split: option.splits if_splits)
  show "\<forall>i. Suc i < length (static_keys kt buf m) \<longrightarrow> static_keys kt buf m ! i < static_keys kt buf m ! Suc i"
  proof (intro allI impI)
    fix i assume i: "Suc i < length (static_keys kt buf m)"
    show "static_keys kt buf m ! i < static_keys kt buf m ! Suc i"
      using validate_nodes_sorted [OF v, of "Suc i"] static_ok_key [OF assms, of i] static_ok_key [OF assms, of "Suc i"] i
      by auto
  qed
qed

lemma static_bsearch:
  assumes "static_ok kt buf m"
  shows "\<exists>r. bsearch (GetKeyAtIndex kt buf m) key 0 (sm_num_nodes m) = Some r \<and>
    search_result (static_keys kt buf m) key r"
  using assms static_ok_num [OF assms]
  by (intro bsearch_spec static_ok_sorted) (simp_all add: static_ok_key)

lemma static_iterator:
  assumes "static_ok kt buf m"
  shows "\<exists>p. sm_raw_data m = Some p \<and> IteratorAtIndex buf m i =
    Some \<lparr>it_index = i, it_base = Some p, it_num_nodes = sm_num_nodes m, it_offsets = sm_offsets m, it_keys = sm_keys m\<rparr>"
  using static_ok_raw [OF assms] by (auto simp: IteratorAtIndex_def StaticMapIterator_new_def)

text \<open>The searches of a validated map are those of an ordered map.\<close>

definition static_lb :: "'k::{linorder, zero} KeyType \<Rightarrow> buffer \<Rightarrow> StaticMap \<Rightarrow> 'k \<Rightarrow> nat" where
  "static_lb kt buf m key = nat (it_index (the (StaticMap_lower_bound kt buf m key)))"

definition static_ub :: "'k::{linorder, zero} KeyType \<Rightarrow> buffer \<Rightarrow> StaticMap \<Rightarrow> 'k \<Rightarrow> nat" where
  "static_ub kt buf m key = nat (it_index (the (StaticMap_upper_bound kt buf m key)))"

lemma static_bounds:
  assumes "static_ok kt buf m"
  shows "\<exists>r. search_result (static_keys kt buf m) key r \<and>
    StaticMap_find kt buf m key = IteratorAtIndex buf m (case r of Inl i \<Rightarrow> i | Inr _ \<Rightarrow> sm_num_nodes m) \<and>
    StaticMap_lower_bound kt buf m key = IteratorAtIndex buf m (int (static_lb kt buf m key)) \<and>
    StaticMap_upper_bound kt buf m key = IteratorAtIndex buf m (int (static_ub kt buf m key)) \<and>
    static_lb kt buf m key = nat (case r of Inl i \<Rightarrow> i | Inr i \<Rightarrow> i) \<and>
    static_ub kt buf m key = nat (case r of Inl i \<Rightarrow> i + 1 | Inr i \<Rightarrow> i)"
proof -
  obtain r where r: "bsearch (GetKeyAtIndex kt buf m) key 0 (sm_num_nodes m) = Some r"
    "search_result (static_keys kt buf m) key r"
    using static_bsearch [OF assms] by blast
  have ix: "it_index (the (IteratorAtIndex buf m i)) = i" for i
    using static_iterator [OF assms, of i] by auto
  have "static_lb kt buf m key = nat (case r of Inl i \<Rightarrow> i | Inr i \<Rightarrow> i)"
    "static_ub kt buf m key = nat (case r of Inl i \<Rightarrow> i + 1 | Inr i \<Rightarrow> i)"
    by (simp_all add: static_lb_def static_ub_def StaticMap_lower_bound_def StaticMap_upper_bound_def r(1) ix split: sum.split)
  then show ?thesis using r
    by (intro exI [of _ r])
      (cases r, simp_all add: StaticMap_find_def StaticMap_lower_bound_def StaticMap_upper_bound_def StaticMap_end_def)
qed

interpretation static: ordered_index "static_keys kt buf" "static_lb kt buf" "static_ub kt buf" "static_ok kt buf" for kt buf
proof
  fix m k i
  assume ok: "static_ok kt buf m"
  let ?ks = "static_keys kt buf m"
  show sorted: "sorted_wrt (<) ?ks" by (rule static_ok_sorted [OF ok])
  obtain r where r: "search_result ?ks k r"
    "static_lb kt buf m k = nat (case r of Inl i \<Rightarrow> i | Inr i \<Rightarrow> i)"
    "static_ub kt buf m k = nat (case r of Inl i \<Rightarrow> i + 1 | Inr i \<Rightarrow> i)"
    using static_bounds [OF ok, of k] by blast
  note mono = sorted_wrt_less_nth [OF sorted]
  show "static_lb kt buf m k \<le> length ?ks" using r by (cases r) auto
  show "static_ub kt buf m k \<le> length ?ks" using r by (cases r) auto
  show "?ks ! i < k" if "i < static_lb kt buf m k" using r that mono [of i "static_lb kt buf m k"] by (cases r) auto
  show "k \<le> ?ks ! i" if "static_lb kt buf m k \<le> i" "i < length ?ks"
    using r that mono [of "static_lb kt buf m k" i] by (cases r; cases "i = static_lb kt buf m k") (auto simp: less_imp_le)
  show "?ks ! i \<le> k" if "i < static_ub kt buf m k"
    using r that mono [of i "static_lb kt buf m k"]
    by (cases r; cases "i = static_lb kt buf m k") (auto simp: less_imp_le)
  show "k < ?ks ! i" if "static_ub kt buf m k \<le> i" "i < length ?ks"
    using r that mono [of "static_lb kt buf m k" i] by (cases r) auto
qed

section \<open>Agreement with the map that was serialized\<close>

text \<open>Two structures that satisfy the interface and hold the same keys search alike.\<close>

lemma static_lb_std:
  assumes "static_ok kt buf s" "static_keys kt buf s = map fst m" "map_ok m"
  shows "static_lb kt buf s key = lower_bound m key" "static_ub kt buf s key = upper_bound m key"
  by (rule static.lb_unique static.ub_unique; use assms in
      \<open>simp add: lower_bound_below upper_bound_below lower_bound_less_length upper_bound_less_length
        lower_bound_above upper_bound_above\<close>)+

lemma static_find_std:
  assumes "static_ok kt buf s" "static_keys kt buf s = map fst m" "map_ok m"
  shows "StaticMap_find kt buf s key = IteratorAtIndex buf s (int (map_find m key))"
proof -
  obtain r where r: "search_result (map fst m) key r"
    "StaticMap_find kt buf s key = IteratorAtIndex buf s (case r of Inl i \<Rightarrow> i | Inr _ \<Rightarrow> sm_num_nodes s)"
    "lower_bound m key = nat (case r of Inl i \<Rightarrow> i | Inr i \<Rightarrow> i)"
    using static_bounds [OF assms(1), of key] unfolding static_lb_std [OF assms] assms(2) by blast
  have n: "sm_num_nodes s = int (length m)"
    using arg_cong [OF assms(2), of length] static_ok_num [OF assms(1)] by simp
  show ?thesis
  proof (cases r)
    case (Inl i)
    then have "map_find m key = nat i" "0 \<le> i" using r(1,3) by (auto simp: map_find_def)
    then show ?thesis using r(2) Inl by simp
  next
    case (Inr i)
    then have "map_find m key = length m" using r(1,3) by (auto simp: map_find_def Let_def)
    then show ?thesis using r(2) Inr n by simp
  qed
qed

text \<open>How the keys of a template instance are written and read.\<close>

locale key_codec =
  fixes kt :: "'k::{linorder, zero} KeyType" and kb :: "'k \<Rightarrow> u8 list" and kok :: "'k \<Rightarrow> bool"
  assumes size: "kok k \<Longrightarrow> length (kb k) = key_sizeof kt"
    and positive: "0 < key_sizeof kt"
    and decode: "kok k \<Longrightarrow> key_of_bytes kt (kb k) = k"

lemma rd32_holds: "holds buf p (u32_bytes n) \<Longrightarrow> rd32 buf p = Some (word_of_nat n)"
  by (simp add: rd32_def u32_bytes_def holds_def)

lemma unat_word_u32: "n < 2 ^ 32 \<Longrightarrow> unat (word_of_nat n :: u32) = n"
  by (simp add: unsigned_of_nat take_bit_nat_eq_self)

lemma sint_word_u32: "n < 2 ^ 31 \<Longrightarrow> sint (word_of_nat n :: u32) = int n"
  by (simp add: signed_of_nat signed_take_bit_int_eq_self)

text \<open>The map is in the block at \<open>p\<close>: all sizes fit their fields and no value is empty.\<close>

definition serialized_at ::
  "buffer \<Rightarrow> int \<Rightarrow> nat \<Rightarrow> ('k::linorder \<Rightarrow> u8 list) \<Rightarrow> ('v \<Rightarrow> u8 list) \<Rightarrow> ('k, 'v) std_map \<Rightarrow> bool" where
  "serialized_at buf p n kb vb m \<longleftrightarrow>
     holds buf p (map_layout n kb vb m) \<and> length (map_layout n kb vb m) < 2 ^ 32 \<and>
     map_ok m \<and> (\<forall>kv\<in>set m. vb (snd kv) \<noteq> [])"

context key_codec
begin

lemma layout_parts:
  assumes "serialized_at buf p (key_sizeof kt) kb vb m" "\<forall>kv\<in>set m. kok (fst kv)"
  shows "length m < 2 ^ 31" "rd32 buf p = Some (word_of_nat (length m))"
    "i < length m \<Longrightarrow> \<exists>off. rd32 buf (p + 4 + 4 * int i) = Some off \<and>
       unat off = (1 + length m) * 4 + key_sizeof kt * length m + sum_list (map (\<lambda>kv. length (vb (snd kv))) (take i m)) \<and>
       holds buf (p + int (unat off)) (vb (snd (m ! i)))"
    "i < length m \<Longrightarrow> rd buf (p + (1 + int (length m)) * 4 + int (key_sizeof kt) * int i) (key_sizeof kt) =
       Some (kb (fst (m ! i)))"
proof -
  let ?n = "key_sizeof kt" and ?first = "(1 + length m) * 4 + key_sizeof kt * length m"
  let ?ls = "map (\<lambda>kv. length (vb (snd kv))) m"
  have h: "holds buf p (map_layout ?n kb vb m)" "length (map_layout ?n kb vb m) < 2 ^ 32"
    using assms(1) by (simp_all add: serialized_at_def)
  have ks: "length (kb (fst kv)) = ?n" if "kv \<in> set m" for kv using assms(2) that by (simp add: size)
  have kl: "length (concat (map (\<lambda>kv. kb (fst kv)) m)) = ?n * length m"
    by (rule length_concat_const) (simp add: ks)
  have len: "length (map_layout ?n kb vb m) = ?first + sum_list ?ls" by (rule length_map_layout) (rule ks)
  have "length m * 4 \<le> 2 ^ 32" using h(2) len by simp
  then show "length m < 2 ^ 31" by simp
  have parts: "holds buf p (u32_bytes (length m))" "holds buf (p + 4) (concat (map u32_bytes (value_offsets ?first ?ls)))"
    "holds buf (p + 4 + 4 * int (length m)) (concat (map (\<lambda>kv. kb (fst kv)) m))"
    "holds buf (p + 4 + 4 * int (length m) + int (?n * length m)) (concat (map (\<lambda>kv. vb (snd kv)) m))"
    using h(1) by (simp_all add: map_layout_def holds_append kl)
  show "rd32 buf p = Some (word_of_nat (length m))" by (rule rd32_holds [OF parts(1)])
  show "\<exists>off. rd32 buf (p + 4 + 4 * int i) = Some off \<and>
      unat off = ?first + sum_list (map (\<lambda>kv. length (vb (snd kv))) (take i m)) \<and>
      holds buf (p + int (unat off)) (vb (snd (m ! i)))" if i: "i < length m"
  proof -
    let ?off = "?first + sum_list (map (\<lambda>kv. length (vb (snd kv))) (take i m))"
    have "?ls = map (\<lambda>kv. length (vb (snd kv))) (take i m @ drop i m)" by simp
    then have "?off \<le> ?first + sum_list ?ls" by (simp only: map_append sum_list_append)
    then have small: "?off < 2 ^ 32" using h(2) len by simp
    have "rd32 buf (p + 4 + 4 * int i) = Some (word_of_nat ?off)"
      using holds_array_nth [OF parts(2), of i 4] i
      by (intro rd32_holds) (simp add: nth_value_offsets take_map)
    moreover have "holds buf (p + int ?off) (vb (snd (m ! i)))"
      using holds_concat_nth [OF parts(4) i] by (simp add: length_concat_map [of "\<lambda>kv. vb (snd kv)"] algebra_simps)
    ultimately show ?thesis using unat_word_u32 [OF small] by metis
  qed
  show "rd buf (p + (1 + int (length m)) * 4 + int ?n * int i) ?n = Some (kb (fst (m ! i)))" if i: "i < length m"
    using holds_array_nth [OF parts(3) i, of ?n] ks i by (intro rd_holds) (simp_all add: algebra_simps)
qed

lemma layout_new:
  assumes "serialized_at buf p (key_sizeof kt) kb vb m" "\<forall>kv\<in>set m. kok (fst kv)"
  shows "StaticMap_new buf p = Some \<lparr>sm_raw_data = Some p, sm_num_nodes = int (length m), sm_offsets = p + 4,
    sm_keys = p + (1 + int (length m)) * 4\<rparr>"
  using layout_parts(1,2) [OF assms] by (simp add: StaticMap_new_def sint_word_u32)

lemma layout_key:
  assumes "serialized_at buf p (key_sizeof kt) kb vb m" "\<forall>kv\<in>set m. kok (fst kv)"
    and "StaticMap_new buf p = Some s" "i < length m"
  shows "GetKeyAtIndex kt buf s (int i) = Some (fst (m ! i))"
  using layout_parts(4) [OF assms(1,2,4)] layout_new [OF assms(1,2)] assms(2,3,4)
  by (auto simp: GetKeyAtIndex_def decode)

lemma layout_validates:
  assumes "serialized_at buf p (key_sizeof kt) kb vb m" "\<forall>kv\<in>set m. kok (fst kv)"
    and s: "StaticMap_new buf p = Some s"
  shows "ValidateInMemoryStructure kt buf s = Some True"
proof -
  note L = layout_parts [OF assms(1,2)] and K = layout_key [OF assms]
  have sf: "sm_raw_data s = Some p" "sm_num_nodes s = int (length m)" "sm_offsets s = p + 4"
    using layout_new [OF assms(1,2)] s by simp_all
  have mok: "map_ok m" "\<And>kv. kv \<in> set m \<Longrightarrow> vb (snd kv) \<noteq> []" using assms(1) by (simp_all add: serialized_at_def)
  have nodes: "validate_nodes kt buf s (int (Suc i)) n = Some True" if "i + n < length m" for i n
    using that
  proof (induction n arbitrary: i)
    case (Suc n)
    obtain off prev where o: "rd32 buf (p + 4 + 4 * int (Suc i)) = Some off" "rd32 buf (p + 4 + 4 * int i) = Some prev"
      "unat off = unat prev + length (vb (snd (m ! i)))"
      using L(3) [of i] L(3) [of "Suc i"] Suc.prems by (auto simp: take_Suc_conv_app_nth)
    have "prev < off" using o(3) mok(2) [of "m ! i"] Suc.prems by (simp add: word_less_nat_alt)
    moreover have "fst (m ! i) < fst (m ! Suc i)" using map_ok_nth [OF mok(1)] Suc.prems by simp
    ultimately show ?case
      using o K [of i] K [of "Suc i"] Suc.prems Suc.IH [of "Suc i"]
      by (auto simp: sf DefaultCompare_def algebra_simps)
  qed simp
  show ?thesis
  proof (cases m)
    case Nil
    then show ?thesis using L(2) by (simp add: ValidateInMemoryStructure_def sf)
  next
    case (Cons kv m')
    obtain off where o: "rd32 buf (p + 4) = Some off" "unat off = (1 + length m) * 4 + key_sizeof kt * length m"
      using L(3) [of 0] Cons by auto
    let ?first = "4 * (int (length m) + 1) + int (key_sizeof kt) * int (length m)"
    have i: "int (unat off) = ?first" using o(2) by simp
    have "unat off \<le> 0xffffffff" using unat_less_32 [of off] by simp
    then have f1: "\<not> 0xffffffff < ?first" using i by linarith
    have "off = word_of_int (int (unat off))" by simp
    then have f2: "off = word_of_int ?first" unfolding i .
    have z: "0 \<le> sint (word_of_nat (length m) :: u32)" using sint_word_u32 [OF L(1)] by simp
    show ?thesis
      using nodes [of 0 "length m - 1"] Cons f1 f2 z
      by (simp add: ValidateInMemoryStructure_def sf L(2) o(1) Let_def)
  qed
qed

lemma layout_static_ok:
  assumes "serialized_at buf p (key_sizeof kt) kb vb m" "\<forall>kv\<in>set m. kok (fst kv)"
    and s: "StaticMap_new buf p = Some s"
  shows "static_ok kt buf s" "static_keys kt buf s = map fst m"
proof -
  note K = layout_key [OF assms]
  have sf: "sm_raw_data s = Some p" "sm_num_nodes s = int (length m)"
    using layout_new [OF assms(1,2)] s by simp_all
  then show "static_ok kt buf s"
    using layout_validates [OF assms] s K by (simp add: static_ok_def list_all_iff)
  show "static_keys kt buf s = map fst m" by (rule nth_equalityI) (simp_all add: static_keys_def sf K)
qed

text \<open>Everything a client of the map asks for: the searches, the key and the value at a position.\<close>

lemma layout_search:
  assumes "serialized_at buf p (key_sizeof kt) kb vb m" "\<forall>kv\<in>set m. kok (fst kv)"
    and s: "StaticMap_new buf p = Some s"
  shows "StaticMap_lower_bound kt buf s key = IteratorAtIndex buf s (int (lower_bound m key))"
    "StaticMap_upper_bound kt buf s key = IteratorAtIndex buf s (int (upper_bound m key))"
    "StaticMap_find kt buf s key = IteratorAtIndex buf s (int (map_find m key))"
    "StaticMap_end buf s = IteratorAtIndex buf s (int (length m))"
proof -
  note ok = layout_static_ok [OF assms]
  have mok: "map_ok m" using assms(1) by (simp add: serialized_at_def)
  show "StaticMap_lower_bound kt buf s key = IteratorAtIndex buf s (int (lower_bound m key))"
    "StaticMap_upper_bound kt buf s key = IteratorAtIndex buf s (int (upper_bound m key))"
    using static_bounds [OF ok(1), of key] unfolding static_lb_std [OF ok mok] by blast+
  show "StaticMap_find kt buf s key = IteratorAtIndex buf s (int (map_find m key))"
    by (rule static_find_std [OF ok mok])
  show "StaticMap_end buf s = IteratorAtIndex buf s (int (length m))"
    using layout_new [OF assms(1,2)] s by (simp add: StaticMap_end_def)
qed

lemma layout_iterator:
  assumes "serialized_at buf p (key_sizeof kt) kb vb m" "\<forall>kv\<in>set m. kok (fst kv)"
    and s: "StaticMap_new buf p = Some s"
  shows "\<exists>it. IteratorAtIndex buf s (int i) = Some it \<and> it_index it = int i \<and> it_base it = Some p \<and>
    it_num_nodes it = int (length m) \<and> Iterator_IsValid it = (i \<le> length m) \<and>
    (i < length m \<longrightarrow> Iterator_GetKey kt buf it = Some (fst (m ! i)) \<and>
       (\<exists>q. Iterator_GetValueRawPtr buf it = Some (Some q) \<and> holds buf q (vb (snd (m ! i)))))"
proof -
  note L = layout_parts [OF assms(1,2)]
  have sf: "s = \<lparr>sm_raw_data = Some p, sm_num_nodes = int (length m), sm_offsets = p + 4,
      sm_keys = p + (1 + int (length m)) * 4\<rparr>"
    using layout_new [OF assms(1,2)] s by simp
  define it where "it = \<lparr>it_index = int i, it_base = Some p, it_num_nodes = int (length m), it_offsets = p + 4,
    it_keys = p + (1 + int (length m)) * 4\<rparr>"
  have new: "IteratorAtIndex buf s (int i) = Some it"
    using L(2) sint_word_u32 [OF L(1)] by (simp add: sf it_def IteratorAtIndex_def StaticMapIterator_new_def)
  have valid: "Iterator_IsValid it = (i \<le> length m)" by (auto simp: it_def Iterator_IsValid_def)
  have key: "Iterator_GetKey kt buf it = Some (fst (m ! i))" if "i < length m"
    using L(4) [OF that] that assms(2) valid
    by (simp add: Iterator_GetKey_def Iterator_GetKeyPtr_def it_def decode)
  have "\<exists>q. Iterator_GetValueRawPtr buf it = Some (Some q) \<and> holds buf q (vb (snd (m ! i)))" if "i < length m"
    using L(3) [OF that] that valid by (auto simp: Iterator_GetValueRawPtr_def it_def)
  with new valid key show ?thesis by (intro exI [of _ it]) (simp add: it_def)
qed

end

interpretation addr: key_codec MemAddr_key le_bytes "\<lambda>_. True"
  by unfold_locales (simp_all add: MemAddr_key_def)

definition in_int32 :: "int \<Rightarrow> bool" where
  "in_int32 n \<longleftrightarrow> - (2 ^ 31) \<le> n \<and> n < 2 ^ 31"

lemma sint_of_int_32: "in_int32 n \<Longrightarrow> sint (word_of_int n :: u32) = n"
  by (simp add: in_int32_def signed_of_int signed_take_bit_int_eq_self)

interpretation int32: key_codec int_key "\<lambda>n. le_bytes (word_of_int n :: u32)" in_int32
  by unfold_locales (simp_all add: int_key_def sint_of_int_32)

section \<open>The searches\<close>

text \<open>C28. The binary searches of \<open>StaticMap\<close> on any block of memory that passes
  \<open>ValidateInMemoryStructure\<close> and holds its keys: they return, stay inside the block, and give the
  positions an ordered map has: all keys before \<open>lower_bound\<close> are smaller than the argument and
  none after, all keys before \<open>upper_bound\<close> are at most the argument and none after, and \<open>find\<close>
  gives the position of the key, or the end when no key is equal.\<close>

theorem StaticMap_search_correct:
  assumes "StaticMap_new buf p = Some m" "ValidateInMemoryStructure kt buf m = Some True"
    and "list_all (\<lambda>i. GetKeyAtIndex kt buf m (int i) \<noteq> None) [0..<nat (sm_num_nodes m)]"
  shows "\<exists>lb ub it. StaticMap_lower_bound kt buf m key = Some lb \<and> StaticMap_upper_bound kt buf m key = Some ub \<and>
    StaticMap_find kt buf m key = Some it \<and>
    (\<forall>i<length (static_keys kt buf m).
       (static_keys kt buf m ! i < key \<longleftrightarrow> int i < it_index lb) \<and>
       (static_keys kt buf m ! i \<le> key \<longleftrightarrow> int i < it_index ub) \<and>
       (static_keys kt buf m ! i = key \<longleftrightarrow> int i = it_index it)) \<and>
    (key \<notin> set (static_keys kt buf m) \<longrightarrow> it_index it = sm_num_nodes m)"
proof -
  have "sm_raw_data m = Some p" using assms(1) by (auto simp: StaticMap_new_def bind_eq_Some_conv)
  then have ok: "static_ok kt buf m" using assms by (simp add: static_ok_def)
  let ?ks = "static_keys kt buf m"
  obtain r where r: "search_result ?ks key r"
    "StaticMap_find kt buf m key = IteratorAtIndex buf m (case r of Inl i \<Rightarrow> i | Inr _ \<Rightarrow> sm_num_nodes m)"
    "StaticMap_lower_bound kt buf m key = IteratorAtIndex buf m (int (static_lb kt buf m key))"
    "StaticMap_upper_bound kt buf m key = IteratorAtIndex buf m (int (static_ub kt buf m key))"
    using static_bounds [OF ok, of key] by blast
  obtain lb where lb: "StaticMap_lower_bound kt buf m key = Some lb" "it_index lb = int (static_lb kt buf m key)"
    using r(3) static_iterator [OF ok, of "int (static_lb kt buf m key)"] by auto
  obtain ub where ub: "StaticMap_upper_bound kt buf m key = Some ub" "it_index ub = int (static_ub kt buf m key)"
    using r(4) static_iterator [OF ok, of "int (static_ub kt buf m key)"] by auto
  obtain it where it: "StaticMap_find kt buf m key = Some it" "it_index it = (case r of Inl i \<Rightarrow> i | Inr _ \<Rightarrow> sm_num_nodes m)"
    using r(2) static_iterator [OF ok, of "case r of Inl i \<Rightarrow> i | Inr _ \<Rightarrow> sm_num_nodes m"] by auto
  have l: "?ks ! i < key \<longleftrightarrow> int i < it_index lb" if "i < length ?ks" for i
    using static.lb_below [OF ok, of i key] static.lb_above [OF ok, of key i] that lb(2) by (simp add: not_less [symmetric]) linarith
  have u: "?ks ! i \<le> key \<longleftrightarrow> int i < it_index ub" if "i < length ?ks" for i
    using static.ub_below [OF ok, of i key] static.ub_above [OF ok, of key i] that ub(2) by (simp add: not_le [symmetric]) linarith
  have f: "?ks ! i = key \<longleftrightarrow> int i = it_index it" if i: "i < length ?ks" for i
  proof (cases r)
    case (Inl j)
    have "distinct ?ks" using static_ok_sorted [OF ok] strict_sorted_iff by blast
    then show ?thesis using Inl r(1) it(2) i nth_eq_iff_index_eq [of ?ks i "nat j"] by auto
  next
    case (Inr j)
    then have "?ks ! i < key \<or> key < ?ks ! i" using r(1) i by (cases "i < nat j") auto
    then show ?thesis using Inr it(2) i static_ok_num [OF ok] by auto
  qed
  have "it_index it = sm_num_nodes m" if "key \<notin> set ?ks"
    using that r(1) it(2) by (cases r) auto
  then show ?thesis using lb(1) ub(1) it(1) l u f by blast
qed

definition sample_static :: buffer where
  "sample_static = [2, 0, 0, 0, 20, 0, 0, 0, 22, 0, 0, 0, 3, 0, 0, 0, 7, 0, 0, 0, 65, 0, 66, 0]"

lemma sample_static_map:
  "StaticMap_new sample_static 0 = Some \<lparr>sm_raw_data = Some 0, sm_num_nodes = 2, sm_offsets = 4, sm_keys = 12\<rparr>"
  by code_simp

lemma sample_static_checks:
  fixes m defines "m \<equiv> \<lparr>sm_raw_data = Some 0, sm_num_nodes = 2, sm_offsets = 4, sm_keys = 12\<rparr>"
  shows "ValidateInMemoryStructure int_key sample_static m = Some True"
    "list_all (\<lambda>i. GetKeyAtIndex int_key sample_static m (int i) \<noteq> None) [0..<nat (sm_num_nodes m)]"
    "static_keys int_key sample_static m = [3, 7]"
  unfolding m_def by code_simp+

theorem StaticMap_search_correct_witness:
  "\<exists>lb it. StaticMap_lower_bound int_key sample_static (the (StaticMap_new sample_static 0)) 7 = Some lb \<and> it_index lb = 1 \<and>
     StaticMap_find int_key sample_static (the (StaticMap_new sample_static 0)) 7 = Some it \<and> it_index it = 1"
proof -
  note c = StaticMap_search_correct [OF sample_static_map sample_static_checks(1,2), of 7, unfolded sample_static_checks(3)]
  obtain lb it where s: "StaticMap_lower_bound int_key sample_static (the (StaticMap_new sample_static 0)) 7 = Some lb"
    "StaticMap_find int_key sample_static (the (StaticMap_new sample_static 0)) 7 = Some it"
    "\<forall>i<2. ([3, 7 :: int] ! i < 7 \<longleftrightarrow> int i < it_index lb) \<and> ([3, 7 :: int] ! i = 7 \<longleftrightarrow> int i = it_index it)"
    using c unfolding sample_static_map by auto
  have "0 < it_index lb" "\<not> 1 < it_index lb" "1 = it_index it"
    using s(3) [rule_format, of 0] s(3) [rule_format, of 1] by auto
  then show ?thesis using s(1,2) by (intro exI [of _ lb] exI [of _ it]) simp
qed

end
