(* ===== verification/Static_Range_Maps.thy ===== *)
theory Static_Range_Maps
  imports Static_Map
begin

text \<open>
  The serialized forms of the three address maps: \<open>StaticRangeMap\<close>, \<open>StaticAddressMap\<close> and
  \<open>StaticContainedRangeMap\<close> (\<open>processor/static_range_map.h\<close>, \<open>static_address_map.h\<close>,
  \<open>static_contained_range_map.h\<close> and their \<open>-inl.h\<close> files). A lookup returns a pointer to the bytes of the
  entry. As in \<open>Static_Map\<close>, the outer \<open>None\<close> is a read outside the block or through a null pointer;
  the inner one is the answer \<open>false\<close>.
\<close>

section \<open>Range maps\<close>

text \<open>\<open>Range\<close> is an empty class laid over the bytes of a value: the base, then the entry.\<close>

definition StaticRange_base :: "buffer \<Rightarrow> int \<Rightarrow> u64 option" where
  "StaticRange_base buf this = map_option le_value (rd buf this 8)"

definition StaticRange_entryptr :: "int \<Rightarrow> int" where
  "StaticRange_entryptr this = this + 8"

text \<open>The entry, its base and its size, from the range an iterator stands on.\<close>

definition static_range_result ::
  "buffer \<Rightarrow> StaticMapIterator \<Rightarrow> int \<Rightarrow> (int \<times> u64 \<times> u64) option" where
  "static_range_result buf it range_ptr =
     do { base \<leftarrow> StaticRange_base buf range_ptr;
          key \<leftarrow> Iterator_GetKey MemAddr_key buf it;
          Some (StaticRange_entryptr range_ptr, base, key - base + 1) }"

definition StaticRangeMap_RetrieveRange ::
  "buffer \<Rightarrow> StaticMap \<Rightarrow> u64 \<Rightarrow> (int \<times> u64 \<times> u64) option option" where
  "StaticRangeMap_RetrieveRange buf m address =
     do { it \<leftarrow> StaticMap_lower_bound MemAddr_key buf m address;
          finish \<leftarrow> StaticMap_end buf m;
          if Iterator_eq it finish then Some None
          else
            do { value_ptr \<leftarrow> Iterator_GetValueRawPtr buf it;
                 range_ptr \<leftarrow> value_ptr;
                 base \<leftarrow> StaticRange_base buf range_ptr;
                 if address < base then Some None
                 else map_option Some (static_range_result buf it range_ptr) } }"

definition StaticRangeMap_RetrieveNearestRange ::
  "buffer \<Rightarrow> StaticMap \<Rightarrow> u64 \<Rightarrow> (int \<times> u64 \<times> u64) option option" where
  "StaticRangeMap_RetrieveNearestRange buf m address =
     do { inside \<leftarrow> StaticRangeMap_RetrieveRange buf m address;
          (case inside of
             Some r \<Rightarrow> Some (Some r)
           | None \<Rightarrow>
               do { it \<leftarrow> StaticMap_upper_bound MemAddr_key buf m address;
                    start \<leftarrow> StaticMap_begin buf m;
                    if Iterator_eq it start then Some None
                    else
                      (let it' = Iterator_dec it in
                       do { value_ptr \<leftarrow> Iterator_GetValueRawPtr buf it';
                            range_ptr \<leftarrow> value_ptr;
                            map_option Some (static_range_result buf it' range_ptr) }) }) }"

definition StaticRangeMap_GetCount :: "StaticMap \<Rightarrow> int" where
  "StaticRangeMap_GetCount m = sm_num_nodes m"

definition StaticRangeMap_RetrieveRangeAtIndex ::
  "buffer \<Rightarrow> StaticMap \<Rightarrow> int \<Rightarrow> (int \<times> u64 \<times> u64) option option" where
  "StaticRangeMap_RetrieveRangeAtIndex buf m index =
     (if StaticRangeMap_GetCount m \<le> index then Some None
      else
        do { it \<leftarrow> IteratorAtIndex buf m index;
             value_ptr \<leftarrow> Iterator_GetValueRawPtr buf it;
             range_ptr \<leftarrow> value_ptr;
             map_option Some (static_range_result buf it range_ptr) })"

section \<open>Address maps\<close>

text \<open>The entry pointer, null or not, and the address it is stored under.\<close>

definition StaticAddressMap_Retrieve :: "buffer \<Rightarrow> StaticMap \<Rightarrow> u64 \<Rightarrow> (int option \<times> u64) option option" where
  "StaticAddressMap_Retrieve buf m address =
     do { it \<leftarrow> StaticMap_upper_bound MemAddr_key buf m address;
          start \<leftarrow> StaticMap_begin buf m;
          if Iterator_eq it start then Some None
          else
            (let it' = Iterator_dec it in
             do { entry \<leftarrow> Iterator_GetValueRawPtr buf it';
                  entry_address \<leftarrow> Iterator_GetKey MemAddr_key buf it';
                  Some (Some (entry, entry_address)) }) }"

section \<open>Trees of ranges\<close>

record StaticContainedRangeMap =
  sc_base :: u64
  sc_entry_size :: u32
  sc_entry_ptr :: "int option"
  sc_map :: StaticMap

definition StaticContainedRangeMap_new :: "buffer \<Rightarrow> int \<Rightarrow> StaticContainedRangeMap option" where
  "StaticContainedRangeMap_new buf p =
     do { base \<leftarrow> map_option le_value (rd buf p 8);
          entry_size \<leftarrow> rd32 buf (p + 8);
          m \<leftarrow> StaticMap_new buf (p + 8 + 4 + int (unat entry_size));
          Some \<lparr>sc_base = base, sc_entry_size = entry_size,
                sc_entry_ptr = (if entry_size = 0 then None else Some (p + 8 + 4)), sc_map = m\<rparr> }"

text \<open>The child whose range holds the address.\<close>

definition static_child ::
  "buffer \<Rightarrow> StaticContainedRangeMap \<Rightarrow> u64 \<Rightarrow> StaticContainedRangeMap option option" where
  "static_child buf m address =
     do { it \<leftarrow> StaticMap_lower_bound MemAddr_key buf (sc_map m) address;
          finish \<leftarrow> StaticMap_end buf (sc_map m);
          if Iterator_eq it finish then Some None
          else
            do { value_ptr \<leftarrow> Iterator_GetValueRawPtr buf it;
                 memory_child \<leftarrow> value_ptr;
                 child_map \<leftarrow> StaticContainedRangeMap_new buf memory_child;
                 if address < sc_base child_map then Some None else Some (Some child_map) } }"

text \<open>A child lies behind its parent in the block, whatever the bytes are.\<close>

definition room_behind :: "buffer \<Rightarrow> StaticContainedRangeMap \<Rightarrow> nat" where
  "room_behind buf m = (case sm_raw_data (sc_map m) of None \<Rightarrow> 0 | Some p \<Rightarrow> nat (int (length buf) - p))"

lemma rd32_bounds: "rd32 buf p = Some w \<Longrightarrow> 0 \<le> p \<and> p + 4 \<le> int (length buf)"
  by (auto simp: rd32_def rd_def split: if_splits)

lemma StaticMap_new_raw: "StaticMap_new buf p = Some m \<Longrightarrow> sm_raw_data m = Some p \<and> 0 \<le> p \<and> p + 4 \<le> int (length buf)"
  by (auto simp: StaticMap_new_def bind_eq_Some_conv dest: rd32_bounds)

lemma IteratorAtIndex_raw:
  "IteratorAtIndex buf m i = Some it \<Longrightarrow>
     \<exists>p. sm_raw_data m = Some p \<and> it_base it = Some p \<and> 0 \<le> p \<and> p + 4 \<le> int (length buf)"
  by (auto simp: IteratorAtIndex_def StaticMapIterator_new_def bind_eq_Some_conv dest: rd32_bounds)

lemma lower_bound_raw:
  assumes "StaticMap_lower_bound kt buf m k = Some it"
  shows "\<exists>p. sm_raw_data m = Some p \<and> it_base it = Some p \<and> 0 \<le> p \<and> p + 4 \<le> int (length buf)"
proof -
  obtain r where "(case r of Inl i \<Rightarrow> IteratorAtIndex buf m i | Inr i \<Rightarrow> IteratorAtIndex buf m i) = Some it"
    using assms by (auto simp: StaticMap_lower_bound_def bind_eq_Some_conv)
  then show ?thesis by (cases r) (simp_all add: IteratorAtIndex_raw)
qed

lemma value_ptr_behind: "Iterator_GetValueRawPtr buf it = Some (Some q) \<Longrightarrow> it_base it = Some p \<Longrightarrow> p \<le> q"
  by (auto simp: Iterator_GetValueRawPtr_def bind_eq_Some_conv split: if_splits)

lemma static_child_behind:
  assumes "static_child buf m address = Some (Some c)"
  shows "room_behind buf c < room_behind buf m"
proof -
  obtain it q where it: "StaticMap_lower_bound MemAddr_key buf (sc_map m) address = Some it"
      "Iterator_GetValueRawPtr buf it = Some (Some q)"
    and c: "StaticContainedRangeMap_new buf q = Some c"
    using assms by (auto simp: static_child_def bind_eq_Some_conv split: if_splits)
  obtain p where p: "sm_raw_data (sc_map m) = Some p" "0 \<le> p" "p + 4 \<le> int (length buf)" "p \<le> q"
    using lower_bound_raw [OF it(1)] value_ptr_behind [OF it(2)] by blast
  obtain e where "sm_raw_data (sc_map c) = Some (q + 12 + int (unat (e :: u32)))"
      "q + 12 + int (unat e) + 4 \<le> int (length buf)"
    using c by (auto simp: StaticContainedRangeMap_new_def bind_eq_Some_conv dest!: StaticMap_new_raw)
  moreover have "0 \<le> int (unat e)" by (rule of_nat_0_le_iff)
  ultimately show ?thesis using p by (simp only: room_behind_def option.case)
qed

function StaticContainedRangeMap_RetrieveRange ::
  "buffer \<Rightarrow> StaticContainedRangeMap \<Rightarrow> u64 \<Rightarrow> int option option option" where
  "StaticContainedRangeMap_RetrieveRange buf m address =
     (case static_child buf m address of
        None \<Rightarrow> None
      | Some None \<Rightarrow> Some None
      | Some (Some child_map) \<Rightarrow>
          (case StaticContainedRangeMap_RetrieveRange buf child_map address of
             None \<Rightarrow> None
           | Some (Some entry) \<Rightarrow> Some (Some entry)
           | Some None \<Rightarrow> Some (Some (sc_entry_ptr child_map))))"
  by pat_completeness auto
termination
  by (relation "measure (\<lambda>(buf, m, address). room_behind buf m)") (auto dest: static_child_behind)

declare StaticContainedRangeMap_RetrieveRange.simps [simp del]


section \<open>Agreement with the maps that were serialized\<close>

text \<open>A serialized range map, address map and tree in the block.\<close>

definition range_map_at :: "buffer \<Rightarrow> ('e \<Rightarrow> u8 list) \<Rightarrow> StaticMap \<Rightarrow> (u64, 'e) RangeMap \<Rightarrow> bool" where
  "range_map_at buf eb s m \<longleftrightarrow> (\<exists>p. StaticMap_new buf p = Some s \<and> serialized_at buf p 8 le_bytes (range_bytes eb) (rmap m))"

definition address_map_at :: "buffer \<Rightarrow> ('e \<Rightarrow> u8 list) \<Rightarrow> StaticMap \<Rightarrow> (u64, 'e) AddressMap \<Rightarrow> bool" where
  "address_map_at buf eb s m \<longleftrightarrow> (\<exists>p. StaticMap_new buf p = Some s \<and> serialized_at buf p 8 le_bytes eb m)"

lemma MemAddr_sizeof [simp]: "key_sizeof MemAddr_key = 8"
  by (simp add: MemAddr_key_def)


lemma addr_layout:
  assumes "StaticMap_new buf p = Some s" "serialized_at buf p 8 le_bytes vb m"
  shows "StaticMap_lower_bound MemAddr_key buf s key = IteratorAtIndex buf s (int (lower_bound m key))"
    "StaticMap_upper_bound MemAddr_key buf s key = IteratorAtIndex buf s (int (upper_bound m key))"
    "StaticMap_end buf s = IteratorAtIndex buf s (int (length m))"
    "StaticMap_begin buf s = IteratorAtIndex buf s (int 0)"
  using addr.layout_search [unfolded MemAddr_sizeof, OF assms(2) _ assms(1)] by (simp_all add: StaticMap_begin_def)

text \<open>What an iterator on a serialized map gives at position \<open>i\<close>.\<close>

definition node_at :: "buffer \<Rightarrow> ('v \<Rightarrow> u8 list) \<Rightarrow> (u64, 'v) std_map \<Rightarrow> nat \<Rightarrow> StaticMapIterator \<Rightarrow> bool" where
  "node_at buf vb m i it \<longleftrightarrow> it_index it = int i \<and> it_num_nodes it = int (length m) \<and>
     Iterator_IsValid it = (i \<le> length m) \<and>
     (i < length m \<longrightarrow> Iterator_GetKey MemAddr_key buf it = Some (fst (m ! i)) \<and>
        (\<exists>q. Iterator_GetValueRawPtr buf it = Some (Some q) \<and> holds buf q (vb (snd (m ! i)))))"

lemma addr_iterator:
  assumes "StaticMap_new buf p = Some s" "serialized_at buf p 8 le_bytes vb m"
  shows "\<exists>it. IteratorAtIndex buf s (int i) = Some it \<and> it_base it = Some p \<and> node_at buf vb m i it"
  using addr.layout_iterator [unfolded MemAddr_sizeof, OF assms(2) _ assms(1), of i] unfolding node_at_def by auto

lemma addr_iterator_dec:
  fixes m :: "(u64, 'v) std_map"
  assumes "StaticMap_new buf p = Some s" "serialized_at buf p 8 le_bytes vb m" "0 < i" "i \<le> length m"
    "IteratorAtIndex buf s (int i) = Some it"
  shows "IteratorAtIndex buf s (int (i - 1)) = Some (Iterator_dec it)"
proof -
  have v: "Iterator_IsValid it" "it_index it = int i"
    using addr_iterator [OF assms(1,2), of i] assms(4,5) by (auto simp: node_at_def)
  then have "Iterator_dec it = it\<lparr>it_index := int (i - 1)\<rparr>" using assms(3) by (simp add: Iterator_dec_def of_nat_diff)
  then show ?thesis using assms(5) by (auto simp: IteratorAtIndex_def StaticMapIterator_new_def bind_eq_Some_conv)
qed

lemma upper_bound_iterator:
  fixes m :: "(u64, 'v) std_map"
  assumes "StaticMap_new buf p = Some s" "serialized_at buf p 8 le_bytes vb m"
  shows "\<exists>it beg. StaticMap_upper_bound MemAddr_key buf s a = Some it \<and> StaticMap_begin buf s = Some beg \<and>
    (Iterator_eq it beg \<longleftrightarrow> upper_bound m a = 0) \<and>
    (0 < upper_bound m a \<longrightarrow> node_at buf vb m (upper_bound m a - 1) (Iterator_dec it))"
proof -
  let ?i = "upper_bound m a"
  obtain it where it: "IteratorAtIndex buf s (int ?i) = Some it" "it_base it = Some p" "it_index it = int ?i"
    using addr_iterator [OF assms] by (auto simp: node_at_def)
  obtain beg where beg: "IteratorAtIndex buf s (int 0) = Some beg" "it_base beg = Some p" "it_index beg = int 0"
    using addr_iterator [OF assms] unfolding node_at_def by blast
  have eq: "Iterator_eq it beg \<longleftrightarrow> ?i = 0" using it beg by (simp add: Iterator_eq_def)
  have "node_at buf vb m (?i - 1) (Iterator_dec it)" if "0 < ?i"
    using addr_iterator [OF assms, of "?i - 1"] addr_iterator_dec [OF assms that upper_bound_le it(1)] by auto
  then show ?thesis using addr_layout(2) [OF assms, of a] addr_layout(4) [OF assms] it(1) beg(1) eq by simp
qed

lemma range_result_at:
  assumes "node_at buf (range_bytes eb) m i it" "i < length m"
  shows "\<exists>q r. Iterator_GetValueRawPtr buf it = Some (Some q) \<and> StaticRange_base buf q = Some (r_base (snd (m ! i))) \<and>
    static_range_result buf it q = Some (q + 8, r_base (snd (m ! i)), fst (m ! i) - r_base (snd (m ! i)) + 1) \<and>
    holds buf (q + 8) (eb (r_entry (snd (m ! i))))"
proof -
  obtain q where q: "Iterator_GetValueRawPtr buf it = Some (Some q)" "holds buf q (range_bytes eb (snd (m ! i)))"
    "Iterator_GetKey MemAddr_key buf it = Some (fst (m ! i))"
    using assms by (auto simp: node_at_def)
  then have h: "holds buf q (le_bytes (r_base (snd (m ! i))))" "holds buf (q + 8) (eb (r_entry (snd (m ! i))))"
    by (simp_all add: range_bytes_def holds_append)
  have "StaticRange_base buf q = Some (r_base (snd (m ! i)))"
    using rd_holds [OF h(1), of 8] by (simp add: StaticRange_base_def)
  then show ?thesis using q h(2) by (simp add: static_range_result_def StaticRange_entryptr_def)
qed

text \<open>The lookups of the serialized form return the same base and size, and a pointer to the bytes of
  the same entry.\<close>

definition same_range :: "buffer \<Rightarrow> ('e \<Rightarrow> u8 list) \<Rightarrow> ('e \<times> u64 \<times> u64 \<times> u64) option \<Rightarrow>
    (int \<times> u64 \<times> u64) option option \<Rightarrow> bool" where
  "same_range buf eb x y \<longleftrightarrow>
     (case x of
        None \<Rightarrow> y = Some None
      | Some (e, base, delta, sz) \<Rightarrow> \<exists>q. y = Some (Some (q, base, sz)) \<and> holds buf q (eb e))"

lemma static_RetrieveRange:
  assumes "range_map_at buf eb s m"
  shows "same_range buf eb (RangeMap_RetrieveRange m a) (StaticRangeMap_RetrieveRange buf s a)"
proof -
  obtain p where p: "StaticMap_new buf p = Some s" "serialized_at buf p 8 le_bytes (range_bytes eb) (rmap m)"
    using assms by (auto simp: range_map_at_def)
  let ?i = "lower_bound (rmap m) a"
  obtain it where it: "IteratorAtIndex buf s (int ?i) = Some it" "it_base it = Some p"
    "node_at buf (range_bytes eb) (rmap m) ?i it" using addr_iterator [OF p] by blast
  obtain fin where fin: "IteratorAtIndex buf s (int (length (rmap m))) = Some fin" "it_base fin = Some p"
    "it_index fin = int (length (rmap m))" using addr_iterator [OF p] by (auto simp: node_at_def)
  have eq: "Iterator_eq it fin \<longleftrightarrow> ?i = length (rmap m)"
    using it fin by (auto simp: Iterator_eq_def node_at_def)
  show ?thesis
  proof (cases "?i = length (rmap m)")
    case True
    then show ?thesis using it fin eq
      by (simp add: same_range_def RangeMap_RetrieveRange_def StaticRangeMap_RetrieveRange_def addr_layout [OF p])
  next
    case False
    then have "?i < length (rmap m)" using lower_bound_le [of "rmap m" a] by linarith
    from range_result_at [OF it(3) this] show ?thesis using it fin eq False
      by (auto simp: same_range_def RangeMap_RetrieveRange_def StaticRangeMap_RetrieveRange_def addr_layout [OF p]
          range_result_def Let_def)
  qed
qed

lemma static_RetrieveNearestRange:
  assumes "range_map_at buf eb s m"
  shows "same_range buf eb (RangeMap_RetrieveNearestRange m a) (StaticRangeMap_RetrieveNearestRange buf s a)"
proof (cases "RangeMap_RetrieveRange m a")
  case (Some r)
  then show ?thesis using static_RetrieveRange [OF assms, of a]
    by (cases r) (auto simp: same_range_def RangeMap_RetrieveNearestRange_def StaticRangeMap_RetrieveNearestRange_def)
next
  case None
  then have n: "StaticRangeMap_RetrieveRange buf s a = Some None"
    using static_RetrieveRange [OF assms, of a] by (simp add: same_range_def)
  obtain p where p: "StaticMap_new buf p = Some s" "serialized_at buf p 8 le_bytes (range_bytes eb) (rmap m)"
    using assms by (auto simp: range_map_at_def)
  let ?i = "upper_bound (rmap m) a"
  obtain it beg where it: "StaticMap_upper_bound MemAddr_key buf s a = Some it" "StaticMap_begin buf s = Some beg"
    "Iterator_eq it beg \<longleftrightarrow> ?i = 0" "0 < ?i \<Longrightarrow> node_at buf (range_bytes eb) (rmap m) (?i - 1) (Iterator_dec it)"
    using upper_bound_iterator [OF p] by blast
  show ?thesis
  proof (cases "?i = 0")
    case True
    then show ?thesis using None it
      by (simp add: same_range_def RangeMap_RetrieveNearestRange_def StaticRangeMap_RetrieveNearestRange_def n)
  next
    case False
    have "?i - 1 < length (rmap m)" using False upper_bound_le [of "rmap m" a] by linarith
    from range_result_at [OF it(4) this] show ?thesis using None it False
      by (auto simp: same_range_def RangeMap_RetrieveNearestRange_def StaticRangeMap_RetrieveNearestRange_def n
          range_result_def Let_def)
  qed
qed

lemma static_RetrieveRangeAtIndex:
  assumes "range_map_at buf eb s m"
  shows "same_range buf eb (RangeMap_RetrieveRangeAtIndex m i) (StaticRangeMap_RetrieveRangeAtIndex buf s (int i))"
proof -
  obtain p where p: "StaticMap_new buf p = Some s" "serialized_at buf p 8 le_bytes (range_bytes eb) (rmap m)"
    using assms by (auto simp: range_map_at_def)
  have n: "sm_num_nodes s = int (length (rmap m))"
    using addr.layout_new [unfolded MemAddr_sizeof, OF p(2)] p(1) by simp
  obtain it where it: "IteratorAtIndex buf s (int i) = Some it" "node_at buf (range_bytes eb) (rmap m) i it"
    using addr_iterator [OF p] by blast
  show ?thesis
    using range_result_at [OF it(2)] it(1)
    by (auto simp: same_range_def RangeMap_RetrieveRangeAtIndex_def StaticRangeMap_RetrieveRangeAtIndex_def
        RangeMap_GetCount_def StaticRangeMap_GetCount_def n range_result_def)
qed

lemma static_Retrieve:
  assumes "address_map_at buf eb s m"
  shows "case AddressMap_Retrieve m a of
      None \<Rightarrow> StaticAddressMap_Retrieve buf s a = Some None
    | Some (e, b) \<Rightarrow> \<exists>q. StaticAddressMap_Retrieve buf s a = Some (Some (Some q, b)) \<and> holds buf q (eb e)"
proof -
  obtain p where p: "StaticMap_new buf p = Some s" "serialized_at buf p 8 le_bytes eb m"
    using assms by (auto simp: address_map_at_def)
  let ?i = "upper_bound m a"
  obtain it beg where it: "StaticMap_upper_bound MemAddr_key buf s a = Some it" "StaticMap_begin buf s = Some beg"
    "Iterator_eq it beg \<longleftrightarrow> ?i = 0" "0 < ?i \<Longrightarrow> node_at buf eb m (?i - 1) (Iterator_dec it)"
    using upper_bound_iterator [OF p] by blast
  have "0 < ?i \<Longrightarrow> ?i - 1 < length m" using upper_bound_le [of m a] by linarith
  then show ?thesis using it
    by (auto simp: AddressMap_Retrieve_def StaticAddressMap_Retrieve_def node_at_def Let_def)
qed

section \<open>Agreement of trees\<close>

definition crm_at :: "buffer \<Rightarrow> ('e \<Rightarrow> u8 list) \<Rightarrow> StaticContainedRangeMap \<Rightarrow> (u64, 'e) ContainedRangeMap \<Rightarrow> bool" where
  "crm_at buf eb s m \<longleftrightarrow> (\<exists>p lo hi. StaticContainedRangeMap_new buf p = Some s \<and> holds buf p (crm_layout eb m) \<and>
     length (crm_layout eb m) < 2 ^ 32 \<and> crm_ok lo hi m)"

text \<open>The pointer to an entry is null when the entry has no bytes.\<close>

definition entry_at :: "buffer \<Rightarrow> ('e \<Rightarrow> u8 list) \<Rightarrow> 'e \<Rightarrow> int option \<Rightarrow> bool" where
  "entry_at buf eb e q \<longleftrightarrow> (case q of None \<Rightarrow> eb e = [] | Some p \<Rightarrow> eb e \<noteq> [] \<and> holds buf p (eb e))"

lemma crm_at_node:
  assumes "crm_at buf eb s m"
  shows "sc_base s = crm_base m" "entry_at buf eb (crm_entry m) (sc_entry_ptr s)"
    "\<exists>p. StaticMap_new buf p = Some (sc_map s) \<and> serialized_at buf p 8 le_bytes (crm_layout eb) (crm_kids m)"
proof -
  let ?e = "eb (crm_entry m)" and ?L = "map_layout 8 le_bytes (crm_layout eb) (crm_kids m)"
  obtain p lo hi where p: "StaticContainedRangeMap_new buf p = Some s" "holds buf p (crm_layout eb m)"
    "length (crm_layout eb m) < 2 ^ 32" "crm_ok lo hi m" using assms by (auto simp: crm_at_def)
  have h: "holds buf p (le_bytes (crm_base m))" "holds buf (p + 8) (u32_bytes (length ?e))"
    "holds buf (p + 12) ?e" "holds buf (p + 12 + int (length ?e)) ?L"
    using p(2) by (simp_all add: crm_layout.simps [of eb m] holds_append add.assoc)
  have l: "length ?e < 2 ^ 32" "length ?L < 2 ^ 32" using p(3) by (simp_all add: crm_layout.simps [of eb m])
  have w: "unat (word_of_nat (length ?e) :: u32) = length ?e" by (rule unat_word_u32 [OF l(1)])
  then have z: "(word_of_nat (length ?e) :: u32) = 0 \<longleftrightarrow> ?e = []" by (metis length_0_conv unat_eq_zero)
  have u: "uint (word_of_nat (length ?e) :: u32) = int (length ?e)" using w by (metis uint_nat)
  have s: "sc_base s = crm_base m" "sc_entry_ptr s = (if ?e = [] then None else Some (p + 12))"
    "StaticMap_new buf (p + 12 + int (length ?e)) = Some (sc_map s)"
    using p(1) rd_holds [OF h(1), of 8] rd32_holds [OF h(2)] u z
    by (auto simp: StaticContainedRangeMap_new_def bind_eq_Some_conv add.assoc)
  show "sc_base s = crm_base m" by (rule s(1))
  show "entry_at buf eb (crm_entry m) (sc_entry_ptr s)" using s(2) h(3) by (simp add: entry_at_def)
  have "map_ok (crm_kids m)" using p(4) by (metis crm_okE kids_ok_map_ok)
  then have "serialized_at buf (p + 12 + int (length ?e)) 8 le_bytes (crm_layout eb) (crm_kids m)"
    using h(4) l(2) by (simp add: serialized_at_def crm_layout.simps [of eb "snd _"] le_bytes_def)
  then show "\<exists>p. StaticMap_new buf p = Some (sc_map s) \<and> serialized_at buf p 8 le_bytes (crm_layout eb) (crm_kids m)"
    using s(3) by blast
qed

lemma crm_new_ex:
  assumes "holds buf q (crm_layout eb m)" "length (crm_layout eb m) < 2 ^ 32" "crm_ok lo hi m"
  shows "\<exists>s. StaticContainedRangeMap_new buf q = Some s \<and> crm_at buf eb s m"
proof -
  let ?e = "eb (crm_entry m)"
  have h: "holds buf q (le_bytes (crm_base m))" "holds buf (q + 8) (u32_bytes (length ?e))"
    "holds buf (q + 12 + int (length ?e)) (map_layout 8 le_bytes (crm_layout eb) (crm_kids m))"
    using assms(1) by (simp_all add: crm_layout.simps [of eb m] holds_append add.assoc)
  have "length ?e < 2 ^ 32" using assms(2) by (simp add: crm_layout.simps [of eb m])
  then have u: "uint (word_of_nat (length ?e) :: u32) = int (length ?e)" by (metis unat_word_u32 uint_nat)
  have "holds buf (q + 12 + int (length ?e)) (u32_bytes (length (crm_kids m)))"
    using h(3) by (simp add: map_layout_def holds_append)
  then have "rd32 buf (q + 12 + int (length ?e)) \<noteq> None" using rd32_holds by blast
  then obtain s where "StaticContainedRangeMap_new buf q = Some s"
    using rd_holds [OF h(1), of 8] rd32_holds [OF h(2)] u
    by (auto simp: StaticContainedRangeMap_new_def StaticMap_new_def add.assoc)
  then show ?thesis using assms by (auto simp: crm_at_def)
qed

lemma crm_at_kid:
  assumes "crm_at buf eb s m" "i < length (crm_kids m)" "holds buf q (crm_layout eb (snd (crm_kids m ! i)))"
  shows "\<exists>c. StaticContainedRangeMap_new buf q = Some c \<and> crm_at buf eb c (snd (crm_kids m ! i))"
proof (rule crm_new_ex [OF assms(3)])
  have mem: "crm_kids m ! i \<in> set (crm_kids m)" using assms(2) by simp
  obtain lo hi where m: "length (crm_layout eb m) < 2 ^ 32" "crm_ok lo hi m" using assms(1) by (auto simp: crm_at_def)
  show "length (crm_layout eb (snd (crm_kids m ! i))) < 2 ^ 32"
    using m(1) length_value_le_layout [OF mem, of "crm_layout eb" 8 le_bytes] by (simp add: crm_layout.simps [of eb m])
  show "crm_ok (crm_base (snd (crm_kids m ! i))) (fst (crm_kids m ! i)) (snd (crm_kids m ! i))"
    using m(2) mem by (metis crm_okE)
qed

lemma static_child_at:
  assumes "crm_at buf eb s m"
  shows "(let i = lower_bound (crm_kids m) a in
    if i = length (crm_kids m) \<or> a < crm_base (snd (crm_kids m ! i)) then static_child buf s a = Some None
    else \<exists>c. static_child buf s a = Some (Some c) \<and> crm_at buf eb c (snd (crm_kids m ! i)))"
proof -
  let ?i = "lower_bound (crm_kids m) a"
  obtain p where p: "StaticMap_new buf p = Some (sc_map s)" "serialized_at buf p 8 le_bytes (crm_layout eb) (crm_kids m)"
    using crm_at_node(3) [OF assms] by blast
  obtain it where it: "IteratorAtIndex buf (sc_map s) (int ?i) = Some it" "it_base it = Some p"
    "node_at buf (crm_layout eb) (crm_kids m) ?i it" using addr_iterator [OF p] by blast
  obtain fin where fin: "IteratorAtIndex buf (sc_map s) (int (length (crm_kids m))) = Some fin" "it_base fin = Some p"
    "it_index fin = int (length (crm_kids m))" using addr_iterator [OF p] by (auto simp: node_at_def)
  have eq: "Iterator_eq it fin \<longleftrightarrow> ?i = length (crm_kids m)" using it fin by (auto simp: Iterator_eq_def node_at_def)
  show ?thesis
  proof (cases "?i = length (crm_kids m)")
    case True
    then show ?thesis using it fin eq by (simp add: static_child_def addr_layout [OF p])
  next
    case False
    then have i: "?i < length (crm_kids m)" using lower_bound_le [of "crm_kids m" a] by linarith
    then obtain q where q: "Iterator_GetValueRawPtr buf it = Some (Some q)"
      "holds buf q (crm_layout eb (snd (crm_kids m ! ?i)))" using it(3) by (auto simp: node_at_def)
    obtain c where c: "StaticContainedRangeMap_new buf q = Some c" "crm_at buf eb c (snd (crm_kids m ! ?i))"
      using crm_at_kid [OF assms i q(2)] by blast
    have "sc_base c = crm_base (snd (crm_kids m ! ?i))" by (rule crm_at_node(1) [OF c(2)])
    then show ?thesis using it fin eq False q(1) c by (simp add: static_child_def addr_layout [OF p] Let_def)
  qed
qed

text \<open>The lookup in the block finds the entry the tree holds, for every address.\<close>

lemma static_contained_RetrieveRange:
  assumes "crm_at buf eb s m"
  shows "case ContainedRangeMap_RetrieveRange m a of
      None \<Rightarrow> StaticContainedRangeMap_RetrieveRange buf s a = Some None
    | Some e \<Rightarrow> \<exists>q. StaticContainedRangeMap_RetrieveRange buf s a = Some (Some q) \<and> entry_at buf eb e q"
  using assms
proof (induction "size m" arbitrary: s m rule: less_induct)
  case less
  let ?i = "lower_bound (crm_kids m) a"
  let ?k = "snd (crm_kids m ! ?i)"
  have none: "crm_map m = None \<Longrightarrow> crm_kids m = []" by (cases m rule: crm_kids.cases) simp_all
  note child = static_child_at [OF less.prems, of a, unfolded Let_def]
  show ?case
  proof (cases "?i = length (crm_kids m) \<or> a < crm_base ?k")
    case True
    then have "static_child buf s a = Some None" "ContainedRangeMap_RetrieveRange m a = None"
      using child by (auto simp: ContainedRangeMap_RetrieveRange.simps [of m] Let_def)
    then show ?thesis by (simp add: StaticContainedRangeMap_RetrieveRange.simps [of buf s])
  next
    case False
    then obtain c where c: "static_child buf s a = Some (Some c)" "crm_at buf eb c ?k" using child by auto
    have i: "?i < length (crm_kids m)" using False lower_bound_le [of "crm_kids m" a] by linarith
    have e: "entry_at buf eb (crm_entry ?k) (sc_entry_ptr c)" by (rule crm_at_node(2) [OF c(2)])
    have m: "crm_map m \<noteq> None" using none i by fastforce
    show ?thesis
      using less.hyps [OF size_kid [OF i] c(2)] False m e
      by (auto simp: ContainedRangeMap_RetrieveRange.simps [of m] StaticContainedRangeMap_RetrieveRange.simps [of buf s]
          c(1) Let_def split: option.splits)
  qed
qed

end
