(* ===== verification/Symbol_Parser.thy ===== *)
theory Symbol_Parser
  imports Bp_Strings
begin

text \<open>
  The records of a textual symbol file (\<open>SymbolParseHelper\<close> in
  \<open>processor/basic_source_line_resolver.cc\<close>): one parser for each kind of line. A parser
  returns \<open>None\<close> where the code returns false.
\<close>

section \<open>Numbers with an end pointer\<close>

fun dec_digits :: "string \<Rightarrow> int \<Rightarrow> int \<times> string" where
  "dec_digits [] acc = (acc, [])"
| "dec_digits (c # cs) acc =
     (if is_digit c then dec_digits cs (10 * acc + (of_char c - 48)) else (acc, c # cs))"

text \<open>What the \<open>strto*\<close> functions read in base 10, as \<open>hex_scan\<close> does for base 16.\<close>

definition dec_scan :: "string \<Rightarrow> (bool \<times> int \<times> string) option" where
  "dec_scan s =
     (let s1 = dropWhile is_space s;
          neg = (case s1 of c # _ \<Rightarrow> c = CHR ''-'' | [] \<Rightarrow> False);
          s2 = (case s1 of c # cs \<Rightarrow> if c \<in> {CHR ''-'', CHR ''+''} then cs else s1 | [] \<Rightarrow> [])
      in case s2 of
           [] \<Rightarrow> None
         | c # _ \<Rightarrow> if is_digit c then Some (neg, dec_digits s2 0) else None)"

definition LONG_MAX :: int where
  "LONG_MAX = 2 ^ 63 - 1"

text \<open>\<open>strtol\<close>, given what was scanned: the value, saturated to 64 bits, and the text at the end
  pointer.\<close>

definition strtol_of :: "(bool \<times> int \<times> string) option \<Rightarrow> string \<Rightarrow> int \<times> string" where
  "strtol_of scanned s =
     (case scanned of
        None \<Rightarrow> (0, s)
      | Some (neg, n, rest) \<Rightarrow> (if neg then max (- LONG_MAX - 1) (- n) else min LONG_MAX n, rest))"

definition strtol_10 :: "string \<Rightarrow> int \<times> string" where
  "strtol_10 s = strtol_of (dec_scan s) s"

definition strtol_16 :: "string \<Rightarrow> int \<times> string" where
  "strtol_16 s = strtol_of (hex_scan s) s"

text \<open>The conversion of a \<open>long\<close> to a 32-bit \<open>int\<close>.\<close>

definition to_int32 :: "int \<Rightarrow> int" where
  "to_int32 n = sint (of_int n :: u32)"

section \<open>The line parsers\<close>

definition kWhitespace :: "char \<Rightarrow> bool" where
  "kWhitespace c \<longleftrightarrow> of_char c \<in> {32, 13, 10 :: nat}"

definition IsValidAfterNumber :: "string \<Rightarrow> bool" where
  "IsValidAfterNumber after_number \<longleftrightarrow> after_number = [] \<or> kWhitespace (hd after_number)"

definition uint64_field :: "string \<Rightarrow> u64 option" where
  "uint64_field token =
     (case strtoull_hex token of (v, after_number) \<Rightarrow>
        if \<not> IsValidAfterNumber after_number \<or> v = - 1 then None else Some v)"

definition long_field :: "int \<times> string \<Rightarrow> int option" where
  "long_field r =
     (case r of (v, after_number) \<Rightarrow>
        if \<not> IsValidAfterNumber after_number \<or> v = LONG_MAX \<or> v < 0 then None else Some v)"

text \<open>\<open>FILE <id> <filename>\<close>\<close>

definition SymbolParseHelper_ParseFile :: "string \<Rightarrow> (int \<times> string) option" where
  "SymbolParseHelper_ParseFile file_line =
     (case Tokenize (drop 5 file_line) kWhitespace 2 of
        None \<Rightarrow> None
      | Some ts \<Rightarrow>
          (case long_field (strtol_10 (ts ! 0)) of
             None \<Rightarrow> None
           | Some index \<Rightarrow> Some (index, ts ! 1)))"

text \<open>\<open>FUNC <address> <size> <stack_param_size> <name>\<close>\<close>

definition SymbolParseHelper_ParseFunction :: "string \<Rightarrow> (u64 \<times> u64 \<times> int \<times> string) option" where
  "SymbolParseHelper_ParseFunction function_line =
     (case Tokenize (drop 5 function_line) kWhitespace 4 of
        None \<Rightarrow> None
      | Some ts \<Rightarrow>
          (case (uint64_field (ts ! 0), uint64_field (ts ! 1), long_field (strtol_16 (ts ! 2))) of
             (Some address, Some sz, Some stack_param_size) \<Rightarrow>
               Some (address, sz, stack_param_size, ts ! 3)
           | _ \<Rightarrow> None))"

text \<open>\<open><address> <size> <line number> <source file id>\<close>\<close>

definition SymbolParseHelper_ParseLine :: "string \<Rightarrow> (u64 \<times> u64 \<times> int \<times> int) option" where
  "SymbolParseHelper_ParseLine line_line =
     (case Tokenize line_line kWhitespace 4 of
        None \<Rightarrow> None
      | Some ts \<Rightarrow>
          (case (uint64_field (ts ! 0), uint64_field (ts ! 1), long_field (strtol_10 (ts ! 2)),
                 long_field (strtol_10 (ts ! 3))) of
             (Some address, Some sz, Some line_number, Some source_file) \<Rightarrow>
               Some (address, sz, line_number, source_file)
           | _ \<Rightarrow> None))"

text \<open>\<open>PUBLIC <address> <stack_param_size> <name>\<close>\<close>

definition SymbolParseHelper_ParsePublicSymbol :: "string \<Rightarrow> (u64 \<times> int \<times> string) option" where
  "SymbolParseHelper_ParsePublicSymbol public_line =
     (case Tokenize (drop 7 public_line) kWhitespace 3 of
        None \<Rightarrow> None
      | Some ts \<Rightarrow>
          (case (uint64_field (ts ! 0), long_field (strtol_16 (ts ! 1))) of
             (Some address, Some stack_param_size) \<Rightarrow> Some (address, stack_param_size, ts ! 2)
           | _ \<Rightarrow> None))"

end
