(* ===== verification/Resolver_Base.thy ===== *)
theory Resolver_Base
  imports Stack_Frame_Symbolizer
begin

text \<open>
  \<open>SourceLineResolverBase\<close> (\<open>processor/source_line_resolver_base.cc\<close>): the table of loaded
  modules and the lookups that go through it. The virtual class \<open>Module\<close> and its factory are a
  record of functions; the locale \<open>symbol_module\<close> says what the table relies on, and the
  resolvers interpret it.
\<close>

section \<open>The virtual operations of a module\<close>

record 'm ModuleOps =
  mo_CreateModule :: "string \<Rightarrow> 'm"
  mo_LoadMapFromMemory :: "string \<Rightarrow> 'm \<Rightarrow> bool \<times> 'm"
  mo_IsCorrupt :: "'m \<Rightarrow> bool"
  mo_LookupAddress :: "'m \<Rightarrow> u64 \<Rightarrow> StackFrame \<Rightarrow> StackFrame"
  mo_FindWindowsFrameInfo :: "'m \<Rightarrow> u64 \<Rightarrow> StackFrame \<Rightarrow> WindowsFrameInfo option"
  mo_FindCFIFrameInfo :: "'m \<Rightarrow> u64 \<Rightarrow> StackFrame \<Rightarrow> CFIFrameInfo option"
  mo_ShouldDeleteMemoryBuffer :: bool

definition ParseCFIRuleSet :: "string \<Rightarrow> CFIFrameInfo \<Rightarrow> bool \<times> CFIFrameInfo" where
  "ParseCFIRuleSet rule_set frame_info = CFIRuleParser_Parse CFIFrameInfoParseHandler rule_set frame_info"

section \<open>The table of modules\<close>

text \<open>The maps are ordered by \<open>CompareString\<close>, which compares up to the first terminator, so the
  keys are kept in that form.\<close>

record 'm ResolverBase =
  rb_modules :: "(string, 'm) std_map"
  rb_corrupt_modules :: "string set"
  rb_memory_buffers :: "(string, string) std_map"

definition ResolverBase_init :: "'m ResolverBase" where
  "ResolverBase_init = \<lparr>rb_modules = [], rb_corrupt_modules = {}, rb_memory_buffers = []\<rparr>"

definition module_key :: "CodeModule \<Rightarrow> string" where
  "module_key module = cstr (code_file module)"

definition rb_find :: "'m ResolverBase \<Rightarrow> CodeModule \<Rightarrow> 'm option" where
  "rb_find r module =
     (let it = map_find (rb_modules r) (module_key module) in
      if it = length (rb_modules r) then None else Some (snd (rb_modules r ! it)))"

text \<open>The content of a file, or \<open>None\<close> where \<open>stat\<close>, \<open>fopen\<close> or \<open>fread\<close> fails, is the parameter \<open>read\<close>.\<close>

definition ReadSymbolFile :: "(string \<Rightarrow> string option) \<Rightarrow> string \<Rightarrow> string option" where
  "ReadSymbolFile read map_file = map_option (\<lambda>content. content @ [NUL]) (read map_file)"

definition LoadModuleUsingMemoryBuffer ::
  "'m ModuleOps \<Rightarrow> CodeModule option \<Rightarrow> string \<Rightarrow> 'm ResolverBase \<Rightarrow> bool \<times> 'm ResolverBase" where
  "LoadModuleUsingMemoryBuffer ops module memory_buffer r =
     (case module of
        None \<Rightarrow> (False, r)
      | Some module \<Rightarrow>
          if rb_find r module \<noteq> None then (False, r)
          else
            (let m = snd (mo_LoadMapFromMemory ops memory_buffer (mo_CreateModule ops (code_file module)));
                 r' = r\<lparr>rb_modules := map_insert (rb_modules r) (module_key module) m\<rparr>
             in (True,
                 if mo_IsCorrupt ops m
                 then r'\<lparr>rb_corrupt_modules := insert (module_key module) (rb_corrupt_modules r)\<rparr> else r')))"

text \<open>What \<open>LoadModule\<close> and \<open>LoadModuleUsingMapBuffer\<close> share once they have a buffer.\<close>

definition load_owned ::
  "'m ModuleOps \<Rightarrow> CodeModule \<Rightarrow> string \<Rightarrow> 'm ResolverBase \<Rightarrow> bool \<times> 'm ResolverBase" where
  "load_owned ops module memory_buffer r =
     (case LoadModuleUsingMemoryBuffer ops (Some module) memory_buffer r of
        (load_result, r') \<Rightarrow>
          (load_result,
           if load_result \<and> \<not> mo_ShouldDeleteMemoryBuffer ops
           then r'\<lparr>rb_memory_buffers := map_insert (rb_memory_buffers r') (module_key module) memory_buffer\<rparr>
           else r'))"

definition LoadModule ::
  "'m ModuleOps \<Rightarrow> (string \<Rightarrow> string option) \<Rightarrow> CodeModule option \<Rightarrow> string \<Rightarrow> 'm ResolverBase
     \<Rightarrow> bool \<times> 'm ResolverBase" where
  "LoadModule ops read module map_file r =
     (case module of
        None \<Rightarrow> (False, r)
      | Some module \<Rightarrow>
          if rb_find r module \<noteq> None then (False, r)
          else
            (case ReadSymbolFile read map_file of
               None \<Rightarrow> (False, r)
             | Some memory_buffer \<Rightarrow> load_owned ops module memory_buffer r))"

definition LoadModuleUsingMapBuffer ::
  "'m ModuleOps \<Rightarrow> CodeModule option \<Rightarrow> string \<Rightarrow> 'm ResolverBase \<Rightarrow> bool \<times> 'm ResolverBase" where
  "LoadModuleUsingMapBuffer ops module map_buffer r =
     (case module of
        None \<Rightarrow> (False, r)
      | Some module \<Rightarrow>
          if rb_find r module \<noteq> None then (False, r)
          else load_owned ops module (map_buffer @ [NUL]) r)"

definition erase_key :: "(string, 'v) std_map \<Rightarrow> string \<Rightarrow> (string, 'v) std_map" where
  "erase_key m k = (let it = map_find m k in if it = length m then m else map_erase m it)"

definition UnloadModule :: "'m ModuleOps \<Rightarrow> CodeModule option \<Rightarrow> 'm ResolverBase \<Rightarrow> 'm ResolverBase" where
  "UnloadModule ops module r =
     (case module of
        None \<Rightarrow> r
      | Some module \<Rightarrow>
          (let k = module_key module;
               r' = (if rb_find r module = None then r
                     else r\<lparr>rb_modules := erase_key (rb_modules r) k,
                            rb_corrupt_modules := rb_corrupt_modules r - {k}\<rparr>)
           in if mo_ShouldDeleteMemoryBuffer ops then r'
              else r'\<lparr>rb_memory_buffers := erase_key (rb_memory_buffers r') k\<rparr>))"

definition ResolverBase_HasModule :: "CodeModule option \<Rightarrow> 'm ResolverBase \<Rightarrow> bool" where
  "ResolverBase_HasModule module r =
     (case module of None \<Rightarrow> False | Some module \<Rightarrow> rb_find r module \<noteq> None)"

definition ResolverBase_IsModuleCorrupt :: "CodeModule option \<Rightarrow> 'm ResolverBase \<Rightarrow> bool" where
  "ResolverBase_IsModuleCorrupt module r =
     (case module of None \<Rightarrow> False | Some module \<Rightarrow> module_key module \<in> rb_corrupt_modules r)"

definition ResolverBase_FillSourceLineInfo :: "'m ModuleOps \<Rightarrow> 'm ResolverBase \<Rightarrow> StackFrame \<Rightarrow> StackFrame" where
  "ResolverBase_FillSourceLineInfo ops r frame =
     (case frame_module frame of
        None \<Rightarrow> frame
      | Some module \<Rightarrow>
          (case rb_find r module of
             None \<Rightarrow> frame
           | Some m \<Rightarrow> mo_LookupAddress ops m (base_address module) frame))"

definition ResolverBase_FindWindowsFrameInfo ::
  "'m ModuleOps \<Rightarrow> 'm ResolverBase \<Rightarrow> StackFrame \<Rightarrow> WindowsFrameInfo option" where
  "ResolverBase_FindWindowsFrameInfo ops r frame =
     (case frame_module frame of
        None \<Rightarrow> None
      | Some module \<Rightarrow>
          (case rb_find r module of
             None \<Rightarrow> None
           | Some m \<Rightarrow> mo_FindWindowsFrameInfo ops m (base_address module) frame))"

definition ResolverBase_FindCFIFrameInfo ::
  "'m ModuleOps \<Rightarrow> 'm ResolverBase \<Rightarrow> StackFrame \<Rightarrow> CFIFrameInfo option" where
  "ResolverBase_FindCFIFrameInfo ops r frame =
     (case frame_module frame of
        None \<Rightarrow> None
      | Some module \<Rightarrow>
          (case rb_find r module of
             None \<Rightarrow> None
           | Some m \<Rightarrow> mo_FindCFIFrameInfo ops m (base_address module) frame))"

text \<open>The class as the symbolizer sees it.\<close>

definition resolver_of :: "'m ModuleOps \<Rightarrow> 'm ResolverBase SourceLineResolver" where
  "resolver_of ops =
     \<lparr>res_LoadModuleUsingMemoryBuffer = (\<lambda>r module buffer. LoadModuleUsingMemoryBuffer ops (Some module) buffer r),
      res_ShouldDeleteMemoryBufferAfterLoadModule = mo_ShouldDeleteMemoryBuffer ops,
      res_HasModule = (\<lambda>r module. ResolverBase_HasModule (Some module) r),
      res_IsModuleCorrupt = (\<lambda>r module. ResolverBase_IsModuleCorrupt (Some module) r),
      res_FillSourceLineInfo = ResolverBase_FillSourceLineInfo ops,
      res_FindWindowsFrameInfo = ResolverBase_FindWindowsFrameInfo ops,
      res_FindCFIFrameInfo = ResolverBase_FindCFIFrameInfo ops\<rparr>"

section \<open>What the table needs of a module\<close>

text \<open>The last law is the assertion in \<open>LoadModuleUsingMemoryBuffer\<close>.\<close>

locale symbol_module =
  fixes ops :: "'m ModuleOps"
  assumes lookup_instruction: "instruction (mo_LookupAddress ops m base f) = instruction f"
    and lookup_module: "frame_module (mo_LookupAddress ops m base f) = frame_module f"
    and lookup_trust: "trust (mo_LookupAddress ops m base f) = trust f"
    and load_failed_corrupt: "mo_LoadMapFromMemory ops buffer (mo_CreateModule ops name) = (False, m) \<Longrightarrow>
      mo_IsCorrupt ops m"
begin

lemma keeps_frame:
  "resolver y = Some (resolver_of ops, r) \<Longrightarrow> resolver_keeps_frame y"
  by (auto simp: resolver_keeps_frame_def resolver_of_def ResolverBase_FillSourceLineInfo_def
      lookup_instruction lookup_module lookup_trust split: option.split)

end

section \<open>The table is a partial map\<close>

definition rb_ok :: "'m ModuleOps \<Rightarrow> 'm ResolverBase \<Rightarrow> bool" where
  "rb_ok ops r \<longleftrightarrow> map_ok (rb_modules r) \<and> map_ok (rb_memory_buffers r) \<and>
     rb_corrupt_modules r = {k. \<exists>m. map_of (rb_modules r) k = Some m \<and> mo_IsCorrupt ops m}"

lemma rb_find_map_of:
  assumes "rb_ok ops r"
  shows "rb_find r c = map_of (rb_modules r) (module_key c)"
  using map_find_None [of "rb_modules r" "module_key c"] map_find_Some [of "rb_modules r" "module_key c"] assms
  by (cases "map_of (rb_modules r) (module_key c)") (auto simp: rb_find_def rb_ok_def Let_def)

lemma erase_key_ok: "map_ok m \<Longrightarrow> map_ok (erase_key m k)"
  by (simp add: erase_key_def Let_def map_ok_erase)

lemma map_of_erase: "map_ok m \<Longrightarrow> map_of (erase_key m k) = (map_of m)(k := None)"
  using map_of_erase_key [of m k] map_find_iff [of m k]
  by (auto simp: erase_key_def Let_def fun_eq_iff map_of_eq_None_iff)

definition loaded_module :: "'m ModuleOps \<Rightarrow> CodeModule \<Rightarrow> string \<Rightarrow> 'm" where
  "loaded_module ops c buffer = snd (mo_LoadMapFromMemory ops buffer (mo_CreateModule ops (code_file c)))"

lemma LoadModuleUsingMemoryBuffer_table:
  assumes "rb_ok ops r" "LoadModuleUsingMemoryBuffer ops (Some c) buffer r = (ok, r')"
  shows "rb_ok ops r'" "ok \<longleftrightarrow> rb_find r c = None"
    "map_of (rb_modules r') =
       (if ok then (map_of (rb_modules r))(module_key c \<mapsto> loaded_module ops c buffer) else map_of (rb_modules r))"
    "rb_memory_buffers r' = rb_memory_buffers r"
proof -
  have ok: "map_ok (rb_modules r)" "map_ok (rb_memory_buffers r)"
    "rb_corrupt_modules r = {k. \<exists>m. map_of (rb_modules r) k = Some m \<and> mo_IsCorrupt ops m}"
    using assms(1) by (simp_all add: rb_ok_def)
  have new: "map_of (map_insert (rb_modules r) (module_key c) m) = (map_of (rb_modules r))(module_key c \<mapsto> m)"
    if "rb_find r c = None" for m
    using that by (simp add: rb_find_map_of [OF assms(1)] map_of_insert [OF ok(1)] map_of_eq_None_iff)
  show "ok \<longleftrightarrow> rb_find r c = None" "rb_memory_buffers r' = rb_memory_buffers r"
    using assms(2) by (auto simp: LoadModuleUsingMemoryBuffer_def Let_def split: if_splits)
  show m: "map_of (rb_modules r') =
       (if ok then (map_of (rb_modules r))(module_key c \<mapsto> loaded_module ops c buffer) else map_of (rb_modules r))"
    using assms(2) new by (auto simp: LoadModuleUsingMemoryBuffer_def Let_def loaded_module_def split: if_splits)
  have "rb_corrupt_modules r' = {k. \<exists>m. map_of (rb_modules r') k = Some m \<and> mo_IsCorrupt ops m}"
    using assms(2) ok(3) new
    by (auto simp: LoadModuleUsingMemoryBuffer_def Let_def rb_find_map_of [OF assms(1)] split: if_splits)
  then show "rb_ok ops r'"
    using assms(2) ok by (auto simp: rb_ok_def LoadModuleUsingMemoryBuffer_def Let_def map_ok_insert split: if_splits)
qed

lemma load_owned_table:
  assumes "rb_ok ops r" "load_owned ops c buffer r = (ok, r')"
  shows "rb_ok ops r'" "ok \<longleftrightarrow> rb_find r c = None"
    "map_of (rb_modules r') =
       (if ok then (map_of (rb_modules r))(module_key c \<mapsto> loaded_module ops c buffer) else map_of (rb_modules r))"
proof -
  obtain ok1 r1 where l: "LoadModuleUsingMemoryBuffer ops (Some c) buffer r = (ok1, r1)" by fastforce
  note t = LoadModuleUsingMemoryBuffer_table [OF assms(1) l]
  have ok: "ok = ok1" and r': "r' = r1 \<or> r' = r1\<lparr>rb_memory_buffers := map_insert (rb_memory_buffers r1) (module_key c) buffer\<rparr>"
    using assms(2) l by (auto simp: load_owned_def)
  show "rb_ok ops r'" using t(1) r' by (auto simp: rb_ok_def map_ok_insert)
  show "ok \<longleftrightarrow> rb_find r c = None" using t(2) ok by simp
  show "map_of (rb_modules r') =
       (if ok then (map_of (rb_modules r))(module_key c \<mapsto> loaded_module ops c buffer) else map_of (rb_modules r))"
    using t(3) ok r' by auto
qed

lemma UnloadModule_table:
  assumes "rb_ok ops r"
  shows "rb_ok ops (UnloadModule ops (Some c) r)"
    "map_of (rb_modules (UnloadModule ops (Some c) r)) = (map_of (rb_modules r))(module_key c := None)"
proof -
  have ok: "map_ok (rb_modules r)" "map_ok (rb_memory_buffers r)"
    "rb_corrupt_modules r = {k. \<exists>m. map_of (rb_modules r) k = Some m \<and> mo_IsCorrupt ops m}"
    using assms by (simp_all add: rb_ok_def)
  show "map_of (rb_modules (UnloadModule ops (Some c) r)) = (map_of (rb_modules r))(module_key c := None)"
    using map_of_erase [OF ok(1)] rb_find_map_of [OF assms, of c]
    by (auto simp: UnloadModule_def Let_def fun_eq_iff)
  show "rb_ok ops (UnloadModule ops (Some c) r)"
    using ok erase_key_ok [OF ok(1)] erase_key_ok [OF ok(2)] map_of_erase [OF ok(1)] rb_find_map_of [OF assms, of c]
    by (auto simp: rb_ok_def UnloadModule_def Let_def)
qed

text \<open>The resolvers a client can build.\<close>

inductive resolver_reachable :: "'m ModuleOps \<Rightarrow> (string \<Rightarrow> string option) \<Rightarrow> 'm ResolverBase \<Rightarrow> bool"
  for ops read where
  rr_init: "resolver_reachable ops read ResolverBase_init"
| rr_load: "resolver_reachable ops read r \<Longrightarrow> resolver_reachable ops read (snd (LoadModule ops read c f r))"
| rr_map: "resolver_reachable ops read r \<Longrightarrow> resolver_reachable ops read (snd (LoadModuleUsingMapBuffer ops c b r))"
| rr_memory: "resolver_reachable ops read r \<Longrightarrow>
    resolver_reachable ops read (snd (LoadModuleUsingMemoryBuffer ops c b r))"
| rr_unload: "resolver_reachable ops read r \<Longrightarrow> resolver_reachable ops read (UnloadModule ops c r)"

lemma load_owned_ok: "rb_ok ops r \<Longrightarrow> rb_ok ops (snd (load_owned ops c buffer r))"
  using load_owned_table(1) by (metis prod.collapse)

lemma resolver_reachable_ok: "resolver_reachable ops read r \<Longrightarrow> rb_ok ops r"
proof (induction rule: resolver_reachable.induct)
  case rr_init
  then show ?case by (simp add: rb_ok_def ResolverBase_init_def)
next
  case (rr_load r c f)
  then show ?case by (auto simp: LoadModule_def load_owned_ok split: option.split)
next
  case (rr_map r c b)
  then show ?case by (auto simp: LoadModuleUsingMapBuffer_def load_owned_ok split: option.split)
next
  case (rr_memory r c b)
  then show ?case
    by (cases c) (simp add: LoadModuleUsingMemoryBuffer_def,
      metis LoadModuleUsingMemoryBuffer_table(1) prod.collapse)
next
  case (rr_unload r c)
  then show ?case by (cases c) (simp_all add: UnloadModule_table(1), simp add: UnloadModule_def)
qed

text \<open>The resolver's table is a partial map from file names to loaded modules: loading from a
  file succeeds exactly when the name is new and the file can be read, and then binds only that
  name, to the module parsed from the file and a terminator; unloading removes only that name;
  the modules reported corrupt are exactly the loaded ones that say so.\<close>

theorem resolver_table_correct:
  assumes "resolver_reachable ops read r"
  shows "(case LoadModule ops read (Some c) path r of (ok, r') \<Rightarrow>
      (ok \<longleftrightarrow> \<not> ResolverBase_HasModule (Some c) r \<and> read path \<noteq> None) \<and>
      (\<forall>d. rb_find r' d = (if ok \<and> module_key d = module_key c
         then Some (loaded_module ops c (the (read path) @ [NUL])) else rb_find r d))) \<and>
    (\<forall>d. rb_find (UnloadModule ops (Some c) r) d = (if module_key d = module_key c then None else rb_find r d)) \<and>
    (ResolverBase_IsModuleCorrupt (Some c) r \<longleftrightarrow> (\<exists>m. rb_find r c = Some m \<and> mo_IsCorrupt ops m))"
proof (intro conjI)
  note ok = resolver_reachable_ok [OF assms]
  obtain b r' where l: "LoadModule ops read (Some c) path r = (b, r')" by fastforce
  show "case LoadModule ops read (Some c) path r of (ok, r') \<Rightarrow>
      (ok \<longleftrightarrow> \<not> ResolverBase_HasModule (Some c) r \<and> read path \<noteq> None) \<and>
      (\<forall>d. rb_find r' d = (if ok \<and> module_key d = module_key c
         then Some (loaded_module ops c (the (read path) @ [NUL])) else rb_find r d))"
  proof (cases "rb_find r c = None \<and> read path \<noteq> None")
    case True
    then obtain content where f: "read path = Some content" by blast
    have lo: "load_owned ops c (content @ [NUL]) r = (b, r')"
      using l True f by (simp add: LoadModule_def ReadSymbolFile_def)
    note t = load_owned_table [OF ok lo]
    then show ?thesis
      using True f by (simp add: l rb_find_map_of [OF t(1)] rb_find_map_of [OF ok] ResolverBase_HasModule_def)
  next
    case False
    then have "b = False" "r' = r" using l by (auto simp: LoadModule_def ReadSymbolFile_def split: if_splits)
    then show ?thesis using False by (auto simp: l ResolverBase_HasModule_def)
  qed
  show "\<forall>d. rb_find (UnloadModule ops (Some c) r) d = (if module_key d = module_key c then None else rb_find r d)"
    by (simp add: rb_find_map_of [OF UnloadModule_table(1) [OF ok]] rb_find_map_of [OF ok] UnloadModule_table(2) [OF ok])
  show "ResolverBase_IsModuleCorrupt (Some c) r \<longleftrightarrow> (\<exists>m. rb_find r c = Some m \<and> mo_IsCorrupt ops m)"
    using ok by (simp add: ResolverBase_IsModuleCorrupt_def rb_find_map_of [OF ok]) (simp add: rb_ok_def)
qed

end
