(* ===== verification/Basic_Resolver.thy ===== *)
theory Basic_Resolver
  imports Symbol_Parser Address_Map Range_Map Contained_Range_Map Resolver_Base
begin

text \<open>
  \<open>BasicSourceLineResolver\<close> and its base class (\<open>processor/basic_source_line_resolver.cc\<close>,
  \<open>processor/basic_source_line_resolver_types.h\<close>, \<open>processor/source_line_resolver_base.cc\<close>): loading a
  textual symbol file into the maps of a module, and the three lookups.

  The loader works in place on a character buffer: \<open>strtok_r\<close> writes terminators into it and
  one parser steps over the terminator of its line. The text is therefore a list in which
  \<open>NUL\<close> is the character 0, and \<open>beyond\<close> stands for what memory holds after the buffer.
\<close>

section \<open>Modules\<close>

record Line =
  ln_address :: u64
  ln_size :: u64
  ln_source_file_id :: int
  ln_line :: int

text \<open>Functions are shared: the map of the module and the loader's \<open>cur_func\<close> hold pointers to the
  same object. Pointers are positions in the list \<open>bm_heap\<close> of the functions allocated so far.\<close>

record FunctionSym =
  fn_name :: string
  fn_address :: u64
  fn_size :: u64
  fn_parameter_size :: int
  fn_lines :: "(u64, Line) RangeMap"

record PublicSymbol =
  ps_name :: string
  ps_address :: u64
  ps_parameter_size :: int

text \<open>The entry of a containment tree is a \<open>linked_ptr\<close>, null in the root and nowhere else.\<close>

record BasicModule =
  bm_name :: string
  bm_files :: "(int, string) std_map"
  bm_heap :: "FunctionSym list"
  bm_functions :: "(u64, nat) RangeMap"
  bm_public_symbols :: "(u64, PublicSymbol) AddressMap"
  bm_is_corrupt :: bool
  bm_windows_frame_info :: "(u64, WindowsFrameInfo option) ContainedRangeMap list"
  bm_cfi_initial_rules :: "(u64, string) RangeMap"
  bm_cfi_delta_rules :: "(u64, string) std_map"

definition STACK_INFO_LAST :: nat where
  "STACK_INFO_LAST = 5"

definition BasicModule_init :: "string \<Rightarrow> BasicModule" where
  "BasicModule_init name =
     \<lparr>bm_name = name, bm_files = [], bm_heap = [], bm_functions = RangeMap_init,
      bm_public_symbols = AddressMap_init, bm_is_corrupt = False,
      bm_windows_frame_info = replicate STACK_INFO_LAST (ContainedRangeMap_init None),
      bm_cfi_initial_rules = RangeMap_init, bm_cfi_delta_rules = []\<rparr>"

section \<open>Text with terminators\<close>

text \<open>\<open>strtok_r\<close> on a buffer: the token, whether a separator was overwritten, the text up to and
  including the terminator as it is afterwards, and the text at the saved pointer.\<close>

definition strtok_buf ::
  "(char \<Rightarrow> bool) \<Rightarrow> string \<Rightarrow> (string \<times> bool \<times> string \<times> string) option" where
  "strtok_buf sep t =
     (let s = dropWhile sep t;
          token = takeWhile (\<lambda>c. \<not> sep c \<and> c \<noteq> NUL) s;
          r = drop (length token) s;
          before = takeWhile sep t @ token
      in if s = [] \<or> hd s = NUL then None
         else if r = [] \<or> hd r = NUL then Some (token, False, before, r)
         else Some (token, True, before @ [NUL], tl r))"

lemma strtok_buf_length:
  assumes "strtok_buf sep t = Some (token, trunc, before, after)"
  shows "length before + length after = length t" "token \<noteq> []" "length after < length t"
proof -
  let ?s = "dropWhile sep t"
  let ?tok = "takeWhile (\<lambda>c. \<not> sep c \<and> c \<noteq> NUL) ?s"
  have l: "length (takeWhile sep t) + length ?s = length t"
    by (metis length_append takeWhile_dropWhile_id)
  have k: "length ?tok \<le> length ?s" by (simp add: length_takeWhile_le)
  have ne: "?s \<noteq> []" "hd ?s \<noteq> NUL"
    using assms by (auto simp: strtok_buf_def Let_def split: if_splits)
  then have "\<not> sep (hd ?s)" by (simp add: hd_dropWhile)
  then have tok: "?tok \<noteq> []" using ne by (cases ?s) auto
  show sum: "length before + length after = length t"
    using assms l k by (auto simp: strtok_buf_def Let_def split: if_splits)
  have t: "token = ?tok" "length ?tok \<le> length before"
    using assms by (auto simp: strtok_buf_def Let_def split: if_splits)
  show "token \<noteq> []" using t(1) tok by simp
  have "0 < length ?tok" using tok by blast
  then show "length after < length t" using t(2) sum by linarith
qed

section \<open>Records\<close>

definition Module_ParseFile :: "string \<Rightarrow> BasicModule \<Rightarrow> bool \<times> BasicModule" where
  "Module_ParseFile file_line m =
     (case SymbolParseHelper_ParseFile file_line of
        None \<Rightarrow> (False, m)
      | Some (index, filename) \<Rightarrow>
          (True, m\<lparr>bm_files := map_insert (bm_files m) (to_int32 index) filename\<rparr>))"

definition Module_ParseFunction :: "string \<Rightarrow> FunctionSym option" where
  "Module_ParseFunction function_line =
     (case SymbolParseHelper_ParseFunction function_line of
        None \<Rightarrow> None
      | Some (address, sz, stack_param_size, name) \<Rightarrow>
          Some \<lparr>fn_name = name, fn_address = address, fn_size = sz,
                fn_parameter_size = to_int32 stack_param_size, fn_lines = RangeMap_init\<rparr>)"

definition Module_ParseLine :: "string \<Rightarrow> Line option" where
  "Module_ParseLine line_line =
     (case SymbolParseHelper_ParseLine line_line of
        None \<Rightarrow> None
      | Some (address, sz, line_number, source_file) \<Rightarrow>
          Some \<lparr>ln_address = address, ln_size = sz, ln_source_file_id = to_int32 source_file,
                ln_line = to_int32 line_number\<rparr>)"

definition Module_ParsePublicSymbol :: "string \<Rightarrow> BasicModule \<Rightarrow> bool \<times> BasicModule" where
  "Module_ParsePublicSymbol public_line m =
     (case SymbolParseHelper_ParsePublicSymbol public_line of
        None \<Rightarrow> (False, m)
      | Some (address, stack_param_size, name) \<Rightarrow>
          if address = 0 then (True, m)
          else
            (case AddressMap_Store (bm_public_symbols m) address
                    \<lparr>ps_name = name, ps_address = address, ps_parameter_size = to_int32 stack_param_size\<rparr> of
               (stored, symbols) \<Rightarrow> (stored, m\<lparr>bm_public_symbols := symbols\<rparr>)))"

text \<open>The result, the text as \<open>strtok_r\<close> leaves it, and the module.\<close>

definition Module_ParseCFIFrameInfo :: "string \<Rightarrow> BasicModule \<Rightarrow> bool \<times> string \<times> BasicModule" where
  "Module_ParseCFIFrameInfo stack_info_line m =
     (case strtok_buf kWhitespace stack_info_line of
        None \<Rightarrow> (False, stack_info_line, m)
      | Some (init_or_address, _, b1, t1) \<Rightarrow>
          if init_or_address = ''INIT'' then
            (case strtok_buf kWhitespace t1 of
               None \<Rightarrow> (False, b1 @ t1, m)
             | Some (address_field, _, b2, t2) \<Rightarrow>
                 (case strtok_buf kWhitespace t2 of
                    None \<Rightarrow> (False, b1 @ b2 @ t2, m)
                  | Some (size_field, _, b3, t3) \<Rightarrow>
                      (case strtok_buf end_of_line t3 of
                         None \<Rightarrow> (False, b1 @ b2 @ b3 @ t3, m)
                       | Some (initial_rules, _, b4, t4) \<Rightarrow>
                           (True, b1 @ b2 @ b3 @ b4 @ t4,
                            m\<lparr>bm_cfi_initial_rules :=
                                snd (RangeMap_StoreRange [] (bm_cfi_initial_rules m)
                                  (fst (strtoull_hex address_field)) (fst (strtoull_hex size_field)) initial_rules)\<rparr>))))
          else
            (case strtok_buf end_of_line t1 of
               None \<Rightarrow> (False, b1 @ t1, m)
             | Some (delta_rules, _, b2, t2) \<Rightarrow>
                 (True, b1 @ b2 @ t2,
                  m\<lparr>bm_cfi_delta_rules :=
                      map_assign (bm_cfi_delta_rules m) (fst (strtoull_hex init_or_address)) delta_rules\<rparr>)))"

text \<open>\<open>over\<close> is the text after the terminator of the line. When nothing follows the platform name
  the code steps onto it; the result holds it as it is afterwards.\<close>

fun stack_info_index :: "StackInfoTypes \<Rightarrow> nat" where
  "stack_info_index STACK_INFO_FPO = 0"
| "stack_info_index STACK_INFO_TRAP = 1"
| "stack_info_index STACK_INFO_TSS = 2"
| "stack_info_index STACK_INFO_STANDARD = 3"
| "stack_info_index STACK_INFO_FRAME_DATA = 4"
| "stack_info_index STACK_INFO_UNKNOWN = 5"

definition Module_ParseStackInfo :: "string \<Rightarrow> string \<Rightarrow> BasicModule \<Rightarrow> bool \<times> string \<times> BasicModule" where
  "Module_ParseStackInfo stack_info_line over m =
     (let s = dropWhile (\<lambda>c. c = CHR '' '') (drop 6 stack_info_line);
          platform = takeWhile (\<lambda>c. \<not> kWhitespace c) s;
          rest = dropWhile (\<lambda>c. \<not> kWhitespace c) s;
          arg = (if rest = [] then over else tl rest)
      in if platform = ''WIN'' then
           (case WindowsFrameInfo_ParseFromString (cstr arg) of
              None \<Rightarrow> (False, over, m)
            | Some (type, rva, code_size, info) \<Rightarrow>
                (let i = stack_info_index type;
                     maps = bm_windows_frame_info m
                 in (True, over,
                     m\<lparr>bm_windows_frame_info :=
                         maps[i := snd (ContainedRangeMap_StoreRange (maps ! i) rva code_size (Some info))]\<rparr>)))
         else if platform = ''CFI'' then
           (case Module_ParseCFIFrameInfo arg m of
              (ok, text, m') \<Rightarrow> (ok, if rest = [] then text else over, m'))
         else (False, over, m))"

lemma Module_ParseCFIFrameInfo_length:
  "Module_ParseCFIFrameInfo t m = (ok, t', m') \<Longrightarrow> length t' = length t"
  by (auto simp: Module_ParseCFIFrameInfo_def dest!: strtok_buf_length(1) split: option.splits if_splits)

lemma Module_ParseStackInfo_length:
  "Module_ParseStackInfo l over m = (ok, over', m') \<Longrightarrow> length over' = length over"
  by (auto simp: Module_ParseStackInfo_def Let_def dest!: Module_ParseCFIFrameInfo_length
      split: option.splits if_splits prod.splits)

section \<open>Loading\<close>

definition kMaxErrorsBeforeBailing :: nat where
  "kMaxErrorsBeforeBailing = 100"

text \<open>One pass of the loop: whether the line was parsed, the text after it, the module and
  \<open>cur_func\<close>.\<close>

definition load_line ::
  "string \<Rightarrow> string \<Rightarrow> BasicModule \<Rightarrow> nat option \<Rightarrow> bool \<times> string \<times> BasicModule \<times> nat option" where
  "load_line buffer over m cur_func =
     (if take 5 buffer = ''FILE '' then
        (case Module_ParseFile buffer m of (ok, m') \<Rightarrow> (ok, over, m', cur_func))
      else if take 6 buffer = ''STACK '' then
        (case Module_ParseStackInfo buffer over m of (ok, over', m') \<Rightarrow> (ok, over', m', cur_func))
      else if take 5 buffer = ''FUNC '' then
        (case Module_ParseFunction buffer of
           None \<Rightarrow> (False, over, m, None)
         | Some f \<Rightarrow>
             (let p = length (bm_heap m)
              in (True, over,
                  m\<lparr>bm_heap := bm_heap m @ [f],
                    bm_functions := snd (RangeMap_StoreRange 0 (bm_functions m) (fn_address f) (fn_size f) p)\<rparr>,
                  Some p)))
      else if take 7 buffer = ''PUBLIC '' then
        (case Module_ParsePublicSymbol buffer m of (ok, m') \<Rightarrow> (ok, over, m', None))
      else if take 7 buffer = ''MODULE '' then (True, over, m, cur_func)
      else if take 5 buffer = ''INFO '' then (True, over, m, cur_func)
      else
        (case cur_func of
           None \<Rightarrow> (False, over, m, cur_func)
         | Some p \<Rightarrow>
             (case Module_ParseLine buffer of
                None \<Rightarrow> (False, over, m, cur_func)
              | Some l \<Rightarrow>
                  (let f = bm_heap m ! p;
                       f' = f\<lparr>fn_lines := snd (RangeMap_StoreRange l (fn_lines f) (ln_address l) (ln_size l) l)\<rparr>
                   in (True, over, m\<lparr>bm_heap := (bm_heap m)[p := f']\<rparr>, cur_func)))))"

lemma load_line_length: "load_line l over m c = (ok, over', m', c') \<Longrightarrow> length over' = length over"
  by (auto simp: load_line_def Let_def dest!: Module_ParseStackInfo_length
      split: if_splits prod.splits option.splits)

function load_lines ::
  "BasicModule \<Rightarrow> nat option \<Rightarrow> nat \<Rightarrow> string \<Rightarrow> nat \<times> BasicModule" where
  "load_lines m cur_func num_errors text =
     (case strtok_buf end_of_line text of
        None \<Rightarrow> (num_errors, m)
      | Some (buffer, trunc, _, save) \<Rightarrow>
          (case load_line buffer (if trunc then save else tl save) m cur_func of
             (ok, over, m', cur_func') \<Rightarrow>
               (let num_errors' = (if ok then num_errors else Suc num_errors) in
                if kMaxErrorsBeforeBailing < num_errors' then (num_errors', m')
                else load_lines m' cur_func' num_errors' (if trunc then over else save))))"
  by pat_completeness auto
termination
  by (relation "measure (\<lambda>(m, c, n, t). length t)")
    (auto dest!: load_line_length [OF sym] strtok_buf_length(3) split: if_splits)

declare load_lines.simps [simp del]

text \<open>The buffer is cut at its end, its trailing terminators are skipped and those in the middle
  replaced.\<close>

definition strip_nuls :: "string \<Rightarrow> string" where
  "strip_nuls s = rev (dropWhile (\<lambda>c. c = NUL) (rev s))"

definition LoadMapFromMemory :: "string \<Rightarrow> string \<Rightarrow> BasicModule \<Rightarrow> BasicModule" where
  "LoadMapFromMemory beyond memory_buffer m =
     (if memory_buffer = [] then m
      else
        (let content = strip_nuls (butlast memory_buffer);
             nuls = replicate (length memory_buffer - length content) NUL;
             text = map (\<lambda>c. if c = NUL then CHR ''_'' else c) content @ nuls @ beyond;
             num_errors = (if NUL \<in> set content then 1 else 0)
         in case load_lines m None num_errors text of
              (num_errors', m') \<Rightarrow> m'\<lparr>bm_is_corrupt := 0 < num_errors'\<rparr>))"

section \<open>Lookups\<close>

text \<open>The function whose range holds the address, and whether a public symbol at
  \<open>public_address\<close> is not hidden by the function below the address.\<close>

definition covering_function :: "BasicModule \<Rightarrow> u64 \<Rightarrow> (nat \<times> u64) option" where
  "covering_function m address =
     (case RangeMap_RetrieveNearestRange (bm_functions m) address of
        Some (func, func_base, _, func_size) \<Rightarrow>
          if func_base \<le> address \<and> address - func_base < func_size
          then Some (func, func_base) else None
      | None \<Rightarrow> None)"

definition covering_public :: "BasicModule \<Rightarrow> u64 \<Rightarrow> (PublicSymbol \<times> u64) option" where
  "covering_public m address =
     (case AddressMap_Retrieve (bm_public_symbols m) address of
        None \<Rightarrow> None
      | Some (symbol, public_address) \<Rightarrow>
          (case RangeMap_RetrieveNearestRange (bm_functions m) address of
             None \<Rightarrow> Some (symbol, public_address)
           | Some (_, func_base, _, _) \<Rightarrow>
               if func_base < public_address then Some (symbol, public_address) else None))"

definition Module_LookupAddress :: "BasicModule \<Rightarrow> u64 \<Rightarrow> StackFrame \<Rightarrow> StackFrame" where
  "Module_LookupAddress m base frame =
     (let address = instruction frame - base in
      case covering_function m address of
        Some (func, func_base) \<Rightarrow>
          (let f = bm_heap m ! func;
               frame = frame\<lparr>function_name := fn_name f, function_base := base + func_base\<rparr>
           in case RangeMap_RetrieveRange (fn_lines f) address of
                None \<Rightarrow> frame
              | Some (line, line_base, _, _) \<Rightarrow>
                  (let it = map_find (bm_files m) (ln_source_file_id line);
                       frame = (if it \<noteq> length (bm_files m)
                                then frame\<lparr>source_file_name := snd (bm_files m ! it)\<rparr> else frame)
                   in frame\<lparr>source_line := of_int (ln_line line), source_line_base := base + line_base\<rparr>))
      | None \<Rightarrow>
          (case covering_public m address of
             None \<Rightarrow> frame
           | Some (symbol, public_address) \<Rightarrow>
               frame\<lparr>function_name := ps_name symbol, function_base := base + public_address\<rparr>))"

definition Module_FindWindowsFrameInfo :: "BasicModule \<Rightarrow> u64 \<Rightarrow> StackFrame \<Rightarrow> WindowsFrameInfo option" where
  "Module_FindWindowsFrameInfo m base frame =
     (let address = instruction frame - base;
          maps = bm_windows_frame_info m
      in case ContainedRangeMap_RetrieveRange (maps ! stack_info_index STACK_INFO_FRAME_DATA) address of
           Some info \<Rightarrow> Some (WindowsFrameInfo_CopyFrom WindowsFrameInfo_init (the info))
         | None \<Rightarrow>
             (case ContainedRangeMap_RetrieveRange (maps ! stack_info_index STACK_INFO_FPO) address of
                Some info \<Rightarrow> Some (WindowsFrameInfo_CopyFrom WindowsFrameInfo_init (the info))
              | None \<Rightarrow>
                  (case covering_function m address of
                     Some (func, _) \<Rightarrow>
                       Some (WindowsFrameInfo_init
                         \<lparr>parameter_size := of_int (fn_parameter_size (bm_heap m ! func)),
                          valid := valid WindowsFrameInfo_init OR VALID_PARAMETER_SIZE\<rparr>)
                   | None \<Rightarrow> None)))"

fun apply_deltas :: "(u64, string) std_map \<Rightarrow> u64 \<Rightarrow> CFIFrameInfo \<Rightarrow> CFIFrameInfo" where
  "apply_deltas [] address rules = rules"
| "apply_deltas ((a, delta) # deltas) address rules =
     (if a \<le> address then apply_deltas deltas address (snd (ParseCFIRuleSet delta rules)) else rules)"

definition Module_FindCFIFrameInfo :: "BasicModule \<Rightarrow> u64 \<Rightarrow> StackFrame \<Rightarrow> CFIFrameInfo option" where
  "Module_FindCFIFrameInfo m base frame =
     (let address = instruction frame - base in
      case RangeMap_RetrieveRange (bm_cfi_initial_rules m) address of
        None \<Rightarrow> None
      | Some (initial_rules, initial_base, _, _) \<Rightarrow>
          (case ParseCFIRuleSet initial_rules CFIFrameInfo_init of
             (False, _) \<Rightarrow> None
           | (True, rules) \<Rightarrow>
               Some (apply_deltas (drop (lower_bound (bm_cfi_delta_rules m) initial_base) (bm_cfi_delta_rules m))
                       address rules)))"

section \<open>The resolver\<close>

definition basic_module_ops :: "string \<Rightarrow> BasicModule ModuleOps" where
  "basic_module_ops beyond =
     \<lparr>mo_CreateModule = BasicModule_init,
      mo_LoadMapFromMemory = (\<lambda>buffer m. (True, LoadMapFromMemory beyond buffer m)),
      mo_IsCorrupt = bm_is_corrupt,
      mo_LookupAddress = Module_LookupAddress,
      mo_FindWindowsFrameInfo = Module_FindWindowsFrameInfo,
      mo_FindCFIFrameInfo = Module_FindCFIFrameInfo,
      mo_ShouldDeleteMemoryBuffer = True\<rparr>"

lemma Module_LookupAddress_keeps:
  "instruction (Module_LookupAddress m base f) = instruction f"
  "frame_module (Module_LookupAddress m base f) = frame_module f"
  "trust (Module_LookupAddress m base f) = trust f"
  by (auto simp: Module_LookupAddress_def Let_def split: option.split)

interpretation basic: symbol_module "basic_module_ops beyond" for beyond
  by unfold_locales (simp_all add: basic_module_ops_def Module_LookupAddress_keeps)

section \<open>The invariant of loaded modules\<close>

definition func_at :: "FunctionSym list \<Rightarrow> nat \<Rightarrow> u64 \<Rightarrow> u64 \<Rightarrow> bool" where
  "func_at heap p base sz \<longleftrightarrow> p < length heap \<and> fn_address (heap ! p) = base \<and> fn_size (heap ! p) = sz"

definition line_at :: "Line \<Rightarrow> u64 \<Rightarrow> u64 \<Rightarrow> bool" where
  "line_at l base sz \<longleftrightarrow> ln_address l = base \<and> ln_size l = sz"

definition public_at :: "u64 \<times> PublicSymbol \<Rightarrow> bool" where
  "public_at x \<longleftrightarrow> ps_address (snd x) = fst x \<and> fst x \<noteq> 0"

definition bm_ok :: "BasicModule \<Rightarrow> bool" where
  "bm_ok m \<longleftrightarrow> map_ok (bm_files m) \<and>
     ranges_hold (func_at (bm_heap m)) (bm_functions m) \<and>
     (\<forall>f\<in>set (bm_heap m). ranges_hold line_at (fn_lines f)) \<and>
     map_ok (bm_public_symbols m) \<and> (\<forall>x\<in>set (bm_public_symbols m). public_at x) \<and>
     length (bm_windows_frame_info m) = STACK_INFO_LAST \<and>
     (\<forall>t\<in>set (bm_windows_frame_info m). ContainedRangeMap_reachable t) \<and>
     ranges_hold (\<lambda>_ _ _. True) (bm_cfi_initial_rules m) \<and> map_ok (bm_cfi_delta_rules m)"

lemma bm_ok_init: "bm_ok (BasicModule_init name)"
  by (simp add: bm_ok_def BasicModule_init_def ranges_hold_init AddressMap_init_def
      ContainedRangeMap_reachable.intros)

lemma bm_ok_corrupt [simp]: "bm_ok (m\<lparr>bm_is_corrupt := b\<rparr>) = bm_ok m"
  by (simp add: bm_ok_def)

lemma ParseFile_ok: "Module_ParseFile l m = (ok, m') \<Longrightarrow> bm_ok m \<Longrightarrow> bm_ok m' \<and> bm_heap m' = bm_heap m"
  by (auto simp: Module_ParseFile_def bm_ok_def map_ok_insert split: option.splits)

lemma ParsePublicSymbol_ok:
  "Module_ParsePublicSymbol l m = (ok, m') \<Longrightarrow> bm_ok m \<Longrightarrow> bm_ok m' \<and> bm_heap m' = bm_heap m"
  by (auto simp: Module_ParsePublicSymbol_def bm_ok_def AddressMap_Store_def map_ok_insert set_insert_new
      map_find_iff public_at_def split: option.splits if_splits prod.splits)

lemma ParseCFIFrameInfo_ok:
  "Module_ParseCFIFrameInfo t m = (ok, t', m') \<Longrightarrow> bm_ok m \<Longrightarrow> bm_ok m' \<and> bm_heap m' = bm_heap m"
  by (auto simp: Module_ParseCFIFrameInfo_def bm_ok_def ranges_hold_store map_ok_assign
      split: option.splits if_splits)

lemma stack_info_store_ok:
  assumes "bm_ok m" "i < STACK_INFO_LAST"
  shows "bm_ok (m\<lparr>bm_windows_frame_info := (bm_windows_frame_info m)
    [i := snd (ContainedRangeMap_StoreRange (bm_windows_frame_info m ! i) rva sz info)]\<rparr>)"
proof -
  have "ContainedRangeMap_reachable (bm_windows_frame_info m ! i)"
    using assms by (simp add: bm_ok_def)
  then show ?thesis
    using assms(1) by (auto simp: bm_ok_def dest!: subsetD [OF set_update_subset_insert]
        intro: ContainedRangeMap_reachable.intros)
qed

lemma ParseStackInfo_ok:
  assumes "Module_ParseStackInfo l over m = (ok, over', m')" "bm_ok m"
  shows "bm_ok m' \<and> bm_heap m' = bm_heap m"
proof -
  have i: "stack_info_index type < STACK_INFO_LAST"
    if "WindowsFrameInfo_ParseFromString s = Some (type, r)" for type r s
    using that WindowsFrameInfo_parsed(3) [of s type] by (cases type; cases r) (auto simp: STACK_INFO_LAST_def)
  show ?thesis
    using assms ParseCFIFrameInfo_ok i
    by (auto simp: Module_ParseStackInfo_def Let_def stack_info_store_ok split: option.splits if_splits prod.splits)
qed

lemma add_function_ok:
  assumes "bm_ok m" "Module_ParseFunction l = Some f"
  shows "bm_ok (m\<lparr>bm_heap := bm_heap m @ [f],
    bm_functions := snd (RangeMap_StoreRange 0 (bm_functions m) (fn_address f) (fn_size f) (length (bm_heap m)))\<rparr>)"
proof -
  have "ranges_hold (func_at (bm_heap m @ [f])) (bm_functions m)"
    using assms(1) by (auto simp: bm_ok_def func_at_def nth_append elim!: ranges_hold_mono)
  moreover have "ranges_hold line_at (fn_lines f)"
    using assms(2) by (auto simp: Module_ParseFunction_def ranges_hold_init split: option.splits)
  ultimately show ?thesis
    using assms(1) by (auto simp: bm_ok_def func_at_def intro!: ranges_hold_store)
qed

lemma add_line_ok:
  assumes "bm_ok m" "p < length (bm_heap m)"
  shows "bm_ok (m\<lparr>bm_heap := (bm_heap m)[p := (bm_heap m ! p)
    \<lparr>fn_lines := snd (RangeMap_StoreRange l (fn_lines (bm_heap m ! p)) (ln_address l) (ln_size l) l)\<rparr>]\<rparr>)"
proof -
  let ?f = "(bm_heap m ! p)
    \<lparr>fn_lines := snd (RangeMap_StoreRange l (fn_lines (bm_heap m ! p)) (ln_address l) (ln_size l) l)\<rparr>"
  have "ranges_hold (func_at ((bm_heap m)[p := ?f])) (bm_functions m)"
    using assms by (auto simp: bm_ok_def func_at_def nth_list_update elim!: ranges_hold_mono)
  moreover have "ranges_hold line_at (fn_lines ?f)"
    using assms by (auto simp: bm_ok_def line_at_def intro!: ranges_hold_store)
  ultimately show ?thesis
    using assms(1) by (auto simp: bm_ok_def dest!: subsetD [OF set_update_subset_insert])
qed

definition cur_ok :: "BasicModule \<Rightarrow> nat option \<Rightarrow> bool" where
  "cur_ok m cur_func \<longleftrightarrow> pred_option (\<lambda>p. p < length (bm_heap m)) cur_func"

lemma load_line_ok:
  assumes "load_line l over m c = (ok, over', m', c')" "bm_ok m" "cur_ok m c"
  shows "bm_ok m' \<and> cur_ok m' c'"
  using assms ParseFile_ok ParseStackInfo_ok ParsePublicSymbol_ok add_function_ok add_line_ok
  by (auto simp: load_line_def cur_ok_def Let_def split: if_splits prod.splits option.splits)

lemma load_lines_ok: "bm_ok m \<Longrightarrow> cur_ok m c \<Longrightarrow> bm_ok (snd (load_lines m c n t))"
proof (induction m c n t rule: load_lines.induct)
  case (1 m c n t)
  show ?case
  proof (cases "strtok_buf end_of_line t")
    case None
    then show ?thesis using "1.prems" by (simp add: load_lines.simps)
  next
    case (Some r)
    then obtain l b pre save where r: "strtok_buf end_of_line t = Some (l, b, pre, save)" by (cases r) auto
    obtain ok over m' c' where ll: "load_line l (if b then save else tl save) m c = (ok, over, m', c')"
      by (metis prod_cases4)
    have ok': "bm_ok m'" "cur_ok m' c'" using load_line_ok [OF ll "1.prems"] by simp_all
    show ?thesis
      using "1.IH" [OF r refl refl refl ll [symmetric] refl refl refl _ ok'] ok' r ll
      by (subst load_lines.simps) (auto simp: Let_def)
  qed
qed

lemma LoadMapFromMemory_bm_ok: "bm_ok m \<Longrightarrow> bm_ok (LoadMapFromMemory beyond buffer m)"
proof -
  assume "bm_ok m"
  then have "bm_ok (snd (load_lines m None n t))" for n t by (intro load_lines_ok) (simp_all add: cur_ok_def)
  then have "load_lines m None n t = (n', m') \<Longrightarrow> bm_ok m'" for n t n' m' by (metis snd_conv)
  then show ?thesis using \<open>bm_ok m\<close> by (auto simp: LoadMapFromMemory_def Let_def split: prod.split)
qed

section \<open>Properties of loading and lookup\<close>

text \<open>C24. Whatever bytes it is given, the loader leaves a well-formed module: sorted maps, function
  and line ranges that do not overlap and agree with the records they point to, function
  pointers that are valid, public symbols under their own non-zero address, and one
  containment tree for each kind of \<open>STACK WIN\<close> record.\<close>

theorem LoadMapFromMemory_well_formed:
  "bm_ok (LoadMapFromMemory beyond buffer (BasicModule_init name))"
  by (rule LoadMapFromMemory_bm_ok [OF bm_ok_init])

definition stored_functions :: "BasicModule \<Rightarrow> FunctionSym set" where
  "stored_functions m = (\<lambda>hr. bm_heap m ! r_entry (snd hr)) ` set (rmap (bm_functions m))"

definition stored_publics :: "BasicModule \<Rightarrow> PublicSymbol set" where
  "stored_publics m = snd ` set (bm_public_symbols m)"

definition covers :: "FunctionSym \<Rightarrow> u64 \<Rightarrow> bool" where
  "covers f a \<longleftrightarrow> fn_address f \<le> a \<and> a - fn_address f < fn_size f"

text \<open>The nearest range of the module's functions is the last function that starts at or below
  the address.\<close>

lemma nearest_function:
  assumes "bm_ok m"
  shows "case RangeMap_RetrieveNearestRange (bm_functions m) a of
      None \<Rightarrow> \<forall>f\<in>stored_functions m. a < fn_address f
    | Some (p, b, d, s) \<Rightarrow> bm_heap m ! p \<in> stored_functions m \<and> b = fn_address (bm_heap m ! p) \<and>
        s = fn_size (bm_heap m ! p) \<and> b \<le> a \<and>
        (\<forall>f\<in>stored_functions m. fn_address f \<le> a \<longrightarrow> f = bm_heap m ! p \<or> \<not> covers f a \<and> fn_address f < b)"
proof -
  have h: "ranges_hold (func_at (bm_heap m)) (bm_functions m)" using assms by (simp add: bm_ok_def)
  then have ok: "RangeMap_ok (bm_functions m)" by (simp add: ranges_hold_def)
  have at: "fn_address (bm_heap m ! r_entry (snd y)) = r_base (snd y)"
    "fn_size (bm_heap m ! r_entry (snd y)) = fst y - r_base (snd y) + 1"
    if "y \<in> set (rmap (bm_functions m))" for y
    using h that by (auto simp: ranges_hold_def func_at_def)
  show ?thesis
  proof (cases "RangeMap_RetrieveNearestRange (bm_functions m) a")
    case None
    then show ?thesis
      using RetrieveNearest_spec [OF ok, of a] at(1) by (auto simp: stored_functions_def)
  next
    case (Some r)
    then obtain hr where hr: "hr \<in> set (rmap (bm_functions m))" "r = range_result hr" "r_base (snd hr) \<le> a"
      and far: "\<And>y. y \<in> set (rmap (bm_functions m)) \<Longrightarrow> r_base (snd y) \<le> a \<Longrightarrow> fst y \<le> fst hr"
      using RetrieveNearest_spec [OF ok, of a] by auto
    have other: "\<not> covers (bm_heap m ! r_entry (snd y)) a \<and> r_base (snd y) < r_base (snd hr)"
      if y: "y \<in> set (rmap (bm_functions m))" "r_base (snd y) \<le> a" "y \<noteq> hr" for y
    proof -
      have b: "r_base (snd y) \<le> fst y" using ok y(1) by (simp add: RangeMap_ok_def ranges_ok_def)
      have o: "fst y < r_base (snd hr)"
        using ranges_ok_ordered [of "rmap (bm_functions m)" y hr] ok y(1,3) hr(1) far [OF y(1,2)] b
        by (auto simp: RangeMap_ok_def)
      then have "\<not> covers (bm_heap m ! r_entry (snd y)) a"
        using sub_less_range [OF y(2) b] hr(3) by (auto simp: covers_def at [OF y(1)])
      then show ?thesis using o b by simp
    qed
    have "f = bm_heap m ! r_entry (snd hr) \<or> \<not> covers f a \<and> fn_address f < r_base (snd hr)"
      if mem: "f \<in> stored_functions m" and le: "fn_address f \<le> a" for f
    proof -
      obtain y where y: "y \<in> set (rmap (bm_functions m))" "f = bm_heap m ! r_entry (snd y)"
        using mem unfolding stored_functions_def by blast
      then show ?thesis using other [OF y(1)] at [OF y(1)] le by auto
    qed
    then show ?thesis
      using Some hr at [OF hr(1)] by (auto simp: range_result_def stored_functions_def)
  qed
qed

lemma nearest_covers:
  assumes "bm_ok m" "RangeMap_RetrieveNearestRange (bm_functions m) a = Some (p, b, d, s)"
  shows "covering_function m a =
      (if covers (bm_heap m ! p) a then Some (p, fn_address (bm_heap m ! p)) else None)"
    "bm_heap m ! p \<in> stored_functions m"
    "f \<in> stored_functions m \<Longrightarrow> covers f a \<Longrightarrow> f = bm_heap m ! p"
proof -
  have n: "bm_heap m ! p \<in> stored_functions m" "b = fn_address (bm_heap m ! p)" "s = fn_size (bm_heap m ! p)"
    "\<And>f. f \<in> stored_functions m \<Longrightarrow> fn_address f \<le> a \<Longrightarrow> f = bm_heap m ! p \<or> \<not> covers f a"
    using nearest_function [OF assms(1), of a] unfolding assms(2) option.case prod.case by blast+
  show "covering_function m a = (if covers (bm_heap m ! p) a then Some (p, fn_address (bm_heap m ! p)) else None)"
    by (simp add: covering_function_def covers_def assms(2) n(2,3))
  show "bm_heap m ! p \<in> stored_functions m" by (rule n(1))
  show "f = bm_heap m ! p" if "f \<in> stored_functions m" "covers f a"
    using n(4) [OF that(1)] that(2) unfolding covers_def by blast
qed

lemma covering_function_Some:
  assumes "bm_ok m" "covering_function m a = Some (p, b)"
  shows "b = fn_address (bm_heap m ! p)" "f \<in> stored_functions m \<Longrightarrow> covers f a \<Longrightarrow> f = bm_heap m ! p"
proof -
  obtain b' d s where r: "RangeMap_RetrieveNearestRange (bm_functions m) a = Some (p, b', d, s)"
    using assms(2) by (auto simp: covering_function_def split: option.splits if_splits)
  show "b = fn_address (bm_heap m ! p)"
    using nearest_covers(1) [OF assms(1) r] assms(2) by (simp split: if_splits)
  show "f = bm_heap m ! p" if "f \<in> stored_functions m" "covers f a"
    by (rule nearest_covers(3) [OF assms(1) r that])
qed

lemma covering_function_None:
  assumes "bm_ok m"
  shows "covering_function m a = None \<longleftrightarrow> (\<forall>f\<in>stored_functions m. \<not> covers f a)"
proof (cases "RangeMap_RetrieveNearestRange (bm_functions m) a")
  case None
  then have "\<forall>f\<in>stored_functions m. a < fn_address f" using nearest_function [OF assms, of a] by simp
  then have "\<forall>f\<in>stored_functions m. \<not> covers f a" by (simp add: covers_def not_le)
  then show ?thesis using None by (simp add: covering_function_def)
next
  case (Some r)
  then obtain p b d s where r: "RangeMap_RetrieveNearestRange (bm_functions m) a = Some (p, b, d, s)"
    by (metis prod_cases4)
  note n = nearest_covers [OF assms r]
  show ?thesis
  proof (cases "covers (bm_heap m ! p) a")
    case True
    then show ?thesis using n(1,2) by auto
  next
    case False
    then have "\<not> covers f a" if "f \<in> stored_functions m" for f using n(3) [OF that] by blast
    then show ?thesis using False n(1) by simp
  qed
qed

lemma public_entry:
  assumes "bm_ok m" "(b, e) \<in> set (bm_public_symbols m)" "p \<in> stored_publics m" "ps_address p = b"
  shows "p = e"
proof -
  obtain x where x: "x \<in> set (bm_public_symbols m)" "p = snd x" using assms(3) unfolding stored_publics_def by blast
  have "fst x = b" using assms(1,4) x by (auto simp: bm_ok_def public_at_def)
  moreover have "distinct (map fst (bm_public_symbols m))"
    using assms(1) strict_sorted_iff unfolding bm_ok_def map_ok_def by blast
  ultimately show ?thesis using assms(2) x by (metis eq_key_imp_eq_value prod.collapse)
qed

lemma covering_public_spec:
  assumes "bm_ok m" "p \<in> stored_publics m" "ps_address p \<le> a"
    "\<And>q. q \<in> stored_publics m \<Longrightarrow> ps_address q \<le> a \<Longrightarrow> ps_address q \<le> ps_address p"
  shows "covering_public m a =
    (if \<forall>f\<in>stored_functions m. fn_address f \<le> a \<longrightarrow> fn_address f < ps_address p
     then Some (p, ps_address p) else None)"
proof -
  have ok: "map_ok (bm_public_symbols m)" using assms(1) by (simp add: bm_ok_def)
  have at: "ps_address (snd x) = fst x" "snd x \<in> stored_publics m" if "x \<in> set (bm_public_symbols m)" for x
    using assms(1) that by (auto simp: bm_ok_def public_at_def stored_publics_def)
  obtain x where x: "x \<in> set (bm_public_symbols m)" "p = snd x" using assms(2) unfolding stored_publics_def by blast
  obtain e b where eb: "AddressMap_Retrieve (bm_public_symbols m) a = Some (e, b)"
    using AddressMap_Retrieve_None [OF ok, of a "fst x" "snd x"] assms(3) x at [OF x(1)]
    by (cases "AddressMap_Retrieve (bm_public_symbols m) a") auto
  note eb' = AddressMap_Retrieve_Some [OF ok eb]
  have "ps_address e \<le> ps_address p" using assms(4) [of e] at [OF eb'(1)] eb'(2) by simp
  moreover have "fst x \<le> b" using eb'(3) [of "fst x" "snd x"] x at [OF x(1)] assms(3) by simp
  ultimately have pb: "ps_address p = b" using at [OF eb'(1)] at [OF x(1)] x(2) by simp
  then have "p = e" using public_entry [OF assms(1) eb'(1) assms(2)] by simp
  then show ?thesis
    using eb pb nearest_function [OF assms(1), of a]
    by (cases "RangeMap_RetrieveNearestRange (bm_functions m) a") (auto simp: covering_public_def)
qed

lemma covering_public_None:
  assumes "bm_ok m" "\<forall>p\<in>stored_publics m. a < ps_address p"
  shows "covering_public m a = None"
proof (cases "AddressMap_Retrieve (bm_public_symbols m) a")
  case (Some r)
  then obtain e b where "AddressMap_Retrieve (bm_public_symbols m) a = Some (e, b)" by (cases r) auto
  from AddressMap_Retrieve_Some(1,2) [OF _ this] have False
    using assms by (force simp: bm_ok_def public_at_def stored_publics_def)
  then show ?thesis ..
qed (simp add: covering_public_def)

lemma LookupAddress_function:
  assumes "bm_ok m" "f \<in> stored_functions m" "covers f (instruction frame - base)"
  shows "function_name (Module_LookupAddress m base frame) = fn_name f"
    "function_base (Module_LookupAddress m base frame) = base + fn_address f"
proof -
  let ?a = "instruction frame - base"
  obtain p b where p: "covering_function m ?a = Some (p, b)"
    using covering_function_None [OF assms(1), of ?a] assms(2,3) by (cases "covering_function m ?a") auto
  have "b = fn_address f" "bm_heap m ! p = f"
    using covering_function_Some(1) [OF assms(1) p] covering_function_Some(2) [OF assms(1) p assms(2,3)] by simp_all
  then show "function_name (Module_LookupAddress m base frame) = fn_name f"
    "function_base (Module_LookupAddress m base frame) = base + fn_address f"
    using p by (auto simp: Module_LookupAddress_def Let_def split: option.split)
qed

text \<open>C25. Looking up an address in a loaded module: a function whose range holds the address gives
  the frame its name and base; if there is none, the public symbol with the highest
  address not above it does, unless some function starts between the two; otherwise the
  frame is left as it was.\<close>

theorem LookupAddress_correct:
  assumes "bm_ok m"
  shows "let a = instruction frame - base; frame' = Module_LookupAddress m base frame in
    (\<forall>f\<in>stored_functions m. covers f a \<longrightarrow>
       function_name frame' = fn_name f \<and> function_base frame' = base + fn_address f) \<and>
    (\<forall>p\<in>stored_publics m. (\<forall>f\<in>stored_functions m. \<not> covers f a) \<and> ps_address p \<le> a \<and>
         (\<forall>q\<in>stored_publics m. ps_address q \<le> a \<longrightarrow> ps_address q \<le> ps_address p) \<longrightarrow>
       frame' = (if \<forall>f\<in>stored_functions m. fn_address f \<le> a \<longrightarrow> fn_address f < ps_address p
                 then frame\<lparr>function_name := ps_name p, function_base := base + ps_address p\<rparr> else frame)) \<and>
    ((\<forall>f\<in>stored_functions m. \<not> covers f a) \<and> (\<forall>p\<in>stored_publics m. a < ps_address p) \<longrightarrow> frame' = frame)"
proof -
  define a where "a = instruction frame - base"
  define frame' where "frame' = Module_LookupAddress m base frame"
  have c: "function_name frame' = fn_name f" "function_base frame' = base + fn_address f"
    if "f \<in> stored_functions m" "covers f a" for f
    using LookupAddress_function [OF assms that(1), of frame base] that(2) by (simp_all add: frame'_def a_def)
  have n: "frame' = (case covering_public m a of None \<Rightarrow> frame
      | Some (s, b) \<Rightarrow> frame\<lparr>function_name := ps_name s, function_base := base + b\<rparr>)"
    if "\<forall>f\<in>stored_functions m. \<not> covers f a"
  proof -
    have "covering_function m a = None" using covering_function_None [OF assms, of a] that by blast
    then show ?thesis by (simp add: frame'_def Module_LookupAddress_def a_def Let_def)
  qed
  show ?thesis
    unfolding Let_def a_def [symmetric] frame'_def [symmetric]
  proof (intro conjI ballI impI)
    fix p
    assume p: "p \<in> stored_publics m" "(\<forall>f\<in>stored_functions m. \<not> covers f a) \<and> ps_address p \<le> a \<and>
      (\<forall>q\<in>stored_publics m. ps_address q \<le> a \<longrightarrow> ps_address q \<le> ps_address p)"
    then have "covering_public m a =
        (if \<forall>f\<in>stored_functions m. fn_address f \<le> a \<longrightarrow> fn_address f < ps_address p
         then Some (p, ps_address p) else None)"
      by (intro covering_public_spec [OF assms]) auto
    then show "frame' = (if \<forall>f\<in>stored_functions m. fn_address f \<le> a \<longrightarrow> fn_address f < ps_address p
        then frame\<lparr>function_name := ps_name p, function_base := base + ps_address p\<rparr> else frame)"
      using n p(2)
      by (cases "\<forall>f\<in>stored_functions m. fn_address f \<le> a \<longrightarrow> fn_address f < ps_address p") auto
  next
    assume "(\<forall>f\<in>stored_functions m. \<not> covers f a) \<and> (\<forall>p\<in>stored_publics m. a < ps_address p)"
    then show "frame' = frame" using n covering_public_None [OF assms, of a] by simp
  qed (simp_all add: c)
qed

text \<open>The deltas that apply: those from the start of the \<open>INIT\<close> range up to the address.\<close>

lemma apply_deltas_filter:
  "map_ok ds \<Longrightarrow> apply_deltas ds a rules =
     fold (\<lambda>x info. snd (ParseCFIRuleSet (snd x) info)) (filter (\<lambda>x. fst x \<le> a) ds) rules"
proof (induction ds arbitrary: rules)
  case (Cons d ds)
  then have ok: "map_ok ds" "\<forall>y\<in>set ds. fst d < fst y" by (simp_all add: map_ok_Cons)
  show ?case
  proof (cases "fst d \<le> a")
    case True
    then show ?thesis using Cons.IH [OF ok(1)] by (cases d) simp
  next
    case False
    then have "filter (\<lambda>x. fst x \<le> a) ds = []" using ok(2) by (auto simp: filter_empty_conv)
    then show ?thesis using False by (cases d) simp
  qed
qed simp

lemma filter_from_lower_bound:
  assumes "map_ok ds"
  shows "filter (\<lambda>x. fst x \<le> a) (drop (lower_bound ds b) ds) = filter (\<lambda>x. b \<le> fst x \<and> fst x \<le> a) ds"
proof -
  let ?i = "lower_bound ds b"
  have "filter (\<lambda>x. b \<le> fst x \<and> fst x \<le> a) (take ?i ds) = []"
    using set_take_lower_bound [of _ ds b] by (fastforce simp: filter_empty_conv)
  moreover have "filter (\<lambda>x. b \<le> fst x \<and> fst x \<le> a) (drop ?i ds) = filter (\<lambda>x. fst x \<le> a) (drop ?i ds)"
    by (rule filter_cong) (use set_drop_lower_bound [OF assms] in auto)
  moreover have "filter P ds = filter P (take ?i ds) @ filter P (drop ?i ds)" for P
    by (simp flip: filter_append)
  ultimately show ?thesis by simp
qed

text \<open>C26. The call frame information for an address in a loaded module is the rule set of the
  \<open>STACK CFI INIT\<close> record whose range holds the address, changed in ascending order by
  exactly the delta records from the start of that range up to and including the address;
  there is none when no range holds the address or the initial rules do not parse.\<close>

theorem FindCFIFrameInfo_correct:
  assumes "bm_ok m"
  shows "let a = instruction frame - base in
    (case RangeMap_RetrieveRange (bm_cfi_initial_rules m) a of
       None \<Rightarrow> Module_FindCFIFrameInfo m base frame = None
     | Some (init, b, _, s) \<Rightarrow> b \<le> a \<and> a - b < s \<and>
         Module_FindCFIFrameInfo m base frame =
           (if fst (ParseCFIRuleSet init CFIFrameInfo_init)
            then Some (fold (\<lambda>x info. snd (ParseCFIRuleSet (snd x) info))
                   (filter (\<lambda>x. b \<le> fst x \<and> fst x \<le> a) (bm_cfi_delta_rules m))
                   (snd (ParseCFIRuleSet init CFIFrameInfo_init)))
            else None))"
proof -
  have ok: "map_ok (bm_cfi_delta_rules m)" "ranges_hold (\<lambda>_ _ _. True) (bm_cfi_initial_rules m)"
    using assms by (simp_all add: bm_ok_def)
  show ?thesis
    using ranges_hold_retrieve [OF ok(2), of "instruction frame - base"]
    by (auto simp: Let_def Module_FindCFIFrameInfo_def apply_deltas_filter [OF map_ok_drop [OF ok(1)]]
        filter_from_lower_bound [OF ok(1)] split: option.split bool.split prod.split)
qed

lemma strtok_buf_word:
  assumes "t \<noteq> []" "\<forall>c\<in>set t. \<not> sep c \<and> c \<noteq> CHR 0x00"
  shows "strtok_buf sep t = Some (t, False, t, [])"
    "strtok_buf sep (t @ CHR 0x00 # r) = Some (t, False, t, CHR 0x00 # r)"
    "sep c \<Longrightarrow> c \<noteq> CHR 0x00 \<Longrightarrow> strtok_buf sep (t @ c # r) = Some (t, True, t @ [CHR 0x00], r)"
proof -
  have d: "dropWhile sep (t @ u) = t @ u" "takeWhile sep (t @ u) = []" for u
    using assms by (cases t; simp)+
  have h: "hd (t @ u) \<noteq> CHR 0x00" for u using assms by (cases t) auto
  have k: "takeWhile (\<lambda>c. \<not> sep c \<and> c \<noteq> CHR 0x00) (t @ u) =
      t @ takeWhile (\<lambda>c. \<not> sep c \<and> c \<noteq> CHR 0x00) u" for u
    using assms(2) by (simp add: takeWhile_append2)
  show "strtok_buf sep t = Some (t, False, t, [])"
    using assms(1) d [of "[]"] h [of "[]"] k [of "[]"] by (simp add: strtok_buf_def Let_def del: takeWhile_eq_all_conv)
  show "strtok_buf sep (t @ CHR 0x00 # r) = Some (t, False, t, CHR 0x00 # r)"
    using assms(1) h [of "CHR 0x00 # r"] by (simp add: strtok_buf_def Let_def d k)
  show "strtok_buf sep (t @ c # r) = Some (t, True, t @ [CHR 0x00], r)" if "sep c" "c \<noteq> CHR 0x00"
    using assms(1) that h [of "c # r"] by (simp add: strtok_buf_def Let_def d k)
qed

lemma load_stack_cfi_past_end:
  assumes "Module_ParseCFIFrameInfo beyond m = (True, t, m')"
  shows "load_lines m None 0 (''STACK CFI'' @ CHR 0x00 # beyond) = (0, m')"
proof -
  have "strtok_buf end_of_line (''STACK CFI'' @ CHR 0x00 # beyond) = Some (''STACK CFI'', False, ''STACK CFI'', CHR 0x00 # beyond)"
    by (rule strtok_buf_word) (simp_all add: end_of_line_def)
  moreover have "load_line ''STACK CFI'' beyond m None = (True, t, m', None)"
    using assms by (simp add: load_line_def Module_ParseStackInfo_def kWhitespace_def)
  moreover have "load_lines m' None 0 (CHR 0x00 # beyond) = (0, m')"
    by (subst load_lines.simps) (simp add: strtok_buf_def end_of_line_def)
  ultimately show ?thesis by (subst load_lines.simps) (simp add: kMaxErrorsBeforeBailing_def)
qed

text \<open>C40. \<open>ParseStackInfo\<close> steps over the terminator of a line that ends right after the platform
  name. When such a \<open>STACK CFI\<close> line is the last of a buffer, the record it stores is read
  from whatever memory follows the buffer.\<close>

theorem stack_line_reads_past_buffer:
  assumes "addr \<noteq> []" "\<forall>c\<in>set addr. \<not> kWhitespace c \<and> c \<noteq> CHR 0x00" "addr \<noteq> ''INIT''"
    and "rules \<noteq> []" "\<forall>c\<in>set rules. \<not> end_of_line c \<and> c \<noteq> CHR 0x00"
  shows "bm_cfi_delta_rules (LoadMapFromMemory (addr @ CHR '' '' # rules) (''STACK CFI'' @ [CHR 0x00])
      (BasicModule_init name)) = [(fst (strtoull_hex addr), rules)]"
proof -
  let ?m = "(BasicModule_init name)\<lparr>bm_cfi_delta_rules := [(fst (strtoull_hex addr), rules)]\<rparr>"
  have "strtok_buf kWhitespace (addr @ CHR '' '' # rules) = Some (addr, True, addr @ [CHR 0x00], rules)"
    by (rule strtok_buf_word(3)) (use assms in \<open>simp_all add: kWhitespace_def\<close>)
  moreover have "strtok_buf end_of_line rules = Some (rules, False, rules, [])"
    by (rule strtok_buf_word(1)) (use assms in auto)
  ultimately have "Module_ParseCFIFrameInfo (addr @ CHR '' '' # rules) (BasicModule_init name) =
      (True, (addr @ [CHR 0x00]) @ rules, ?m)"
    using assms(3) by (simp add: Module_ParseCFIFrameInfo_def BasicModule_init_def map_assign_def)
  from load_stack_cfi_past_end [OF this] show ?thesis
    by (simp add: LoadMapFromMemory_def strip_nuls_def Let_def)
qed

definition stored_lines :: "FunctionSym \<Rightarrow> Line set" where
  "stored_lines f = (\<lambda>hr. r_entry (snd hr)) ` set (rmap (fn_lines f))"

definition line_covers :: "Line \<Rightarrow> u64 \<Rightarrow> bool" where
  "line_covers l a \<longleftrightarrow> ln_address l \<le> a \<and> a - ln_address l < ln_size l"

text \<open>A line range holds an address exactly when the record it points to covers it.\<close>

lemma line_in_range:
  assumes "ranges_hold line_at r" "hr \<in> set (rmap r)"
  shows "line_covers (r_entry (snd hr)) a \<longleftrightarrow> in_range a hr"
proof -
  have at: "ln_address (r_entry (snd hr)) = r_base (snd hr)"
    "ln_size (r_entry (snd hr)) = fst hr - r_base (snd hr) + 1"
    and le: "r_base (snd hr) \<le> fst hr" "fst hr - r_base (snd hr) + 1 \<noteq> 0"
    using assms by (auto simp: ranges_hold_def line_at_def RangeMap_ok_def ranges_ok_def)
  have "a - r_base (snd hr) \<le> fst hr - r_base (snd hr)" if "r_base (snd hr) \<le> a" "a \<le> fst hr"
    using that by (auto simp: word_le_nat_alt unat_sub_le)
  then show ?thesis
    using sub_less_range [OF _ le(1), of a] word_le_less_1 [OF _ le(2), of "a - r_base (snd hr)"]
    by (auto simp: line_covers_def in_range_def at)
qed

lemma line_retrieve:
  assumes "ranges_hold line_at (fn_lines f)"
  shows "l \<in> stored_lines f \<Longrightarrow> line_covers l a \<Longrightarrow>
      \<exists>d. RangeMap_RetrieveRange (fn_lines f) a = Some (l, ln_address l, d, ln_size l)"
    "\<forall>l\<in>stored_lines f. \<not> line_covers l a \<Longrightarrow> RangeMap_RetrieveRange (fn_lines f) a = None"
proof -
  have ok: "RangeMap_ok (fn_lines f)" using assms by (simp add: ranges_hold_def)
  note cov = line_in_range [OF assms]
  show "\<exists>d. RangeMap_RetrieveRange (fn_lines f) a = Some (l, ln_address l, d, ln_size l)"
    if mem: "l \<in> stored_lines f" and c: "line_covers l a"
  proof -
    obtain hr where hr: "hr \<in> set (rmap (fn_lines f))" "l = r_entry (snd hr)"
      using mem unfolding stored_lines_def by blast
    then have "in_range a hr" using cov c by blast
    moreover have "(r_entry (snd hr), ln_address l, r_delta (snd hr), ln_size l) = range_result hr"
      using assms hr by (auto simp: ranges_hold_def line_at_def range_result_def)
    ultimately show ?thesis using RetrieveRange_Some [OF ok] hr by blast
  qed
  show "RangeMap_RetrieveRange (fn_lines f) a = None" if "\<forall>l\<in>stored_lines f. \<not> line_covers l a"
    using that cov by (auto simp: RetrieveRange_None [OF ok] stored_lines_def)
qed

text \<open>An address in a function of a loaded module: the line record that covers it gives the
  frame its line number, line base and, if the file is listed, file name; without one the
  frame gets the function and nothing else.\<close>

theorem LookupAddress_line_correct:
  assumes "bm_ok m" "f \<in> stored_functions m" "covers f (instruction frame - base)"
  shows "let a = instruction frame - base; frame' = Module_LookupAddress m base frame;
      named = frame\<lparr>function_name := fn_name f, function_base := base + fn_address f\<rparr> in
    (\<forall>l\<in>stored_lines f. line_covers l a \<longrightarrow>
       frame' = named\<lparr>source_line := of_int (ln_line l), source_line_base := base + ln_address l,
         source_file_name := (case map_of (bm_files m) (ln_source_file_id l) of
           None \<Rightarrow> source_file_name frame | Some name \<Rightarrow> name)\<rparr>) \<and>
    ((\<forall>l\<in>stored_lines f. \<not> line_covers l a) \<longrightarrow> frame' = named)"
proof -
  let ?a = "instruction frame - base"
  obtain p b where p: "covering_function m ?a = Some (p, b)"
    using covering_function_None [OF assms(1), of ?a] assms(2,3) by (cases "covering_function m ?a") auto
  have pf: "b = fn_address f" "bm_heap m ! p = f"
    using covering_function_Some(1) [OF assms(1) p] covering_function_Some(2) [OF assms(1) p assms(2,3)] by simp_all
  have "f \<in> set (bm_heap m)"
    using assms(1,2) by (auto simp: bm_ok_def stored_functions_def ranges_hold_def func_at_def)
  then have lines: "ranges_hold line_at (fn_lines f)" and files: "map_ok (bm_files m)"
    using assms(1) by (simp_all add: bm_ok_def)
  note ret = line_retrieve [OF lines, where a = ?a]
  note lookup = Module_LookupAddress_def [of m base frame] p pf
  show ?thesis
    unfolding Let_def
  proof (intro conjI ballI impI)
    fix l
    assume "l \<in> stored_lines f" "line_covers l ?a"
    then obtain d where "RangeMap_RetrieveRange (fn_lines f) ?a = Some (l, ln_address l, d, ln_size l)"
      using ret(1) by blast
    then show "Module_LookupAddress m base frame = frame\<lparr>function_name := fn_name f, function_base := base + fn_address f,
        source_line := of_int (ln_line l), source_line_base := base + ln_address l,
        source_file_name := (case map_of (bm_files m) (ln_source_file_id l) of
           None \<Rightarrow> source_file_name frame | Some name \<Rightarrow> name)\<rparr>"
      using map_find_None [OF files, of "ln_source_file_id l"] map_find_Some [OF files, of "ln_source_file_id l"]
      by (cases "map_of (bm_files m) (ln_source_file_id l)") (simp_all add: lookup Let_def)
  next
    assume "\<forall>l\<in>stored_lines f. \<not> line_covers l ?a"
    from ret(2) [OF this] show "Module_LookupAddress m base frame = frame\<lparr>function_name := fn_name f, function_base := base + fn_address f\<rparr>"
      by (simp add: lookup)
  qed
qed

definition sample_symbols :: string where
  "sample_symbols = ''FILE 1 a.c'' @ [CHR 10] @ ''FUNC 10 20 0 f'' @ [CHR 10] @ ''10 8 5 1'' @ [CHR 10] @
     ''PUBLIC 40 0 p'' @ [CHR 10] @ ''STACK CFI INIT 10 20 .cfa: 1'' @ [CHR 10] @
     ''STACK CFI 14 .cfa: 2'' @ [CHR 10] @ [NUL]"

definition sample_basic_module :: BasicModule where
  "sample_basic_module =
     (BasicModule_init ''m'')
       \<lparr>bm_files := [(1, ''a.c'')],
        bm_heap := [\<lparr>fn_name = ''f'', fn_address = 16, fn_size = 32, fn_parameter_size = 0,
          fn_lines = \<lparr>enable_shrink_down = False,
            rmap = [(23, \<lparr>r_base = 16, r_delta = 0,
              r_entry = \<lparr>ln_address = 16, ln_size = 8, ln_source_file_id = 1, ln_line = 5\<rparr>\<rparr>)]\<rparr>\<rparr>],
        bm_functions := \<lparr>enable_shrink_down = False, rmap = [(47, \<lparr>r_base = 16, r_delta = 0, r_entry = 0\<rparr>)]\<rparr>,
        bm_public_symbols := [(64, \<lparr>ps_name = ''p'', ps_address = 64, ps_parameter_size = 0\<rparr>)],
        bm_cfi_initial_rules :=
          \<lparr>enable_shrink_down = False, rmap = [(47, \<lparr>r_base = 16, r_delta = 0, r_entry = ''.cfa: 1''\<rparr>)]\<rparr>,
        bm_cfi_delta_rules := [(20, ''.cfa: 2'')]\<rparr>"

lemma sample_basic_module_loaded: "LoadMapFromMemory [] sample_symbols (BasicModule_init ''m'') = sample_basic_module"
  by code_simp

definition sample_frame :: "u64 \<Rightarrow> StackFrame" where
  "sample_frame i = StackFrame_init\<lparr>instruction := i\<rparr>"

lemma sample_basic_module_ok: "bm_ok sample_basic_module"
  unfolding sample_basic_module_loaded [symmetric] by (rule LoadMapFromMemory_bm_ok [OF bm_ok_init])

theorem LookupAddress_line_correct_witness:
  "Module_LookupAddress sample_basic_module 4096 (sample_frame 4118) =
     (sample_frame 4118)\<lparr>function_name := ''f'', function_base := 4112, source_line := 5,
       source_line_base := 4112, source_file_name := ''a.c''\<rparr>"
proof -
  let ?f = "bm_heap sample_basic_module ! 0"
  have f: "?f \<in> stored_functions sample_basic_module" by code_simp
  have c: "covers ?f (instruction (sample_frame 4118) - 4096)" by code_simp
  have "\<exists>l\<in>stored_lines ?f. line_covers l (instruction (sample_frame 4118) - 4096) \<and> ln_line l = 5 \<and>
      ln_address l = 16 \<and> map_of (bm_files sample_basic_module) (ln_source_file_id l) = Some ''a.c''" by code_simp
  then obtain l where "l \<in> stored_lines ?f" "line_covers l (instruction (sample_frame 4118) - 4096)" "ln_line l = 5"
    "ln_address l = 16" "map_of (bm_files sample_basic_module) (ln_source_file_id l) = Some ''a.c''" by blast
  moreover have "fn_name ?f = ''f''" "fn_address ?f = 16" by code_simp+
  ultimately show ?thesis
    using LookupAddress_line_correct [OF sample_basic_module_ok f c] by (simp add: Let_def)
qed

theorem LookupAddress_correct_witness:
  "function_name (Module_LookupAddress sample_basic_module 4096 (sample_frame 4118)) = ''f'' \<and>
   Module_LookupAddress sample_basic_module 4096 (sample_frame 4170) =
     (sample_frame 4170)\<lparr>function_name := ''p'', function_base := 4160\<rparr> \<and>
   Module_LookupAddress sample_basic_module 4096 (sample_frame 4100) = sample_frame 4100"
proof (intro conjI)
  note spec = LookupAddress_correct [OF sample_basic_module_ok]
  let ?f = "bm_heap sample_basic_module ! 0" and ?p = "snd (bm_public_symbols sample_basic_module ! 0)"
  have f: "?f \<in> stored_functions sample_basic_module" by code_simp
  have c: "covers ?f (instruction (sample_frame 4118) - 4096)" by code_simp
  have n: "fn_name ?f = ''f''" by code_simp
  show "function_name (Module_LookupAddress sample_basic_module 4096 (sample_frame 4118)) = ''f''"
    using spec [of "sample_frame 4118" 4096, unfolded Let_def, THEN conjunct1, rule_format, OF f c] n by simp
  have "?p \<in> stored_publics sample_basic_module" "\<forall>f\<in>stored_functions sample_basic_module. \<not> covers f (instruction (sample_frame 4170) - 4096)"
    "\<forall>q\<in>stored_publics sample_basic_module. ps_address q \<le> ps_address ?p"
    "\<forall>f\<in>stored_functions sample_basic_module. fn_address f < ps_address ?p"
    "ps_name ?p = ''p''" "ps_address ?p = 64" "64 \<le> instruction (sample_frame 4170) - 4096" by code_simp+
  then show "Module_LookupAddress sample_basic_module 4096 (sample_frame 4170) =
     (sample_frame 4170)\<lparr>function_name := ''p'', function_base := 4160\<rparr>"
    using spec [of "sample_frame 4170" 4096, unfolded Let_def, THEN conjunct2, THEN conjunct1, rule_format, of ?p]
    by simp
  have "\<forall>f\<in>stored_functions sample_basic_module. \<not> covers f (instruction (sample_frame 4100) - 4096)"
    "\<forall>q\<in>stored_publics sample_basic_module. instruction (sample_frame 4100) - 4096 < ps_address q" by code_simp+
  then show "Module_LookupAddress sample_basic_module 4096 (sample_frame 4100) = sample_frame 4100"
    using spec [of "sample_frame 4100" 4096, unfolded Let_def, THEN conjunct2, THEN conjunct2] by blast
qed

theorem FindCFIFrameInfo_correct_witness:
  "Module_FindCFIFrameInfo sample_basic_module 4096 (sample_frame 4118) =
     Some (SetCFARule ''2'' CFIFrameInfo_init) \<and>
   Module_FindCFIFrameInfo sample_basic_module 4096 (sample_frame 4100) = None"
proof
  note spec = FindCFIFrameInfo_correct [OF sample_basic_module_ok]
  have "RangeMap_RetrieveRange (bm_cfi_initial_rules sample_basic_module) (instruction (sample_frame 4118) - 4096) =
      Some (''.cfa: 1'', 16, 0, 32)" by code_simp
  moreover have "(if fst (ParseCFIRuleSet ''.cfa: 1'' CFIFrameInfo_init)
            then Some (fold (\<lambda>x info. snd (ParseCFIRuleSet (snd x) info))
                   (filter (\<lambda>x. 16 \<le> fst x \<and> fst x \<le> instruction (sample_frame 4118) - 4096) (bm_cfi_delta_rules sample_basic_module))
                   (snd (ParseCFIRuleSet ''.cfa: 1'' CFIFrameInfo_init)))
            else None) = Some (SetCFARule ''2'' CFIFrameInfo_init)" by code_simp
  ultimately show "Module_FindCFIFrameInfo sample_basic_module 4096 (sample_frame 4118) =
     Some (SetCFARule ''2'' CFIFrameInfo_init)"
    using spec [of "sample_frame 4118" 4096] by (simp add: Let_def del: not_None_eq)
  have "RangeMap_RetrieveRange (bm_cfi_initial_rules sample_basic_module) (instruction (sample_frame 4100) - 4096) = None"
    by code_simp
  then show "Module_FindCFIFrameInfo sample_basic_module 4096 (sample_frame 4100) = None"
    using spec [of "sample_frame 4100" 4096] by (simp add: Let_def)
qed

theorem stack_line_reads_past_buffer_witness:
  "bm_cfi_delta_rules (LoadMapFromMemory (''10'' @ CHR '' '' # ''.cfa: 7'') (''STACK CFI'' @ [CHR 0x00])
      (BasicModule_init ''m'')) = [(fst (strtoull_hex ''10''), ''.cfa: 7'')]"
  by (rule stack_line_reads_past_buffer) (simp_all add: kWhitespace_def end_of_line_def)

definition sample_file :: "string \<Rightarrow> string option" where
  "sample_file path = (if path = ''m.sym'' then Some (butlast sample_symbols) else None)"

theorem resolver_table_correct_witness:
  "let c = sample_module 4096 4096 ''m''; ops = basic_module_ops [];
       (ok, r) = LoadModule ops sample_file (Some c) ''m.sym'' ResolverBase_init
   in ok \<and> rb_find r c = Some sample_basic_module \<and> \<not> ResolverBase_IsModuleCorrupt (Some c) r \<and>
      rb_find (UnloadModule ops (Some c) r) c = None"
proof -
  let ?c = "sample_module 4096 4096 ''m''" and ?ops = "basic_module_ops []"
  obtain ok r where l: "LoadModule ?ops sample_file (Some ?c) ''m.sym'' ResolverBase_init = (ok, r)" by fastforce
  have r0: "resolver_reachable ?ops sample_file ResolverBase_init" by (rule rr_init)
  have r1: "resolver_reachable ?ops sample_file r" using rr_load [OF r0, of "Some ?c" "''m.sym''"] l by simp
  have m: "loaded_module ?ops ?c (the (sample_file ''m.sym'') @ [NUL]) = sample_basic_module"
  proof -
    have "the (sample_file ''m.sym'') @ [NUL] = sample_symbols" by code_simp
    then show ?thesis
      using sample_basic_module_loaded by (simp add: loaded_module_def basic_module_ops_def sample_module_def)
  qed
  have n: "rb_find ResolverBase_init ?c = None" "sample_file ''m.sym'' \<noteq> None"
    by (simp_all add: rb_find_def ResolverBase_init_def sample_file_def map_find_def)
  have c: "\<not> mo_IsCorrupt ?ops sample_basic_module"
    by (simp add: basic_module_ops_def sample_basic_module_def BasicModule_init_def)
  have ok: "ok \<and> rb_find r ?c = Some sample_basic_module"
    using resolver_table_correct [OF r0, of ?c "''m.sym''"] n m l by (auto simp: ResolverBase_HasModule_def)
  then show ?thesis
    using resolver_table_correct [OF r1, of ?c "''m.sym''"] c l by (simp add: Let_def)
qed

end
