(* ===== verification/Module_Serializer.thy ===== *)
theory Module_Serializer
  imports Map_Serializers Static_Map Basic_Resolver
begin

text \<open>
  Serialization of a whole symbol module (\<open>processor/simple_serializer-inl.h\<close> for the record types,
  \<open>processor/module_serializer.cc\<close>): the bytes that \<open>FastSourceLineResolver\<close> loads.
\<close>

section \<open>Records\<close>

definition Line_serializer :: "Line Serializer" where
  "Line_serializer =
     \<lparr>ser_SizeOf = (\<lambda>l. ser_SizeOf word_serializer (ln_address l) + ser_SizeOf word_serializer (ln_size l) +
        ser_SizeOf int32_serializer (ln_source_file_id l) + ser_SizeOf int32_serializer (ln_line l)),
      ser_Write = (\<lambda>l s.
        do { s \<leftarrow> ser_Write word_serializer (ln_address l) s;
             s \<leftarrow> ser_Write word_serializer (ln_size l) s;
             s \<leftarrow> ser_Write int32_serializer (ln_source_file_id l) s;
             ser_Write int32_serializer (ln_line l) s })\<rparr>"

definition PublicSymbol_serializer :: "PublicSymbol Serializer" where
  "PublicSymbol_serializer =
     \<lparr>ser_SizeOf = (\<lambda>p. ser_SizeOf string_serializer (ps_name p) + ser_SizeOf word_serializer (ps_address p) +
        ser_SizeOf int32_serializer (ps_parameter_size p)),
      ser_Write = (\<lambda>p s.
        do { s \<leftarrow> ser_Write string_serializer (ps_name p) s;
             s \<leftarrow> ser_Write word_serializer (ps_address p) s;
             ser_Write int32_serializer (ps_parameter_size p) s })\<rparr>"

fun stack_info_value :: "StackInfoTypes \<Rightarrow> int" where
  "stack_info_value STACK_INFO_UNKNOWN = - 1"
| "stack_info_value t = int (stack_info_index t)"

text \<open>The size is accumulated in an \<open>unsigned int\<close>.\<close>

definition WindowsFrameInfo_serializer :: "WindowsFrameInfo Serializer" where
  "WindowsFrameInfo_serializer =
     \<lparr>ser_SizeOf = (\<lambda>w. (4 + ser_SizeOf word_serializer (valid w) + ser_SizeOf word_serializer (prolog_size w) +
        ser_SizeOf word_serializer (epilog_size w) + ser_SizeOf word_serializer (parameter_size w) +
        ser_SizeOf word_serializer (saved_register_size w) + ser_SizeOf word_serializer (local_size w) +
        ser_SizeOf word_serializer (max_stack_size w) + ser_SizeOf bool_serializer (allocates_base_pointer w) +
        ser_SizeOf string_serializer (program_string w)) mod 2 ^ 32),
      ser_Write = (\<lambda>w s.
        do { s \<leftarrow> ser_Write int32_serializer (stack_info_value (wfi_type w)) s;
             s \<leftarrow> ser_Write word_serializer (valid w) s;
             s \<leftarrow> ser_Write word_serializer (prolog_size w) s;
             s \<leftarrow> ser_Write word_serializer (epilog_size w) s;
             s \<leftarrow> ser_Write word_serializer (parameter_size w) s;
             s \<leftarrow> ser_Write word_serializer (saved_register_size w) s;
             s \<leftarrow> ser_Write word_serializer (local_size w) s;
             s \<leftarrow> ser_Write word_serializer (max_stack_size w) s;
             s \<leftarrow> ser_Write bool_serializer (allocates_base_pointer w) s;
             ser_Write string_serializer (program_string w) s })\<rparr>"

text \<open>A \<open>linked_ptr\<close>: nothing is written for a null pointer.\<close>

definition linked_ptr_serializer :: "'a Serializer \<Rightarrow> 'a option Serializer" where
  "linked_ptr_serializer ser =
     \<lparr>ser_SizeOf = (\<lambda>p. case p of None \<Rightarrow> 0 | Some x \<Rightarrow> ser_SizeOf ser x),
      ser_Write = (\<lambda>p s. case p of None \<Rightarrow> Some s | Some x \<Rightarrow> ser_Write ser x s)\<rparr>"

definition Function_serializer :: "FunctionSym Serializer" where
  "Function_serializer =
     \<lparr>ser_SizeOf = (\<lambda>f. (ser_SizeOf string_serializer (fn_name f) + ser_SizeOf word_serializer (fn_address f) +
        ser_SizeOf word_serializer (fn_size f) + ser_SizeOf int32_serializer (fn_parameter_size f) +
        ser_SizeOf (RangeMapSerializer Line_serializer) (fn_lines f)) mod 2 ^ 32),
      ser_Write = (\<lambda>f s.
        do { s \<leftarrow> ser_Write string_serializer (fn_name f) s;
             s \<leftarrow> ser_Write word_serializer (fn_address f) s;
             s \<leftarrow> ser_Write word_serializer (fn_size f) s;
             s \<leftarrow> ser_Write int32_serializer (fn_parameter_size f) s;
             ser_Write (RangeMapSerializer Line_serializer) (fn_lines f) s })\<rparr>"

text \<open>The functions of a module are pointers into its heap; none is null.\<close>

definition function_ptr_serializer :: "FunctionSym list \<Rightarrow> nat Serializer" where
  "function_ptr_serializer heap =
     \<lparr>ser_SizeOf = (\<lambda>p. ser_SizeOf Function_serializer (heap ! p)),
      ser_Write = (\<lambda>p. ser_Write Function_serializer (heap ! p))\<rparr>"

section \<open>Modules\<close>

definition kNumberMaps :: nat where
  "kNumberMaps = 5 + STACK_INFO_LAST"

definition files_serializer :: "(int, string) std_map Serializer" where
  "files_serializer = StdMapSerializer 4 int32_serializer string_serializer"

definition functions_serializer :: "FunctionSym list \<Rightarrow> (u64, nat) RangeMap Serializer" where
  "functions_serializer heap = RangeMapSerializer (function_ptr_serializer heap)"

definition pubsym_serializer :: "(u64, PublicSymbol) AddressMap Serializer" where
  "pubsym_serializer = StdMapSerializer 8 word_serializer PublicSymbol_serializer"

definition wfi_serializer :: "(u64, WindowsFrameInfo option) ContainedRangeMap Serializer" where
  "wfi_serializer = ContainedRangeMapSerializer (linked_ptr_serializer WindowsFrameInfo_serializer)"

definition cfi_init_rules_serializer :: "(u64, string) RangeMap Serializer" where
  "cfi_init_rules_serializer = RangeMapSerializer string_serializer"

definition cfi_delta_rules_serializer :: "(u64, string) std_map Serializer" where
  "cfi_delta_rules_serializer = StdMapSerializer 8 word_serializer string_serializer"

text \<open>\<open>SizeOf\<close> also fills the member \<open>map_sizes_\<close>, an array of \<open>uint32_t\<close>.\<close>

definition module_map_sizes :: "BasicModule \<Rightarrow> u32 list" where
  "module_map_sizes m = map word_of_nat
     ([ser_SizeOf files_serializer (bm_files m),
       ser_SizeOf (functions_serializer (bm_heap m)) (bm_functions m),
       ser_SizeOf pubsym_serializer (bm_public_symbols m)] @
      map (ser_SizeOf wfi_serializer) (bm_windows_frame_info m) @
      [ser_SizeOf cfi_init_rules_serializer (bm_cfi_initial_rules m),
       ser_SizeOf cfi_delta_rules_serializer (bm_cfi_delta_rules m)])"

definition ModuleSerializer_SizeOf :: "BasicModule \<Rightarrow> nat \<times> u32 list" where
  "ModuleSerializer_SizeOf m =
     (let map_sizes = module_map_sizes m
      in (ser_SizeOf bool_serializer (bm_is_corrupt m) + kNumberMaps * 4 + sum_list (map unat map_sizes) + 1,
          map_sizes))"

fun write_all :: "'a Serializer \<Rightarrow> 'a list \<Rightarrow> buffer \<times> nat \<Rightarrow> (buffer \<times> nat) option" where
  "write_all ser [] s = Some s"
| "write_all ser (x # xs) s = do { s \<leftarrow> ser_Write ser x s; write_all ser xs s }"

definition ModuleSerializer_Write :: "u32 list \<Rightarrow> BasicModule \<Rightarrow> buffer \<times> nat \<Rightarrow> (buffer \<times> nat) option" where
  "ModuleSerializer_Write map_sizes m s =
     do { s \<leftarrow> ser_Write bool_serializer (bm_is_corrupt m) s;
          s \<leftarrow> advance (concat (map le_bytes map_sizes)) s;
          s \<leftarrow> ser_Write files_serializer (bm_files m) s;
          s \<leftarrow> ser_Write (functions_serializer (bm_heap m)) (bm_functions m) s;
          s \<leftarrow> ser_Write pubsym_serializer (bm_public_symbols m) s;
          s \<leftarrow> write_all wfi_serializer (bm_windows_frame_info m) s;
          s \<leftarrow> ser_Write cfi_init_rules_serializer (bm_cfi_initial_rules m) s;
          s \<leftarrow> ser_Write cfi_delta_rules_serializer (bm_cfi_delta_rules m) s;
          advance [0] s }"

text \<open>A size that differs from the number of bytes written is only logged.\<close>

definition ModuleSerializer_Serialize :: "(nat \<Rightarrow> u8) \<Rightarrow> BasicModule \<Rightarrow> (buffer \<times> nat) option" where
  "ModuleSerializer_Serialize fresh m =
     (case ModuleSerializer_SizeOf m of
        (total_size, map_sizes) \<Rightarrow>
          (let size_to_alloc = total_size mod 2 ^ 32
           in do { (buf, _) \<leftarrow> ModuleSerializer_Write map_sizes m (map fresh [0..<size_to_alloc], 0);
                   Some (buf, size_to_alloc) }))"

text \<open>The text is copied into a buffer of its own, with a terminator, and loaded into a new module.\<close>

definition SerializeSymbolFileData :: "(nat \<Rightarrow> u8) \<Rightarrow> string \<Rightarrow> string \<Rightarrow> (buffer \<times> nat) option" where
  "SerializeSymbolFileData fresh beyond symbol_data =
     ModuleSerializer_Serialize fresh (LoadMapFromMemory beyond (symbol_data @ [NUL]) (BasicModule_init ''no name''))"

section \<open>The bytes of the records\<close>

definition line_bytes :: "Line \<Rightarrow> u8 list" where
  "line_bytes l = le_bytes (ln_address l) @ le_bytes (ln_size l) @
     le_bytes (word_of_int (ln_source_file_id l) :: u32) @ le_bytes (word_of_int (ln_line l) :: u32)"

interpretation line_ser: entry_serializer Line_serializer line_bytes "\<lambda>_. True"
proof unfold_locales
  show "writes (ser_Write Line_serializer l) (line_bytes l)" for l
    unfolding Line_serializer_def line_bytes_def Serializer.simps
    by (intro writes_seq u64_ser.Write int32_ser.Write TrueI)
qed (simp_all add: Line_serializer_def line_bytes_def word_serializer_def int32_serializer_def)

definition public_bytes :: "PublicSymbol \<Rightarrow> u8 list" where
  "public_bytes p = cstring_bytes (ps_name p) @ le_bytes (ps_address p) @
     le_bytes (word_of_int (ps_parameter_size p) :: u32)"

interpretation public_ser: serializer PublicSymbol_serializer public_bytes "\<lambda>p. NUL \<notin> set (ps_name p)"
proof unfold_locales
  show "writes (ser_Write PublicSymbol_serializer p) (public_bytes p)" if "NUL \<notin> set (ps_name p)" for p
    unfolding PublicSymbol_serializer_def public_bytes_def Serializer.simps
    by (intro writes_seq u64_ser.Write int32_ser.Write string_ser.Write that TrueI)
qed (simp_all add: PublicSymbol_serializer_def public_bytes_def word_serializer_def int32_serializer_def string_serializer_def)

definition wfi_bytes :: "WindowsFrameInfo \<Rightarrow> u8 list" where
  "wfi_bytes w = le_bytes (word_of_int (stack_info_value (wfi_type w)) :: u32) @ le_bytes (valid w) @
     le_bytes (prolog_size w) @ le_bytes (epilog_size w) @ le_bytes (parameter_size w) @
     le_bytes (saved_register_size w) @ le_bytes (local_size w) @ le_bytes (max_stack_size w) @
     [if allocates_base_pointer w then 255 else 0] @ cstring_bytes (program_string w)"

interpretation wfi_ser: serializer WindowsFrameInfo_serializer wfi_bytes "\<lambda>w. NUL \<notin> set (program_string w)"
proof unfold_locales
  show "writes (ser_Write WindowsFrameInfo_serializer w) (wfi_bytes w)" if "NUL \<notin> set (program_string w)" for w
    unfolding WindowsFrameInfo_serializer_def wfi_bytes_def Serializer.simps
    by (intro writes_seq u32_ser.Write int32_ser.Write string_ser.Write bool_ser.Write that TrueI)
qed (simp_all add: WindowsFrameInfo_serializer_def wfi_bytes_def word_serializer_def int32_serializer_def
    string_serializer_def bool_serializer_def)

definition ptr_bytes :: "('a \<Rightarrow> u8 list) \<Rightarrow> 'a option \<Rightarrow> u8 list" where
  "ptr_bytes eb p = (case p of None \<Rightarrow> [] | Some x \<Rightarrow> eb x)"

definition wfi_ptr_ok :: "WindowsFrameInfo option \<Rightarrow> bool" where
  "wfi_ptr_ok p \<longleftrightarrow> pred_option (\<lambda>w. NUL \<notin> set (program_string w)) p"

interpretation wfi_ptr_ser: entry_serializer "linked_ptr_serializer WindowsFrameInfo_serializer" "ptr_bytes wfi_bytes" wfi_ptr_ok
proof unfold_locales
  fix p assume ok: "wfi_ptr_ok p"
  show "ser_SizeOf (linked_ptr_serializer WindowsFrameInfo_serializer) p = length (ptr_bytes wfi_bytes p)"
    if "length (ptr_bytes wfi_bytes p) < 2 ^ 32"
    using ok that wfi_ser.SizeOf by (cases p) (simp_all add: linked_ptr_serializer_def ptr_bytes_def wfi_ptr_ok_def)
  show "writes (ser_Write (linked_ptr_serializer WindowsFrameInfo_serializer) p) (ptr_bytes wfi_bytes p)"
    using ok wfi_ser.Write writes_skip by (cases p) (simp_all add: linked_ptr_serializer_def ptr_bytes_def wfi_ptr_ok_def)
qed

definition function_bytes :: "FunctionSym \<Rightarrow> u8 list" where
  "function_bytes f = cstring_bytes (fn_name f) @ le_bytes (fn_address f) @ le_bytes (fn_size f) @
     le_bytes (word_of_int (fn_parameter_size f) :: u32) @ range_map_layout line_bytes (fn_lines f)"

interpretation function_ser: serializer Function_serializer function_bytes "\<lambda>f. NUL \<notin> set (fn_name f)"
proof unfold_locales
  fix f :: FunctionSym
  assume nul: "NUL \<notin> set (fn_name f)"
  show "ser_SizeOf Function_serializer f = length (function_bytes f)" if small: "length (function_bytes f) < 2 ^ 32"
  proof -
    have "ser_SizeOf (RangeMapSerializer Line_serializer) (fn_lines f) = length (range_map_layout line_bytes (fn_lines f))"
      using small by (intro line_ser.r.SizeOf) (simp_all add: function_bytes_def)
    then show ?thesis using small
      by (simp add: Function_serializer_def function_bytes_def word_serializer_def int32_serializer_def string_serializer_def)
  qed
  show "writes (ser_Write Function_serializer f) (function_bytes f)"
    unfolding Function_serializer_def function_bytes_def Serializer.simps
    by (intro writes_seq u64_ser.Write int32_ser.Write string_ser.Write line_ser.r.Write nul) simp_all
qed

definition function_ptr_ok :: "FunctionSym list \<Rightarrow> nat \<Rightarrow> bool" where
  "function_ptr_ok heap p \<longleftrightarrow> NUL \<notin> set (fn_name (heap ! p))"

interpretation function_ptr_ser:
  entry_serializer "function_ptr_serializer heap" "\<lambda>p. function_bytes (heap ! p)" "function_ptr_ok heap" for heap
  by unfold_locales (simp_all add: function_ptr_serializer_def function_ptr_ok_def function_ser.SizeOf function_ser.Write)

interpretation string_entry: entry_serializer string_serializer cstring_bytes "\<lambda>s. NUL \<notin> set s" ..

interpretation files_ser: map_serializer int32_serializer "\<lambda>n. le_bytes (word_of_int n :: u32)" "\<lambda>_. True"
    string_serializer cstring_bytes "\<lambda>s. NUL \<notin> set s" 4
  by unfold_locales simp_all

interpretation pubsym_ser: map_serializer "word_serializer :: u64 Serializer" le_bytes "\<lambda>_. True"
    PublicSymbol_serializer public_bytes "\<lambda>p. NUL \<notin> set (ps_name p)" 8
  by unfold_locales simp_all

interpretation deltas_ser: map_serializer "word_serializer :: u64 Serializer" le_bytes "\<lambda>_. True"
    string_serializer cstring_bytes "\<lambda>s. NUL \<notin> set s" 8
  by unfold_locales simp_all

section \<open>The layout of a module\<close>

definition files_layout :: "BasicModule \<Rightarrow> u8 list" where
  "files_layout m = map_layout 4 (\<lambda>n. le_bytes (word_of_int n :: u32)) cstring_bytes (bm_files m)"

definition functions_layout :: "BasicModule \<Rightarrow> u8 list" where
  "functions_layout m = range_map_layout (\<lambda>p. function_bytes (bm_heap m ! p)) (bm_functions m)"

definition pubsym_layout :: "BasicModule \<Rightarrow> u8 list" where
  "pubsym_layout m = map_layout 8 le_bytes public_bytes (bm_public_symbols m)"

definition wfi_layout :: "(u64, WindowsFrameInfo option) ContainedRangeMap \<Rightarrow> u8 list" where
  "wfi_layout = crm_layout (ptr_bytes wfi_bytes)"

definition cfi_init_layout :: "BasicModule \<Rightarrow> u8 list" where
  "cfi_init_layout m = range_map_layout cstring_bytes (bm_cfi_initial_rules m)"

definition cfi_delta_layout :: "BasicModule \<Rightarrow> u8 list" where
  "cfi_delta_layout m = map_layout 8 le_bytes cstring_bytes (bm_cfi_delta_rules m)"

definition module_parts :: "BasicModule \<Rightarrow> u8 list list" where
  "module_parts m = [files_layout m, functions_layout m, pubsym_layout m] @
     map wfi_layout (bm_windows_frame_info m) @ [cfi_init_layout m, cfi_delta_layout m]"

definition module_layout :: "BasicModule \<Rightarrow> u8 list" where
  "module_layout m = [if bm_is_corrupt m then 255 else 0] @
     concat (map (\<lambda>part. u32_bytes (length part)) (module_parts m)) @ concat (module_parts m) @ [0]"

text \<open>No string of the module holds a terminator.\<close>

definition wfi_tree_ok :: "(u64, WindowsFrameInfo option) ContainedRangeMap \<Rightarrow> bool" where
  "wfi_tree_ok = crm_all (entry_fits wfi_ptr_ok (ptr_bytes wfi_bytes))"

definition strings_ok :: "BasicModule \<Rightarrow> bool" where
  "strings_ok m \<longleftrightarrow>
     (\<forall>kv\<in>set (bm_files m). NUL \<notin> set (snd kv)) \<and>
     (\<forall>hr\<in>set (rmap (bm_functions m)). function_ptr_ok (bm_heap m) (r_entry (snd hr))) \<and>
     (\<forall>kv\<in>set (bm_public_symbols m). NUL \<notin> set (ps_name (snd kv))) \<and>
     (\<forall>t\<in>set (bm_windows_frame_info m). wfi_tree_ok t) \<and>
     (\<forall>hr\<in>set (rmap (bm_cfi_initial_rules m)). NUL \<notin> set (r_entry (snd hr))) \<and>
     (\<forall>kv\<in>set (bm_cfi_delta_rules m). NUL \<notin> set (snd kv))"

lemma part_small:
  assumes "part \<in> set (module_parts m)" "length (module_layout m) < 2 ^ 32"
  shows "length part < 2 ^ 32"
proof -
  have "length part \<le> length (concat (module_parts m))"
    using member_le_sum_list [of "length part" "map length (module_parts m)"] assms(1) by (simp add: length_concat)
  then show ?thesis using assms(2) by (simp add: module_layout_def)
qed

lemma module_map_sizes_layout:
  assumes "strings_ok m" "length (module_layout m) < 2 ^ 32"
  shows "module_map_sizes m = map (\<lambda>part. word_of_nat (length part)) (module_parts m)"
proof -
  note small = part_small [OF _ assms(2)]
  have "ser_SizeOf files_serializer (bm_files m) = length (files_layout m)"
    unfolding files_serializer_def files_layout_def
    by (rule files_ser.m.SizeOf) (use assms(1) small in \<open>simp_all add: strings_ok_def module_parts_def files_layout_def\<close>)
  moreover have "ser_SizeOf (functions_serializer (bm_heap m)) (bm_functions m) = length (functions_layout m)"
    unfolding functions_serializer_def functions_layout_def
    by (rule function_ptr_ser.r.SizeOf)
      (use assms(1) small in \<open>simp_all add: strings_ok_def module_parts_def functions_layout_def\<close>)
  moreover have "ser_SizeOf pubsym_serializer (bm_public_symbols m) = length (pubsym_layout m)"
    unfolding pubsym_serializer_def pubsym_layout_def
    by (rule pubsym_ser.m.SizeOf) (use assms(1) small in \<open>simp_all add: strings_ok_def module_parts_def pubsym_layout_def\<close>)
  moreover have "ser_SizeOf wfi_serializer t = length (wfi_layout t)" if "t \<in> set (bm_windows_frame_info m)" for t
    unfolding wfi_serializer_def wfi_layout_def
    by (rule wfi_ptr_ser.c.SizeOf)
      (use assms(1) small that in \<open>simp_all add: strings_ok_def wfi_tree_ok_def module_parts_def wfi_layout_def\<close>)
  moreover have "ser_SizeOf cfi_init_rules_serializer (bm_cfi_initial_rules m) = length (cfi_init_layout m)"
    unfolding cfi_init_rules_serializer_def cfi_init_layout_def
    by (rule string_entry.r.SizeOf) (use assms(1) small in \<open>simp_all add: strings_ok_def module_parts_def cfi_init_layout_def\<close>)
  moreover have "ser_SizeOf cfi_delta_rules_serializer (bm_cfi_delta_rules m) = length (cfi_delta_layout m)"
    unfolding cfi_delta_rules_serializer_def cfi_delta_layout_def
    by (rule deltas_ser.m.SizeOf) (use assms(1) small in \<open>simp_all add: strings_ok_def module_parts_def cfi_delta_layout_def\<close>)
  ultimately show ?thesis by (simp add: module_map_sizes_def module_parts_def comp_def)
qed

lemma write_all_layout:
  "(\<And>x. x \<in> set xs \<Longrightarrow> writes (ser_Write ser x) (f x)) \<Longrightarrow> writes (write_all ser xs) (concat (map f xs))"
proof (induction xs)
  case Nil
  then show ?case using writes_skip by (simp add: fun_eq_iff [symmetric])
next
  case (Cons x xs)
  have "writes (\<lambda>s. do { s' \<leftarrow> ser_Write ser x s; write_all ser xs s' }) (f x @ concat (map f xs))"
    by (intro writes_seq Cons) simp_all
  then show ?case by simp
qed

lemma ModuleSerializer_Write_layout:
  assumes "strings_ok m" "length (module_layout m) < 2 ^ 32"
  shows "writes (ModuleSerializer_Write (module_map_sizes m) m) (module_layout m)"
proof -
  have "module_layout m = [if bm_is_corrupt m then 255 else 0] @ concat (map le_bytes (module_map_sizes m)) @
      files_layout m @ functions_layout m @ pubsym_layout m @ concat (map wfi_layout (bm_windows_frame_info m)) @
      cfi_init_layout m @ cfi_delta_layout m @ [0]"
    unfolding module_map_sizes_layout [OF assms] by (simp add: module_layout_def module_parts_def u32_bytes_def comp_def)
  moreover have "writes (ser_Write files_serializer (bm_files m)) (files_layout m)"
    unfolding files_serializer_def files_layout_def by (rule files_ser.m.Write) (use assms in \<open>simp add: strings_ok_def\<close>)
  moreover have "writes (ser_Write (functions_serializer (bm_heap m)) (bm_functions m)) (functions_layout m)"
    unfolding functions_serializer_def functions_layout_def
    by (rule function_ptr_ser.r.Write) (use assms in \<open>simp add: strings_ok_def\<close>)
  moreover have "writes (ser_Write pubsym_serializer (bm_public_symbols m)) (pubsym_layout m)"
    unfolding pubsym_serializer_def pubsym_layout_def by (rule pubsym_ser.m.Write) (use assms in \<open>simp add: strings_ok_def\<close>)
  moreover have "writes (write_all wfi_serializer (bm_windows_frame_info m)) (concat (map wfi_layout (bm_windows_frame_info m)))"
    unfolding wfi_serializer_def wfi_layout_def
    by (intro write_all_layout wfi_ptr_ser.c.Write) (use assms in \<open>simp add: strings_ok_def wfi_tree_ok_def\<close>)
  moreover have "writes (ser_Write cfi_init_rules_serializer (bm_cfi_initial_rules m)) (cfi_init_layout m)"
    unfolding cfi_init_rules_serializer_def cfi_init_layout_def
    by (rule string_entry.r.Write) (use assms in \<open>simp add: strings_ok_def\<close>)
  moreover have "writes (ser_Write cfi_delta_rules_serializer (bm_cfi_delta_rules m)) (cfi_delta_layout m)"
    unfolding cfi_delta_rules_serializer_def cfi_delta_layout_def
    by (rule deltas_ser.m.Write) (use assms in \<open>simp add: strings_ok_def\<close>)
  ultimately show ?thesis
    unfolding ModuleSerializer_Write_def [abs_def]
    by (simp only:) (intro writes_seq writes_advance bool_ser.Write TrueI; assumption)
qed

lemma Serialize_module_layout:
  assumes "strings_ok m" "length (module_layout m) < 2 ^ 32" "length (bm_windows_frame_info m) = STACK_INFO_LAST"
  shows "ModuleSerializer_Serialize fresh m = Some (module_layout m, length (module_layout m))"
proof -
  have "sum_list (map unat (module_map_sizes m)) = length (concat (module_parts m))"
    unfolding module_map_sizes_layout [OF assms(1,2)] length_concat map_map comp_def
    by (intro arg_cong [of _ _ sum_list] map_cong refl unat_word_u32 part_small [OF _ assms(2)])
  moreover have "length (concat (map (\<lambda>part. u32_bytes (length part)) (module_parts m))) = kNumberMaps * 4"
    using assms(3) by (subst length_concat_const [of _ _ 4]) (simp_all add: module_parts_def kNumberMaps_def)
  ultimately have n: "fst (ModuleSerializer_SizeOf m) = length (module_layout m)"
    by (simp add: ModuleSerializer_SizeOf_def Let_def module_layout_def bool_serializer_def)
  then show ?thesis
    using writesD [OF ModuleSerializer_Write_layout [OF assms(1,2)],
        of "map fresh [0..<length (module_layout m)]" 0 "[]" "[]"] assms(2)
    by (simp add: ModuleSerializer_Serialize_def ModuleSerializer_SizeOf_def Let_def)
qed

end
