(* ===== verification/Fast_Resolver.thy ===== *)
theory Fast_Resolver
  imports Static_Range_Maps Module_Serializer
begin

text \<open>
  \<open>FastSourceLineResolver\<close> (\<open>processor/fast_source_line_resolver.cc\<close>,
  \<open>fast_source_line_resolver_types.h\<close>): a symbol module that is not parsed but looked up in place in
  the block \<open>ModuleSerializer\<close> wrote. The last section shows that it answers every query as the
  module it was made from. \<open>None\<close> is a read outside the block or through a null pointer.
\<close>

section \<open>Reading records\<close>

definition rd64 :: "buffer \<Rightarrow> int \<Rightarrow> u64 option" where
  "rd64 buf p = map_option le_value (rd buf p 8)"

definition rd_int32 :: "buffer \<Rightarrow> int \<Rightarrow> int option" where
  "rd_int32 buf p = map_option sint (rd32 buf p)"

text \<open>A C string: the bytes up to the terminator, which has to be in the block.\<close>

definition rd_cstr :: "buffer \<Rightarrow> int \<Rightarrow> string option" where
  "rd_cstr buf p =
     (let s = drop (nat p) buf
      in if 0 \<le> p \<and> 0 \<in> set s then Some (map char_of_byte (takeWhile (\<lambda>b. b \<noteq> 0) s)) else None)"

definition fast_Line_CopyFrom :: "buffer \<Rightarrow> int \<Rightarrow> Line option" where
  "fast_Line_CopyFrom buf raw =
     do { address \<leftarrow> rd64 buf raw;
          sz \<leftarrow> rd64 buf (raw + 8);
          source_file_id \<leftarrow> rd_int32 buf (raw + 16);
          line \<leftarrow> rd_int32 buf (raw + 20);
          Some \<lparr>ln_address = address, ln_size = sz, ln_source_file_id = source_file_id, ln_line = line\<rparr> }"

record FastFunction =
  ff_name :: string
  ff_address :: u64
  ff_size :: u64
  ff_parameter_size :: int
  ff_lines :: StaticMap

definition fast_Function_CopyFrom :: "buffer \<Rightarrow> int \<Rightarrow> FastFunction option" where
  "fast_Function_CopyFrom buf raw =
     do { name \<leftarrow> rd_cstr buf raw;
          let p = raw + int (length name + 1);
          address \<leftarrow> rd64 buf p;
          sz \<leftarrow> rd64 buf (p + 8);
          parameter_size \<leftarrow> rd_int32 buf (p + 16);
          lines \<leftarrow> StaticMap_new buf (p + 20);
          Some \<lparr>ff_name = name, ff_address = address, ff_size = sz, ff_parameter_size = parameter_size,
                ff_lines = lines\<rparr> }"

definition fast_PublicSymbol_CopyFrom :: "buffer \<Rightarrow> int \<Rightarrow> PublicSymbol option" where
  "fast_PublicSymbol_CopyFrom buf raw =
     do { name \<leftarrow> rd_cstr buf raw;
          let p = raw + int (length name + 1);
          address \<leftarrow> rd64 buf p;
          parameter_size \<leftarrow> rd_int32 buf (p + 8);
          Some \<lparr>ps_name = name, ps_address = address, ps_parameter_size = parameter_size\<rparr> }"

text \<open>The cast of an integer to the enumeration; the values a \<open>WindowsFrameInfo\<close> can have are those of
  its enumerators.\<close>

definition stack_info_of_value :: "int \<Rightarrow> StackInfoTypes" where
  "stack_info_of_value n =
     (if n = 0 then STACK_INFO_FPO else if n = 1 then STACK_INFO_TRAP else if n = 2 then STACK_INFO_TSS
      else if n = 3 then STACK_INFO_STANDARD else if n = 4 then STACK_INFO_FRAME_DATA else STACK_INFO_UNKNOWN)"

definition CopyWFI :: "buffer \<Rightarrow> int \<Rightarrow> WindowsFrameInfo option" where
  "CopyWFI buf raw =
     do { type \<leftarrow> rd_int32 buf raw;
          prolog \<leftarrow> rd32 buf (raw + 8);
          epilog \<leftarrow> rd32 buf (raw + 12);
          parameter \<leftarrow> rd32 buf (raw + 16);
          saved_register \<leftarrow> rd32 buf (raw + 20);
          local \<leftarrow> rd32 buf (raw + 24);
          max_stack \<leftarrow> rd32 buf (raw + 28);
          (allocates, p) \<leftarrow> bool_read buf (raw + 32);
          program \<leftarrow> rd_cstr buf p;
          Some (WindowsFrameInfo_make (stack_info_of_value type) prolog epilog parameter saved_register local
                  max_stack (if allocates then 1 else 0) program) }"

section \<open>Modules\<close>

record FastModule =
  fm_name :: string
  fm_memory :: buffer
  fm_files :: StaticMap
  fm_functions :: StaticMap
  fm_public_symbols :: StaticMap
  fm_is_corrupt :: bool
  fm_windows_frame_info :: "StaticContainedRangeMap list"
  fm_cfi_initial_rules :: StaticMap
  fm_cfi_delta_rules :: StaticMap

definition FastModule_init :: "string \<Rightarrow> FastModule" where
  "FastModule_init name =
     \<lparr>fm_name = name, fm_memory = [], fm_files = StaticMap_init, fm_functions = StaticMap_init,
      fm_public_symbols = StaticMap_init, fm_is_corrupt = False,
      fm_windows_frame_info = replicate STACK_INFO_LAST
        \<lparr>sc_base = 0, sc_entry_size = 0, sc_entry_ptr = None, sc_map = StaticMap_init\<rparr>,
      fm_cfi_initial_rules = StaticMap_init, fm_cfi_delta_rules = StaticMap_init\<rparr>"

text \<open>The array \<open>offsets\<close>, from the sizes in the header: \<open>unsigned int\<close>, so the sums wrap.\<close>

fun map_offsets :: "u32 \<Rightarrow> u32 list \<Rightarrow> u32 list" where
  "map_offsets first [] = [first]"
| "map_offsets first (n # ns) = first # map_offsets (first + n) ns"

definition FastModule_LoadMapFromMemory :: "buffer \<Rightarrow> FastModule \<Rightarrow> (bool \<times> FastModule) option" where
  "FastModule_LoadMapFromMemory buf m =
     do { (is_corrupt, mem_buffer) \<leftarrow> bool_read buf 0;
          sizes \<leftarrow> those (map (\<lambda>i. rd32 buf (mem_buffer + 4 * int i)) [0..<kNumberMaps - 1]);
          let offsets = map_offsets (word_of_nat (kNumberMaps * 4)) sizes;
          let component = (\<lambda>map_id. mem_buffer + int (unat (offsets ! map_id)));
          files \<leftarrow> StaticMap_new buf (component 0);
          functions \<leftarrow> StaticMap_new buf (component 1);
          public_symbols \<leftarrow> StaticMap_new buf (component 2);
          infos \<leftarrow> those (map (\<lambda>i. StaticContainedRangeMap_new buf (component (3 + i))) [0..<STACK_INFO_LAST]);
          cfi_initial_rules \<leftarrow> StaticMap_new buf (component (3 + STACK_INFO_LAST));
          cfi_delta_rules \<leftarrow> StaticMap_new buf (component (4 + STACK_INFO_LAST));
          Some (True, m\<lparr>fm_memory := buf, fm_files := files, fm_functions := functions,
            fm_public_symbols := public_symbols, fm_is_corrupt := is_corrupt, fm_windows_frame_info := infos,
            fm_cfi_initial_rules := cfi_initial_rules, fm_cfi_delta_rules := cfi_delta_rules\<rparr>) }"

section \<open>Lookups\<close>

definition function_covers :: "(int \<times> u64 \<times> u64) option \<Rightarrow> u64 \<Rightarrow> (int \<times> u64) option" where
  "function_covers nearest address =
     (case nearest of
        Some (func_ptr, func_base, function_size) \<Rightarrow>
          if func_base \<le> address \<and> address - func_base < function_size
          then Some (func_ptr, func_base) else None
      | None \<Rightarrow> None)"

text \<open>The public symbol, unless the function below the address hides it.\<close>

definition visible_public ::
  "FastModule \<Rightarrow> (int \<times> u64 \<times> u64) option \<Rightarrow> u64 \<Rightarrow> (PublicSymbol \<times> u64) option option" where
  "visible_public m nearest address =
     do { found \<leftarrow> StaticAddressMap_Retrieve (fm_memory m) (fm_public_symbols m) address;
          (case found of
             None \<Rightarrow> Some None
           | Some (public_symbol_ptr, public_address) \<Rightarrow>
               if (case nearest of None \<Rightarrow> True | Some (_, func_base, _) \<Rightarrow> func_base < public_address)
               then do { p \<leftarrow> public_symbol_ptr;
                         public_symbol \<leftarrow> fast_PublicSymbol_CopyFrom (fm_memory m) p;
                         Some (Some (public_symbol, public_address)) }
               else Some None) }"

definition fast_file_name :: "FastModule \<Rightarrow> int \<Rightarrow> StackFrame \<Rightarrow> StackFrame option" where
  "fast_file_name m source_file_id frame =
     do { it \<leftarrow> StaticMap_find int_key (fm_memory m) (fm_files m) source_file_id;
          finish \<leftarrow> StaticMap_end (fm_memory m) (fm_files m);
          if Iterator_eq it finish then Some frame
          else
            do { value_ptr \<leftarrow> Iterator_GetValueRawPtr (fm_memory m) it;
                 p \<leftarrow> value_ptr;
                 name \<leftarrow> rd_cstr (fm_memory m) p;
                 Some (frame\<lparr>source_file_name := name\<rparr>) } }"

definition fast_line :: "FastModule \<Rightarrow> FastFunction \<Rightarrow> u64 \<Rightarrow> u64 \<Rightarrow> StackFrame \<Rightarrow> StackFrame option" where
  "fast_line m func base address frame =
     do { found \<leftarrow> StaticRangeMap_RetrieveRange (fm_memory m) (ff_lines func) address;
          (case found of
             None \<Rightarrow> Some frame
           | Some (line_ptr, line_base, _) \<Rightarrow>
               do { line \<leftarrow> fast_Line_CopyFrom (fm_memory m) line_ptr;
                    frame \<leftarrow> fast_file_name m (ln_source_file_id line) frame;
                    Some (frame\<lparr>source_line := of_int (ln_line line), source_line_base := base + line_base\<rparr>) }) }"

definition Fast_LookupAddress :: "FastModule \<Rightarrow> u64 \<Rightarrow> StackFrame \<Rightarrow> StackFrame option" where
  "Fast_LookupAddress m base frame =
     do { let address = instruction frame - base;
          nearest \<leftarrow> StaticRangeMap_RetrieveNearestRange (fm_memory m) (fm_functions m) address;
          (case function_covers nearest address of
             Some (func_ptr, func_base) \<Rightarrow>
               do { func \<leftarrow> fast_Function_CopyFrom (fm_memory m) func_ptr;
                    fast_line m func base address
                      (frame\<lparr>function_name := ff_name func, function_base := base + func_base\<rparr>) }
           | None \<Rightarrow>
               do { public \<leftarrow> visible_public m nearest address;
                    Some (case public of
                            None \<Rightarrow> frame
                          | Some (symbol, public_address) \<Rightarrow>
                              frame\<lparr>function_name := ps_name symbol, function_base := base + public_address\<rparr>) }) }"

definition fast_stack_info :: "FastModule \<Rightarrow> StackInfoTypes \<Rightarrow> u64 \<Rightarrow> int option option option" where
  "fast_stack_info m type address =
     StaticContainedRangeMap_RetrieveRange (fm_memory m) (fm_windows_frame_info m ! stack_info_index type) address"

text \<open>The parameter size of a public symbol is read, but the result is not returned.\<close>

definition Fast_FindWindowsFrameInfo :: "FastModule \<Rightarrow> u64 \<Rightarrow> StackFrame \<Rightarrow> WindowsFrameInfo option option" where
  "Fast_FindWindowsFrameInfo m base frame =
     do { let address = instruction frame - base;
          frame_data \<leftarrow> fast_stack_info m STACK_INFO_FRAME_DATA address;
          found \<leftarrow> (case frame_data of Some p \<Rightarrow> Some (Some p) | None \<Rightarrow> fast_stack_info m STACK_INFO_FPO address);
          (case found of
             Some frame_info_ptr \<Rightarrow>
               do { p \<leftarrow> frame_info_ptr;
                    info \<leftarrow> CopyWFI (fm_memory m) p;
                    Some (Some (WindowsFrameInfo_CopyFrom WindowsFrameInfo_init info)) }
           | None \<Rightarrow>
               do { nearest \<leftarrow> StaticRangeMap_RetrieveNearestRange (fm_memory m) (fm_functions m) address;
                    (case function_covers nearest address of
                       Some (function_ptr, _) \<Rightarrow>
                         do { func \<leftarrow> fast_Function_CopyFrom (fm_memory m) function_ptr;
                              Some (Some (WindowsFrameInfo_init
                                \<lparr>parameter_size := of_int (ff_parameter_size func),
                                 valid := valid WindowsFrameInfo_init OR VALID_PARAMETER_SIZE\<rparr>)) }
                     | None \<Rightarrow> do { _ \<leftarrow> visible_public m nearest address; Some None }) }) }"

text \<open>The loop over the delta rules; it ends because every pass moves the iterator towards \<open>finish\<close>, which
  is shown below.\<close>

partial_function (option) fast_deltas ::
  "buffer \<Rightarrow> StaticMapIterator \<Rightarrow> u64 \<Rightarrow> StaticMapIterator \<Rightarrow> CFIFrameInfo \<Rightarrow> CFIFrameInfo option" where
  "fast_deltas buf finish address delta rules =
     (if Iterator_eq delta finish then Some rules
      else
        do { key \<leftarrow> Iterator_GetKey MemAddr_key buf delta;
             if key \<le> address then
               do { value_ptr \<leftarrow> Iterator_GetValueRawPtr buf delta;
                    p \<leftarrow> value_ptr;
                    rule_set \<leftarrow> rd_cstr buf p;
                    fast_deltas buf finish address (snd (Iterator_postinc delta))
                      (snd (ParseCFIRuleSet rule_set rules)) }
             else Some rules })"

definition Fast_FindCFIFrameInfo :: "FastModule \<Rightarrow> u64 \<Rightarrow> StackFrame \<Rightarrow> CFIFrameInfo option option" where
  "Fast_FindCFIFrameInfo m base frame =
     do { let address = instruction frame - base;
          found \<leftarrow> StaticRangeMap_RetrieveRange (fm_memory m) (fm_cfi_initial_rules m) address;
          (case found of
             None \<Rightarrow> Some None
           | Some (initial_rules_ptr, initial_base, _) \<Rightarrow>
               do { initial_rules \<leftarrow> rd_cstr (fm_memory m) initial_rules_ptr;
                    (case ParseCFIRuleSet initial_rules CFIFrameInfo_init of
                       (False, _) \<Rightarrow> Some None
                     | (True, rules) \<Rightarrow>
                         do { delta \<leftarrow> StaticMap_lower_bound MemAddr_key (fm_memory m) (fm_cfi_delta_rules m) initial_base;
                              finish \<leftarrow> StaticMap_end (fm_memory m) (fm_cfi_delta_rules m);
                              map_option Some (fast_deltas (fm_memory m) finish address delta rules) }) }) }"

section \<open>Records read back\<close>

lemma rd_cstr_holds:
  assumes "holds buf p (cstring_bytes s)" "NUL \<notin> set s"
  shows "rd_cstr buf p = Some s"
proof -
  obtain pre post where b: "buf = pre @ map byte_of_char s @ 0 # post" "p = int (length pre)"
    using assms(1) by (auto simp: holds_iff cstring_bytes_def)
  have nz: "\<And>c. c \<in> set s \<Longrightarrow> byte_of_char c \<noteq> 0" using assms(2) by (auto simp: byte_of_char_0)
  then have "takeWhile (\<lambda>b. b \<noteq> 0) (map byte_of_char s @ 0 # post) = map byte_of_char s"
    by (simp add: takeWhile_append)
  then show ?thesis using b by (simp add: rd_cstr_def comp_def)
qed

lemma rd64_holds: "holds buf p (le_bytes w) \<Longrightarrow> rd64 buf p = Some w"
  by (simp add: rd64_def holds_def)

lemma rd32_word_holds: "holds buf p (le_bytes (w :: u32)) \<Longrightarrow> rd32 buf p = Some w"
  by (simp add: rd32_def holds_def)

lemma rd_int32_holds: "holds buf p (le_bytes (word_of_int n :: u32)) \<Longrightarrow> in_int32 n \<Longrightarrow> rd_int32 buf p = Some n"
  by (simp add: rd_int32_def rd32_word_holds sint_of_int_32)

lemma bool_read_holds: "holds buf p [if b then 255 else 0] \<Longrightarrow> bool_read buf p = Some (b, p + 1)"
  by (simp add: bool_read_def holds_def)

lemmas read_back = rd_cstr_holds rd64_holds rd32_word_holds

definition line_storable :: "Line \<Rightarrow> bool" where
  "line_storable l \<longleftrightarrow> in_int32 (ln_source_file_id l) \<and> in_int32 (ln_line l)"

definition public_storable :: "PublicSymbol \<Rightarrow> bool" where
  "public_storable p \<longleftrightarrow> NUL \<notin> set (ps_name p) \<and> in_int32 (ps_parameter_size p)"

definition function_storable :: "FunctionSym \<Rightarrow> bool" where
  "function_storable f \<longleftrightarrow> NUL \<notin> set (fn_name f) \<and> in_int32 (fn_parameter_size f) \<and>
     (\<forall>hr\<in>set (rmap (fn_lines f)). line_storable (r_entry (snd hr)))"

definition wfi_storable :: "WindowsFrameInfo option \<Rightarrow> bool" where
  "wfi_storable p \<longleftrightarrow> (case p of None \<Rightarrow> False | Some w \<Rightarrow> valid w = VALID_ALL \<and> NUL \<notin> set (program_string w))"

lemma fast_Line_CopyFrom_holds:
  "holds buf q (line_bytes l) \<Longrightarrow> line_storable l \<Longrightarrow> fast_Line_CopyFrom buf q = Some l"
  by (auto simp: fast_Line_CopyFrom_def line_bytes_def line_storable_def holds_append rd_int32_def
      sint_of_int_32 add_ac dest!: read_back)

lemma fast_PublicSymbol_CopyFrom_holds:
  "holds buf q (public_bytes p) \<Longrightarrow> public_storable p \<Longrightarrow> fast_PublicSymbol_CopyFrom buf q = Some p"
  by (auto simp: fast_PublicSymbol_CopyFrom_def public_bytes_def public_storable_def holds_append rd_int32_def
      sint_of_int_32 add_ac dest!: read_back)

lemma CopyWFI_holds:
  assumes "holds buf q (wfi_bytes w)" "wfi_storable (Some w)"
  shows "CopyWFI buf q = Some w"
proof -
  have "in_int32 (stack_info_value t)" "stack_info_of_value (stack_info_value t) = t" for t
    by (cases t; simp add: in_int32_def stack_info_of_value_def)+
  moreover have "holds buf q (le_bytes (word_of_int (stack_info_value (wfi_type w)) :: u32))"
    "holds buf (q + 8) (le_bytes (prolog_size w))" "holds buf (q + 12) (le_bytes (epilog_size w))"
    "holds buf (q + 16) (le_bytes (parameter_size w))" "holds buf (q + 20) (le_bytes (saved_register_size w))"
    "holds buf (q + 24) (le_bytes (local_size w))" "holds buf (q + 28) (le_bytes (max_stack_size w))"
    "holds buf (q + 32) [if allocates_base_pointer w then 255 else 0]" "holds buf (q + 32 + 1) (cstring_bytes (program_string w))"
    using assms(1) unfolding wfi_bytes_def holds_append by (simp_all add: add_ac)
  ultimately show ?thesis
    using assms(2) bool_read_holds [of buf "q + 32" "allocates_base_pointer w"]
    by (simp add: CopyWFI_def wfi_storable_def WindowsFrameInfo_make_def rd_cstr_holds rd_int32_holds rd32_word_holds)
qed

lemma fast_Function_CopyFrom_holds:
  assumes "holds buf q (function_bytes f)" "function_storable f" "length (function_bytes f) < 2 ^ 32"
    "RangeMap_ok (fn_lines f)"
  shows "\<exists>ff. fast_Function_CopyFrom buf q = Some ff \<and> ff_name ff = fn_name f \<and>
    ff_parameter_size ff = fn_parameter_size f \<and> range_map_at buf line_bytes (ff_lines ff) (fn_lines f)"
proof -
  let ?p = "q + int (length (fn_name f) + 1)"
  have h: "holds buf q (cstring_bytes (fn_name f))" "holds buf ?p (le_bytes (fn_address f))"
    "holds buf (?p + 8) (le_bytes (fn_size f))" "holds buf (?p + 16) (le_bytes (word_of_int (fn_parameter_size f) :: u32))"
    "holds buf (?p + 20) (range_map_layout line_bytes (fn_lines f))"
    using assms(1) by (simp_all add: function_bytes_def holds_append add_ac)
  have s: "serialized_at buf (?p + 20) 8 le_bytes (range_bytes line_bytes) (rmap (fn_lines f))"
    using h(5) assms(3,4)
    by (simp add: serialized_at_def range_map_layout_def function_bytes_def range_bytes_def ranges_ok_map_ok
        RangeMap_ok_def le_bytes_def)
  obtain lines where l: "StaticMap_new buf (?p + 20) = Some lines"
    using addr.layout_new [unfolded MemAddr_sizeof, OF s] by blast
  have "NUL \<notin> set (fn_name f)" "in_int32 (fn_parameter_size f)" using assms(2) by (simp_all add: function_storable_def)
  then show ?thesis
    using rd_cstr_holds [OF h(1)] rd64_holds [OF h(2)] rd64_holds [OF h(3)] rd_int32_holds [OF h(4)] l s
    by (auto simp: fast_Function_CopyFrom_def Let_def range_map_at_def)
qed

section \<open>Loading what was serialized\<close>

text \<open>Every component of the fast module stands on the bytes of its counterpart.\<close>

definition fast_matches :: "FastModule \<Rightarrow> BasicModule \<Rightarrow> bool" where
  "fast_matches fm m \<longleftrightarrow>
     fm_is_corrupt fm = bm_is_corrupt m \<and>
     (\<exists>p. StaticMap_new (fm_memory fm) p = Some (fm_files fm) \<and>
        serialized_at (fm_memory fm) p 4 (\<lambda>n. le_bytes (word_of_int n :: u32)) cstring_bytes (bm_files m)) \<and>
     range_map_at (fm_memory fm) (\<lambda>p. function_bytes (bm_heap m ! p)) (fm_functions fm) (bm_functions m) \<and>
     address_map_at (fm_memory fm) public_bytes (fm_public_symbols fm) (bm_public_symbols m) \<and>
     list_all2 (crm_at (fm_memory fm) (ptr_bytes wfi_bytes)) (fm_windows_frame_info fm) (bm_windows_frame_info m) \<and>
     range_map_at (fm_memory fm) cstring_bytes (fm_cfi_initial_rules fm) (bm_cfi_initial_rules m) \<and>
     address_map_at (fm_memory fm) cstring_bytes (fm_cfi_delta_rules fm) (bm_cfi_delta_rules m)"

lemma those_map: "(\<And>x. x \<in> set xs \<Longrightarrow> f x = Some (g x)) \<Longrightarrow> those (map f xs) = Some (map g xs)"
  by (induction xs) auto

lemma those_map_ex: "(\<And>x. x \<in> set xs \<Longrightarrow> \<exists>y. f x = Some y \<and> R x y) \<Longrightarrow>
    \<exists>ys. those (map f xs) = Some ys \<and> list_all2 R xs ys"
  by (induction xs) fastforce+

lemma map_offsets_nth:
  "i \<le> length ns \<Longrightarrow> map_offsets (word_of_nat c) (map word_of_nat ns) ! i = word_of_nat (c + sum_list (take i ns))"
proof (induction ns arbitrary: c i)
  case (Cons n ns)
  show ?case
  proof (cases i)
    case (Suc j)
    then show ?thesis using Cons.IH [of j "c + n"] Cons.prems by (simp add: add.assoc)
  qed simp
qed simp

lemma module_components:
  assumes "holds buf 0 (module_layout m)" "length (module_layout m) < 2 ^ 32"
    and "length (bm_windows_frame_info m) = STACK_INFO_LAST"
  shows "bool_read buf 0 = Some (bm_is_corrupt m, 1)"
    "those (map (\<lambda>i. rd32 buf (1 + 4 * int i)) [0..<kNumberMaps - 1]) =
       Some (map (\<lambda>part. word_of_nat (length part)) (take (kNumberMaps - 1) (module_parts m)))"
    "i < kNumberMaps \<Longrightarrow>
       holds buf (1 + int (unat (map_offsets (word_of_nat (kNumberMaps * 4))
         (map (\<lambda>part. word_of_nat (length part)) (take (kNumberMaps - 1) (module_parts m))) ! i))) (module_parts m ! i)"
proof -
  let ?ps = "module_parts m"
  have n: "length ?ps = kNumberMaps" using assms(3) by (simp add: module_parts_def kNumberMaps_def)
  have hl: "length (concat (map (\<lambda>part. u32_bytes (length part)) ?ps)) = kNumberMaps * 4"
    by (subst length_concat_const [of _ _ 4]) (simp_all add: n)
  have h: "holds buf 0 [if bm_is_corrupt m then 255 else 0]"
    "holds buf 1 (concat (map (\<lambda>part. u32_bytes (length part)) ?ps))"
    "holds buf (1 + int (kNumberMaps * 4)) (concat (map (\<lambda>part. part) ?ps))"
    using assms(1) unfolding module_layout_def holds_append hl by simp_all
  show "bool_read buf 0 = Some (bm_is_corrupt m, 1)" using bool_read_holds [OF h(1)] by simp
  have "rd32 buf (1 + 4 * int i) = Some (word_of_nat (length (?ps ! i)))" if "i < kNumberMaps" for i
    using holds_array_nth [OF h(2), of i 4] that n by (intro rd32_holds) simp
  then have "those (map (\<lambda>i. rd32 buf (1 + 4 * int i)) [0..<kNumberMaps - 1]) =
      Some (map (\<lambda>i. word_of_nat (length (?ps ! i))) [0..<kNumberMaps - 1])"
    by (intro those_map) simp
  also have "map (\<lambda>i. word_of_nat (length (?ps ! i)) :: u32) [0..<kNumberMaps - 1] =
      map (\<lambda>part. word_of_nat (length part)) (take (kNumberMaps - 1) ?ps)"
    by (rule nth_equalityI) (simp_all add: n)
  finally show "those (map (\<lambda>i. rd32 buf (1 + 4 * int i)) [0..<kNumberMaps - 1]) =
      Some (map (\<lambda>part. word_of_nat (length part)) (take (kNumberMaps - 1) ?ps))" .
  show "holds buf (1 + int (unat (map_offsets (word_of_nat (kNumberMaps * 4))
      (map (\<lambda>part. word_of_nat (length part)) (take (kNumberMaps - 1) ?ps)) ! i))) (?ps ! i)" if i: "i < kNumberMaps"
  proof -
    let ?off = "kNumberMaps * 4 + sum_list (map length (take i ?ps))"
    have "i \<le> kNumberMaps - 1" using i by linarith
    then have "take i (map length (take (kNumberMaps - 1) ?ps)) = map length (take i ?ps)" by (simp add: take_map)
    then have o: "map_offsets (word_of_nat (kNumberMaps * 4))
        (map (\<lambda>part. word_of_nat (length part)) (take (kNumberMaps - 1) ?ps)) ! i = (word_of_nat ?off :: u32)"
      using map_offsets_nth [of i "map length (take (kNumberMaps - 1) ?ps)" "kNumberMaps * 4"] i n by (simp add: comp_def)
    have "sum_list (map length ?ps) = sum_list (map length (take i ?ps)) + sum_list (map length (drop i ?ps))"
      by (metis append_take_drop_id map_append sum_list_append)
    then have "?off \<le> length (module_layout m)"
      unfolding module_layout_def length_append hl length_concat [of ?ps] by simp
    then have "unat (word_of_nat ?off :: u32) = ?off" using assms(2) by (intro unat_word_u32) simp
    moreover have "holds buf (1 + int (kNumberMaps * 4) + int (sum_list (map length (take i ?ps)))) (?ps ! i)"
      using holds_concat_nth [OF h(3), of i] i n by (simp add: length_concat)
    ultimately show ?thesis unfolding o by (simp only: of_nat_add add.assoc)
  qed
qed

text \<open>The invariant under which the bytes determine the module: numbers fit their fields, strings end
  where they should, every stored \<open>STACK WIN\<close> record is complete.\<close>

definition bm_storable :: "BasicModule \<Rightarrow> bool" where
  "bm_storable m \<longleftrightarrow>
     (\<forall>kv\<in>set (bm_files m). in_int32 (fst kv) \<and> NUL \<notin> set (snd kv)) \<and>
     (\<forall>f\<in>set (bm_heap m). function_storable f) \<and>
     (\<forall>kv\<in>set (bm_public_symbols m). public_storable (snd kv)) \<and>
     (\<forall>t\<in>set (bm_windows_frame_info m). crm_entry t = None \<and> (\<forall>l h e. crm_seg t l h e \<longrightarrow> wfi_storable e)) \<and>
     (\<forall>hr\<in>set (rmap (bm_cfi_initial_rules m)). NUL \<notin> set (r_entry (snd hr))) \<and>
     (\<forall>kv\<in>set (bm_cfi_delta_rules m). NUL \<notin> set (snd kv))"

lemma crm_all_seg:
  assumes "P (crm_entry t)" "\<And>l h e. crm_seg t l h e \<Longrightarrow> P e"
  shows "crm_all P t"
  using assms
proof (induction "size t" arbitrary: t rule: less_induct)
  case less
  have "crm_all P (snd kv)" if kv: "kv \<in> set (crm_kids t)" for kv
    by (rule less.hyps [OF size_kid_mem [OF kv]])
      (use less.prems(2) crm_seg.here [OF kv] crm_seg.below [OF kv] in blast)+
  then show ?case using less.prems(1) by (simp add: crm_all.simps [of P t])
qed

lemma crm_seg_bytes: "crm_seg t l h e \<Longrightarrow> length (eb e) \<le> length (crm_layout eb t)"
proof (induction rule: crm_seg.induct)
  case (here x m)
  have "length (eb (crm_entry (snd x))) \<le> length (crm_layout eb (snd x))" by (simp add: crm_layout.simps [of eb "snd x"])
  then show ?case using length_value_le_layout [OF here, of "crm_layout eb" 8 le_bytes] by (simp add: crm_layout.simps [of eb m])
next
  case (below x m lo hi e)
  then show ?case using length_value_le_layout [OF below(1), of "crm_layout eb" 8 le_bytes] by (simp add: crm_layout.simps [of eb m])
qed

lemma storable_strings_ok:
  assumes "bm_ok m" "bm_storable m" "length (module_layout m) < 2 ^ 32"
  shows "strings_ok m"
proof -
  have tree: "wfi_tree_ok t" if t: "t \<in> set (bm_windows_frame_info m)" for t
    unfolding wfi_tree_ok_def
  proof (rule crm_all_seg)
    have l: "length (wfi_layout t) < 2 ^ 32" using t by (intro part_small [OF _ assms(3)]) (simp add: module_parts_def)
    show "entry_fits wfi_ptr_ok (ptr_bytes wfi_bytes) (crm_entry t)"
      using t assms(2) by (simp add: bm_storable_def entry_fits_def wfi_ptr_ok_def ptr_bytes_def)
    show "entry_fits wfi_ptr_ok (ptr_bytes wfi_bytes) e" if "crm_seg t lo hi e" for lo hi e
    proof -
      have "wfi_storable e" using that t assms(2) by (auto simp: bm_storable_def)
      then have "wfi_ptr_ok e" by (cases e) (simp_all add: wfi_storable_def wfi_ptr_ok_def)
      then show ?thesis
        using l crm_seg_bytes [OF that, of "ptr_bytes wfi_bytes"] by (simp add: entry_fits_def wfi_layout_def)
    qed
  qed
  have "function_ptr_ok (bm_heap m) (r_entry (snd hr))" if "hr \<in> set (rmap (bm_functions m))" for hr
    using that assms(1,2) by (auto simp: bm_ok_def ranges_hold_def func_at_def bm_storable_def function_storable_def function_ptr_ok_def)
  then show ?thesis using assms(2) tree by (auto simp: strings_ok_def bm_storable_def public_storable_def)
qed

lemma le_bytes_nonempty [simp]: "le_bytes (w :: u64) \<noteq> []" "le_bytes (v :: u32) \<noteq> []" "cstring_bytes s \<noteq> []"
  by (simp_all add: le_bytes_def cstring_bytes_def)

lemma int_sizeof [simp]: "key_sizeof int_key = 4"
  by (simp add: int_key_def)

lemma Fast_Load_matches:
  assumes "bm_ok m" "bm_storable m" "holds buf 0 (module_layout m)" "length (module_layout m) < 2 ^ 32"
  shows "\<exists>fm. FastModule_LoadMapFromMemory buf (FastModule_init name) = Some (True, fm) \<and> fast_matches fm m"
proof -
  have w: "length (bm_windows_frame_info m) = STACK_INFO_LAST" using assms(1) by (simp add: bm_ok_def)
  note C = module_components [OF assms(3,4) w]
  let ?off = "map_offsets (word_of_nat (kNumberMaps * 4))
    (map (\<lambda>part. word_of_nat (length part)) (take (kNumberMaps - 1) (module_parts m)))"
  define at where "at i = 1 + int (unat (?off ! i))" for i
  have part: "holds buf (at i) (module_parts m ! i)" "length (module_parts m ! i) < 2 ^ 32" if "i < kNumberMaps" for i
    using C(3) [OF that] part_small [OF nth_mem assms(4), of i] that w
    by (simp_all add: at_def module_parts_def kNumberMaps_def)
  have nth: "module_parts m ! 0 = files_layout m" "module_parts m ! 1 = functions_layout m"
    "module_parts m ! 2 = pubsym_layout m" "module_parts m ! (3 + STACK_INFO_LAST) = cfi_init_layout m"
    "module_parts m ! (4 + STACK_INFO_LAST) = cfi_delta_layout m"
    "\<And>i. i < STACK_INFO_LAST \<Longrightarrow> module_parts m ! (3 + i) = wfi_layout (bm_windows_frame_info m ! i)"
    using w by (simp_all add: module_parts_def nth_append)
  have k: "0 < kNumberMaps" "1 < kNumberMaps" "2 < kNumberMaps" "3 + STACK_INFO_LAST < kNumberMaps"
    "4 + STACK_INFO_LAST < kNumberMaps" "\<And>i. i < STACK_INFO_LAST \<Longrightarrow> 3 + i < kNumberMaps"
    by (simp_all add: kNumberMaps_def)
  have ok: "map_ok (bm_files m)" "map_ok (rmap (bm_functions m))" "map_ok (bm_public_symbols m)"
    "map_ok (rmap (bm_cfi_initial_rules m))" "map_ok (bm_cfi_delta_rules m)"
    "\<And>t. t \<in> set (bm_windows_frame_info m) \<Longrightarrow> crm_ok 0 (- 1) t"
    using assms(1) by (auto simp: bm_ok_def ranges_hold_def RangeMap_ok_def ranges_ok_map_ok crm_reachable_ok)
  have s0: "serialized_at buf (at 0) 4 (\<lambda>n. le_bytes (word_of_int n :: u32)) cstring_bytes (bm_files m)"
    using part [OF k(1)] ok(1) unfolding nth by (simp add: serialized_at_def files_layout_def)
  have s1: "serialized_at buf (at 1) 8 le_bytes (range_bytes (\<lambda>p. function_bytes (bm_heap m ! p))) (rmap (bm_functions m))"
    using part [OF k(2)] ok(2) unfolding nth by (simp add: serialized_at_def functions_layout_def range_map_layout_def range_bytes_def)
  have s2: "serialized_at buf (at 2) 8 le_bytes public_bytes (bm_public_symbols m)"
    using part [OF k(3)] ok(3) unfolding nth by (simp add: serialized_at_def pubsym_layout_def public_bytes_def)
  have s3: "serialized_at buf (at (3 + STACK_INFO_LAST)) 8 le_bytes (range_bytes cstring_bytes) (rmap (bm_cfi_initial_rules m))"
    using part [OF k(4)] ok(4) unfolding nth by (simp add: serialized_at_def cfi_init_layout_def range_map_layout_def range_bytes_def)
  have s4: "serialized_at buf (at (4 + STACK_INFO_LAST)) 8 le_bytes cstring_bytes (bm_cfi_delta_rules m)"
    using part [OF k(5)] ok(5) unfolding nth by (simp add: serialized_at_def cfi_delta_layout_def)
  have "\<exists>s. StaticContainedRangeMap_new buf (at (3 + i)) = Some s \<and>
      crm_at buf (ptr_bytes wfi_bytes) s (bm_windows_frame_info m ! i)" if "i \<in> set [0..<STACK_INFO_LAST]" for i
    using part [OF k(6)] that ok(6) [OF nth_mem] w unfolding nth by (intro crm_new_ex) (simp_all add: nth wfi_layout_def)
  then have "\<exists>ys. those (map (\<lambda>i. StaticContainedRangeMap_new buf (at (3 + i))) [0..<STACK_INFO_LAST]) = Some ys \<and>
      list_all2 (\<lambda>i s. crm_at buf (ptr_bytes wfi_bytes) s (bm_windows_frame_info m ! i)) [0..<STACK_INFO_LAST] ys"
    by (rule those_map_ex)
  then obtain infos where
    i: "those (map (\<lambda>i. StaticContainedRangeMap_new buf (at (3 + i))) [0..<STACK_INFO_LAST]) = Some infos"
      "list_all2 (\<lambda>i s. crm_at buf (ptr_bytes wfi_bytes) s (bm_windows_frame_info m ! i)) [0..<STACK_INFO_LAST] infos"
    by blast
  have wl: "list_all2 (crm_at buf (ptr_bytes wfi_bytes)) infos (bm_windows_frame_info m)"
    using i(2) w by (auto simp: list_all2_conv_all_nth)
  have fk: "\<forall>kv\<in>set (bm_files m). in_int32 (fst kv)" using assms(2) by (simp add: bm_storable_def)
  obtain f g p c d where new: "StaticMap_new buf (at 0) = Some f" "StaticMap_new buf (at 1) = Some g"
    "StaticMap_new buf (at 2) = Some p" "StaticMap_new buf (at (3 + STACK_INFO_LAST)) = Some c"
    "StaticMap_new buf (at (4 + STACK_INFO_LAST)) = Some d"
    using int32.layout_new [unfolded int_sizeof, OF s0 fk]
      addr.layout_new [unfolded MemAddr_sizeof, OF s1] addr.layout_new [unfolded MemAddr_sizeof, OF s2]
      addr.layout_new [unfolded MemAddr_sizeof, OF s3] addr.layout_new [unfolded MemAddr_sizeof, OF s4] by blast
  define fm where "fm = (FastModule_init name)\<lparr>fm_memory := buf, fm_files := f, fm_functions := g,
    fm_public_symbols := p, fm_is_corrupt := bm_is_corrupt m, fm_windows_frame_info := infos,
    fm_cfi_initial_rules := c, fm_cfi_delta_rules := d\<rparr>"
  have "FastModule_LoadMapFromMemory buf (FastModule_init name) = Some (True, fm)"
    by (simp only: FastModule_LoadMapFromMemory_def C(1,2) bind.bind_lunit prod.case Let_def at_def [symmetric] new i(1) fm_def)
  moreover have "fast_matches fm m"
    using s0 s1 s2 s3 s4 new wl by (auto simp: fast_matches_def fm_def range_map_at_def address_map_at_def)
  ultimately show ?thesis by blast
qed

section \<open>The fast module answers like the module it was made from\<close>

lemma RetrieveRange_mem: "RangeMap_RetrieveRange m a = Some r \<Longrightarrow> \<exists>hr\<in>set (rmap m). r = range_result hr"
  using lower_bound_le [of "rmap m" a]
  by (auto simp: RangeMap_RetrieveRange_def Let_def split: if_splits intro!: bexI [of _ "rmap m ! lower_bound (rmap m) a"]
      nth_mem le_neq_implies_less)

lemma RetrieveNearestRange_mem:
  assumes "RangeMap_RetrieveNearestRange m a = Some r"
  shows "\<exists>hr\<in>set (rmap m). r = range_result hr"
proof (cases "RangeMap_RetrieveRange m a")
  case None
  then have "0 < upper_bound (rmap m) a" "r = range_result (rmap m ! (upper_bound (rmap m) a - 1))"
    using assms by (auto simp: RangeMap_RetrieveNearestRange_def Let_def split: if_splits)
  moreover have "upper_bound (rmap m) a - 1 < length (rmap m)"
    using calculation(1) upper_bound_le [of "rmap m" a] by linarith
  ultimately show ?thesis by (metis nth_mem)
next
  case (Some r')
  then show ?thesis using assms RetrieveRange_mem [of m a r'] by (simp add: RangeMap_RetrieveNearestRange_def)
qed

text \<open>A function pointer of the module, and the bytes the fast module finds for it.\<close>

lemma fast_function_at:
  assumes "bm_ok m" "bm_storable m" "fast_matches fm m" "hr \<in> set (rmap (bm_functions m))"
    and "holds (fm_memory fm) q (function_bytes (bm_heap m ! r_entry (snd hr)))"
  shows "\<exists>ff. fast_Function_CopyFrom (fm_memory fm) q = Some ff \<and> ff_name ff = fn_name (bm_heap m ! r_entry (snd hr)) \<and>
    ff_parameter_size ff = fn_parameter_size (bm_heap m ! r_entry (snd hr)) \<and>
    range_map_at (fm_memory fm) line_bytes (ff_lines ff) (fn_lines (bm_heap m ! r_entry (snd hr)))"
proof (rule fast_Function_CopyFrom_holds [OF assms(5)])
  let ?f = "bm_heap m ! r_entry (snd hr)"
  have mem: "?f \<in> set (bm_heap m)" using assms(1,4) by (auto simp: bm_ok_def ranges_hold_def func_at_def)
  show "function_storable ?f" using mem assms(2) by (simp add: bm_storable_def)
  show "RangeMap_ok (fn_lines ?f)" using mem assms(1) by (simp add: bm_ok_def ranges_hold_def)
  have "length (map_layout 8 le_bytes (range_bytes (\<lambda>p. function_bytes (bm_heap m ! p))) (rmap (bm_functions m))) < 2 ^ 32"
    using assms(3) by (auto simp: fast_matches_def range_map_at_def serialized_at_def)
  moreover have "length (function_bytes ?f) \<le> length (range_bytes (\<lambda>p. function_bytes (bm_heap m ! p)) (snd hr))"
    by (simp add: range_bytes_def)
  ultimately show "length (function_bytes ?f) < 2 ^ 32"
    using length_value_le_layout [OF assms(4), of "range_bytes (\<lambda>p. function_bytes (bm_heap m ! p))" 8 le_bytes] by linarith
qed

lemma fast_file_name_agrees:
  assumes "bm_storable m" "fast_matches fm m"
  shows "fast_file_name fm n frame =
    Some (let it = map_find (bm_files m) n in
          if it \<noteq> length (bm_files m) then frame\<lparr>source_file_name := snd (bm_files m ! it)\<rparr> else frame)"
proof -
  let ?buf = "fm_memory fm" and ?i = "map_find (bm_files m) n"
  obtain p where p: "StaticMap_new ?buf p = Some (fm_files fm)"
    "serialized_at ?buf p 4 (\<lambda>n. le_bytes (word_of_int n :: u32)) cstring_bytes (bm_files m)"
    using assms(2) by (auto simp: fast_matches_def)
  have fk: "\<forall>kv\<in>set (bm_files m). in_int32 (fst kv)" using assms(1) by (simp add: bm_storable_def)
  note s = int32.layout_search [unfolded int_sizeof, OF p(2) fk p(1)]
    and it = int32.layout_iterator [unfolded int_sizeof, OF p(2) fk p(1)]
  obtain i where i: "IteratorAtIndex ?buf (fm_files fm) (int ?i) = Some i" "it_index i = int ?i" "it_base i = Some p"
    "?i < length (bm_files m) \<Longrightarrow> \<exists>q. Iterator_GetValueRawPtr ?buf i = Some (Some q) \<and> holds ?buf q (cstring_bytes (snd (bm_files m ! ?i)))"
    using it [of ?i] by blast
  obtain e where e: "IteratorAtIndex ?buf (fm_files fm) (int (length (bm_files m))) = Some e"
    "it_index e = int (length (bm_files m))" "it_base e = Some p"
    using it [of "length (bm_files m)"] by blast
  have eq: "Iterator_eq i e \<longleftrightarrow> ?i = length (bm_files m)" using i e by (simp add: Iterator_eq_def)
  show ?thesis
  proof (cases "?i = length (bm_files m)")
    case True
    then show ?thesis using s(3) [of n] s(4) i(1) e(1) eq by (simp add: fast_file_name_def)
  next
    case False
    then have l: "?i < length (bm_files m)" by (auto simp: map_find_def Let_def split: if_splits)
    then obtain q where q: "Iterator_GetValueRawPtr ?buf i = Some (Some q)"
      "holds ?buf q (cstring_bytes (snd (bm_files m ! ?i)))" using i(4) by blast
    have "NUL \<notin> set (snd (bm_files m ! ?i))" using assms(1) l by (simp add: bm_storable_def)
    then show ?thesis
      using s(3) [of n] s(4) i(1) e(1) eq False q(1) rd_cstr_holds [OF q(2)] by (simp add: fast_file_name_def Let_def)
  qed
qed

lemma fast_line_agrees:
  assumes "bm_storable m" "fast_matches fm m" "function_storable f"
    "range_map_at (fm_memory fm) line_bytes (ff_lines ff) (fn_lines f)"
  shows "fast_line fm ff base a frame =
    Some (case RangeMap_RetrieveRange (fn_lines f) a of
       None \<Rightarrow> frame
     | Some (line, line_base, _, _) \<Rightarrow>
         (let it = map_find (bm_files m) (ln_source_file_id line);
              frame = (if it \<noteq> length (bm_files m) then frame\<lparr>source_file_name := snd (bm_files m ! it)\<rparr> else frame)
          in frame\<lparr>source_line := of_int (ln_line line), source_line_base := base + line_base\<rparr>))"
proof (cases "RangeMap_RetrieveRange (fn_lines f) a")
  case None
  then show ?thesis using static_RetrieveRange [OF assms(4), of a] by (simp add: same_range_def fast_line_def)
next
  case (Some r)
  obtain l b d z where r: "RangeMap_RetrieveRange (fn_lines f) a = Some (l, b, d, z)" using Some by (cases r) auto
  obtain q where q: "StaticRangeMap_RetrieveRange (fm_memory fm) (ff_lines ff) a = Some (Some (q, b, z))"
    "holds (fm_memory fm) q (line_bytes l)"
    using static_RetrieveRange [OF assms(4), of a] by (auto simp: same_range_def r)
  have "line_storable l"
    using RetrieveRange_mem [OF r] assms(3) by (auto simp: function_storable_def range_result_def)
  then have "fast_Line_CopyFrom (fm_memory fm) q = Some l" by (rule fast_Line_CopyFrom_holds [OF q(2)])
  then show ?thesis using q(1) r by (simp add: fast_line_def fast_file_name_agrees [OF assms(1,2)] Let_def)
qed

text \<open>What both resolvers find for the function and the public symbol around an address.\<close>

lemma fast_nearest:
  assumes "bm_ok m" "bm_storable m" "fast_matches fm m"
  shows "\<exists>near. StaticRangeMap_RetrieveNearestRange (fm_memory fm) (fm_functions fm) a = Some near \<and>
    visible_public fm near a = Some (covering_public m a) \<and>
    (case covering_function m a of
       None \<Rightarrow> function_covers near a = None
     | Some (p, b) \<Rightarrow> \<exists>q hr. function_covers near a = Some (q, b) \<and> hr \<in> set (rmap (bm_functions m)) \<and>
         r_entry (snd hr) = p \<and> holds (fm_memory fm) q (function_bytes (bm_heap m ! p)))"
proof -
  let ?buf = "fm_memory fm"
  have S: "same_range ?buf (\<lambda>p. function_bytes (bm_heap m ! p)) (RangeMap_RetrieveNearestRange (bm_functions m) a)
      (StaticRangeMap_RetrieveNearestRange ?buf (fm_functions fm) a)"
    using assms(3) by (intro static_RetrieveNearestRange) (simp add: fast_matches_def)
  have P: "case AddressMap_Retrieve (bm_public_symbols m) a of
      None \<Rightarrow> StaticAddressMap_Retrieve ?buf (fm_public_symbols fm) a = Some None
    | Some (e, b) \<Rightarrow> \<exists>q. StaticAddressMap_Retrieve ?buf (fm_public_symbols fm) a = Some (Some (Some q, b)) \<and>
        holds ?buf q (public_bytes e)"
    using assms(3) by (intro static_Retrieve) (simp add: fast_matches_def)
  have pub: "visible_public fm near a = Some (case AddressMap_Retrieve (bm_public_symbols m) a of
        None \<Rightarrow> None
      | Some (e, b) \<Rightarrow> if (case near of None \<Rightarrow> True | Some (_, fb, _) \<Rightarrow> fb < b) then Some (e, b) else None)" for near
  proof (cases "AddressMap_Retrieve (bm_public_symbols m) a")
    case None
    then show ?thesis using P by (simp add: visible_public_def)
  next
    case (Some eb)
    obtain e b where eb: "AddressMap_Retrieve (bm_public_symbols m) a = Some (e, b)" using Some by (cases eb) auto
    then obtain q where q: "StaticAddressMap_Retrieve ?buf (fm_public_symbols fm) a = Some (Some (Some q, b))"
      "holds ?buf q (public_bytes e)" using P by auto
    have "(b, e) \<in> set (bm_public_symbols m)"
      using AddressMap_Retrieve_Some(1) [OF _ eb] assms(1) by (simp add: bm_ok_def)
    then have "public_storable e" using assms(2) by (auto simp: bm_storable_def)
    then have "fast_PublicSymbol_CopyFrom ?buf q = Some e" by (rule fast_PublicSymbol_CopyFrom_holds [OF q(2)])
    then show ?thesis using q(1) eb by (simp add: visible_public_def)
  qed
  show ?thesis
  proof (cases "RangeMap_RetrieveNearestRange (bm_functions m) a")
    case None
    then show ?thesis
      using S pub [of None]
      by (auto simp: same_range_def covering_public_def covering_function_def function_covers_def split: option.splits)
  next
    case (Some r)
    obtain p b d z where r: "RangeMap_RetrieveNearestRange (bm_functions m) a = Some (p, b, d, z)" using Some by (cases r) auto
    then obtain q where q: "StaticRangeMap_RetrieveNearestRange ?buf (fm_functions fm) a = Some (Some (q, b, z))"
      "holds ?buf q (function_bytes (bm_heap m ! p))" using S by (auto simp: same_range_def)
    obtain h rr where hr: "(h, rr) \<in> set (rmap (bm_functions m))" "r_entry rr = p"
      using RetrieveNearestRange_mem [OF r] by (auto simp: range_result_def)
    have "visible_public fm (Some (q, b, z)) a = Some (covering_public m a)"
      using pub [of "Some (q, b, z)"] by (simp add: r covering_public_def split: option.split)
    moreover have "covering_function m a = map_option (\<lambda>(_, b). (p, b)) (function_covers (Some (q, b, z)) a)"
      by (simp add: r covering_function_def function_covers_def)
    moreover have "function_covers (Some (q, b, z)) a \<in> {None, Some (q, b)}" by (simp add: function_covers_def)
    ultimately show ?thesis
      using q hr by (intro exI [of _ "Some (q, b, z)"]) (auto, blast)
  qed
qed

lemma Fast_LookupAddress_agrees:
  assumes "bm_ok m" "bm_storable m" "fast_matches fm m"
  shows "Fast_LookupAddress fm base frame = Some (Module_LookupAddress m base frame)"
proof -
  let ?a = "instruction frame - base"
  obtain near where N: "StaticRangeMap_RetrieveNearestRange (fm_memory fm) (fm_functions fm) ?a = Some near"
    "visible_public fm near ?a = Some (covering_public m ?a)"
    "case covering_function m ?a of
       None \<Rightarrow> function_covers near ?a = None
     | Some (p, b) \<Rightarrow> \<exists>q hr. function_covers near ?a = Some (q, b) \<and> hr \<in> set (rmap (bm_functions m)) \<and>
         r_entry (snd hr) = p \<and> holds (fm_memory fm) q (function_bytes (bm_heap m ! p))"
    using fast_nearest [OF assms] by blast
  show ?thesis
  proof (cases "covering_function m ?a")
    case None
    then show ?thesis using N by (simp add: Fast_LookupAddress_def Module_LookupAddress_def Let_def)
  next
    case (Some pb)
    then obtain p b q hr where c: "covering_function m ?a = Some (p, b)" "function_covers near ?a = Some (q, b)"
      "hr \<in> set (rmap (bm_functions m))" "r_entry (snd hr) = p" "holds (fm_memory fm) q (function_bytes (bm_heap m ! p))"
      using N(3) by (cases pb) auto
    obtain ff where ff: "fast_Function_CopyFrom (fm_memory fm) q = Some ff" "ff_name ff = fn_name (bm_heap m ! p)"
      "range_map_at (fm_memory fm) line_bytes (ff_lines ff) (fn_lines (bm_heap m ! p))"
      using fast_function_at [OF assms c(3)] c(4,5) by auto
    have "function_storable (bm_heap m ! p)"
      using c(3,4) assms(1,2) by (auto simp: bm_ok_def ranges_hold_def func_at_def bm_storable_def)
    note line = fast_line_agrees [OF assms(2,3) this ff(3)]
    show ?thesis using N(1) c(1,2) ff(1,2)
      by (simp add: Fast_LookupAddress_def Module_LookupAddress_def Let_def line)
  qed
qed

lemma fast_stack_info_agrees:
  assumes "bm_ok m" "bm_storable m" "fast_matches fm m" "stack_info_index type < STACK_INFO_LAST"
  shows "case ContainedRangeMap_RetrieveRange (bm_windows_frame_info m ! stack_info_index type) a of
      None \<Rightarrow> fast_stack_info fm type a = Some None
    | Some e \<Rightarrow> \<exists>p. fast_stack_info fm type a = Some (Some (Some p)) \<and> CopyWFI (fm_memory fm) p = Some (the e)"
proof -
  let ?t = "bm_windows_frame_info m ! stack_info_index type" and ?buf = "fm_memory fm"
  have len: "length (bm_windows_frame_info m) = STACK_INFO_LAST" using assms(1) by (simp add: bm_ok_def)
  then have mem: "?t \<in> set (bm_windows_frame_info m)" using assms(4) by simp
  have "list_all2 (crm_at ?buf (ptr_bytes wfi_bytes)) (fm_windows_frame_info fm) (bm_windows_frame_info m)"
    using assms(3) by (simp add: fast_matches_def)
  then have "crm_at ?buf (ptr_bytes wfi_bytes) (fm_windows_frame_info fm ! stack_info_index type) ?t"
    using assms(4) len by (simp add: list_all2_conv_all_nth)
  note S = static_contained_RetrieveRange [OF this, of a, folded fast_stack_info_def]
  show ?thesis
  proof (cases "ContainedRangeMap_RetrieveRange ?t a")
    case None
    then show ?thesis using S by simp
  next
    case (Some e)
    then obtain q where q: "fast_stack_info fm type a = Some (Some q)" "entry_at ?buf (ptr_bytes wfi_bytes) e q"
      using S by auto
    have "crm_ok 0 (- 1) ?t" using assms(1) mem by (auto simp: bm_ok_def crm_reachable_ok)
    from RetrieveRange_sound [OF this Some] have "wfi_storable e" using mem assms(2) by (auto simp: bm_storable_def)
    then obtain w where w: "e = Some w" "wfi_storable (Some w)" by (cases e) (auto simp: wfi_storable_def)
    obtain p where p: "q = Some p" "holds ?buf p (wfi_bytes w)"
      using q(2) w(1) by (cases q) (auto simp: entry_at_def ptr_bytes_def wfi_bytes_def)
    show ?thesis using Some q(1) p(1) w(1) CopyWFI_holds [OF p(2) w(2)] by simp
  qed
qed

lemma Fast_FindWindowsFrameInfo_agrees:
  assumes "bm_ok m" "bm_storable m" "fast_matches fm m"
  shows "Fast_FindWindowsFrameInfo fm base frame = Some (Module_FindWindowsFrameInfo m base frame)"
proof -
  let ?a = "instruction frame - base" and ?maps = "bm_windows_frame_info m"
  have ix: "stack_info_index STACK_INFO_FRAME_DATA < STACK_INFO_LAST" "stack_info_index STACK_INFO_FPO < STACK_INFO_LAST"
    by (simp_all add: STACK_INFO_LAST_def)
  note D = fast_stack_info_agrees [OF assms ix(1), of ?a] and P = fast_stack_info_agrees [OF assms ix(2), of ?a]
  note unf = Fast_FindWindowsFrameInfo_def Module_FindWindowsFrameInfo_def Let_def
  show ?thesis
  proof (cases "ContainedRangeMap_RetrieveRange (?maps ! stack_info_index STACK_INFO_FRAME_DATA) ?a")
    case (Some e)
    then show ?thesis using D by (auto simp: unf)
  next
    case d: None
    show ?thesis
    proof (cases "ContainedRangeMap_RetrieveRange (?maps ! stack_info_index STACK_INFO_FPO) ?a")
      case (Some e)
      then show ?thesis using D P d by (auto simp: unf)
    next
      case None
      have D': "fast_stack_info fm STACK_INFO_FRAME_DATA ?a = Some None" using D d by simp
      have P': "fast_stack_info fm STACK_INFO_FPO ?a = Some None" using P None by simp
      obtain near where N: "StaticRangeMap_RetrieveNearestRange (fm_memory fm) (fm_functions fm) ?a = Some near"
        "visible_public fm near ?a = Some (covering_public m ?a)"
        "case covering_function m ?a of
           None \<Rightarrow> function_covers near ?a = None
         | Some (p, b) \<Rightarrow> \<exists>q hr. function_covers near ?a = Some (q, b) \<and> hr \<in> set (rmap (bm_functions m)) \<and>
             r_entry (snd hr) = p \<and> holds (fm_memory fm) q (function_bytes (bm_heap m ! p))"
        using fast_nearest [OF assms] by blast
      show ?thesis
      proof (cases "covering_function m ?a")
        case n: None
        then show ?thesis using N D' P' d None by (simp add: unf)
      next
        case (Some pb)
        then obtain p b q hr where c: "covering_function m ?a = Some (p, b)" "function_covers near ?a = Some (q, b)"
          "hr \<in> set (rmap (bm_functions m))" "r_entry (snd hr) = p" "holds (fm_memory fm) q (function_bytes (bm_heap m ! p))"
          using N(3) by (cases pb) auto
        obtain ff where "fast_Function_CopyFrom (fm_memory fm) q = Some ff"
          "ff_parameter_size ff = fn_parameter_size (bm_heap m ! p)"
          using fast_function_at [OF assms c(3)] c(4,5) by auto
        then show ?thesis using N(1) c(1,2) D' P' d None by (simp add: unf)
      qed
    qed
  qed
qed

text \<open>The loop over the delta rules returns, and applies the rules the map holds from the position
  of the iterator on.\<close>

lemma fast_deltas_agrees:
  fixes ds :: "(u64, string) std_map"
  assumes s: "StaticMap_new buf p = Some s" "serialized_at buf p 8 le_bytes cstring_bytes ds"
    and nul: "\<forall>kv\<in>set ds. NUL \<notin> set (snd kv)"
    and fin: "IteratorAtIndex buf s (int (length ds)) = Some fin"
    and it: "IteratorAtIndex buf s (int i) = Some it" "i \<le> length ds"
  shows "fast_deltas buf fin a it rules = Some (apply_deltas (drop i ds) a rules)"
  using it
proof (induction "length ds - i" arbitrary: i it rules)
  case 0
  then have "it = fin" using fin by simp
  then show ?case using 0 by (subst fast_deltas.simps) (simp add: Iterator_eq_def)
next
  case (Suc n)
  then have i: "i < length ds" by simp
  obtain q where I: "it_index it = int i" "it_num_nodes it = int (length ds)" "Iterator_IsValid it"
    "Iterator_GetKey MemAddr_key buf it = Some (fst (ds ! i))" "Iterator_GetValueRawPtr buf it = Some (Some q)"
    "holds buf q (cstring_bytes (snd (ds ! i)))"
    using addr_iterator [OF s, of i] Suc.prems(1) i by (auto simp: node_at_def)
  have "it_index fin = int (length ds)" using addr_iterator [OF s, of "length ds"] fin by (auto simp: node_at_def)
  then have ne: "\<not> Iterator_eq it fin" using I(1) i by (simp add: Iterator_eq_def)
  have "snd (Iterator_postinc it) = it\<lparr>it_index := int (Suc i)\<rparr>"
    using I(1-3) i by (simp add: Iterator_postinc_def)
  then have next_it: "IteratorAtIndex buf s (int (Suc i)) = Some (snd (Iterator_postinc it))"
    using Suc.prems(1) by (auto simp: IteratorAtIndex_def StaticMapIterator_new_def bind_eq_Some_conv)
  have IH: "fast_deltas buf fin a (snd (Iterator_postinc it)) r = Some (apply_deltas (drop (Suc i) ds) a r)" for r
    using Suc.hyps(1) [OF _ next_it] Suc.hyps(2) i by simp
  have "rd_cstr buf q = Some (snd (ds ! i))" using nul i by (intro rd_cstr_holds [OF I(6)]) simp
  moreover obtain k v where kv: "ds ! i = (k, v)" by fastforce
  moreover have "drop i ds = (k, v) # drop (Suc i) ds" using i kv by (metis Cons_nth_drop_Suc)
  ultimately show ?case using ne I(4,5) by (subst fast_deltas.simps) (simp add: IH)
qed

lemma Fast_FindCFIFrameInfo_agrees:
  assumes "bm_storable m" "fast_matches fm m"
  shows "Fast_FindCFIFrameInfo fm base frame = Some (Module_FindCFIFrameInfo m base frame)"
proof -
  let ?a = "instruction frame - base" and ?buf = "fm_memory fm"
  have r: "range_map_at ?buf cstring_bytes (fm_cfi_initial_rules fm) (bm_cfi_initial_rules m)"
    using assms(2) by (simp add: fast_matches_def)
  obtain p where p: "StaticMap_new ?buf p = Some (fm_cfi_delta_rules fm)"
    "serialized_at ?buf p 8 le_bytes cstring_bytes (bm_cfi_delta_rules m)"
    using assms(2) by (auto simp: fast_matches_def address_map_at_def)
  note S = static_RetrieveRange [OF r, of ?a]
  show ?thesis
  proof (cases "RangeMap_RetrieveRange (bm_cfi_initial_rules m) ?a")
    case None
    then show ?thesis using S by (simp add: same_range_def Fast_FindCFIFrameInfo_def Module_FindCFIFrameInfo_def Let_def)
  next
    case (Some x)
    then obtain e b d z where x: "RangeMap_RetrieveRange (bm_cfi_initial_rules m) ?a = Some (e, b, d, z)" by (cases x) auto
    then obtain q where q: "StaticRangeMap_RetrieveRange ?buf (fm_cfi_initial_rules fm) ?a = Some (Some (q, b, z))"
      "holds ?buf q (cstring_bytes e)" using S by (auto simp: same_range_def)
    have "NUL \<notin> set e" using RetrieveRange_mem [OF x] assms(1) by (auto simp: bm_storable_def range_result_def)
    then have e: "rd_cstr ?buf q = Some e" by (rule rd_cstr_holds [OF q(2)])
    let ?i = "lower_bound (bm_cfi_delta_rules m) b"
    obtain it where it: "IteratorAtIndex ?buf (fm_cfi_delta_rules fm) (int ?i) = Some it" using addr_iterator [OF p] by blast
    obtain fin where fin: "IteratorAtIndex ?buf (fm_cfi_delta_rules fm) (int (length (bm_cfi_delta_rules m))) = Some fin"
      using addr_iterator [OF p] by blast
    have "\<forall>kv\<in>set (bm_cfi_delta_rules m). NUL \<notin> set (snd kv)" using assms(1) by (simp add: bm_storable_def)
    note L = fast_deltas_agrees [OF p this fin it lower_bound_le, of ?a]
    show ?thesis
      using q(1) e x addr_layout(1) [OF p, of b] addr_layout(3) [OF p] it fin L
      by (auto simp: Fast_FindCFIFrameInfo_def Module_FindCFIFrameInfo_def Let_def split: prod.splits bool.splits)
  qed
qed

end
