(* ===== verification/Fast_Equivalence.thy ===== *)
theory Fast_Equivalence
  imports Fast_Resolver
begin

text \<open>
  What the loader of \<open>Basic_Resolver\<close> can put into a module is what the serializer can carry: every
  loaded module is storable, so its serialized form answers every query as it does.
\<close>

section \<open>Text of loaded modules\<close>

lemma strtok_r_set:
  assumes "strtok_r sep s = Some (token, save)"
  shows "set token \<subseteq> set s" "set save \<subseteq> set s"
proof -
  have "token = takeWhile (\<lambda>c. \<not> sep c) (dropWhile sep s)" "save = drop 1 (dropWhile (\<lambda>c. \<not> sep c) (dropWhile sep s))"
    using assms by (auto simp: strtok_r_def Let_def split: if_splits)
  then show "set token \<subseteq> set s" "set save \<subseteq> set s"
    by (auto dest: set_takeWhileD set_dropWhileD in_set_dropD)
qed

lemma tokenize_loop_set:
  assumes "tokenize_loop sep n tok save acc = (n', save', acc')"
    and "pred_option (\<lambda>t. set t \<subseteq> C) tok" "set save \<subseteq> C" "\<forall>t\<in>set acc. set t \<subseteq> C"
  shows "set save' \<subseteq> C \<and> (\<forall>t\<in>set acc'. set t \<subseteq> C)"
  using assms
proof (induction sep n tok save acc rule: tokenize_loop.induct)
  case (3 sep n token save acc)
  have acc: "\<forall>t\<in>set (acc @ [token]). set t \<subseteq> C" using "3.prems"(2,4) by simp
  consider (last) "n = 0" | (fetch) "n \<noteq> 0" "1 < n" | (keep) "n \<noteq> 0" "\<not> 1 < n" by blast
  then show ?case
  proof cases
    case last
    then show ?thesis using "3.prems" by simp
  next
    case keep
    then have "tokenize_loop sep n (Some token) save (acc @ [token]) = (n', save', acc')" using "3.prems"(1) by simp
    then show ?thesis using "3.IH"(3) [OF keep _ "3.prems"(2,3) acc] by blast
  next
    case fetch
    show ?thesis
    proof (cases "strtok_r sep save")
      case None
      then have "tokenize_loop sep n None [] (acc @ [token]) = (n', save', acc')" using "3.prems"(1) fetch by simp
      then show ?thesis using "3.IH"(1) [OF fetch None _ _ _ acc] by simp
    next
      case (Some r)
      obtain t s where r: "r = (t, s)" by (cases r)
      have "tokenize_loop sep n (Some t) s (acc @ [token]) = (n', save', acc')" using "3.prems"(1) fetch Some r by simp
      moreover have "set t \<subseteq> C" "set s \<subseteq> C" using strtok_r_set [OF Some [unfolded r]] "3.prems"(3) by auto
      ultimately show ?thesis by (intro "3.IH"(2) [OF fetch Some r [symmetric] _ _ _ acc]) simp_all
    qed
  qed
qed simp_all

lemma Tokenize_set:
  assumes "Tokenize s sep n = Some ts" "t \<in> set ts"
  shows "set t \<subseteq> set s"
proof -
  obtain tok save n' save' acc where
    l: "tokenize_loop sep n tok save [] = (n', save', acc)" and t: "pred_option (\<lambda>t. set t \<subseteq> set s) tok" "set save \<subseteq> set s"
    and ts: "ts = (if n' = 0 then (case strtok_r end_of_line save' of Some (t, _) \<Rightarrow> acc @ [t] | None \<Rightarrow> acc) else acc)"
  proof (cases "strtok_r sep s")
    case None
    obtain n' save' acc where "tokenize_loop sep n None [] [] = (n', save', acc)" by (metis prod_cases3)
    then show ?thesis using that [of None "[]"] assms(1) None by (auto simp: Tokenize_def Let_def split: if_splits)
  next
    case (Some r)
    then obtain t0 s0 where r: "strtok_r sep s = Some (t0, s0)" by (cases r) auto
    obtain n' save' acc where "tokenize_loop sep n (Some t0) s0 [] = (n', save', acc)" by (metis prod_cases3)
    then show ?thesis
      using that [of "Some t0" s0] strtok_r_set [OF r] assms(1) r by (auto simp: Tokenize_def Let_def split: if_splits)
  qed
  have "set save' \<subseteq> set s \<and> (\<forall>t\<in>set acc. set t \<subseteq> set s)" using tokenize_loop_set [OF l t] by simp
  then show ?thesis using assms(2) strtok_r_set(1) [of end_of_line save'] unfolding ts
    by (auto split: if_splits option.splits)
qed

lemma Tokenize_nul: "Tokenize s sep n = Some ts \<Longrightarrow> i < n \<Longrightarrow> NUL \<notin> set s \<Longrightarrow> NUL \<notin> set (ts ! i)"
  using Tokenize_set [of s sep n ts "ts ! i"] Tokenize_length [of s sep n ts] by auto

lemma strtok_buf_nul: "strtok_buf sep t = Some (token, trunc, before, rest) \<Longrightarrow> NUL \<notin> set token"
  by (auto simp: strtok_buf_def Let_def split: if_splits dest: set_takeWhileD)

lemma cstr_nul: "NUL \<notin> set (cstr s)"
  by (auto simp: cstr_def dest: set_takeWhileD)

lemma to_int32_in: "in_int32 (to_int32 n)"
  using sint_greater_eq [of "of_int n :: u32"] sint_less [of "of_int n :: u32"] by (simp add: in_int32_def to_int32_def)

section \<open>Updates keep what every entry satisfies\<close>

lemma ball_map_insert: "\<forall>x\<in>set m. P x \<Longrightarrow> P (k, v) \<Longrightarrow> \<forall>x\<in>set (map_insert m k v). P x"
  unfolding map_insert_def Let_def by (auto dest: in_set_takeD in_set_dropD)

lemma ball_list_update: "\<forall>x\<in>set xs. P x \<Longrightarrow> P y \<Longrightarrow> \<forall>x\<in>set (xs[i := y]). P x"
  using set_update_subset_insert [of xs i y] by blast

lemma ball_map_assign: "\<forall>x\<in>set m. P x \<Longrightarrow> P (k, v) \<Longrightarrow> \<forall>x\<in>set (map_assign m k v). P x"
  using ball_list_update [of m P "(k, v)" "lower_bound m k"]
  unfolding map_assign_def Let_def by (auto dest: in_set_takeD in_set_dropD)

lemma store_entries:
  assumes "ranges_hold P m" "\<forall>hr\<in>set (rmap m). Q (r_entry (snd hr))" "Q entry"
  shows "\<forall>hr\<in>set (rmap (snd (RangeMap_StoreRange dflt m base sz entry))). Q (r_entry (snd hr))"
proof -
  have "ranges_hold (\<lambda>e _ _. Q e) m" using assms(1,2) by (simp add: ranges_hold_def)
  from ranges_hold_store [OF this, of entry] show ?thesis using assms(3) by (simp add: ranges_hold_def)
qed

lemma crm_store_segs:
  assumes "ContainedRangeMap_reachable t"
  shows "crm_entry (snd (ContainedRangeMap_StoreRange t base sz entry)) = crm_entry t"
    "crm_seg (snd (ContainedRangeMap_StoreRange t base sz entry)) l h e \<Longrightarrow> crm_seg t l h e \<or> e = entry"
proof -
  let ?r = "ContainedRangeMap_StoreRange t base sz entry"
  have "?r = (False, t) \<or> store_spec 0 (- 1) t base (base + sz - 1) entry ?r"
  proof (cases "sz = 0 \<or> base + sz - 1 < base")
    case True
    then show ?thesis by (rule disjI1 [OF crm_refuses_invalid])
  next
    case False
    then show ?thesis
      using ContainedRangeMap_StoreRange_spec [OF crm_reachable_ok [OF assms], of sz base entry] by (auto simp: not_less)
  qed
  then show "crm_entry (snd ?r) = crm_entry t" "crm_seg (snd ?r) l h e \<Longrightarrow> crm_seg t l h e \<or> e = entry"
    unfolding store_spec_def by (metis snd_conv)+
qed

section \<open>The loader keeps modules storable\<close>

lemma crm_seg_init: "\<not> crm_seg (ContainedRangeMap_init d) l h e"
  by (subst crm_seg_iff) (simp add: ContainedRangeMap_init_def)

lemma bm_storable_init: "bm_storable (BasicModule_init name)"
  by (simp add: bm_storable_def BasicModule_init_def RangeMap_init_def AddressMap_init_def crm_seg_init)
    (simp add: ContainedRangeMap_init_def)

lemma bm_storable_corrupt [simp]: "bm_storable (m\<lparr>bm_is_corrupt := b\<rparr>) = bm_storable m"
  by (simp add: bm_storable_def)

lemma ParseFile_storable:
  assumes "Module_ParseFile l m = (ok, m')" "NUL \<notin> set l" "bm_storable m"
  shows "bm_storable m'"
proof (cases "SymbolParseHelper_ParseFile l")
  case (Some r)
  obtain n s where r: "r = (n, s)" by (cases r)
  have "NUL \<notin> set (drop 5 l)" using assms(2) by (auto dest: in_set_dropD)
  then have "NUL \<notin> set s"
    using Some r Tokenize_nul [of "drop 5 l" kWhitespace 2 _ 1]
    by (auto simp: SymbolParseHelper_ParseFile_def split: option.splits)
  then have "\<forall>kv\<in>set (map_insert (bm_files m) (to_int32 n) s). in_int32 (fst kv) \<and> NUL \<notin> set (snd kv)"
    using assms(3) by (intro ball_map_insert) (simp_all add: bm_storable_def to_int32_in)
  then have "bm_storable (m\<lparr>bm_files := map_insert (bm_files m) (to_int32 n) s\<rparr>)"
    using assms(3) by (simp add: bm_storable_def)
  then show ?thesis using assms(1) Some r by (simp add: Module_ParseFile_def)
qed (use assms in \<open>simp add: Module_ParseFile_def\<close>)

lemma ParsePublicSymbol_storable:
  assumes "Module_ParsePublicSymbol l m = (ok, m')" "NUL \<notin> set l" "bm_storable m"
  shows "bm_storable m'"
proof (cases "SymbolParseHelper_ParsePublicSymbol l")
  case (Some r)
  obtain a n s where r: "r = (a, n, s)" by (cases r)
  have "NUL \<notin> set (drop 7 l)" using assms(2) by (auto dest: in_set_dropD)
  then have "NUL \<notin> set s"
    using Some r Tokenize_nul [of "drop 7 l" kWhitespace 3 _ 2]
    by (auto simp: SymbolParseHelper_ParsePublicSymbol_def split: option.splits)
  then have "public_storable \<lparr>ps_name = s, ps_address = a, ps_parameter_size = to_int32 n\<rparr>"
    by (simp add: public_storable_def to_int32_in)
  then have "\<forall>kv\<in>set (map_insert (bm_public_symbols m) a
      \<lparr>ps_name = s, ps_address = a, ps_parameter_size = to_int32 n\<rparr>). public_storable (snd kv)"
    using assms(3) by (intro ball_map_insert) (simp_all add: bm_storable_def)
  then have "bm_storable (m\<lparr>bm_public_symbols := map_insert (bm_public_symbols m) a
      \<lparr>ps_name = s, ps_address = a, ps_parameter_size = to_int32 n\<rparr>\<rparr>)"
    using assms(3) by (simp add: bm_storable_def)
  then show ?thesis
    using assms(1,3) Some r by (auto simp: Module_ParsePublicSymbol_def AddressMap_Store_def split: if_splits)
qed (use assms in \<open>simp add: Module_ParsePublicSymbol_def\<close>)

lemma initial_rules_storable:
  assumes "bm_ok m" "bm_storable m" "NUL \<notin> set rules"
  shows "bm_storable (m\<lparr>bm_cfi_initial_rules := snd (RangeMap_StoreRange [] (bm_cfi_initial_rules m) a z rules)\<rparr>)"
proof -
  have "ranges_hold (\<lambda>_ _ _. True) (bm_cfi_initial_rules m)" using assms(1) by (simp add: bm_ok_def)
  from store_entries [OF this, of "\<lambda>s. NUL \<notin> set s" rules "[]" a z] show ?thesis
    using assms(2,3) by (simp add: bm_storable_def)
qed

lemma delta_rules_storable:
  "bm_storable m \<Longrightarrow> NUL \<notin> set rules \<Longrightarrow>
     bm_storable (m\<lparr>bm_cfi_delta_rules := map_assign (bm_cfi_delta_rules m) a rules\<rparr>)"
  using ball_map_assign [of "bm_cfi_delta_rules m" "\<lambda>kv. NUL \<notin> set (snd kv)" a rules] by (simp add: bm_storable_def)

lemma ParseCFIFrameInfo_storable:
  assumes "Module_ParseCFIFrameInfo t m = (ok, t', m')" "bm_ok m" "bm_storable m"
  shows "bm_storable m'"
  using assms
  by (auto simp: Module_ParseCFIFrameInfo_def intro!: initial_rules_storable delta_rules_storable dest!: strtok_buf_nul
      split: option.splits if_splits)

lemma stack_info_storable:
  assumes "bm_ok m" "bm_storable m" "i < STACK_INFO_LAST" "wfi_storable (Some info)"
  shows "bm_storable (m\<lparr>bm_windows_frame_info := (bm_windows_frame_info m)
    [i := snd (ContainedRangeMap_StoreRange (bm_windows_frame_info m ! i) addr0 sz (Some info))]\<rparr>)"
proof -
  let ?t = "bm_windows_frame_info m ! i"
  have mem: "?t \<in> set (bm_windows_frame_info m)" using assms(1,3) by (simp add: bm_ok_def)
  then have "ContainedRangeMap_reachable ?t" using assms(1) by (simp add: bm_ok_def)
  note s = crm_store_segs [OF this, of addr0 sz "Some info"]
  have t: "crm_entry ?t = None" "\<And>l h e. crm_seg ?t l h e \<Longrightarrow> wfi_storable e" using mem assms(2) by (auto simp: bm_storable_def)
  have "crm_entry (snd (ContainedRangeMap_StoreRange ?t addr0 sz (Some info))) = None \<and>
      (\<forall>l h e. crm_seg (snd (ContainedRangeMap_StoreRange ?t addr0 sz (Some info))) l h e \<longrightarrow> wfi_storable e)"
    using s t assms(4) by metis
  then have "\<forall>t\<in>set ((bm_windows_frame_info m)
      [i := snd (ContainedRangeMap_StoreRange (bm_windows_frame_info m ! i) addr0 sz (Some info))]).
      crm_entry t = None \<and> (\<forall>l h e. crm_seg t l h e \<longrightarrow> wfi_storable e)"
    using assms(2) unfolding bm_storable_def by (intro ball_list_update) blast+
  then show ?thesis using assms(2) unfolding bm_storable_def by simp
qed

lemma WindowsFrameInfo_parsed_nul:
  assumes "WindowsFrameInfo_ParseFromString s = Some (type, addr0, sz, info)" "NUL \<notin> set s"
  shows "wfi_storable (Some info)"
proof -
  obtain ts where ts: "Tokenize s stack_separator 11 = Some ts"
    using assms(1) by (auto simp: WindowsFrameInfo_ParseFromString_def split: option.splits)
  have "program_string info = [] \<or> program_string info = ts ! 10"
    using assms(1) ts
    by (auto simp: WindowsFrameInfo_ParseFromString_def WindowsFrameInfo_make_def Let_def split: option.splits if_splits)
  then show ?thesis
    using WindowsFrameInfo_parsed(1) [OF assms(1)] Tokenize_nul [OF ts, of 10] assms(2) by (auto simp: wfi_storable_def)
qed

lemma ParseStackInfo_storable:
  assumes "Module_ParseStackInfo l over m = (ok, over', m')" "bm_ok m" "bm_storable m"
  shows "bm_storable m'"
proof -
  have i: "stack_info_index type < STACK_INFO_LAST"
    if "WindowsFrameInfo_ParseFromString s = Some (type, r)" for type r s
    using that WindowsFrameInfo_parsed(3) [of s type] by (cases type; cases r) (auto simp: STACK_INFO_LAST_def)
  have store: "bm_storable (m\<lparr>bm_windows_frame_info := (bm_windows_frame_info m)[stack_info_index type :=
      snd (ContainedRangeMap_StoreRange (bm_windows_frame_info m ! stack_info_index type) addr0 sz (Some info))]\<rparr>)"
    if "WindowsFrameInfo_ParseFromString (cstr s) = Some (type, addr0, sz, info)" for s type addr0 sz info
    using i [OF that] WindowsFrameInfo_parsed_nul [OF that cstr_nul] by (intro stack_info_storable assms)
  show ?thesis
    using assms ParseCFIFrameInfo_storable store
    by (auto simp: Module_ParseStackInfo_def Let_def split: option.splits if_splits prod.splits)
qed

lemma add_function_storable:
  assumes "bm_storable m" "Module_ParseFunction l = Some f" "NUL \<notin> set l"
  shows "bm_storable (m\<lparr>bm_heap := bm_heap m @ [f], bm_functions := fs\<rparr>)"
proof -
  have "NUL \<notin> set (drop 5 l)" using assms(3) by (auto dest: in_set_dropD)
  then have "function_storable f"
    using assms(2) Tokenize_nul [of "drop 5 l" kWhitespace 4 _ 3]
    by (auto simp: Module_ParseFunction_def SymbolParseHelper_ParseFunction_def function_storable_def RangeMap_init_def
        to_int32_in split: option.splits)
  then show ?thesis using assms(1) unfolding bm_storable_def by simp
qed

lemma add_line_storable:
  assumes "bm_ok m" "bm_storable m" "p < length (bm_heap m)" "Module_ParseLine s = Some l"
  shows "bm_storable (m\<lparr>bm_heap := (bm_heap m)[p := (bm_heap m ! p)
    \<lparr>fn_lines := snd (RangeMap_StoreRange l (fn_lines (bm_heap m ! p)) (ln_address l) (ln_size l) l)\<rparr>]\<rparr>)"
proof -
  let ?f = "bm_heap m ! p"
  have f: "ranges_hold line_at (fn_lines ?f)" "function_storable ?f"
    using assms(1-3) by (simp_all add: bm_ok_def bm_storable_def)
  have "line_storable l"
    using assms(4) by (auto simp: Module_ParseLine_def line_storable_def to_int32_in split: option.splits)
  with store_entries [OF f(1), of line_storable l] f(2)
  have "function_storable (?f\<lparr>fn_lines := snd (RangeMap_StoreRange l (fn_lines ?f) (ln_address l) (ln_size l) l)\<rparr>)"
    unfolding function_storable_def by simp
  then have "\<forall>f\<in>set ((bm_heap m)[p := ?f
      \<lparr>fn_lines := snd (RangeMap_StoreRange l (fn_lines ?f) (ln_address l) (ln_size l) l)\<rparr>]). function_storable f"
    using assms(2) unfolding bm_storable_def by (intro ball_list_update) blast+
  then show ?thesis using assms(2) unfolding bm_storable_def by simp
qed

lemma load_line_storable:
  assumes "load_line l over m c = (ok, over', m', c')" "NUL \<notin> set l" "bm_ok m" "bm_storable m" "cur_ok m c"
  shows "bm_storable m'"
  using assms ParseFile_storable ParseStackInfo_storable ParsePublicSymbol_storable add_function_storable
    add_line_storable
  by (auto simp: load_line_def cur_ok_def Let_def split: if_splits prod.splits option.splits)

lemma load_lines_storable:
  "bm_ok m \<Longrightarrow> bm_storable m \<Longrightarrow> cur_ok m c \<Longrightarrow> bm_storable (snd (load_lines m c n t))"
proof (induction m c n t rule: load_lines.induct)
  case (1 m c n t)
  show ?case
  proof (cases "strtok_buf end_of_line t")
    case None
    then show ?thesis using "1.prems" by (simp add: load_lines.simps)
  next
    case (Some r)
    then obtain l b pre save where r: "strtok_buf end_of_line t = Some (l, b, pre, save)" by (cases r) auto
    obtain ok over m' c' where ll: "load_line l (if b then save else tl save) m c = (ok, over, m', c')"
      by (metis prod_cases4)
    have ok': "bm_ok m'" "cur_ok m' c'" using load_line_ok [OF ll "1.prems"(1,3)] by simp_all
    have st: "bm_storable m'" using load_line_storable [OF ll strtok_buf_nul [OF r] "1.prems"] .
    show ?thesis
      using "1.IH" [OF r refl refl refl ll [symmetric] refl refl refl _ ok'(1) st ok'(2)] st r ll
      by (subst load_lines.simps) (auto simp: Let_def)
  qed
qed

lemma loaded_module:
  fixes beyond buffer name
  defines "m \<equiv> LoadMapFromMemory beyond buffer (BasicModule_init name)"
  shows "bm_ok m" "bm_storable m"
proof -
  show "bm_ok m" unfolding m_def by (rule LoadMapFromMemory_bm_ok [OF bm_ok_init])
  have "bm_storable (snd (load_lines (BasicModule_init name) None n t))" for n t
    by (rule load_lines_storable) (simp_all add: bm_ok_init bm_storable_init cur_ok_def)
  then have "load_lines (BasicModule_init name) None n t = (n', m') \<Longrightarrow> bm_storable m'" for n t n' m' by (metis snd_conv)
  then show "bm_storable m"
    unfolding m_def by (auto simp: LoadMapFromMemory_def Let_def bm_storable_init split: prod.split)
qed

section \<open>The theorem\<close>

text \<open>C5. Conversion to the fast format preserves every answer. For every symbol file whose serialized
  form has less than 4 GiB, \<open>ModuleSerializer::Serialize\<close> stays inside the memory it allocates, the fast
  resolver loads the bytes (whatever follows them in memory) without reading outside of them, and
  for every frame and module address \<open>LookupAddress\<close>, \<open>FindWindowsFrameInfo\<close> and
  \<open>FindCFIFrameInfo\<close> of the fast module return, within the block, what those of the
  basic module return.\<close>

theorem fast_resolver_agrees:
  assumes "m = LoadMapFromMemory beyond symbol_data (BasicModule_init name)" "length (module_layout m) < 2 ^ 32"
  shows "\<exists>buf fm. ModuleSerializer_Serialize fresh m = Some (buf, length buf) \<and>
    FastModule_LoadMapFromMemory (buf @ rest) (FastModule_init name) = Some (True, fm) \<and>
    fm_is_corrupt fm = bm_is_corrupt m \<and>
    (\<forall>base frame.
       Fast_LookupAddress fm base frame = Some (Module_LookupAddress m base frame) \<and>
       Fast_FindWindowsFrameInfo fm base frame = Some (Module_FindWindowsFrameInfo m base frame) \<and>
       Fast_FindCFIFrameInfo fm base frame = Some (Module_FindCFIFrameInfo m base frame))"
proof -
  note ok = loaded_module [of beyond symbol_data name, folded assms(1)]
  have s: "ModuleSerializer_Serialize fresh m = Some (module_layout m, length (module_layout m))"
    using ok storable_strings_ok [OF ok assms(2)] assms(2) by (intro Serialize_module_layout) (simp_all add: bm_ok_def)
  have "holds (module_layout m @ rest) 0 (module_layout m)"
    unfolding holds_iff by (intro exI [of _ "[]"] exI [of _ rest]) simp
  then obtain fm where fm: "FastModule_LoadMapFromMemory (module_layout m @ rest) (FastModule_init name) = Some (True, fm)"
    "fast_matches fm m" using Fast_Load_matches [OF ok _ assms(2)] by blast
  then show ?thesis
    using s Fast_LookupAddress_agrees [OF ok fm(2)] Fast_FindWindowsFrameInfo_agrees [OF ok fm(2)]
      Fast_FindCFIFrameInfo_agrees [OF ok(2) fm(2)]
    by (intro exI [of _ "module_layout m"] exI [of _ fm]) (simp add: fast_matches_def)
qed

lemma crm_layout_init: "length (crm_layout (ptr_bytes wfi_bytes) (ContainedRangeMap_init None)) = 16"
  unfolding ContainedRangeMap_init_def by (subst crm_layout.simps) (simp add: map_layout_def ptr_bytes_def)

lemma sample_parts:
  "length (files_layout sample_basic_module) = 16" "length (functions_layout sample_basic_module) = 94"
  "length (pubsym_layout sample_basic_module) = 30" "length (cfi_init_layout sample_basic_module) = 32"
  "length (cfi_delta_layout sample_basic_module) = 24"
  "bm_windows_frame_info sample_basic_module = replicate 5 (ContainedRangeMap_init None)"
  by (simp_all add: files_layout_def functions_layout_def pubsym_layout_def cfi_init_layout_def cfi_delta_layout_def
      range_map_layout_def map_layout_def range_bytes_def function_bytes_def public_bytes_def line_bytes_def
      sample_basic_module_def BasicModule_init_def STACK_INFO_LAST_def)

lemma sample_layout_small: "length (module_layout sample_basic_module) < 2 ^ 32"
proof -
  have "length (concat (map (\<lambda>part. u32_bytes (length part)) (module_parts sample_basic_module))) = 4 * 10"
    by (subst length_concat_const [of _ _ 4]) (simp_all add: module_parts_def sample_parts(6))
  moreover have "length (concat (module_parts sample_basic_module)) = 276"
    by (simp add: module_parts_def sample_parts wfi_layout_def length_concat crm_layout_init sum_list_replicate)
  ultimately show ?thesis by (simp add: module_layout_def)
qed

theorem fast_resolver_agrees_witness:
  "\<exists>buf fm. ModuleSerializer_Serialize (\<lambda>_. 204) sample_basic_module = Some (buf, length buf) \<and>
    FastModule_LoadMapFromMemory (buf @ [0]) (FastModule_init ''m'') = Some (True, fm) \<and>
    map_option function_name (Fast_LookupAddress fm 4096 (sample_frame 4118)) = Some ''f'' \<and>
    map_option source_line (Fast_LookupAddress fm 4096 (sample_frame 4118)) = Some 5"
proof -
  have f: "function_name (Module_LookupAddress sample_basic_module 4096 (sample_frame 4118)) = ''f''"
    "source_line (Module_LookupAddress sample_basic_module 4096 (sample_frame 4118)) = 5" by code_simp+
  obtain buf fm where b: "ModuleSerializer_Serialize (\<lambda>_. 204) sample_basic_module = Some (buf, length buf)"
    "FastModule_LoadMapFromMemory (buf @ [0]) (FastModule_init ''m'') = Some (True, fm)"
    "Fast_LookupAddress fm 4096 (sample_frame 4118) = Some (Module_LookupAddress sample_basic_module 4096 (sample_frame 4118))"
    using fast_resolver_agrees [OF sample_basic_module_loaded [symmetric] sample_layout_small, of "\<lambda>_. 204" "[0]"] by blast
  show ?thesis using b f by (intro exI [of _ buf] exI [of _ fm]) simp
qed

end
