(* ===== verification/Minidump_File.thy ===== *)
theory Minidump_File
  imports Map_Serializers
begin

text \<open>
  The file layer of the minidump reader (class \<open>Minidump\<close> in \<open>processor/minidump.cc\<close> and
  \<open>google_breakpad/processor/minidump.h\<close>): the input stream, byte order, the header and the directory of
  streams, strings.

  A method that returns a \<open>bool\<close> or a pointer and works on the file returns an option, \<open>None\<close> being
  \<open>false\<close> or \<open>NULL\<close>, together with the changed \<open>Minidump\<close>: a failed read leaves a trace in the input
  stream. The streams that are cached in the directory are a parameter \<open>'s\<close> here; their types are in the
  theories above this one.
\<close>

section \<open>Input streams\<close>

text \<open>\<open>std::istream\<close> as far as it is used: the bytes, the position, \<open>failbit\<close>, and whether its buffer
  refuses to seek past the end (a string stream does, a file does not). A read that comes short sets
  \<open>failbit\<close>; while it is set, \<open>read\<close> extracts nothing and \<open>seekg\<close> does not move.\<close>

record IStream =
  st_bytes :: "u8 list"
  st_pos :: nat
  st_fail :: bool
  st_limited :: bool

definition istream_read :: "nat \<Rightarrow> IStream \<Rightarrow> u8 list \<times> IStream" where
  "istream_read n s =
     (if st_fail s then ([], s)
      else
        (let got = take n (drop (st_pos s) (st_bytes s))
         in (got, s\<lparr>st_pos := st_pos s + length got, st_fail := length got < n\<rparr>)))"

definition istream_seekg :: "nat \<Rightarrow> IStream \<Rightarrow> IStream" where
  "istream_seekg offset s =
     (if st_fail s then s
      else if st_limited s \<and> length (st_bytes s) < offset then s\<lparr>st_fail := True\<rparr>
      else s\<lparr>st_pos := offset\<rparr>)"

section \<open>Structures\<close>

definition at16 :: "u8 list \<Rightarrow> nat \<Rightarrow> u16" where
  "at16 bs i = le_value (take 2 (drop i bs))"

definition at32 :: "u8 list \<Rightarrow> nat \<Rightarrow> u32" where
  "at32 bs i = le_value (take 4 (drop i bs))"

definition at64 :: "u8 list \<Rightarrow> nat \<Rightarrow> u64" where
  "at64 bs i = le_value (take 8 (drop i bs))"

record MDRawHeader =
  signature :: u32
  version_word :: u32
  stream_count :: u32
  stream_directory_rva :: u32
  checksum :: u32
  time_date_stamp :: u32
  header_flags :: u64

definition MD_HEADER_SIGNATURE :: u32 where
  "MD_HEADER_SIGNATURE = 0x504d444d"

definition MD_HEADER_VERSION :: u32 where
  "MD_HEADER_VERSION = 0x0000a793"

definition MDRawHeader_size :: nat where
  "MDRawHeader_size = 32"

definition MDRawHeader_of :: "u8 list \<Rightarrow> MDRawHeader" where
  "MDRawHeader_of bs =
     \<lparr>signature = at32 bs 0, version_word = at32 bs 4, stream_count = at32 bs 8, stream_directory_rva = at32 bs 12,
      checksum = at32 bs 16, time_date_stamp = at32 bs 20, header_flags = at64 bs 24\<rparr>"

definition Swap_header :: "MDRawHeader \<Rightarrow> MDRawHeader" where
  "Swap_header h =
     \<lparr>signature = Swap32 (signature h), version_word = Swap32 (version_word h), stream_count = Swap32 (stream_count h),
      stream_directory_rva = Swap32 (stream_directory_rva h), checksum = Swap32 (checksum h),
      time_date_stamp = Swap32 (time_date_stamp h), header_flags = Swap64 (header_flags h)\<rparr>"

record MDLocationDescriptor =
  loc_data_size :: u32
  loc_rva :: u32

definition MDLocationDescriptor_of :: "u8 list \<Rightarrow> MDLocationDescriptor" where
  "MDLocationDescriptor_of bs = \<lparr>loc_data_size = at32 bs 0, loc_rva = at32 bs 4\<rparr>"

definition Swap_location :: "MDLocationDescriptor \<Rightarrow> MDLocationDescriptor" where
  "Swap_location l = \<lparr>loc_data_size = Swap32 (loc_data_size l), loc_rva = Swap32 (loc_rva l)\<rparr>"

record MDRawDirectory =
  stream_type :: u32
  location :: MDLocationDescriptor

definition MDRawDirectory_size :: nat where
  "MDRawDirectory_size = 12"

definition MDRawDirectory_of :: "u8 list \<Rightarrow> MDRawDirectory" where
  "MDRawDirectory_of bs = \<lparr>stream_type = at32 bs 0, location = MDLocationDescriptor_of (drop 4 bs)\<rparr>"

definition Swap_directory :: "MDRawDirectory \<Rightarrow> MDRawDirectory" where
  "Swap_directory d = \<lparr>stream_type = Swap32 (stream_type d), location = Swap_location (location d)\<rparr>"

text \<open>An array of \<open>n\<close> structures of \<open>size\<close> bytes each.\<close>

fun array_of :: "nat \<Rightarrow> (u8 list \<Rightarrow> 'a) \<Rightarrow> nat \<Rightarrow> u8 list \<Rightarrow> 'a list" where
  "array_of sz f 0 bs = []"
| "array_of sz f (Suc n) bs = f (take sz bs) # array_of sz f n (drop sz bs)"

section \<open>Text\<close>

text \<open>The UTF-8 form of one code point.\<close>

definition utf8_append :: "u32 \<Rightarrow> u8 list option" where
  "utf8_append unichar =
     (if unichar < 0x80 then Some [ucast unichar]
      else if unichar < 0x800 then
        Some [0xc0 OR ucast (drop_bit 6 unichar), 0x80 OR ucast (unichar AND 0x3f)]
      else if unichar < 0x10000 then
        Some [0xe0 OR ucast (drop_bit 12 unichar), 0x80 OR ucast (drop_bit 6 unichar AND 0x3f),
              0x80 OR ucast (unichar AND 0x3f)]
      else if unichar < 0x200000 then
        Some [0xf0 OR ucast (drop_bit 18 unichar), 0x80 OR ucast (drop_bit 12 unichar AND 0x3f),
              0x80 OR ucast (drop_bit 6 unichar AND 0x3f), 0x80 OR ucast (unichar AND 0x3f)]
      else None)"

text \<open>The loop of \<open>UTF16ToUTF8\<close>. The second word of a surrogate pair is used as it is in the file, not
  swapped.\<close>

fun utf16_loop :: "bool \<Rightarrow> u16 list \<Rightarrow> u8 list \<Rightarrow> u8 list option" where
  "utf16_loop swap [] out = Some out"
| "utf16_loop swap (w # ws) out =
     (let in_word = (if swap then Swap16 w else w) in
      if 0xdc00 \<le> in_word \<and> in_word \<le> 0xdcff then None
      else if 0xd800 \<le> in_word \<and> in_word \<le> 0xdbff then
        (case ws of
           [] \<Rightarrow> None
         | low # rest \<Rightarrow>
             if low < 0xdc00 \<or> 0xdcff < low then None
             else
               (case utf8_append (push_bit 10 (ucast in_word - 0xd7c0) OR (ucast low AND 0x03ff)) of
                  None \<Rightarrow> None
                | Some bs \<Rightarrow> utf16_loop swap rest (out @ bs)))
      else
        (case utf8_append (ucast in_word) of
           None \<Rightarrow> None
         | Some bs \<Rightarrow> utf16_loop swap ws (out @ bs)))"

definition UTF16ToUTF8 :: "u16 list \<Rightarrow> bool \<Rightarrow> string option" where
  "UTF16ToUTF8 words swap = map_option (map char_of_byte) (utf16_loop swap words [])"

fun UTF16codeunits :: "u16 list \<Rightarrow> nat \<Rightarrow> nat" where
  "UTF16codeunits ws 0 = 0"
| "UTF16codeunits [] (Suc maxlen) = 0"
| "UTF16codeunits (w # ws) (Suc maxlen) = (if w \<noteq> 0 then Suc (UTF16codeunits ws maxlen) else 0)"

section \<open>State\<close>

record 's MinidumpStreamInfo =
  stream_index :: u32
  cached_stream :: "'s option"

record 's Minidump =
  mf_header :: MDRawHeader
  mf_directory :: "MDRawDirectory list option"
  mf_stream_map :: "(u32, 's MinidumpStreamInfo) std_map"
  mf_path :: string
  mf_stream :: "IStream option"
  mf_swap :: bool
  mf_valid :: bool

text \<open>The static limits.\<close>

record MinidumpLimits =
  max_streams :: u32
  max_string_length :: u32

definition default_minidump_limits :: MinidumpLimits where
  "default_minidump_limits = \<lparr>max_streams = 128, max_string_length = 1024\<rparr>"

definition zero_header :: MDRawHeader where
  "zero_header = \<lparr>signature = 0, version_word = 0, stream_count = 0, stream_directory_rva = 0, checksum = 0,
     time_date_stamp = 0, header_flags = 0\<rparr>"

definition Minidump_of_path :: "string \<Rightarrow> 's Minidump" where
  "Minidump_of_path path = \<lparr>mf_header = zero_header, mf_directory = None, mf_stream_map = [], mf_path = path,
     mf_stream = None, mf_swap = False, mf_valid = False\<rparr>"

definition Minidump_of_stream :: "IStream \<Rightarrow> 's Minidump" where
  "Minidump_of_stream s = \<lparr>mf_header = zero_header, mf_directory = None, mf_stream_map = [], mf_path = [],
     mf_stream = Some s, mf_swap = False, mf_valid = False\<rparr>"

type_synonym ('s, 'a) reader = "'s Minidump \<Rightarrow> 'a option \<times> 's Minidump"

text \<open>Two steps, the second only if the first succeeds.\<close>

definition and_then :: "('s, 'a) reader \<Rightarrow> ('a \<Rightarrow> ('s, 'b) reader) \<Rightarrow> ('s, 'b) reader" where
  "and_then f g md = (case f md of (None, md') \<Rightarrow> (None, md') | (Some x, md') \<Rightarrow> g x md')"

definition give :: "'a \<Rightarrow> ('s, 'a) reader" where
  "give x md = (Some x, md)"

definition fail :: "('s, 'a) reader" where
  "fail md = (None, md)"

section \<open>Reading bytes\<close>

definition ReadBytes :: "nat \<Rightarrow> ('s, u8 list) reader" where
  "ReadBytes count md =
     (case mf_stream md of
        None \<Rightarrow> (None, md)
      | Some s \<Rightarrow>
          (case istream_read count s of
             (got, s') \<Rightarrow> (if length got = count then Some got else None, md\<lparr>mf_stream := Some s'\<rparr>)))"

definition SeekSet :: "nat \<Rightarrow> ('s, unit) reader" where
  "SeekSet offset md =
     (case mf_stream md of
        None \<Rightarrow> (None, md)
      | Some s \<Rightarrow>
          (let s' = istream_seekg offset s
           in (if st_fail s' then None else Some (), md\<lparr>mf_stream := Some s'\<rparr>)))"

text \<open>\<open>None\<close> is the result -1.\<close>

definition Tell :: "'s Minidump \<Rightarrow> nat option" where
  "Tell md =
     (if \<not> mf_valid md then None
      else case mf_stream md of
        None \<Rightarrow> None
      | Some s \<Rightarrow> if st_fail s then None else Some (st_pos s))"

text \<open>\<open>files\<close> is the file system: the stream that opening a path gives, a failed one if there is no such
  file.\<close>

definition Open :: "(string \<Rightarrow> IStream) \<Rightarrow> ('s, unit) reader" where
  "Open files md =
     (case mf_stream md of
        Some s \<Rightarrow> SeekSet 0 md
      | None \<Rightarrow>
          (let s = files (mf_path md)
           in (if st_fail s then None else Some (), md\<lparr>mf_stream := Some s\<rparr>)))"

definition file_swap :: "'s Minidump \<Rightarrow> bool" where
  "file_swap md = (if mf_valid md then mf_swap md else False)"

section \<open>The header and the directory\<close>

definition single_stream_types :: "u32 list" where
  "single_stream_types = [3, 4, 5, 6, 7, 15, 0x47670001, 0x43500001]"

text \<open>\<open>stream_map_[stream_type].stream_index = index\<close>.\<close>

definition set_stream_index ::
  "u32 \<Rightarrow> u32 \<Rightarrow> (u32, 's MinidumpStreamInfo) std_map \<Rightarrow> (u32, 's MinidumpStreamInfo) std_map" where
  "set_stream_index t index m =
     (let i = map_find m t;
          info = (if i = length m then \<lparr>stream_index = 0, cached_stream = None\<rparr> else snd (m ! i))
      in map_assign m t (info\<lparr>stream_index := index\<rparr>))"

fun index_streams ::
  "u32 \<Rightarrow> MDRawDirectory list \<Rightarrow> (u32, 's MinidumpStreamInfo) std_map
     \<Rightarrow> bool \<times> (u32, 's MinidumpStreamInfo) std_map" where
  "index_streams index [] m = (True, m)"
| "index_streams index (d # ds) m =
     (if stream_type d \<in> set single_stream_types \<and> map_find m (stream_type d) \<noteq> length m then (False, m)
      else index_streams (index + 1) ds (set_stream_index (stream_type d) index m))"

definition ReadDirectory :: "('s, unit) reader" where
  "ReadDirectory md =
     (let n = unat (stream_count (mf_header md)) in
      and_then (ReadBytes (MDRawDirectory_size * n))
        (\<lambda>bytes md.
           let raw = array_of MDRawDirectory_size MDRawDirectory_of n bytes;
               directory = (if mf_swap md then map Swap_directory raw else raw)
           in case index_streams 0 directory (mf_stream_map md) of
                (ok, m) \<Rightarrow>
                  if ok then (Some (), md\<lparr>mf_stream_map := m, mf_directory := Some directory\<rparr>)
                  else (None, md\<lparr>mf_stream_map := m\<rparr>)) md)"

definition ReadHeader :: "('s, unit) reader" where
  "ReadHeader =
     and_then (ReadBytes MDRawHeader_size)
       (\<lambda>bytes md.
          let h = MDRawHeader_of bytes;
              swap = (signature h \<noteq> MD_HEADER_SIGNATURE)
          in if swap \<and> Swap32 (signature h) \<noteq> MD_HEADER_SIGNATURE then (None, md\<lparr>mf_header := h\<rparr>)
             else (Some (), md\<lparr>mf_header := (if swap then Swap_header h else h), mf_swap := swap\<rparr>))"

definition Minidump_Read :: "(string \<Rightarrow> IStream) \<Rightarrow> MinidumpLimits \<Rightarrow> ('s, unit) reader" where
  "Minidump_Read files lim md =
     and_then (Open files) (\<lambda>_.
     and_then ReadHeader (\<lambda>_ md.
       if version_word (mf_header md) AND 0x0000ffff \<noteq> MD_HEADER_VERSION then (None, md)
       else
         and_then (SeekSet (unat (stream_directory_rva (mf_header md)))) (\<lambda>_ md.
           if max_streams lim < stream_count (mf_header md) then (None, md)
           else
             and_then (if stream_count (mf_header md) \<noteq> 0 then ReadDirectory else give ())
               (\<lambda>_ md. (Some (), md\<lparr>mf_valid := True\<rparr>)) md) md))
     (md\<lparr>mf_directory := None, mf_stream_map := [], mf_valid := False\<rparr>)"

definition GetDirectoryEntryAtIndex :: "'s Minidump \<Rightarrow> u32 \<Rightarrow> MDRawDirectory option" where
  "GetDirectoryEntryAtIndex md index =
     (if \<not> mf_valid md then None
      else if stream_count (mf_header md) \<le> index then None
      else map_option (\<lambda>ds. ds ! unat index) (mf_directory md))"

definition SeekToStreamType :: "u32 \<Rightarrow> ('s, u32) reader" where
  "SeekToStreamType t md =
     (if \<not> mf_valid md then (None, md)
      else
        (let i = map_find (mf_stream_map md) t in
         if i = length (mf_stream_map md) then (None, md)
         else
           (let index = stream_index (snd (mf_stream_map md ! i)) in
            if stream_count (mf_header md) \<le> index then (None, md)
            else
              (case mf_directory md of
                 None \<Rightarrow> (None, md)
               | Some ds \<Rightarrow>
                   and_then (SeekSet (unat (loc_rva (location (ds ! unat index)))))
                     (\<lambda>_. give (loc_data_size (location (ds ! unat index)))) md))))"

section \<open>Strings\<close>

definition ReadWord :: "bool \<Rightarrow> ('s, u32) reader" where
  "ReadWord swap = and_then (ReadBytes 4) (\<lambda>bytes. give (if swap then Swap32 (at32 bytes 0) else at32 bytes 0))"

definition ReadString :: "MinidumpLimits \<Rightarrow> nat \<Rightarrow> ('s, string) reader" where
  "ReadString lim offset md =
     (if \<not> mf_valid md then (None, md)
      else
        and_then (SeekSet offset) (\<lambda>_.
        and_then (ReadWord (mf_swap md)) (\<lambda>bytes.
          if bytes mod 2 \<noteq> 0 then fail
          else if max_string_length lim < bytes div 2 then fail
          else
            and_then (if bytes div 2 \<noteq> 0 then ReadBytes (unat bytes) else give [])
              (\<lambda>content md'. (UTF16ToUTF8 (array_of 2 (\<lambda>bs. at16 bs 0) (unat bytes div 2) content) (mf_swap md'), md')))) md)"

definition ReadUTF8String :: "MinidumpLimits \<Rightarrow> nat \<Rightarrow> ('s, string) reader" where
  "ReadUTF8String lim offset md =
     (if \<not> mf_valid md then (None, md)
      else
        and_then (SeekSet offset) (\<lambda>_.
        and_then (ReadWord (mf_swap md)) (\<lambda>bytes.
          if max_string_length lim < bytes then fail
          else and_then (ReadBytes (unat bytes)) (\<lambda>content. give (map char_of_byte content)))) md)"

fun read_strings :: "MinidumpLimits \<Rightarrow> u32 list \<Rightarrow> string list \<Rightarrow> ('s, string list) reader" where
  "read_strings lim [] string_list md = (Some string_list, md)"
| "read_strings lim (r # rs) string_list md =
     and_then (ReadUTF8String lim (unat (if file_swap md then Swap32 r else r)))
       (\<lambda>entry. read_strings lim rs (string_list @ [entry])) md"

definition ReadStringList :: "MinidumpLimits \<Rightarrow> nat \<Rightarrow> ('s, string list) reader" where
  "ReadStringList lim offset =
     and_then (SeekSet offset) (\<lambda>_ md.
     and_then (ReadWord (mf_swap md)) (\<lambda>count.
     and_then (ReadBytes (4 * unat count)) (\<lambda>content.
       read_strings lim (array_of 4 (\<lambda>bs. at32 bs 0) (unat count) content) [])) md)"

fun read_dictionary :: "MinidumpLimits \<Rightarrow> (u32 \<times> u32) list \<Rightarrow> (string, string) std_map \<Rightarrow> ('s, (string, string) std_map) reader" where
  "read_dictionary lim [] dict md = (Some dict, md)"
| "read_dictionary lim ((k, v) # es) dict md =
     and_then (ReadUTF8String lim (unat (if file_swap md then Swap32 k else k))) (\<lambda>key.
     and_then (ReadUTF8String lim (unat (if file_swap md then Swap32 v else v))) (\<lambda>value.
       read_dictionary lim es (map_insert dict key value))) md"

definition ReadSimpleStringDictionary :: "MinidumpLimits \<Rightarrow> nat \<Rightarrow> ('s, (string, string) std_map) reader" where
  "ReadSimpleStringDictionary lim offset =
     and_then (SeekSet offset) (\<lambda>_ md.
     and_then (ReadWord (file_swap md)) (\<lambda>count.
     and_then (ReadBytes (8 * unat count)) (\<lambda>content.
       read_dictionary lim (array_of 8 (\<lambda>bs. (at32 bs 0, at32 bs 4)) (unat count) content) [])) md)"


section \<open>Steps\<close>

lemma give_simps [simp]: "give x md = (Some x, md)" "fail md = (None, md)"
  by (simp_all add: give_def fail_def)

lemma and_then_Some:
  "and_then f g md = (Some y, md') \<longleftrightarrow> (\<exists>x md1. f md = (Some x, md1) \<and> g x md1 = (Some y, md'))"
  by (auto simp: and_then_def split: prod.splits option.splits)

lemma and_then_step: "f md = (Some x, md1) \<Longrightarrow> and_then f g md = g x md1"
  by (simp add: and_then_def)

lemma and_then_stop: "fst (f md) = None \<Longrightarrow> fst (and_then f g md) = None"
  by (auto simp: and_then_def split: prod.splits option.splits)

text \<open>Once a read has come short the stream stays as it is.\<close>

definition broken :: "'s Minidump \<Rightarrow> bool" where
  "broken md \<longleftrightarrow> (\<exists>s. mf_stream md = Some s \<and> st_fail s)"

lemma ReadBytes_breaks: "ReadBytes n md = (None, md') \<Longrightarrow> mf_stream md \<noteq> None \<Longrightarrow> broken md'"
  by (auto simp: ReadBytes_def istream_read_def broken_def Let_def split: option.splits prod.splits if_splits)

lemma broken_steps:
  assumes "broken md"
  shows "SeekSet offset md = (None, md)" "0 < n \<Longrightarrow> ReadBytes n md = (None, md)" "Tell md = None"
proof -
  obtain s where s: "mf_stream md = Some s" "st_fail s" using assms by (auto simp: broken_def)
  then have "md\<lparr>mf_stream := Some s\<rparr> = md" by (cases md) simp
  then show "SeekSet offset md = (None, md)" "0 < n \<Longrightarrow> ReadBytes n md = (None, md)" "Tell md = None"
    using s by (simp_all add: SeekSet_def istream_seekg_def ReadBytes_def istream_read_def Tell_def)
qed

section \<open>A successful read\<close>

lemma ReadBytes_Some: "ReadBytes n md = (Some bs, md') \<Longrightarrow>
    length bs = n \<and> (\<exists>s. md' = md\<lparr>mf_stream := Some s\<rparr>)"
  by (auto simp: ReadBytes_def split: option.splits prod.splits if_splits)

lemma SeekSet_Some: "SeekSet n md = (Some u, md') \<Longrightarrow> \<exists>s. md' = md\<lparr>mf_stream := Some s\<rparr>"
  by (auto simp: SeekSet_def Let_def split: option.splits if_splits)

lemma Open_Some: "Open files md = (Some u, md') \<Longrightarrow> \<exists>s. md' = md\<lparr>mf_stream := Some s\<rparr>"
  using SeekSet_Some [of 0 md u md'] by (auto simp: Open_def Let_def split: option.splits if_splits)

lemma length_array_of [simp]: "length (array_of sz f n bs) = n"
  by (induction n arbitrary: bs) auto

text \<open>The position of the last entry of a type.\<close>

fun last_pos :: "u32 \<Rightarrow> MDRawDirectory list \<Rightarrow> nat option" where
  "last_pos t [] = None"
| "last_pos t (d # ds) =
     (case last_pos t ds of Some k \<Rightarrow> Some (Suc k) | None \<Rightarrow> if stream_type d = t then Some 0 else None)"

lemma last_pos_Some:
  assumes "last_pos t ds = Some k"
  shows "k < length ds" "stream_type (ds ! k) = t" "\<And>j. k < j \<Longrightarrow> j < length ds \<Longrightarrow> stream_type (ds ! j) \<noteq> t"
proof -
  have "k < length ds \<and> stream_type (ds ! k) = t \<and> (\<forall>j. k < j \<longrightarrow> j < length ds \<longrightarrow> stream_type (ds ! j) \<noteq> t)"
    using assms
  proof (induction ds arbitrary: k)
    case (Cons d ds)
    show ?case
    proof (cases "last_pos t ds")
      case None
      then have "stream_type x \<noteq> t" if "x \<in> set ds" for x
        using that by (induction ds) (auto split: option.splits if_splits)
      then show ?thesis using Cons.prems None by (auto simp: nth_Cons split: if_splits nat.splits)
    next
      case (Some l)
      then show ?thesis using Cons.prems Cons.IH [OF Some] by (auto simp: nth_Cons split: nat.splits)
    qed
  qed simp
  then show "k < length ds" "stream_type (ds ! k) = t" "\<And>j. k < j \<Longrightarrow> j < length ds \<Longrightarrow> stream_type (ds ! j) \<noteq> t"
    by auto
qed

lemma last_pos_None: "last_pos t ds = None \<longleftrightarrow> (\<forall>d\<in>set ds. stream_type d \<noteq> t)"
  by (induction ds) (auto split: option.splits)

definition fresh_info :: "u32 \<Rightarrow> 's MinidumpStreamInfo" where
  "fresh_info i = \<lparr>stream_index = i, cached_stream = None\<rparr>"

lemma set_stream_index_fresh:
  assumes "map_ok m" "\<forall>t info. map_of m t = Some info \<longrightarrow> cached_stream info = None"
  shows "map_ok (set_stream_index t i m)" "map_of (set_stream_index t i m) = (map_of m)(t \<mapsto> fresh_info i)"
proof -
  have "(if map_find m t = length m then \<lparr>stream_index = 0, cached_stream = None\<rparr> else snd (m ! map_find m t))
      \<lparr>stream_index := i\<rparr> = fresh_info i"
  proof (cases "map_of m t")
    case None
    then show ?thesis using map_find_None [OF assms(1) None] by (simp add: fresh_info_def)
  next
    case (Some info)
    then have "cached_stream info = None" using assms(2) by blast
    then show ?thesis using map_find_Some [OF assms(1) Some] by (simp add: fresh_info_def)
  qed
  then have s: "set_stream_index t i m = map_assign m t (fresh_info i)" by (simp add: set_stream_index_def Let_def)
  show "map_ok (set_stream_index t i m)" unfolding s by (rule map_ok_assign [OF assms(1)])
  show "map_of (set_stream_index t i m) = (map_of m)(t \<mapsto> fresh_info i)" unfolding s by (rule map_of_assign [OF assms(1)])
qed

lemma index_streams_spec:
  assumes "map_ok m" "\<forall>t info. map_of m t = Some info \<longrightarrow> cached_stream info = None"
    and "index_streams i ds m = (ok, m')"
  shows "ok \<longleftrightarrow> (\<forall>t\<in>set single_stream_types.
      length (filter (\<lambda>d. stream_type d = t) ds) \<le> (if map_of m t = None then 1 else 0))"
    "ok \<Longrightarrow> map_ok m' \<and> (\<forall>t. map_of m' t =
      (case last_pos t ds of Some k \<Rightarrow> Some (fresh_info (i + of_nat k)) | None \<Rightarrow> map_of m t))"
proof -
  have "(ok \<longleftrightarrow> (\<forall>t\<in>set single_stream_types.
      length (filter (\<lambda>d. stream_type d = t) ds) \<le> (if map_of m t = None then 1 else 0))) \<and>
    (ok \<longrightarrow> map_ok m' \<and> (\<forall>t. map_of m' t =
      (case last_pos t ds of Some k \<Rightarrow> Some (fresh_info (i + of_nat k)) | None \<Rightarrow> map_of m t)))"
    using assms
  proof (induction ds arbitrary: i m)
    case (Cons d ds)
    have f: "map_find m (stream_type d) \<noteq> length m \<longleftrightarrow> map_of m (stream_type d) \<noteq> None"
      using map_find_iff [OF Cons.prems(1)] by (simp add: map_of_eq_None_iff)
    show ?case
    proof (cases "stream_type d \<in> set single_stream_types \<and> map_of m (stream_type d) \<noteq> None")
      case True
      then show ?thesis using Cons.prems(3) f by (auto intro!: bexI [of _ "stream_type d"])
    next
      case False
      let ?m = "set_stream_index (stream_type d) i m"
      note s = set_stream_index_fresh [OF Cons.prems(1,2), of "stream_type d" i]
      have c: "\<forall>t info. map_of ?m t = Some info \<longrightarrow> cached_stream info = None"
        using Cons.prems(2) by (auto simp: s(2) fresh_info_def)
      have r: "index_streams (i + 1) ds ?m = (ok, m')" using Cons.prems(3) False f by auto
      note IH = Cons.IH [OF s(1) c r]
      have "(\<forall>t\<in>set single_stream_types. length (filter (\<lambda>d. stream_type d = t) ds) \<le> (if map_of ?m t = None then 1 else 0)) \<longleftrightarrow>
          (\<forall>t\<in>set single_stream_types. length (filter (\<lambda>d. stream_type d = t) (d # ds)) \<le> (if map_of m t = None then 1 else 0))"
        by (rule ball_cong [OF refl]) (use False in \<open>auto simp: s(2)\<close>)
      then show ?thesis
        using IH by (auto simp: s(2) add.assoc split: option.splits)
    qed
  qed simp
  then show "ok \<longleftrightarrow> (\<forall>t\<in>set single_stream_types.
      length (filter (\<lambda>d. stream_type d = t) ds) \<le> (if map_of m t = None then 1 else 0))"
    "ok \<Longrightarrow> map_ok m' \<and> (\<forall>t. map_of m' t =
      (case last_pos t ds of Some k \<Rightarrow> Some (fresh_info (i + of_nat k)) | None \<Rightarrow> map_of m t))"
    by blast+
qed


section \<open>What reading the directory establishes\<close>

text \<open>The invariant of a valid minidump.\<close>

definition directory_ok :: "MinidumpLimits \<Rightarrow> 's Minidump \<Rightarrow> bool" where
  "directory_ok lim md \<longleftrightarrow>
     signature (mf_header md) = MD_HEADER_SIGNATURE \<and>
     version_word (mf_header md) AND 0x0000ffff = MD_HEADER_VERSION \<and>
     stream_count (mf_header md) \<le> max_streams lim \<and>
     (\<exists>ds. mf_directory md = (if ds = [] then None else Some ds) \<and> length ds = unat (stream_count (mf_header md)) \<and>
        map_ok (mf_stream_map md) \<and>
        (\<forall>t. map_of (mf_stream_map md) t = map_option (\<lambda>k. fresh_info (of_nat k)) (last_pos t ds)) \<and>
        (\<forall>t\<in>set single_stream_types. length (filter (\<lambda>d. stream_type d = t) ds) \<le> 1))"

lemma ReadHeader_Some:
  assumes "ReadHeader md = (Some u, md')"
  shows "signature (mf_header md') = MD_HEADER_SIGNATURE"
    "\<exists>s h b. md' = md\<lparr>mf_stream := Some s, mf_header := h, mf_swap := b\<rparr>"
proof -
  obtain bytes md1 where r: "ReadBytes MDRawHeader_size md = (Some bytes, md1)"
    and h: "(let h = MDRawHeader_of bytes; swap = (signature h \<noteq> MD_HEADER_SIGNATURE)
        in if swap \<and> Swap32 (signature h) \<noteq> MD_HEADER_SIGNATURE then (None, md1\<lparr>mf_header := h\<rparr>)
           else (Some (), md1\<lparr>mf_header := (if swap then Swap_header h else h), mf_swap := swap\<rparr>)) = (Some u, md')"
    using assms unfolding ReadHeader_def and_then_Some by blast
  obtain s where s: "md1 = md\<lparr>mf_stream := Some s\<rparr>" using ReadBytes_Some [OF r] by blast
  show "signature (mf_header md') = MD_HEADER_SIGNATURE"
    using h by (auto simp: Let_def Swap_header_def split: if_splits)
  show "\<exists>s h b. md' = md\<lparr>mf_stream := Some s, mf_header := h, mf_swap := b\<rparr>"
    using h by (auto simp: Let_def s split: if_splits)
qed

lemma ReadDirectory_Some:
  fixes md :: "'s Minidump"
  assumes "ReadDirectory md = (Some u, md')" "mf_stream_map md = []"
  shows "\<exists>s ds m. md' = md\<lparr>mf_stream := Some s, mf_stream_map := m, mf_directory := Some ds\<rparr> \<and>
    length ds = unat (stream_count (mf_header md)) \<and> map_ok m \<and>
    (\<forall>t. map_of m t = map_option (\<lambda>k. fresh_info (of_nat k)) (last_pos t ds)) \<and>
    (\<forall>t\<in>set single_stream_types. length (filter (\<lambda>d. stream_type d = t) ds) \<le> 1)"
proof -
  let ?n = "unat (stream_count (mf_header md))"
  obtain bytes md1 where r: "ReadBytes (MDRawDirectory_size * ?n) md = (Some bytes, md1)"
    and d: "(let raw = array_of MDRawDirectory_size MDRawDirectory_of ?n bytes;
           directory = (if mf_swap md1 then map Swap_directory raw else raw)
       in case index_streams 0 directory (mf_stream_map md1) of
            (ok, m) \<Rightarrow>
              if ok then (Some (), md1\<lparr>mf_stream_map := m, mf_directory := Some directory\<rparr>)
              else (None, md1\<lparr>mf_stream_map := m\<rparr>)) = (Some u, md')"
    using assms(1) unfolding ReadDirectory_def Let_def and_then_Some by blast
  obtain s where s: "md1 = md\<lparr>mf_stream := Some s\<rparr>" using ReadBytes_Some [OF r] by blast
  define ds where "ds = (if mf_swap md1 then map Swap_directory (array_of MDRawDirectory_size MDRawDirectory_of ?n bytes)
    else array_of MDRawDirectory_size MDRawDirectory_of ?n bytes)"
  obtain ok and m :: "(u32, 's MinidumpStreamInfo) std_map" where i: "index_streams 0 ds [] = (ok, m)" by fastforce
  have "ok" and md': "md' = md1\<lparr>mf_stream_map := m, mf_directory := Some ds\<rparr>"
    using d assms(2) i unfolding Let_def ds_def [symmetric] by (auto simp: s split: if_splits)
  note spec = index_streams_spec [OF map_ok_Nil _ i]
  have "map_ok m \<and> (\<forall>t. map_of m t = map_option (\<lambda>k. fresh_info (of_nat k)) (last_pos t ds))"
    "\<forall>t\<in>set single_stream_types. length (filter (\<lambda>d. stream_type d = t) ds) \<le> 1"
    using spec \<open>ok\<close> by (simp_all add: option.case_eq_if map_option_case)
  moreover have "length ds = ?n" by (simp add: ds_def)
  ultimately show ?thesis using md' s by blast
qed

lemma Minidump_Read_establishes:
  assumes "Minidump_Read files lim md = (Some u, md')"
  shows "mf_valid md' \<and> directory_ok lim md'"
proof -
  let ?md0 = "md\<lparr>mf_directory := None, mf_stream_map := [], mf_valid := False\<rparr>"
  obtain md1 md2 md3 where m1: "\<exists>u. Open files ?md0 = (Some u, md1)" and m2: "\<exists>u. ReadHeader md1 = (Some u, md2)"
    and v: "version_word (mf_header md2) AND 0x0000ffff = MD_HEADER_VERSION"
    and m3: "\<exists>u. SeekSet (unat (stream_directory_rva (mf_header md2))) md2 = (Some u, md3)"
    and l: "\<not> max_streams lim < stream_count (mf_header md3)"
    and m4: "and_then (if stream_count (mf_header md3) \<noteq> 0 then ReadDirectory else give ())
               (\<lambda>_ md. (Some (), md\<lparr>mf_valid := True\<rparr>)) md3 = (Some u, md')"
    using assms unfolding Minidump_Read_def by (auto simp: and_then_Some split: if_splits)
  obtain s1 where s1: "md1 = ?md0\<lparr>mf_stream := Some s1\<rparr>" using m1 Open_Some by blast
  obtain s2 h b where s2: "md2 = md1\<lparr>mf_stream := Some s2, mf_header := h, mf_swap := b\<rparr>"
    and sig: "signature (mf_header md2) = MD_HEADER_SIGNATURE" using m2 ReadHeader_Some by metis
  obtain s3 where s3: "md3 = md2\<lparr>mf_stream := Some s3\<rparr>" using m3 SeekSet_Some by blast
  have z: "mf_stream_map md3 = []" "mf_directory md3 = None" "mf_header md3 = h" by (simp_all add: s1 s2 s3)
  show ?thesis
  proof (cases "stream_count h = 0")
    case True
    then have "md' = md3\<lparr>mf_valid := True\<rparr>" using m4 z(3) by (simp add: and_then_def)
    then show ?thesis using True sig v l z by (auto simp: directory_ok_def s2 not_less intro!: exI [of _ "[]"])
  next
    case False
    then obtain md4 u4 where r: "ReadDirectory md3 = (Some u4, md4)" and md': "md' = md4\<lparr>mf_valid := True\<rparr>"
      using m4 z(3) unfolding and_then_Some by auto
    obtain s4 ds m where d: "md4 = md3\<lparr>mf_stream := Some s4, mf_stream_map := m, mf_directory := Some ds\<rparr>"
      "length ds = unat (stream_count (mf_header md3))" "map_ok m"
      "\<forall>t. map_of m t = map_option (\<lambda>k. fresh_info (of_nat k)) (last_pos t ds)"
      "\<forall>t\<in>set single_stream_types. length (filter (\<lambda>d. stream_type d = t) ds) \<le> 1"
      using ReadDirectory_Some [OF r z(1)] by blast
    have ne: "ds \<noteq> []" using d(2) False z(3) by (auto simp: unat_eq_zero)
    then show ?thesis
      using d sig v l unfolding directory_ok_def by (intro conjI exI [of _ ds]) (simp_all add: md' z(3) s2 s3 not_less)
  qed
qed

text \<open>C12. Reading the header and the directory of streams establishes the invariant of the minidump,
  whatever bytes the file has: the signature in the file's byte order, the version, a number of streams
  within the limit, the whole directory read, each stream type mapped to its last entry in the
  directory, and at most one entry for the types that a dump may have only once.\<close>

theorem Minidump_Read_sound:
  assumes "Minidump_Read files lim md = (Some u, md')"
  shows "mf_valid md' \<and> directory_ok lim md'"
  by (rule Minidump_Read_establishes [OF assms])

text \<open>C22. One read past the end of the file makes the whole minidump unreadable. The short read sets
  \<open>failbit\<close> in the input stream and nothing clears it: from then on every \<open>SeekSet\<close>, every string, every
  stream and even reading the minidump again from its beginning fail.\<close>

theorem short_read_is_final:
  assumes "ReadBytes n md = (None, md')" "mf_stream md \<noteq> None"
  shows "SeekSet offset md' = (None, md') \<and> fst (ReadString lim offset md') = None \<and>
    fst (SeekToStreamType t md') = None \<and> fst (Minidump_Read files lim md') = None"
proof -
  have b: "broken md'" by (rule ReadBytes_breaks [OF assms])
  note s = broken_steps(1) [OF b]
  have "broken (md'\<lparr>mf_directory := None, mf_stream_map := [], mf_valid := False\<rparr>)" using b by (simp add: broken_def)
  from broken_steps(1) [OF this, of 0]
  have "fst (Open files (md'\<lparr>mf_directory := None, mf_stream_map := [], mf_valid := False\<rparr>)) = None"
    using b by (auto simp: Open_def broken_def)
  then have r: "fst (Minidump_Read files lim md') = None" unfolding Minidump_Read_def by (rule and_then_stop)
  have "fst (ReadString lim offset md') = None" unfolding ReadString_def by (auto intro!: and_then_stop simp: s)
  moreover have "fst (SeekToStreamType t md') = None"
    unfolding SeekToStreamType_def Let_def by (auto intro!: and_then_stop simp: broken_steps(1) [OF b] split: option.split)
  ultimately show ?thesis using s r by blast
qed


section \<open>Files in both byte orders\<close>

text \<open>An intact input stream over given bytes.\<close>

definition input :: "u8 list \<Rightarrow> bool \<Rightarrow> nat \<Rightarrow> IStream" where
  "input bytes limited p = \<lparr>st_bytes = bytes, st_pos = p, st_fail = False, st_limited = limited\<rparr>"

lemma ReadBytes_at:
  assumes "mf_stream md = Some (input bytes lm p)" "holds bytes (int p) bs" "n = length bs"
  shows "ReadBytes n md = (Some bs, md\<lparr>mf_stream := Some (input bytes lm (p + n))\<rparr>)"
proof -
  have "take n (drop p bytes) = bs" using assms(2,3) by (auto simp: holds_iff)
  then show ?thesis
    using assms(1,3) by (simp add: ReadBytes_def input_def istream_read_def Let_def)
qed

lemma SeekSet_at:
  assumes "mf_stream md = Some (input bytes lm p)" "offset \<le> length bytes"
  shows "SeekSet offset md = (Some (), md\<lparr>mf_stream := Some (input bytes lm offset)\<rparr>)"
  using assms by (simp add: SeekSet_def input_def istream_seekg_def)

lemma holds_bound: "holds bytes (int p) bs \<Longrightarrow> p + length bs \<le> length bytes"
  by (auto simp: holds_iff)

text \<open>A word as a machine of the one or the other byte order writes it; \<open>b\<close> tells that the order is
  not the reader's.\<close>

definition word_bytes :: "bool \<Rightarrow> 'w::len word \<Rightarrow> u8 list" where
  "word_bytes b w = (if b then rev (le_bytes w) else le_bytes w)"

lemma length_word_bytes [simp]: "length (word_bytes b (w :: 'w::len word)) = LENGTH('w) div 8"
  by (simp add: word_bytes_def)

lemma le_value_u16 [simp]: "le_value (le_bytes (w :: u16)) = w"
  by (rule le_value_bytes) simp

lemma Swap_rev:
  "le_value (rev (le_bytes (v :: u16))) = Swap16 v" "le_value (rev (le_bytes (w :: u32))) = Swap32 w"
  "le_value (rev (le_bytes (x :: u64))) = Swap64 x"
  using Swap16_reverses [of "le_bytes v"] Swap32_reverses [of "le_bytes w"] Swap64_reverses [of "le_bytes x"] by simp_all

lemma Swap_Swap [simp]: "Swap16 (Swap16 v) = v" "Swap32 (Swap32 w) = w" "Swap64 (Swap64 x) = x"
  using Swap16_reverses [of "rev (le_bytes v)"] Swap32_reverses [of "rev (le_bytes w)"]
    Swap64_reverses [of "rev (le_bytes x)"] by (simp_all add: Swap_rev)

lemma le_value_word_bytes [simp]:
  "le_value (word_bytes b (v :: u16)) = (if b then Swap16 v else v)"
  "le_value (word_bytes b (w :: u32)) = (if b then Swap32 w else w)"
  "le_value (word_bytes b (x :: u64)) = (if b then Swap64 x else x)"
  by (simp_all add: word_bytes_def Swap_rev)

lemmas at_defs = at16_def at32_def at64_def

definition header_bytes :: "bool \<Rightarrow> MDRawHeader \<Rightarrow> u8 list" where
  "header_bytes b h = word_bytes b (signature h) @ word_bytes b (version_word h) @ word_bytes b (stream_count h) @
     word_bytes b (stream_directory_rva h) @ word_bytes b (checksum h) @ word_bytes b (time_date_stamp h) @
     word_bytes b (header_flags h)"

definition location_bytes :: "bool \<Rightarrow> MDLocationDescriptor \<Rightarrow> u8 list" where
  "location_bytes b l = word_bytes b (loc_data_size l) @ word_bytes b (loc_rva l)"

definition directory_bytes :: "bool \<Rightarrow> MDRawDirectory \<Rightarrow> u8 list" where
  "directory_bytes b d = word_bytes b (stream_type d) @ location_bytes b (location d)"

lemma header_decode:
  "length (header_bytes b h) = MDRawHeader_size" "MDRawHeader_of (header_bytes b h) = (if b then Swap_header h else h)"
  "Swap_header (Swap_header h) = h"
  by (simp_all add: header_bytes_def MDRawHeader_size_def MDRawHeader_of_def at_defs Swap_header_def)

lemma location_decode:
  "length (location_bytes b l) = 8" "MDLocationDescriptor_of (location_bytes b l) = (if b then Swap_location l else l)"
  "Swap_location (Swap_location l) = l"
  by (simp_all add: location_bytes_def MDLocationDescriptor_of_def at_defs Swap_location_def)

lemma directory_decode:
  "length (directory_bytes b d) = MDRawDirectory_size"
  "MDRawDirectory_of (directory_bytes b d) = (if b then Swap_directory d else d)" "Swap_directory (Swap_directory d) = d"
  by (simp_all add: directory_bytes_def MDRawDirectory_size_def MDRawDirectory_of_def at_defs Swap_directory_def location_decode)

lemma array_of_concat:
  assumes "\<And>x. x \<in> set xs \<Longrightarrow> length (g x) = sz"
  shows "array_of sz f (length xs) (concat (map g xs) @ rest) = map (\<lambda>x. f (g x)) xs"
  using assms by (induction xs) auto

lemma signature_swapped: "Swap32 MD_HEADER_SIGNATURE \<noteq> MD_HEADER_SIGNATURE"
  unfolding MD_HEADER_SIGNATURE_def by code_simp

lemma ReadHeader_at:
  assumes "mf_stream md = Some (input bytes lm p)" "holds bytes (int p) (header_bytes b h)"
    and "signature h = MD_HEADER_SIGNATURE"
  shows "ReadHeader md = (Some (), md\<lparr>mf_stream := Some (input bytes lm (p + MDRawHeader_size)), mf_header := h, mf_swap := b\<rparr>)"
proof -
  note r = ReadBytes_at [OF assms(1,2), of MDRawHeader_size, unfolded header_decode, OF refl]
  have s: "signature (Swap_header h) = Swap32 MD_HEADER_SIGNATURE" by (simp add: Swap_header_def assms(3))
  show ?thesis
    unfolding ReadHeader_def and_then_step [of "ReadBytes MDRawHeader_size", OF r] header_decode(2)
    using assms(3) s signature_swapped by (cases b) (simp_all add: Let_def header_decode(3))
qed

lemma ReadDirectory_at:
  fixes md :: "'s Minidump"
  assumes "mf_stream md = Some (input bytes lm p)" "holds bytes (int p) (concat (map (directory_bytes (mf_swap md)) ds))"
    and "unat (stream_count (mf_header md)) = length ds" "mf_stream_map md = []"
    and "\<forall>t\<in>set single_stream_types. length (filter (\<lambda>d. stream_type d = t) ds) \<le> 1"
  shows "\<exists>s m. ReadDirectory md = (Some (), md\<lparr>mf_stream := Some (input bytes lm s), mf_stream_map := m, mf_directory := Some ds\<rparr>)"
proof -
  let ?b = "mf_swap md" and ?n = "unat (stream_count (mf_header md))"
  have len: "MDRawDirectory_size * ?n = length (concat (map (directory_bytes ?b) ds))"
    using length_concat_const [of ds "directory_bytes ?b" MDRawDirectory_size] assms(3) by (simp add: directory_decode(1))
  note r = ReadBytes_at [OF assms(1,2) len]
  have raw: "array_of MDRawDirectory_size MDRawDirectory_of (length ds) (concat (map (directory_bytes ?b) ds)) =
      map (\<lambda>d. if ?b then Swap_directory d else d) ds"
    using array_of_concat [of ds "directory_bytes ?b" MDRawDirectory_size MDRawDirectory_of "[]"]
    by (simp add: directory_decode)
  have dir: "(if ?b then map Swap_directory (map (\<lambda>d. if ?b then Swap_directory d else d) ds)
      else map (\<lambda>d. if ?b then Swap_directory d else d) ds) = ds"
    by (simp add: directory_decode(3) comp_def)
  obtain ok and m :: "(u32, 's MinidumpStreamInfo) std_map" where i: "index_streams 0 ds [] = (ok, m)" by fastforce
  have "ok" using index_streams_spec(1) [OF map_ok_Nil _ i] assms(5) by simp
  then show ?thesis
    unfolding ReadDirectory_def Let_def and_then_step [of "ReadBytes (MDRawDirectory_size * ?n)", OF r]
    using i dir raw assms(3,4)
    by (intro exI [of _ "p + MDRawDirectory_size * ?n"] exI [of _ m]) (cases ?b, simp_all)
qed


text \<open>The stream of a type in a valid minidump: the last entry of that type in the directory.\<close>

lemma SeekToStreamType_at:
  assumes "mf_valid md" "directory_ok lim md" "mf_directory md = Some ds" "last_pos t ds = Some k"
    and "mf_stream md = Some (input bytes lm p)" "unat (loc_rva (location (ds ! k))) \<le> length bytes"
  shows "SeekToStreamType t md = (Some (loc_data_size (location (ds ! k))),
    md\<lparr>mf_stream := Some (input bytes lm (unat (loc_rva (location (ds ! k)))))\<rparr>)"
proof -
  obtain d: "length ds = unat (stream_count (mf_header md))" "map_ok (mf_stream_map md)"
    "map_of (mf_stream_map md) t = Some (fresh_info (of_nat k))"
    using assms(2,3,4) by (auto simp: directory_ok_def split: if_splits)
  note f = map_find_Some [OF d(2,3)]
  have k: "k < unat (stream_count (mf_header md))" using last_pos_Some(1) [OF assms(4)] d(1) by simp
  moreover have "unat (stream_count (mf_header md)) < 2 ^ 32" by (rule unat_less_32)
  ultimately have u: "unat (of_nat k :: u32) = k" by (simp add: unsigned_of_nat take_bit_nat_eq_self)
  then have "\<not> stream_count (mf_header md) \<le> of_nat k" using k by (simp add: word_le_nat_alt)
  then show ?thesis
    using f assms(1,3) u SeekSet_at [OF assms(5,6)]
    by (simp add: SeekToStreamType_def fresh_info_def and_then_def)
qed

text \<open>C11. A minidump is read alike in both byte orders. If the file has a header and, at the place that
  the header names, a directory without repeated single streams, written by a machine of either byte
  order, then reading succeeds, recognizes the byte order, gives back the header and the directory that
  were written, and finds every stream that lies in the file at its place and with its length.\<close>

theorem Minidump_Read_layout:
  assumes "holds bytes 0 (header_bytes b h)" "signature h = MD_HEADER_SIGNATURE"
    and "version_word h AND 0x0000ffff = MD_HEADER_VERSION"
    and "stream_count h \<le> max_streams lim" "unat (stream_count h) = length ds"
    and "holds bytes (int (unat (stream_directory_rva h))) (concat (map (directory_bytes b) ds))"
    and "\<forall>t\<in>set single_stream_types. length (filter (\<lambda>d. stream_type d = t) ds) \<le> 1"
  shows "\<exists>md :: 's Minidump. Minidump_Read files lim (Minidump_of_stream (input bytes limited 0)) = (Some (), md) \<and>
    mf_valid md \<and> mf_header md = h \<and> mf_swap md = b \<and>
    (\<forall>i<length ds. GetDirectoryEntryAtIndex md (of_nat i) = Some (ds ! i)) \<and>
    (\<forall>t k. last_pos t ds = Some k \<longrightarrow> unat (loc_rva (location (ds ! k))) \<le> length bytes \<longrightarrow>
       fst (SeekToStreamType t md) = Some (loc_data_size (location (ds ! k))) \<and>
       Tell (snd (SeekToStreamType t md)) = Some (unat (loc_rva (location (ds ! k)))))"
proof -
  let ?md0 = "(Minidump_of_stream (input bytes limited 0) :: 's Minidump)
    \<lparr>mf_directory := None, mf_stream_map := [], mf_valid := False\<rparr>"
  let ?md1 = "?md0\<lparr>mf_stream := Some (input bytes limited MDRawHeader_size), mf_header := h, mf_swap := b\<rparr>"
  let ?md2 = "?md1\<lparr>mf_stream := Some (input bytes limited (unat (stream_directory_rva h)))\<rparr>"
  have s0: "mf_stream ?md0 = Some (input bytes limited 0)" by (simp add: Minidump_of_stream_def)
  have o: "Open files ?md0 = (Some (), ?md0)"
    using SeekSet_at [OF s0, of 0] s0 by (simp add: Open_def Minidump_of_stream_def)
  have hd: "ReadHeader ?md0 = (Some (), ?md1)"
    using ReadHeader_at [OF s0 _ assms(2)] assms(1) by (simp add: Minidump_of_stream_def)
  have sk: "SeekSet (unat (stream_directory_rva h)) ?md1 = (Some (), ?md2)"
    using holds_bound [OF assms(6)] by (subst SeekSet_at [where bytes = bytes and lm = limited]) auto
  define rest where "rest = (if stream_count h \<noteq> 0 then ReadDirectory else give ()) ?md2"
  obtain md3 where r: "rest = (Some (), md3)" and m3: "mf_header md3 = h" "mf_swap md3 = b"
    "mf_directory md3 = (if ds = [] then None else Some ds)" "\<exists>p. mf_stream md3 = Some (input bytes limited p)"
  proof (cases "ds = []")
    case True
    then have "stream_count h = 0" using assms(5) by (simp add: unat_eq_zero)
    then show ?thesis using True by (intro that [of ?md2]) (auto simp: rest_def Minidump_of_stream_def)
  next
    case False
    then have "stream_count h \<noteq> 0" using assms(5) by auto
    moreover obtain p m where "ReadDirectory ?md2 =
        (Some (), ?md2\<lparr>mf_stream := Some (input bytes limited p), mf_stream_map := m, mf_directory := Some ds\<rparr>)"
      using ReadDirectory_at [of ?md2 bytes limited "unat (stream_directory_rva h)" ds] assms(5,6,7) by auto
    ultimately show ?thesis using False
      by (intro that [of "?md2\<lparr>mf_stream := Some (input bytes limited p), mf_stream_map := m, mf_directory := Some ds\<rparr>"])
        (auto simp: rest_def)
  qed
  let ?md = "md3\<lparr>mf_valid := True\<rparr>"
  have read: "Minidump_Read files lim (Minidump_of_stream (input bytes limited 0)) = (Some (), ?md)"
    using o hd sk r assms(3,4) unfolding rest_def
    by (simp add: Minidump_Read_def and_then_def)
  then have ok: "directory_ok lim ?md" using Minidump_Read_establishes by blast
  obtain p where p: "mf_stream md3 = Some (input bytes limited p)" using m3(4) by blast
  have d: "GetDirectoryEntryAtIndex ?md (of_nat i) = Some (ds ! i)" if "i < length ds" for i
  proof -
    have "unat (of_nat i :: u32) = i"
      using that assms(5) unat_less_32 [of "stream_count h"] by (simp add: unsigned_of_nat take_bit_nat_eq_self)
    then show ?thesis
      using that assms(5) m3 by (auto simp: GetDirectoryEntryAtIndex_def word_le_nat_alt)
  qed
  have t: "fst (SeekToStreamType t ?md) = Some (loc_data_size (location (ds ! k))) \<and>
      Tell (snd (SeekToStreamType t ?md)) = Some (unat (loc_rva (location (ds ! k))))"
    if "last_pos t ds = Some k" "unat (loc_rva (location (ds ! k))) \<le> length bytes" for t k
  proof -
    have "mf_directory ?md = Some ds" using m3(3) last_pos_Some(1) [OF that(1)] by auto
    from SeekToStreamType_at [OF _ ok this that(1) _ that(2), of limited p] show ?thesis
      using p by (simp add: Tell_def input_def)
  qed
  show ?thesis using read m3(1,2) d t by (intro exI [of _ ?md]) simp
qed


section \<open>A small dump\<close>

text \<open>A dump of a big-endian machine with two streams.\<close>

definition sample_header :: MDRawHeader where
  "sample_header = \<lparr>signature = MD_HEADER_SIGNATURE, version_word = 0x1234a793, stream_count = 2,
     stream_directory_rva = 32, checksum = 0, time_date_stamp = 7, header_flags = 0\<rparr>"

definition sample_directory :: "MDRawDirectory list" where
  "sample_directory =
     [\<lparr>stream_type = 7, location = \<lparr>loc_data_size = 56, loc_rva = 20\<rparr>\<rparr>,
      \<lparr>stream_type = 3, location = \<lparr>loc_data_size = 4, loc_rva = 44\<rparr>\<rparr>]"

definition sample_dump :: "u8 list" where
  "sample_dump = header_bytes True sample_header @ concat (map (directory_bytes True) sample_directory)"

definition no_files :: "string \<Rightarrow> IStream" where
  "no_files path = (input [] True 0)\<lparr>st_fail := True\<rparr>"

lemma sample_dump_holds:
  "holds sample_dump 0 (header_bytes True sample_header)"
  "holds sample_dump (int (unat (stream_directory_rva sample_header))) (concat (map (directory_bytes True) sample_directory))"
  "length sample_dump = 56"
proof -
  show "holds sample_dump 0 (header_bytes True sample_header)"
    unfolding holds_iff sample_dump_def by (intro exI [of _ "[]"] exI) simp
  have "int (unat (stream_directory_rva sample_header)) = int (length (header_bytes True sample_header))"
    by (simp add: header_decode sample_header_def MDRawHeader_size_def)
  then show "holds sample_dump (int (unat (stream_directory_rva sample_header))) (concat (map (directory_bytes True) sample_directory))"
    unfolding holds_iff sample_dump_def by (intro exI [of _ "header_bytes True sample_header"] exI [of _ "[]"]) simp
  show "length sample_dump = 56"
    by (simp add: sample_dump_def sample_directory_def header_decode directory_decode MDRawHeader_size_def MDRawDirectory_size_def)
qed

lemma sample_header_ok:
  "signature sample_header = MD_HEADER_SIGNATURE" "version_word sample_header AND 0x0000ffff = MD_HEADER_VERSION"
  "stream_count sample_header \<le> max_streams default_minidump_limits"
  "unat (stream_count sample_header) = length sample_directory"
  "\<forall>t\<in>set single_stream_types. length (filter (\<lambda>d. stream_type d = t) sample_directory) \<le> 1"
  by (simp_all add: sample_header_def MD_HEADER_VERSION_def default_minidump_limits_def sample_directory_def
      single_stream_types_def)

theorem Minidump_Read_layout_witness:
  "\<exists>md :: unit Minidump. Minidump_Read no_files default_minidump_limits (Minidump_of_stream (input sample_dump True 0)) = (Some (), md) \<and>
     mf_swap md \<and> fst (SeekToStreamType 3 md) = Some 4 \<and> Tell (snd (SeekToStreamType 3 md)) = Some 44"
proof -
  note l = Minidump_Read_layout [OF sample_dump_holds(1) sample_header_ok(1-4) sample_dump_holds(2) sample_header_ok(5), of no_files True]
  obtain md :: "unit Minidump" where
    m: "Minidump_Read no_files default_minidump_limits (Minidump_of_stream (input sample_dump True 0)) = (Some (), md)" "mf_swap md"
    and t: "\<And>t k. last_pos t sample_directory = Some k \<Longrightarrow> unat (loc_rva (location (sample_directory ! k))) \<le> length sample_dump \<Longrightarrow>
       fst (SeekToStreamType t md) = Some (loc_data_size (location (sample_directory ! k))) \<and>
       Tell (snd (SeekToStreamType t md)) = Some (unat (loc_rva (location (sample_directory ! k))))"
    using l [where 's = unit] by blast
  have "fst (SeekToStreamType 3 md) = Some 4 \<and> Tell (snd (SeekToStreamType 3 md)) = Some 44"
    using t [of 3 1] by (simp add: sample_directory_def sample_dump_holds(3) split: option.splits)
  then show ?thesis using m by blast
qed

text \<open>A dump without streams.\<close>

definition empty_dump :: "u8 list" where
  "empty_dump = [0x4d, 0x44, 0x4d, 0x50, 0x93, 0xa7, 0, 0, 0, 0, 0, 0, 32, 0, 0, 0,
     0, 0, 0, 0, 0, 0, 0, 0, 0, 0, 0, 0, 0, 0, 0, 0]"

lemma empty_dump_read:
  "fst (Minidump_Read no_files default_minidump_limits (Minidump_of_stream (input empty_dump True 0) :: unit Minidump)) = Some ()"
  by code_simp

theorem Minidump_Read_sound_witness:
  "\<exists>md :: unit Minidump. Minidump_Read no_files default_minidump_limits (Minidump_of_stream (input empty_dump True 0)) = (Some (), md) \<and>
     directory_ok default_minidump_limits md"
  using Minidump_Read_sound [of no_files default_minidump_limits "Minidump_of_stream (input empty_dump True 0) :: unit Minidump"]
    empty_dump_read by (metis prod.collapse)

theorem short_read_is_final_witness:
  "fst (Minidump_Read no_files default_minidump_limits
     (snd (ReadBytes 33 (Minidump_of_stream (input empty_dump True 0) :: unit Minidump)))) = None"
proof -
  let ?md = "Minidump_of_stream (input empty_dump True 0) :: unit Minidump"
  have "fst (ReadBytes 33 ?md) = None" by code_simp
  then have "ReadBytes 33 ?md = (None, snd (ReadBytes 33 ?md))" by (metis prod.collapse)
  from short_read_is_final [OF this] show ?thesis by (simp add: Minidump_of_stream_def)
qed

end
