(* ===== verification/Minidump_Text.thy ===== *)
theory Minidump_Text
  imports Minidump_File
begin

text \<open>
  Text in a minidump: what \<open>UTF16ToUTF8\<close> does with the UTF-16 form of a text, and the round trip of
  strings through \<open>Minidump::ReadString\<close> (\<open>processor/minidump.cc\<close>).
\<close>

section \<open>Conversion of text\<close>

lemma or_add_low:
  fixes a x :: "'w::len word"
  assumes "take_bit k a = 0" "take_bit k x = x"
  shows "a OR x = a + x"
proof -
  have "a AND x = 0"
  proof (rule bit_word_eqI)
    fix n assume "n < LENGTH('w)"
    have "bit x n \<Longrightarrow> n < k" using assms(2) by (metis bit_take_bit_iff)
    moreover have "n < k \<Longrightarrow> \<not> bit a n" using assms(1) by (metis bit_0_eq bit_take_bit_iff bot_apply bot_bool_def)
    ultimately show "bit (a AND x) n = bit 0 n" by (auto simp: bit_simps)
  qed
  then show ?thesis by (simp add: disjunctive_add_eq_or)
qed

lemma or_of_nat: "take_bit k a = 0 \<Longrightarrow> m < 2 ^ k \<Longrightarrow> a OR (of_nat m :: 'w::len word) = a + of_nat m"
  by (rule or_add_low [of k]) (simp_all add: take_bit_of_nat take_bit_nat_eq_self)

lemma drop_of_nat: "c < 2 ^ 32 \<Longrightarrow> drop_bit k (of_nat c :: u32) = of_nat (c div 2 ^ k)"
proof -
  assume c: "c < 2 ^ 32"
  have "c div 2 ^ k < 2 ^ 32" using c by (meson div_le_dividend le_less_trans)
  then show ?thesis
    using c unfolding word_unat_eq_iff unat_drop_bit_eq
    by (simp add: unsigned_of_nat take_bit_nat_eq_self drop_bit_eq_div)
qed

lemma and_of_nat: "(of_nat c :: u32) AND 0x3f = of_nat (c mod 64)" "(of_nat c :: u32) AND 0x3ff = of_nat (c mod 1024)"
proof -
  have m: "(0x3f :: u32) = mask 6" "(0x3ff :: u32) = mask 10" by (simp_all add: mask_eq_exp_minus_1)
  show "(of_nat c :: u32) AND 0x3f = of_nat (c mod 64)" "(of_nat c :: u32) AND 0x3ff = of_nat (c mod 1024)"
    unfolding m take_bit_eq_mask [symmetric] take_bit_of_nat by (simp_all add: take_bit_eq_mod)
qed

lemma ucast_of_nat32: "n < 2 ^ 32 \<Longrightarrow> ucast (of_nat n :: u32) = (of_nat n :: 'w::len word)"
  by (simp add: unsigned_of_nat take_bit_nat_eq_self)

lemma ucast_of_nat16: "n < 2 ^ 16 \<Longrightarrow> ucast (of_nat n :: u16) = (of_nat n :: 'w::len word)"
  by (simp add: unsigned_of_nat take_bit_nat_eq_self)

text \<open>UTF-8 and UTF-16 by arithmetic on code points.\<close>

definition utf8_of :: "nat \<Rightarrow> nat list" where
  "utf8_of c =
     (if c < 0x80 then [c]
      else if c < 0x800 then [192 + c div 64, 128 + c mod 64]
      else if c < 0x10000 then [224 + c div 4096, 128 + c div 64 mod 64, 128 + c mod 64]
      else [240 + c div 262144, 128 + c div 4096 mod 64, 128 + c div 64 mod 64, 128 + c mod 64])"

definition utf16_of :: "nat \<Rightarrow> nat list" where
  "utf16_of c = (if c < 0x10000 then [c] else [0xd800 + (c - 0x10000) div 0x400, 0xdc00 + (c - 0x10000) mod 0x400])"

definition scalar_value :: "nat \<Rightarrow> bool" where
  "scalar_value c \<longleftrightarrow> c < 0x110000 \<and> \<not> (0xd800 \<le> c \<and> c \<le> 0xdfff)"

lemma utf8_append_of_nat:
  assumes "c < 0x200000"
  shows "utf8_append (of_nat c) = Some (map of_nat (utf8_of c))"
proof -
  have c: "c < 2 ^ 32" using assms by simp
  have l: "(of_nat c :: u32) < of_nat n \<longleftrightarrow> c < n" if "n < 2 ^ 32" for n
    using c that by (simp add: word_less_nat_alt unsigned_of_nat take_bit_nat_eq_self)
  note lt = l [of "0x80", simplified] l [of "0x800", simplified] l [of "0x10000", simplified] l [of "0x200000", simplified]
  have d: "ucast (drop_bit k (of_nat c :: u32)) = (of_nat (c div 2 ^ k) :: u8)" for k
    using c by (subst drop_of_nat [OF c], subst ucast_of_nat32) (auto intro: le_less_trans [OF div_le_dividend])
  have a: "ucast (drop_bit k (of_nat c :: u32) AND 0x3f) = (of_nat (c div 2 ^ k mod 64) :: u8)" for k
    by (subst drop_of_nat [OF c], subst and_of_nat, subst ucast_of_nat32) (auto intro: less_trans [OF mod_less_divisor])
  have a0: "ucast ((of_nat c :: u32) AND 0x3f) = (of_nat (c mod 64) :: u8)"
    by (subst and_of_nat, subst ucast_of_nat32) (auto intro: less_trans [OF mod_less_divisor])
  have o: "(0x80 :: u8) OR of_nat (n mod 64) = of_nat (128 + n mod 64)" for n
    by (subst or_of_nat [of 6]) (simp_all add: take_bit_eq_mod)
  have o2: "c < 0x800 \<Longrightarrow> (0xc0 :: u8) OR of_nat (c div 64) = of_nat (192 + c div 64)"
    by (subst or_of_nat [of 5]) (simp_all add: take_bit_eq_mod less_mult_imp_div_less)
  have o3: "c < 0x10000 \<Longrightarrow> (0xe0 :: u8) OR of_nat (c div 4096) = of_nat (224 + c div 4096)"
    by (subst or_of_nat [of 4]) (simp_all add: take_bit_eq_mod less_mult_imp_div_less)
  have o4: "(0xf0 :: u8) OR of_nat (c div 262144) = of_nat (240 + c div 262144)"
    using assms by (subst or_of_nat [of 3]) (simp_all add: take_bit_eq_mod less_mult_imp_div_less)
  have u: "ucast (of_nat c :: u32) = (of_nat c :: u8)" by (rule ucast_of_nat32 [OF c])
  show ?thesis
    unfolding utf8_append_def lt d a a0 utf8_of_def
    using assms o o2 o3 o4 u by simp
qed


lemma char_of_byte_of_nat: "char_of_byte (of_nat n) = char_of n"
proof -
  have "unat (of_nat n :: u8) = take_bit 8 n" by (simp add: unsigned_of_nat)
  then show ?thesis by (simp add: char_of_byte_def char_of_take_bit_eq)
qed

lemma word_le16: "a < 2 ^ 16 \<Longrightarrow> c < 2 ^ 16 \<Longrightarrow> (of_nat a :: u16) \<le> of_nat c \<longleftrightarrow> a \<le> c"
  "a < 2 ^ 16 \<Longrightarrow> c < 2 ^ 16 \<Longrightarrow> (of_nat a :: u16) < of_nat c \<longleftrightarrow> a < c"
  by (simp_all add: word_le_nat_alt word_less_nat_alt unsigned_of_nat take_bit_nat_eq_self)

lemmas word_le16_numerals =
  word_le16 [of "0xdc00", simplified] word_le16 [of "0xd800", simplified] word_le16 [of _ "0xdcff", simplified]
  word_le16 [of _ "0xdbff", simplified] word_le16 [of _ "0xdc00", simplified] word_le16 [of "0xdcff", simplified]

lemma utf16_loop_bmp:
  assumes "scalar_value c" "c < 0x10000"
  shows "utf16_loop swap ((if swap then Swap16 (of_nat c) else of_nat c) # ws) out =
    utf16_loop swap ws (out @ map of_nat (utf8_of c))"
proof -
  have w: "(if swap then Swap16 (if swap then Swap16 (of_nat c) else of_nat c) else (if swap then Swap16 (of_nat c) else of_nat c)) =
      (of_nat c :: u16)" by simp
  have u: "ucast (of_nat c :: u16) = (of_nat c :: u32)" using assms(2) by (intro ucast_of_nat16) simp
  have "\<not> (0xdc00 \<le> (of_nat c :: u16) \<and> (of_nat c :: u16) \<le> 0xdcff)"
    "\<not> (0xd800 \<le> (of_nat c :: u16) \<and> (of_nat c :: u16) \<le> 0xdbff)"
    using assms by (auto simp: scalar_value_def word_le16_numerals)
  then show ?thesis
    unfolding utf16_loop.simps Let_def w u using assms(2) by (simp only: if_False utf8_append_of_nat) simp
qed

lemma utf16_loop_pair:
  assumes "scalar_value c" "0x10000 \<le> c"
  shows "utf16_loop False (map of_nat (utf16_of c) @ ws) out =
    (if c mod 0x400 < 0x100 then utf16_loop False ws (out @ map of_nat (utf8_of c)) else None)"
proof -
  define q r where "q = (c - 0x10000) div 0x400" and "r = (c - 0x10000) mod 0x400"
  have q: "q < 0x400" using assms by (simp add: q_def scalar_value_def less_mult_imp_div_less)
  have r: "r < 0x400" by (simp add: r_def)
  have cq: "c = (q + 0x40) * 0x400 + r" using assms(2) by (simp add: q_def r_def)
  have rm: "c mod 0x400 = r" using r mod_mult_self3 [of "q + 0x40" "0x400" r] by (simp only: cq mod_less)
  let ?hi = "of_nat (0xd800 + q) :: u16" and ?lo = "of_nat (0xdc00 + r) :: u16"
  have hi: "\<not> (0xdc00 \<le> ?hi \<and> ?hi \<le> 0xdcff)" "0xd800 \<le> ?hi \<and> ?hi \<le> 0xdbff"
    using q by (simp_all only: word_le16_numerals) auto
  have lo: "(?lo < 0xdc00 \<or> 0xdcff < ?lo) \<longleftrightarrow> \<not> r < 0x100"
    using r by (simp only: word_le16_numerals) auto
  have uh: "ucast ?hi - (0xd7c0 :: u32) = of_nat (q + 0x40)"
  proof -
    have "ucast ?hi = (of_nat (0xd7c0 + (q + 0x40)) :: u32)" using q by (subst ucast_of_nat16) simp_all
    also have "\<dots> = 0xd7c0 + of_nat (q + 0x40)" by (simp only: of_nat_add of_nat_numeral)
    finally show ?thesis by simp
  qed
  have ul: "ucast ?lo AND (0x03ff :: u32) = of_nat r"
  proof -
    have "ucast ?lo = (of_nat (0xdc00 + r) :: u32)" using r by (subst ucast_of_nat16) simp_all
    moreover have "(0xdc00 + r) mod 1024 = r"
      using mod_mult_self3 [of 55 1024 r] mod_less [OF r] by (simp add: mult_numeral_1)
    ultimately show ?thesis using and_of_nat(2) [of "0xdc00 + r"] by (simp only:)
  qed
  have p: "push_bit 10 (of_nat (q + 0x40)) OR of_nat r = (of_nat c :: u32)"
  proof -
    have t: "take_bit 10 (push_bit 10 (of_nat (q + 0x40) :: u32)) = 0" by (simp only: take_bit_push_bit) simp
    have "push_bit 10 (of_nat (q + 0x40)) OR of_nat r = push_bit 10 (of_nat (q + 0x40)) + (of_nat r :: u32)"
      by (rule or_of_nat [OF t]) (use r in simp)
    then show ?thesis by (simp add: push_bit_eq_mult cq)
  qed
  have "c < 0x200000" using assms(1) by (simp add: scalar_value_def)
  moreover have "utf16_of c = [0xd800 + q, 0xdc00 + r]" using assms(2) by (simp add: utf16_of_def q_def r_def)
  ultimately show ?thesis
    using hi lo p by (auto simp: Let_def uh ul rm utf8_append_of_nat simp del: of_nat_add)
qed

lemma utf16_loop_text_bmp:
  assumes "list_all (\<lambda>c. scalar_value c \<and> c < 0x10000) cps"
  shows "utf16_loop swap (map (\<lambda>c. if swap then Swap16 (of_nat c) else of_nat c) cps) out =
    Some (out @ map of_nat (concat (map utf8_of cps)))"
  using assms
proof (induction cps arbitrary: out)
  case (Cons c cps)
  then show ?case using utf16_loop_bmp [of c swap] by (simp del: utf16_loop.simps(2))
qed simp

lemma utf16_text_bmp:
  assumes "list_all (\<lambda>c. scalar_value c \<and> c < 0x10000) cps"
  shows "UTF16ToUTF8 (map (\<lambda>c. if swap then Swap16 (of_nat c) else of_nat c) cps) swap =
    Some (map char_of (concat (map utf8_of cps)))"
  using utf16_loop_text_bmp [OF assms] by (simp add: UTF16ToUTF8_def char_of_byte_of_nat)

text \<open>C23. \<open>UTF16ToUTF8\<close> on the UTF-16 form of a text. In the reader's byte order it gives the UTF-8 form
  of the text if every character outside the basic plane has a low surrogate below 0xdd00, and fails for
  every other text, although low surrogates go up to 0xdfff. In the opposite byte order it gives the
  UTF-8 form of the texts of the basic plane.\<close>

theorem UTF16ToUTF8_text:
  assumes "list_all scalar_value cps"
  shows "UTF16ToUTF8 (map of_nat (concat (map utf16_of cps))) False =
      (if list_all (\<lambda>c. c < 0x10000 \<or> c mod 0x400 < 0x100) cps
       then Some (map char_of (concat (map utf8_of cps))) else None) \<and>
    (list_all (\<lambda>c. c < 0x10000) cps \<longrightarrow>
       UTF16ToUTF8 (map (\<lambda>c. Swap16 (of_nat c)) cps) True = Some (map char_of (concat (map utf8_of cps))))"
proof -
  have 1: "utf16_loop False (map of_nat (concat (map utf16_of cps))) out =
      (if list_all (\<lambda>c. c < 0x10000 \<or> c mod 0x400 < 0x100) cps
       then Some (out @ map of_nat (concat (map utf8_of cps))) else None)" for out
    using assms
  proof (induction cps arbitrary: out)
    case (Cons c cps)
    show ?case
    proof (cases "c < 0x10000")
      case True
      then show ?thesis
        using Cons utf16_loop_bmp [of c False] by (simp add: utf16_of_def del: utf16_loop.simps(2))
    next
      case False
      then show ?thesis
        using Cons utf16_loop_pair [of c] by (simp del: utf16_loop.simps(2))
    qed
  qed simp
  have 2: "UTF16ToUTF8 (map (\<lambda>c. Swap16 (of_nat c)) cps) True = Some (map char_of (concat (map utf8_of cps)))"
    if "list_all (\<lambda>c. c < 0x10000) cps"
    using utf16_text_bmp [of cps True] assms that by (simp add: list_all_iff)
  show ?thesis using 1 2 by (auto simp: UTF16ToUTF8_def char_of_byte_of_nat)
qed


section \<open>Strings\<close>

lemma ReadWord_at:
  assumes "mf_stream md = Some (input bytes lm p)" "holds bytes (int p) (word_bytes b (w :: u32))"
  shows "ReadWord b md = (Some w, md\<lparr>mf_stream := Some (input bytes lm (p + 4))\<rparr>)"
  using ReadBytes_at [OF assms, of 4] by (simp add: ReadWord_def and_then_def at_defs)

text \<open>Strings of the dump come back as they were written: for a length and the words of a text of the basic
  plane, written in the byte order of the file at some place, \<open>ReadString\<close> returns the UTF-8 form of
  the text, as long as its length is within the limit, and leaves the file readable.\<close>

lemma ReadString_roundtrip:
  fixes md :: "'s Minidump"
  assumes "mf_valid md" "mf_stream md = Some (input bytes limited p)"
    and "list_all (\<lambda>c. scalar_value c \<and> c < 0x10000) cps" "length cps \<le> unat (max_string_length lim)" "length cps < 2 ^ 31"
    and "holds bytes (int offset)
      (word_bytes (mf_swap md) (of_nat (2 * length cps) :: u32) @ concat (map (\<lambda>c. word_bytes (mf_swap md) (of_nat c :: u16)) cps))"
  shows "\<exists>q. ReadString lim offset md =
    (Some (map char_of (concat (map utf8_of cps))), md\<lparr>mf_stream := Some (input bytes limited q)\<rparr>)"
proof -
  let ?b = "mf_swap md" and ?n = "2 * length cps"
  let ?ws = "concat (map (\<lambda>c. word_bytes ?b (of_nat c :: u16)) cps)"
  have u: "unat (of_nat ?n :: u32) = ?n" using assms(5) by (simp add: unsigned_of_nat take_bit_nat_eq_self del: of_nat_mult)
  have h: "holds bytes (int offset) (word_bytes ?b (of_nat ?n :: u32))" "holds bytes (int (offset + 4)) ?ws"
    using assms(6) by (simp_all add: holds_append del: of_nat_mult)
  let ?md1 = "md\<lparr>mf_stream := Some (input bytes limited offset)\<rparr>"
  let ?md2 = "md\<lparr>mf_stream := Some (input bytes limited (offset + 4))\<rparr>"
  have sk: "SeekSet offset md = (Some (), ?md1)"
    by (rule SeekSet_at [OF assms(2)]) (use holds_bound [OF h(1)] in simp)
  have w: "ReadWord ?b ?md1 = (Some (of_nat ?n), ?md2)" using ReadWord_at [OF _ h(1), of ?md1] by (simp del: of_nat_mult)
  have len: "length ?ws = ?n" by (subst length_concat_const [of cps _ 2]) simp_all
  have even: "(of_nat ?n :: u32) mod 2 = 0" "(of_nat ?n :: u32) div 2 = of_nat (length cps)"
    using u assms(5)
    by (simp_all add: word_unat_eq_iff unat_mod_distrib unat_div_distrib unsigned_of_nat take_bit_nat_eq_self del: of_nat_mult)
  have lim: "\<not> max_string_length lim < (of_nat (length cps) :: u32)"
    using assms(4,5) by (simp add: word_less_nat_alt unsigned_of_nat take_bit_nat_eq_self)
  have zero: "(of_nat (length cps) :: u32) = 0 \<longleftrightarrow> cps = []"
    using assms(5) by (simp add: word_unat_eq_iff unsigned_of_nat take_bit_nat_eq_self)
  obtain q where r: "(if (of_nat (length cps) :: u32) \<noteq> 0 then ReadBytes ?n else give []) ?md2 =
      (Some ?ws, md\<lparr>mf_stream := Some (input bytes limited q)\<rparr>)"
  proof (cases "cps = []")
    case True
    then show ?thesis by (intro that [of "offset + 4"]) simp
  next
    case False
    then show ?thesis
      using ReadBytes_at [OF _ h(2) len [symmetric], of ?md2 limited] zero by (intro that [of "offset + 4 + ?n"]) simp
  qed
  have a: "array_of 2 (\<lambda>bs. at16 bs 0) (length cps) ?ws = map (\<lambda>c. if ?b then Swap16 (of_nat c) else of_nat c) cps"
    using array_of_concat [of cps "\<lambda>c. word_bytes ?b (of_nat c :: u16)" 2 "\<lambda>bs. at16 bs 0" "[]"] by (simp add: at_defs)
  have t: "UTF16ToUTF8 (map (\<lambda>c. if ?b then Swap16 (of_nat c) else of_nat c) cps) ?b = Some (map char_of (concat (map utf8_of cps)))"
    using utf16_text_bmp [OF assms(3), of ?b] .
  let ?R = "(if (of_nat (length cps) :: u32) \<noteq> 0 then ReadBytes ?n else give []) :: ('s, u8 list) reader"
  let ?k = "\<lambda>content md'. (UTF16ToUTF8 (array_of 2 (\<lambda>bs. at16 bs 0) (length cps) content) (mf_swap md'), md' :: 's Minidump)"
  have "ReadString lim offset md = and_then ?R ?k ?md2"
    using sk w even lim u assms(1)
    by (simp add: ReadString_def and_then_def [of "SeekSet offset"] and_then_def [of "ReadWord ?b"] del: of_nat_mult)
  also have "\<dots> = ?k ?ws (md\<lparr>mf_stream := Some (input bytes limited q)\<rparr>)" using r by (simp only: and_then_def prod.case option.case)
  finally show ?thesis using a t by auto
qed


text \<open>The character U+1F600 has the low surrogate 0xde00.\<close>

theorem UTF16ToUTF8_text_witness:
  "UTF16ToUTF8 [0xd83d, 0xde00] False = None \<and> UTF16ToUTF8 [0xd800, 0xdc00, 0x41] False = Some (map char_of [240, 144, 128, 128, 65 :: nat])"
  using UTF16ToUTF8_text [of "[0x1f600]"] UTF16ToUTF8_text [of "[0x10000, 0x41]"]
  by (simp add: scalar_value_def utf16_of_def utf8_of_def)

end
