(* ===== verification/Minidump_Structs.thy ===== *)
theory Minidump_Structs
  imports Minidump_Text Stackwalker_CPU
begin

text \<open>
  The structures of a minidump (\<open>google_breakpad/common/minidump_format.h\<close>, \<open>minidump_cpu_*.h\<close>) and the
  stream objects of \<open>google_breakpad/processor/minidump.h\<close>.

  A structure is read as bytes and its fields are then swapped in place if the dump has the other byte
  order. Its layout is a list of runs: \<open>(n, w)\<close> stands for \<open>n\<close> fields of \<open>w\<close> bytes each, and \<open>w = 1\<close> also
  for bytes that are not swapped. The fields are taken from the bytes in the order of the host.
\<close>

section \<open>Layouts\<close>

type_synonym layout = "(nat \<times> nat) list"

fun layout_size :: "layout \<Rightarrow> nat" where
  "layout_size [] = 0"
| "layout_size ((n, w) # l) = n * w + layout_size l"

text \<open>Swapping a field in place reverses its bytes.\<close>

fun swap_fields :: "layout \<Rightarrow> u8 list \<Rightarrow> u8 list" where
  "swap_fields [] bs = bs"
| "swap_fields ((n, w) # l) bs = concat (array_of w rev n bs) @ swap_fields l (drop (n * w) bs)"

text \<open>A structure of the host in the byte order of a dump, and back.\<close>

definition in_order :: "bool \<Rightarrow> layout \<Rightarrow> u8 list \<Rightarrow> u8 list" where
  "in_order swapped l bs = (if swapped then swap_fields l bs else bs)"

text \<open>\<open>minidump_->swap()\<close> as a step of a reader.\<close>

definition swap :: "('s, bool) reader" where
  "swap md = (Some (file_swap md), md)"

definition read_struct :: "layout \<Rightarrow> ('s, u8 list) reader" where
  "read_struct l = and_then (ReadBytes (layout_size l)) (\<lambda>bs. and_then swap (\<lambda>swapped. give (in_order swapped l bs)))"

definition words16 :: "u8 list \<Rightarrow> u16 list" where
  "words16 bs = array_of 2 (\<lambda>b. at16 b 0) (length bs div 2) bs"

definition words32 :: "u8 list \<Rightarrow> u32 list" where
  "words32 bs = array_of 4 (\<lambda>b. at32 b 0) (length bs div 4) bs"

definition words64 :: "u8 list \<Rightarrow> u64 list" where
  "words64 bs = array_of 8 (\<lambda>b. at64 b 0) (length bs div 8) bs"

definition bytes_at :: "u8 list \<Rightarrow> nat \<Rightarrow> nat \<Rightarrow> u8 list" where
  "bytes_at bs i n = take n (drop i bs)"

lemma length_concat_array_of: "(\<And>b. length (f b) = length b) \<Longrightarrow> n * w \<le> length bs \<Longrightarrow> length (concat (array_of w f n bs)) = n * w"
  by (induction n arbitrary: bs) auto

lemma length_swap_fields: "layout_size l \<le> length bs \<Longrightarrow> length (swap_fields l bs) = length bs"
  by (induction l bs rule: swap_fields.induct) (auto simp: length_concat_array_of)

lemma swap_run_twice:
  assumes "n * w \<le> length bs"
  shows "concat (array_of w rev n (concat (array_of w rev n bs) @ rest)) = take (n * w) bs"
  using assms
proof (induction n arbitrary: bs)
  case (Suc n)
  have "length (take w bs) = w" using Suc.prems by simp
  then show ?case using Suc.IH [of "drop w bs"] Suc.prems by (simp add: take_add)
qed simp

lemma swap_fields_twice: "layout_size l \<le> length bs \<Longrightarrow> swap_fields l (swap_fields l bs) = bs"
proof (induction l bs rule: swap_fields.induct)
  case (2 n w l bs)
  have "length (concat (array_of w rev n bs)) = n * w" using 2 by (intro length_concat_array_of) auto
  then show ?case using 2 swap_run_twice [of n w bs] by simp
qed simp

lemma in_order_decode:
  "layout_size l \<le> length bs \<Longrightarrow> length (in_order b l bs) = length bs"
  "layout_size l \<le> length bs \<Longrightarrow> in_order b l (in_order b l bs) = bs"
  by (simp_all add: in_order_def length_swap_fields swap_fields_twice)

lemma file_swap_updates [simp]:
  "file_swap (md\<lparr>mf_stream := s\<rparr>) = file_swap md" "file_swap (md\<lparr>mf_stream_map := m\<rparr>) = file_swap md"
  by (simp_all add: file_swap_def)

lemma read_struct_at:
  assumes "mf_stream md = Some (input bytes lm p)" "holds bytes (int p) (in_order (file_swap md) l bs)"
    and "length bs = layout_size l"
  shows "read_struct l md = (Some bs, md\<lparr>mf_stream := Some (input bytes lm (p + layout_size l))\<rparr>)"
proof -
  have "layout_size l \<le> length bs" using assms(3) by simp
  note d = in_order_decode [OF this, of "file_swap md"]
  have "ReadBytes (layout_size l) md = (Some (in_order (file_swap md) l bs), md\<lparr>mf_stream := Some (input bytes lm (p + layout_size l))\<rparr>)"
    using ReadBytes_at [OF assms(1,2)] d(1) assms(3) by simp
  then show ?thesis using d(2) by (simp add: read_struct_def and_then_def swap_def)
qed

lemma read_struct_Some:
  assumes "read_struct l md = (Some bs, md')"
  shows "length bs = layout_size l" "\<exists>s. md' = md\<lparr>mf_stream := Some s\<rparr>"
proof -
  obtain b where b: "ReadBytes (layout_size l) md = (Some b, md')" "bs = in_order (file_swap md') l b"
    using assms by (auto simp: read_struct_def and_then_Some swap_def)
  show "length bs = layout_size l" using ReadBytes_Some [OF b(1)] b(2) by (auto simp: in_order_decode)
  show "\<exists>s. md' = md\<lparr>mf_stream := Some s\<rparr>" using ReadBytes_Some [OF b(1)] by blast
qed


section \<open>System information\<close>

definition MDRawSystemInfo_layout :: layout where
  "MDRawSystemInfo_layout = [(3, 2), (2, 1), (5, 4), (1, 2), (26, 1)]"

text \<open>\<open>cpu\<close> is the union \<open>MDCPUInformation\<close> as its 24 bytes.\<close>

record MDRawSystemInfo =
  processor_architecture :: u16
  processor_level :: u16
  processor_revision :: u16
  number_of_processors :: u8
  product_type :: u8
  major_version :: u32
  minor_version :: u32
  build_number :: u32
  platform_id :: u32
  csd_version_rva :: u32
  suite_mask :: u16
  reserved2 :: u16
  cpu_information :: "u8 list"

definition MDRawSystemInfo_of :: "u8 list \<Rightarrow> MDRawSystemInfo" where
  "MDRawSystemInfo_of bs =
     \<lparr>processor_architecture = at16 bs 0, processor_level = at16 bs 2, processor_revision = at16 bs 4,
      number_of_processors = bs ! 6, product_type = bs ! 7, major_version = at32 bs 8, minor_version = at32 bs 12,
      build_number = at32 bs 16, platform_id = at32 bs 20, csd_version_rva = at32 bs 24, suite_mask = at16 bs 28,
      reserved2 = at16 bs 30, cpu_information = bytes_at bs 32 24\<rparr>"

record MinidumpSystemInfo =
  si_valid :: bool
  si_system_info :: MDRawSystemInfo
  si_csd_version :: "string option"
  si_cpu_vendor :: "string option"

section \<open>Threads\<close>

definition MDMemoryDescriptor_layout :: layout where
  "MDMemoryDescriptor_layout = [(1, 8), (2, 4)]"

definition MDMemoryDescriptor_of :: "u8 list \<Rightarrow> MDMemoryDescriptor" where
  "MDMemoryDescriptor_of bs = \<lparr>start_of_memory_range = at64 bs 0, data_size = at32 bs 8, rva = at32 bs 12\<rparr>"

record MDRawThread =
  thread_id :: u32
  suspend_count :: u32
  priority_class :: u32
  priority :: u32
  teb :: u64
  thread_stack :: MDMemoryDescriptor
  thread_context :: MDLocationDescriptor

definition MDRawThread_layout :: layout where
  "MDRawThread_layout = [(4, 4), (2, 8), (4, 4)]"

definition MDRawThread_of :: "u8 list \<Rightarrow> MDRawThread" where
  "MDRawThread_of bs =
     \<lparr>thread_id = at32 bs 0, suspend_count = at32 bs 4, priority_class = at32 bs 8, priority = at32 bs 12,
      teb = at64 bs 16, thread_stack = MDMemoryDescriptor_of (drop 24 bs),
      thread_context = MDLocationDescriptor_of (drop 40 bs)\<rparr>"

record MinidumpThread =
  mth_thread :: MDRawThread
  mth_memory :: "MinidumpMemoryRegion option"
  mth_context :: "DumpContext option"
  mth_valid :: bool

text \<open>A pointer into \<open>threads_\<close> is a position; the map has null pointers for the identifiers that were
  looked up in vain.\<close>

record MinidumpThreadList =
  id_to_thread_map :: "(u32, nat option) std_map"
  tl_threads :: "MinidumpThread list"
  thread_count :: u32
  tl_valid :: bool

section \<open>Exceptions\<close>

record MDException =
  exception_code :: u32
  exception_flags :: u32
  nested_exception_record :: u64
  exception_address :: u64
  number_parameters :: u32
  exception_information :: "u64 list"

record MDRawExceptionStream =
  exception_thread_id :: u32
  exception_record :: MDException
  exception_context :: MDLocationDescriptor

definition MDRawExceptionStream_layout :: layout where
  "MDRawExceptionStream_layout = [(1, 4), (4, 1), (2, 4), (2, 8), (1, 4), (4, 1), (15, 8), (2, 4)]"

definition MDRawExceptionStream_of :: "u8 list \<Rightarrow> MDRawExceptionStream" where
  "MDRawExceptionStream_of bs =
     \<lparr>exception_thread_id = at32 bs 0,
      exception_record =
        \<lparr>exception_code = at32 bs 8, exception_flags = at32 bs 12, nested_exception_record = at64 bs 16,
         exception_address = at64 bs 24, number_parameters = at32 bs 32,
         exception_information = words64 (bytes_at bs 40 120)\<rparr>,
      exception_context = MDLocationDescriptor_of (drop 160 bs)\<rparr>"

record MinidumpException =
  me_valid :: bool
  me_exception :: MDRawExceptionStream
  me_context :: "DumpContext option"

section \<open>Memory\<close>

record MinidumpMemoryList =
  ml_valid :: bool
  ml_range_map :: "(u64, u32) RangeMap"
  ml_regions :: "MinidumpMemoryRegion list"
  region_count :: u32

record MDRawMemoryInfo =
  info_base_address :: u64
  allocation_base :: u64
  allocation_protection :: u32
  region_size :: u64
  region_state :: u32
  region_protection :: u32
  region_type :: u32

definition MDRawMemoryInfo_layout :: layout where
  "MDRawMemoryInfo_layout = [(2, 8), (1, 4), (4, 1), (1, 8), (3, 4), (4, 1)]"

definition MDRawMemoryInfo_of :: "u8 list \<Rightarrow> MDRawMemoryInfo" where
  "MDRawMemoryInfo_of bs =
     \<lparr>info_base_address = at64 bs 0, allocation_base = at64 bs 8, allocation_protection = at32 bs 16,
      region_size = at64 bs 24, region_state = at32 bs 32, region_protection = at32 bs 36, region_type = at32 bs 40\<rparr>"

record MinidumpMemoryInfo =
  mi_valid :: bool
  mi_memory_info :: MDRawMemoryInfo

record MinidumpMemoryInfoList =
  mil_valid :: bool
  mil_range_map :: "(u64, u32) RangeMap"
  mil_infos :: "MinidumpMemoryInfo list"
  info_count :: u32

section \<open>Modules\<close>

text \<open>\<open>version_rest\<close> holds the nine words of \<open>MDVSFixedFileInfo\<close> after \<open>file_version_lo\<close>.\<close>

record MDVSFixedFileInfo =
  version_signature :: u32
  struct_version :: u32
  file_version_hi :: u32
  file_version_lo :: u32
  version_rest :: "u32 list"

record MDRawModule =
  base_of_image :: u64
  size_of_image :: u32
  module_checksum :: u32
  module_time_date_stamp :: u32
  module_name_rva :: u32
  version_info :: MDVSFixedFileInfo
  cv_record_location :: MDLocationDescriptor
  misc_record_location :: MDLocationDescriptor

definition MDRawModule_layout :: layout where
  "MDRawModule_layout = [(1, 8), (21, 4), (16, 1)]"

definition MDRawModule_of :: "u8 list \<Rightarrow> MDRawModule" where
  "MDRawModule_of bs =
     \<lparr>base_of_image = at64 bs 0, size_of_image = at32 bs 8, module_checksum = at32 bs 12,
      module_time_date_stamp = at32 bs 16, module_name_rva = at32 bs 20,
      version_info =
        \<lparr>version_signature = at32 bs 24, struct_version = at32 bs 28, file_version_hi = at32 bs 32,
         file_version_lo = at32 bs 36, version_rest = words32 (bytes_at bs 40 36)\<rparr>,
      cv_record_location = MDLocationDescriptor_of (drop 76 bs),
      misc_record_location = MDLocationDescriptor_of (drop 84 bs)\<rparr>"

record MinidumpModule =
  mm_valid :: bool
  mm_module_valid :: bool
  mm_has_debug_info :: bool
  mm_module :: MDRawModule
  mm_name :: "string option"
  mm_cv_record :: "u8 list option"
  mm_cv_record_signature :: u32
  mm_misc_record :: "u8 list option"

record MinidumpModuleList =
  mdl_valid :: bool
  mdl_range_map :: "(u64, u32) RangeMap"
  mdl_modules :: "MinidumpModule list"
  mdl_module_count :: u32

record MDRawUnloadedModule =
  unloaded_base_of_image :: u64
  unloaded_size_of_image :: u32
  unloaded_checksum :: u32
  unloaded_time_date_stamp :: u32
  unloaded_module_name_rva :: u32

definition MDRawUnloadedModule_layout :: layout where
  "MDRawUnloadedModule_layout = [(1, 8), (4, 4)]"

definition MDRawUnloadedModule_of :: "u8 list \<Rightarrow> MDRawUnloadedModule" where
  "MDRawUnloadedModule_of bs =
     \<lparr>unloaded_base_of_image = at64 bs 0, unloaded_size_of_image = at32 bs 8, unloaded_checksum = at32 bs 12,
      unloaded_time_date_stamp = at32 bs 16, unloaded_module_name_rva = at32 bs 20\<rparr>"

record MinidumpUnloadedModule =
  mu_valid :: bool
  mu_module_valid :: bool
  mu_unloaded_module :: MDRawUnloadedModule
  mu_name :: "string option"

record MinidumpUnloadedModuleList =
  ul_valid :: bool
  ul_range_map :: "(u64, u32) RangeMap"
  ul_modules :: "MinidumpUnloadedModule list"
  ul_module_count :: u32

section \<open>Other streams\<close>

record MDRawBreakpadInfo =
  validity :: u32
  dump_thread_id :: u32
  requesting_thread_id :: u32

definition MDRawBreakpadInfo_layout :: layout where
  "MDRawBreakpadInfo_layout = [(3, 4)]"

definition MDRawBreakpadInfo_of :: "u8 list \<Rightarrow> MDRawBreakpadInfo" where
  "MDRawBreakpadInfo_of bs = \<lparr>validity = at32 bs 0, dump_thread_id = at32 bs 4, requesting_thread_id = at32 bs 8\<rparr>"

record MinidumpBreakpadInfo =
  bi_valid :: bool
  bi_breakpad_info :: MDRawBreakpadInfo

text \<open>\<open>misc_bytes\<close> is the whole structure in the order of the host, zero where nothing was read.\<close>

record MinidumpMiscInfo =
  misc_valid :: bool
  misc_bytes :: "u8 list"
  standard_name :: string
  daylight_name :: string
  build_string :: string
  dbg_bld_str :: string

record MinidumpAssertion =
  assertion_valid :: bool
  assertion_expression :: string
  assertion_function :: string
  assertion_file :: string
  assertion_line :: u32
  assertion_type :: u32

record MinidumpModuleCrashpadInfo =
  crashpad_module_index :: u32
  crashpad_module_version :: u32
  crashpad_list_annotations :: "string list"
  crashpad_module_annotations :: "(string, string) std_map"

definition MDRawCrashpadInfo_layout :: layout where
  "MDRawCrashpadInfo_layout = [(1, 4), (1, 4), (2, 2), (8, 1), (1, 4), (2, 2), (8, 1), (4, 4)]"

record MinidumpCrashpadInfo =
  crashpad_valid :: bool
  crashpad_bytes :: "u8 list"
  crashpad_simple_annotations :: "(string, string) std_map"
  crashpad_modules :: "MinidumpModuleCrashpadInfo list"

text \<open>A stream that \<open>GetStream\<close> has cached in the directory.\<close>

datatype DumpStream =
    ThreadListStream MinidumpThreadList
  | ModuleListStream MinidumpModuleList
  | MemoryListStream MinidumpMemoryList
  | ExceptionStream MinidumpException
  | AssertionStream MinidumpAssertion
  | SystemInfoStream MinidumpSystemInfo
  | UnloadedModuleListStream MinidumpUnloadedModuleList
  | MiscInfoStream MinidumpMiscInfo
  | BreakpadInfoStream MinidumpBreakpadInfo
  | MemoryInfoListStream MinidumpMemoryInfoList
  | CrashpadInfoStream MinidumpCrashpadInfo

type_synonym Dump = "DumpStream Minidump"
type_synonym 'a dump_reader = "(DumpStream, 'a) reader"

end
