(* ===== verification/Minidump_Context.thy ===== *)
theory Minidump_Context
  imports Minidump_Structs
begin

text \<open>
  Streams of a minidump and CPU contexts (\<open>Minidump::GetStream\<close>, \<open>MinidumpSystemInfo\<close> and
  \<open>MinidumpContext\<close> in \<open>processor/minidump.cc\<close>). An object whose \<open>Read\<close> fails is deleted by its caller, so
  a \<open>Read\<close> is a reader that gives the object it filled in, or \<open>None\<close>.
\<close>

section \<open>Streams\<close>

text \<open>\<open>new_read\<close> is the constructor of the stream object followed by its \<open>Read\<close>. The entry of the stream
  map keeps its place while they run: other streams may be cached meanwhile, none is added.\<close>

definition GetStream :: "u32 \<Rightarrow> (DumpStream \<Rightarrow> 'a option) \<Rightarrow> ('a \<Rightarrow> DumpStream) \<Rightarrow> (u32 \<Rightarrow> 'a dump_reader) \<Rightarrow> 'a dump_reader" where
  "GetStream t cast wrap new_read md =
     (if \<not> mf_valid md then (None, md)
      else
        (let i = map_find (mf_stream_map md) t in
         if i = length (mf_stream_map md) then (None, md)
         else
           (case cached_stream (snd (mf_stream_map md ! i)) of
              Some s \<Rightarrow> (cast s, md)
            | None \<Rightarrow>
                and_then (SeekToStreamType t) (\<lambda>stream_length.
                and_then (new_read stream_length) (\<lambda>stream md'.
                  (Some stream,
                   md'\<lparr>mf_stream_map := (mf_stream_map md')
                     [i := (t, (snd (mf_stream_map md' ! i))\<lparr>cached_stream := Some (wrap stream)\<rparr>)]\<rparr>))) md)))"

section \<open>System information\<close>

definition MD_CPU_ARCHITECTURE_X86 :: u16 where "MD_CPU_ARCHITECTURE_X86 = 0"
definition MD_CPU_ARCHITECTURE_MIPS :: u16 where "MD_CPU_ARCHITECTURE_MIPS = 1"
definition MD_CPU_ARCHITECTURE_ALPHA :: u16 where "MD_CPU_ARCHITECTURE_ALPHA = 2"
definition MD_CPU_ARCHITECTURE_PPC :: u16 where "MD_CPU_ARCHITECTURE_PPC = 3"
definition MD_CPU_ARCHITECTURE_SHX :: u16 where "MD_CPU_ARCHITECTURE_SHX = 4"
definition MD_CPU_ARCHITECTURE_ARM :: u16 where "MD_CPU_ARCHITECTURE_ARM = 5"
definition MD_CPU_ARCHITECTURE_IA64 :: u16 where "MD_CPU_ARCHITECTURE_IA64 = 6"
definition MD_CPU_ARCHITECTURE_AMD64 :: u16 where "MD_CPU_ARCHITECTURE_AMD64 = 9"
definition MD_CPU_ARCHITECTURE_X86_WIN64 :: u16 where "MD_CPU_ARCHITECTURE_X86_WIN64 = 10"
definition MD_CPU_ARCHITECTURE_SPARC :: u16 where "MD_CPU_ARCHITECTURE_SPARC = 0x8001"
definition MD_CPU_ARCHITECTURE_PPC64 :: u16 where "MD_CPU_ARCHITECTURE_PPC64 = 0x8002"
definition MD_CPU_ARCHITECTURE_ARM64 :: u16 where "MD_CPU_ARCHITECTURE_ARM64 = 0x8003"
definition MD_CPU_ARCHITECTURE_MIPS64 :: u16 where "MD_CPU_ARCHITECTURE_MIPS64 = 0x8004"

lemmas architecture_defs = MD_CPU_ARCHITECTURE_X86_def MD_CPU_ARCHITECTURE_MIPS_def MD_CPU_ARCHITECTURE_ALPHA_def
  MD_CPU_ARCHITECTURE_PPC_def MD_CPU_ARCHITECTURE_SHX_def MD_CPU_ARCHITECTURE_ARM_def MD_CPU_ARCHITECTURE_IA64_def
  MD_CPU_ARCHITECTURE_AMD64_def MD_CPU_ARCHITECTURE_X86_WIN64_def MD_CPU_ARCHITECTURE_SPARC_def
  MD_CPU_ARCHITECTURE_PPC64_def MD_CPU_ARCHITECTURE_ARM64_def MD_CPU_ARCHITECTURE_MIPS64_def

definition MD_CONTEXT_IA64 :: u32 where "MD_CONTEXT_IA64 = 0x00080000"
definition MD_CONTEXT_SHX :: u32 where "MD_CONTEXT_SHX = 0x000000c0"
definition MD_CONTEXT_ALPHA :: u32 where "MD_CONTEXT_ALPHA = 0x00020000"
definition MD_CONTEXT_ARM_OLD :: u32 where "MD_CONTEXT_ARM_OLD = 0x00000040"

text \<open>The union of CPU information is swapped by what it stands for.\<close>

definition cpu_information_layout :: "u16 \<Rightarrow> layout" where
  "cpu_information_layout architecture =
     (if architecture = MD_CPU_ARCHITECTURE_X86 \<or> architecture = MD_CPU_ARCHITECTURE_X86_WIN64
      then [(6, 4)] else [(2, 8), (8, 1)])"

definition MinidumpSystemInfo_Read :: "u32 \<Rightarrow> MinidumpSystemInfo dump_reader" where
  "MinidumpSystemInfo_Read expected_size =
     (if expected_size \<noteq> 56 then fail
      else
        and_then (read_struct MDRawSystemInfo_layout) (\<lambda>bs.
        and_then swap (\<lambda>swapped.
          let si = MDRawSystemInfo_of bs;
              l = cpu_information_layout (processor_architecture si)
          in give \<lparr>si_valid = True, si_system_info = si\<lparr>cpu_information := in_order swapped l (cpu_information si)\<rparr>,
                   si_csd_version = None, si_cpu_vendor = None\<rparr>)))"

definition system_info_stream :: "DumpStream \<Rightarrow> MinidumpSystemInfo option" where
  "system_info_stream s = (case s of SystemInfoStream si \<Rightarrow> Some si | _ \<Rightarrow> None)"

definition GetSystemInfo :: "MinidumpSystemInfo dump_reader" where
  "GetSystemInfo = GetStream 7 system_info_stream SystemInfoStream MinidumpSystemInfo_Read"

definition MinidumpSystemInfo_system_info :: "MinidumpSystemInfo \<Rightarrow> MDRawSystemInfo option" where
  "MinidumpSystemInfo_system_info s = (if si_valid s then Some (si_system_info s) else None)"

text \<open>\<open>GetSystemInfo() ? GetSystemInfo()->system_info() : NULL\<close>: the second call finds the stream that
  the first one cached.\<close>

definition raw_system_info :: "Dump \<Rightarrow> MDRawSystemInfo option \<times> Dump" where
  "raw_system_info md =
     (case GetSystemInfo md of
        (None, md') \<Rightarrow> (None, md')
      | (Some s, md') \<Rightarrow> (MinidumpSystemInfo_system_info s, md'))"

definition context_cpu_flags :: "u16 \<Rightarrow> u32" where
  "context_cpu_flags architecture =
     (if architecture = MD_CPU_ARCHITECTURE_X86 then MD_CONTEXT_X86
      else if architecture = MD_CPU_ARCHITECTURE_MIPS then MD_CONTEXT_MIPS
      else if architecture = MD_CPU_ARCHITECTURE_MIPS64 then MD_CONTEXT_MIPS64
      else if architecture = MD_CPU_ARCHITECTURE_ALPHA then MD_CONTEXT_ALPHA
      else if architecture = MD_CPU_ARCHITECTURE_PPC then MD_CONTEXT_PPC
      else if architecture = MD_CPU_ARCHITECTURE_PPC64 then MD_CONTEXT_PPC64
      else if architecture = MD_CPU_ARCHITECTURE_SHX then MD_CONTEXT_SHX
      else if architecture = MD_CPU_ARCHITECTURE_ARM then MD_CONTEXT_ARM
      else if architecture = MD_CPU_ARCHITECTURE_ARM64 then MD_CONTEXT_ARM64
      else if architecture = MD_CPU_ARCHITECTURE_IA64 then MD_CONTEXT_IA64
      else if architecture = MD_CPU_ARCHITECTURE_AMD64 then MD_CONTEXT_AMD64
      else if architecture = MD_CPU_ARCHITECTURE_SPARC then MD_CONTEXT_SPARC
      else 0)"

definition GetContextCPUFlagsFromSystemInfo :: "u32 dump_reader" where
  "GetContextCPUFlagsFromSystemInfo md =
     (case Tell md of
        None \<Rightarrow> (Some 0, md)
      | Some saved_position \<Rightarrow>
          (case raw_system_info md of
             (si, md') \<Rightarrow>
               and_then (SeekSet saved_position)
                 (\<lambda>_. give (case si of None \<Rightarrow> 0 | Some raw \<Rightarrow> context_cpu_flags (processor_architecture raw))) md'))"

definition IsAndroid :: "Dump \<Rightarrow> bool \<times> Dump" where
  "IsAndroid md =
     (case Tell md of
        None \<Rightarrow> (False, md)
      | Some saved_position \<Rightarrow>
          (case raw_system_info md of
             (si, md') \<Rightarrow>
               (case SeekSet saved_position md' of
                  (None, md'') \<Rightarrow> (False, md'')
                | (Some _, md'') \<Rightarrow> (case si of None \<Rightarrow> False | Some raw \<Rightarrow> platform_id raw = 0x8203, md''))))"

section \<open>Contexts\<close>

definition IsContextSizeUnique :: "u32 \<Rightarrow> bool" where
  "IsContextSizeUnique context_size =
     (length (filter (\<lambda>s. s = context_size) [716, 1004, 1160, 1232, 584, 368, 796, 600]) = 1)"

text \<open>\<open>Normalize128\<close> of \<open>n\<close> values in a row, for values that are not big-endian.\<close>

definition normalize128 :: "nat \<Rightarrow> nat \<Rightarrow> u8 list \<Rightarrow> u8 list" where
  "normalize128 i n bs = take i bs @ concat (array_of 16 (\<lambda>v. drop 8 v @ take 8 v) n (drop i bs)) @ drop (i + 16 * n) bs"

definition architecture_matches :: "u32 \<Rightarrow> u16 \<Rightarrow> bool" where
  "architecture_matches context_cpu_type architecture =
     (if context_cpu_type = MD_CONTEXT_X86 then
        architecture = MD_CPU_ARCHITECTURE_X86 \<or> architecture = MD_CPU_ARCHITECTURE_X86_WIN64 \<or>
        architecture = MD_CPU_ARCHITECTURE_AMD64
      else if context_cpu_type = MD_CONTEXT_PPC then architecture = MD_CPU_ARCHITECTURE_PPC
      else if context_cpu_type = MD_CONTEXT_PPC64 then architecture = MD_CPU_ARCHITECTURE_PPC64
      else if context_cpu_type = MD_CONTEXT_AMD64 then architecture = MD_CPU_ARCHITECTURE_AMD64
      else if context_cpu_type = MD_CONTEXT_SPARC then architecture = MD_CPU_ARCHITECTURE_SPARC
      else if context_cpu_type = MD_CONTEXT_ARM then architecture = MD_CPU_ARCHITECTURE_ARM
      else if context_cpu_type = MD_CONTEXT_ARM64 then architecture = MD_CPU_ARCHITECTURE_ARM64
      else if context_cpu_type = MD_CONTEXT_MIPS then architecture = MD_CPU_ARCHITECTURE_MIPS
      else if context_cpu_type = MD_CONTEXT_MIPS64 then architecture = MD_CPU_ARCHITECTURE_MIPS64
      else False)"

definition CheckAgainstSystemInfo :: "u32 \<Rightarrow> unit dump_reader" where
  "CheckAgainstSystemInfo context_cpu_type md =
     (case GetSystemInfo md of
        (None, md') \<Rightarrow> (Some (), md')
      | (Some s, md') \<Rightarrow>
          (case MinidumpSystemInfo_system_info s of
             None \<Rightarrow> (None, md')
           | Some raw \<Rightarrow> (if architecture_matches context_cpu_type (processor_architecture raw) then Some () else None, md')))"

text \<open>The structures after their flags, and the whole of \<open>MDRawContextAMD64\<close>, whose \<open>gs\<close> and \<open>flt_save\<close> are
  not swapped.\<close>

definition amd64_layout :: layout where
  "amd64_layout = [(6, 8), (2, 4), (4, 2), (2, 1), (1, 2), (1, 4), (23, 8), (512, 1), (52, 8), (6, 8)]"

definition ppc64_layout :: layout where
  "ppc64_layout = [(39, 8), (32, 8), (4, 1), (1, 4), (66, 8), (16, 1), (1, 4), (28, 1)]"

definition arm64_layout :: layout where
  "arm64_layout = [(33, 8), (3, 4), (64, 8)]"

definition x86_layout :: layout where
  "x86_layout = [(13, 4), (80, 1), (17, 4), (512, 1)]"

definition ppc_layout :: layout where
  "ppc_layout = [(40, 4), (32, 8), (4, 1), (1, 4), (66, 8), (16, 1), (1, 4), (28, 1)]"

definition sparc_layout :: layout where
  "sparc_layout = [(4, 1), (38, 8), (34, 8)]"

definition arm_layout :: layout where
  "arm_layout = [(17, 4), (33, 8), (8, 4)]"

definition mips_layout :: layout where
  "mips_layout = [(4, 1), (34, 8), (7, 4), (4, 1), (2, 8), (2, 4), (32, 8), (2, 4)]"

definition MDRawContextX86_of :: "u8 list \<Rightarrow> MDRawContextX86" where
  "MDRawContextX86_of bs =
     \<lparr>edi = at32 bs 156, esi = at32 bs 160, ebx = at32 bs 164, edx = at32 bs 168, ecx = at32 bs 172, eax = at32 bs 176,
      ebp = at32 bs 180, eip = at32 bs 184, esp = at32 bs 196,
      x86_other = take 156 bs @ bytes_at bs 188 8 @ drop 200 bs\<rparr>"

definition MDRawContextAMD64_of :: "u8 list \<Rightarrow> MDRawContextAMD64" where
  "MDRawContextAMD64_of bs =
     \<lparr>rax = at64 bs 120, rcx = at64 bs 128, rdx = at64 bs 136, rbx = at64 bs 144, rsp = at64 bs 152, rbp = at64 bs 160,
      rsi = at64 bs 168, rdi = at64 bs 176, r8 = at64 bs 184, r9 = at64 bs 192, r10 = at64 bs 200, r11 = at64 bs 208,
      r12 = at64 bs 216, r13 = at64 bs 224, r14 = at64 bs 232, r15 = at64 bs 240, rip = at64 bs 248,
      amd64_other = take 120 bs @ drop 256 bs\<rparr>"

definition MDRawContextPPC_of :: "u8 list \<Rightarrow> u32 MDRawContextPPC" where
  "MDRawContextPPC_of bs =
     \<lparr>ppc_context_flags = at32 bs 0, ppc_srr0 = at32 bs 4, ppc_srr1 = at32 bs 8, ppc_gpr = words32 (bytes_at bs 12 128),
      ppc_rest = words32 (drop 140 bs)\<rparr>"

definition MDRawContextPPC64_of :: "u8 list \<Rightarrow> u64 MDRawContextPPC" where
  "MDRawContextPPC64_of bs =
     \<lparr>ppc_context_flags = at64 bs 0, ppc_srr0 = at64 bs 8, ppc_srr1 = at64 bs 16, ppc_gpr = words64 (bytes_at bs 24 256),
      ppc_rest = words64 (drop 280 bs)\<rparr>"

definition MDRawContextSPARC_of :: "u8 list \<Rightarrow> MDRawContextSPARC" where
  "MDRawContextSPARC_of bs =
     \<lparr>sparc_context_flags = at32 bs 0, sparc_flag_pad = at32 bs 4, sparc_g_r = words64 (bytes_at bs 8 256),
      sparc_ccr = at64 bs 264, sparc_pc = at64 bs 272, sparc_rest = words64 (drop 280 bs)\<rparr>"

definition MDRawContextARM_of :: "u8 list \<Rightarrow> MDRawContextARM" where
  "MDRawContextARM_of bs = \<lparr>arm_context_flags = at32 bs 0, arm_words = words32 (drop 4 bs)\<rparr>"

definition MDRawContextARM64_of :: "u8 list \<Rightarrow> MDRawContextARM64" where
  "MDRawContextARM64_of bs = \<lparr>arm64_iregs = words64 (bytes_at bs 8 264), arm64_other = take 8 bs @ drop 272 bs\<rparr>"

definition MDRawContextMIPS_of :: "u8 list \<Rightarrow> MDRawContextMIPS" where
  "MDRawContextMIPS_of bs =
     \<lparr>mips_context_flags = at32 bs 0, mips_iregs = words64 (bytes_at bs 8 256), mips_epc = at64 bs 312,
      mips_rest = ucast (at32 bs 4) # words64 (bytes_at bs 264 48) @ words64 (drop 320 bs)\<rparr>"

text \<open>The part of a context that follows its flags: read, checked against the system information (which
  may move the stream), swapped.\<close>

definition read_context :: "u32 \<Rightarrow> layout \<Rightarrow> u8 list dump_reader" where
  "read_context cpu_type l =
     and_then (ReadBytes (layout_size l)) (\<lambda>bs.
     and_then (CheckAgainstSystemInfo cpu_type) (\<lambda>_.
     and_then swap (\<lambda>swapped. give (in_order swapped l bs))))"

definition Read_amd64 :: "DumpContext dump_reader" where
  "Read_amd64 =
     and_then (ReadBytes (layout_size amd64_layout)) (\<lambda>bs.
     and_then swap (\<lambda>swapped.
       let flags = (if swapped then Swap32 (at32 bs 48) else at32 bs 48);
           cpu_type = flags AND MD_CONTEXT_CPU_MASK
       in and_then (if cpu_type = 0 then GetContextCPUFlagsFromSystemInfo else give cpu_type) (\<lambda>cpu.
            let context_flags = (if cpu_type = 0 then flags OR cpu else flags) in
            if cpu \<noteq> MD_CONTEXT_AMD64 then fail
            else
              and_then (CheckAgainstSystemInfo cpu) (\<lambda>_.
                let host = in_order swapped amd64_layout (normalize128 768 26 bs);
                    raw = take 48 host @ le_bytes context_flags @ drop 52 host
                in give ((SetContextAMD64 (Some (MDRawContextAMD64_of raw))
                           (SetContextFlags context_flags (FreeContext DumpContext_init)))\<lparr>dc_valid := True\<rparr>)))))"

text \<open>The contexts with 64-bit flags. The flags that \<open>GetContextCPUFlagsFromSystemInfo\<close> supplies are
  overwritten by the ones that were read.\<close>

definition Read_flags64 :: "u32 \<Rightarrow> u64 dump_reader" where
  "Read_flags64 expected_cpu =
     and_then (ReadBytes 8) (\<lambda>bs.
     and_then swap (\<lambda>swapped.
       let context_flags = (if swapped then Swap64 (at64 bs 0) else at64 bs 0);
           cpu_type = ucast context_flags AND MD_CONTEXT_CPU_MASK
       in and_then (if cpu_type = 0 then GetContextCPUFlagsFromSystemInfo else give cpu_type)
            (\<lambda>cpu. if cpu \<noteq> expected_cpu then fail else give context_flags)))"

definition Read_ppc64 :: "DumpContext dump_reader" where
  "Read_ppc64 =
     and_then (Read_flags64 MD_CONTEXT_PPC64) (\<lambda>context_flags.
     and_then (read_context MD_CONTEXT_PPC64 ppc64_layout) (\<lambda>rest.
       let d = SetContextFlags (ucast context_flags) (FreeContext DumpContext_init) in
       if ucast (GetContextFlags d) \<noteq> context_flags then fail
       else give ((SetContextPPC64 (Some (MDRawContextPPC64_of (le_bytes context_flags @ rest))) d)\<lparr>dc_valid := True\<rparr>)))"

definition Read_arm64 :: "DumpContext dump_reader" where
  "Read_arm64 =
     and_then (Read_flags64 MD_CONTEXT_ARM64) (\<lambda>context_flags.
     and_then (read_context MD_CONTEXT_ARM64 arm64_layout) (\<lambda>rest.
     and_then swap (\<lambda>swapped.
       let d = SetContextFlags (ucast context_flags) (FreeContext DumpContext_init);
           host = (if swapped then normalize128 276 32 rest else rest)
       in if ucast (GetContextFlags d) \<noteq> context_flags then fail
          else give ((SetContextARM64 (Some (MDRawContextARM64_of (le_bytes context_flags @ host))) d)\<lparr>dc_valid := True\<rparr>))))"

text \<open>The cases of the switch: the size of the structure, its layout after the flags, and how it is
  stored.\<close>

definition context_case :: "u32 \<Rightarrow> (u32 \<times> layout \<times> (u8 list \<Rightarrow> DumpContext \<Rightarrow> DumpContext)) option" where
  "context_case cpu_type =
     (if cpu_type = MD_CONTEXT_X86 then Some (716, x86_layout, \<lambda>bs. SetContextX86 (Some (MDRawContextX86_of bs)))
      else if cpu_type = MD_CONTEXT_PPC then Some (1004, ppc_layout, \<lambda>bs. SetContextPPC (Some (MDRawContextPPC_of bs)))
      else if cpu_type = MD_CONTEXT_SPARC then Some (584, sparc_layout, \<lambda>bs. SetContextSPARC (Some (MDRawContextSPARC_of bs)))
      else if cpu_type = MD_CONTEXT_ARM then Some (368, arm_layout, \<lambda>bs. SetContextARM (Some (MDRawContextARM_of bs)))
      else if cpu_type = MD_CONTEXT_MIPS \<or> cpu_type = MD_CONTEXT_MIPS64
      then Some (600, mips_layout, \<lambda>bs. SetContextMIPS (Some (MDRawContextMIPS_of bs)))
      else None)"

definition arm_old_flags :: "u32 \<Rightarrow> u32" where
  "arm_old_flags context_flags =
     (if context_flags AND MD_CONTEXT_CPU_MASK = 0 \<and> context_flags AND MD_CONTEXT_ARM_OLD \<noteq> 0
      then (context_flags OR MD_CONTEXT_ARM) AND NOT MD_CONTEXT_ARM_OLD else context_flags)"

definition Read_switch :: "u32 \<Rightarrow> DumpContext dump_reader" where
  "Read_switch expected_size =
     and_then swap (\<lambda>swapped.
     and_then (ReadWord swapped) (\<lambda>word.
       let flags = arm_old_flags word;
           cpu_type = flags AND MD_CONTEXT_CPU_MASK
       in and_then (if cpu_type = 0 then GetContextCPUFlagsFromSystemInfo else give cpu_type) (\<lambda>cpu.
            let context_flags = (if cpu_type = 0 then flags OR cpu else flags) in
            case context_case cpu of
              None \<Rightarrow> fail
            | Some (sz, l, store) \<Rightarrow>
                if expected_size \<noteq> sz then fail
                else
                  and_then (read_context cpu l) (\<lambda>rest.
                    give ((SetContextFlags context_flags
                      (store (le_bytes context_flags @ rest) (FreeContext DumpContext_init)))\<lparr>dc_valid := True\<rparr>)))))"

definition MinidumpContext_Read :: "u32 \<Rightarrow> DumpContext dump_reader" where
  "MinidumpContext_Read expected_size =
     (if \<not> IsContextSizeUnique 1232 \<or> \<not> IsContextSizeUnique 1160 \<or> \<not> IsContextSizeUnique 796 then fail
      else if expected_size = 1232 then Read_amd64
      else if expected_size = 1160 then Read_ppc64
      else if expected_size = 796 then Read_arm64
      else Read_switch expected_size)"

section \<open>What a successful read gives\<close>

definition context_wf :: "DumpContext \<Rightarrow> bool" where
  "context_wf d \<longleftrightarrow>
     (case dc_context d of
        Some (CtxARM c) \<Rightarrow> arm_ok c
      | Some (CtxARM64 c) \<Rightarrow> arm64_ok c
      | Some (CtxMIPS c) \<Rightarrow> mips_ok c
      | Some (CtxPPC c) \<Rightarrow> length (ppc_gpr c) = 32
      | Some (CtxPPC64 c) \<Rightarrow> length (ppc_gpr c) = 32
      | Some (CtxSPARC c) \<Rightarrow> length (sparc_g_r c) = 32
      | _ \<Rightarrow> True)"

lemma length_words [simp]:
  "length (words16 bs) = length bs div 2" "length (words32 bs) = length bs div 4" "length (words64 bs) = length bs div 8"
  by (simp_all add: words16_def words32_def words64_def)

lemma length_bytes_at: "length (bytes_at bs i n) = min n (length bs - i)"
  by (simp add: bytes_at_def)

lemma length_in_order: "length bs = layout_size l \<Longrightarrow> length (in_order b l bs) = layout_size l"
  by (simp add: in_order_decode)

lemma read_context_length: "read_context ct l md = (Some bs, md') \<Longrightarrow> length bs = layout_size l"
  by (auto simp: read_context_def and_then_Some swap_def dest!: ReadBytes_Some intro!: length_in_order)

lemma layout_sizes:
  "layout_size amd64_layout = 1232" "layout_size ppc64_layout = 1152" "layout_size arm64_layout = 788"
  "layout_size x86_layout = 712" "layout_size ppc_layout = 1000" "layout_size sparc_layout = 580"
  "layout_size arm_layout = 364" "layout_size mips_layout = 596"
  by (simp_all add: amd64_layout_def ppc64_layout_def arm64_layout_def x86_layout_def ppc_layout_def sparc_layout_def
      arm_layout_def mips_layout_def)

lemma unique_sizes: "IsContextSizeUnique 1232" "IsContextSizeUnique 1160" "IsContextSizeUnique 796"
  by (simp_all add: IsContextSizeUnique_def)

lemma normalize128_length: "i + 16 * n \<le> length bs \<Longrightarrow> length (normalize128 i n bs) = length bs"
  by (simp add: normalize128_def length_concat_array_of mult.commute)

lemma or_masked:
  "(flags :: 'a::len word) AND m = 0 \<Longrightarrow> (flags OR ct) AND m = ct AND m"
  by (metis bit.conj_disj_distrib2 or.left_neutral)

lemma arm_old_flags_cpu:
  "arm_old_flags f AND MD_CONTEXT_CPU_MASK = (if f AND MD_CONTEXT_CPU_MASK = 0 \<and> f AND MD_CONTEXT_ARM_OLD \<noteq> 0
     then MD_CONTEXT_ARM else f AND MD_CONTEXT_CPU_MASK)"
proof (cases "f AND MD_CONTEXT_CPU_MASK = 0 \<and> f AND MD_CONTEXT_ARM_OLD \<noteq> 0")
  case True
  have "NOT MD_CONTEXT_ARM_OLD AND MD_CONTEXT_CPU_MASK = MD_CONTEXT_CPU_MASK" "MD_CONTEXT_ARM AND MD_CONTEXT_CPU_MASK = MD_CONTEXT_ARM"
    by (simp_all add: MD_CONTEXT_ARM_OLD_def MD_CONTEXT_CPU_MASK_def MD_CONTEXT_ARM_def)
  then show ?thesis using True or_masked [of f MD_CONTEXT_CPU_MASK MD_CONTEXT_ARM] by (simp add: arm_old_flags_def and.assoc)
qed (auto simp: arm_old_flags_def)

lemma cpu_masked: "ct \<in> {MD_CONTEXT_X86, MD_CONTEXT_PPC, MD_CONTEXT_PPC64, MD_CONTEXT_AMD64, MD_CONTEXT_SPARC, MD_CONTEXT_ARM,
    MD_CONTEXT_ARM64, MD_CONTEXT_MIPS, MD_CONTEXT_MIPS64} \<Longrightarrow> ct AND MD_CONTEXT_CPU_MASK = ct"
  by (auto simp: md_context_defs MD_CONTEXT_CPU_MASK_def)

lemma context_case_cpu: "context_case ct = Some c \<Longrightarrow> ct AND MD_CONTEXT_CPU_MASK = ct"
  by (rule cpu_masked) (auto simp: context_case_def split: if_splits)

lemmas dump_context_defs = GetContextCPU_def FreeContext_def DumpContext_init_def SetContextFlags_def GetContextFlags_def
  SetContextX86_def SetContextPPC_def SetContextPPC64_def SetContextAMD64_def SetContextSPARC_def SetContextARM_def
  SetContextARM64_def SetContextMIPS_def

lemma context_case_stores:
  assumes "context_case ct = Some (sz, l, store)" "f AND MD_CONTEXT_CPU_MASK = ct" "length rest = layout_size l"
  shows "let d = (SetContextFlags f (store (le_bytes (f :: u32) @ rest) (FreeContext DumpContext_init)))\<lparr>dc_valid := True\<rparr>
    in context_matches d \<and> context_wf d"
  using assms
  by (auto simp: context_case_def context_matches_def context_wf_def dump_context_defs Let_def layout_sizes
      length_bytes_at MDRawContextPPC_of_def MDRawContextSPARC_of_def MDRawContextARM_of_def arm_ok_def
      MDRawContextMIPS_of_def mips_ok_def split: if_splits)

lemma Read_switch_sound:
  assumes "Read_switch sz md = (Some d, md')"
  shows "context_matches d" "context_wf d"
proof -
  obtain w where w: "\<exists>md1. (let flags = arm_old_flags w; cpu_type = flags AND MD_CONTEXT_CPU_MASK
       in and_then (if cpu_type = 0 then GetContextCPUFlagsFromSystemInfo else give cpu_type) (\<lambda>ct.
            let context_flags = (if cpu_type = 0 then flags OR ct else flags) in
            case context_case ct of
              None \<Rightarrow> fail
            | Some (s, l, store) \<Rightarrow>
                if sz \<noteq> s then fail
                else
                  and_then (read_context ct l) (\<lambda>rest.
                    give ((SetContextFlags context_flags
                      (store (le_bytes context_flags @ rest) (FreeContext DumpContext_init)))\<lparr>dc_valid := True\<rparr>)))) md1 = (Some d, md')"
    using assms unfolding Read_switch_def and_then_Some by blast
  let ?f = "arm_old_flags w"
  let ?t = "?f AND MD_CONTEXT_CPU_MASK"
  obtain ct md1 md2 where c: "(if ?t = 0 then GetContextCPUFlagsFromSystemInfo else give ?t) md1 = (Some ct, md2)"
    and r2: "(let context_flags = (if ?t = 0 then ?f OR ct else ?f) in
            case context_case ct of
              None \<Rightarrow> fail
            | Some (s, l, store) \<Rightarrow>
                if sz \<noteq> s then fail
                else
                  and_then (read_context ct l) (\<lambda>rest.
                    give ((SetContextFlags context_flags
                      (store (le_bytes context_flags @ rest) (FreeContext DumpContext_init)))\<lparr>dc_valid := True\<rparr>))) md2 = (Some d, md')"
    using w unfolding Let_def and_then_Some by blast
  let ?g = "if ?t = 0 then ?f OR ct else ?f"
  obtain l store rest where k: "context_case ct = Some (sz, l, store)" and rest: "length rest = layout_size l"
    and d: "d = (SetContextFlags ?g (store (le_bytes ?g @ rest) (FreeContext DumpContext_init)))\<lparr>dc_valid := True\<rparr>"
    using r2 unfolding Let_def
    by (auto simp: and_then_Some dest!: read_context_length split: option.splits if_splits prod.splits)
  have "?g AND MD_CONTEXT_CPU_MASK = ct"
    using c or_masked [of ?f MD_CONTEXT_CPU_MASK ct] context_case_cpu [OF k] by (auto split: if_splits)
  from context_case_stores [OF k this rest] show "context_matches d" "context_wf d" by (simp_all add: d Let_def)
qed

lemma Read_amd64_sound:
  assumes "Read_amd64 md = (Some d, md')"
  shows "context_matches d \<and> context_wf d"
proof -
  obtain f where r: "\<exists>bs sw md1. and_then (if f AND MD_CONTEXT_CPU_MASK = 0 then GetContextCPUFlagsFromSystemInfo else give (f AND MD_CONTEXT_CPU_MASK)) (\<lambda>ct.
            let context_flags = (if f AND MD_CONTEXT_CPU_MASK = 0 then f OR ct else f) in
            if ct \<noteq> MD_CONTEXT_AMD64 then fail
            else
              and_then (CheckAgainstSystemInfo ct) (\<lambda>_.
                let host = in_order sw amd64_layout (normalize128 768 26 bs);
                    raw = take 48 host @ le_bytes context_flags @ drop 52 host
                in give ((SetContextAMD64 (Some (MDRawContextAMD64_of raw))
                           (SetContextFlags context_flags (FreeContext DumpContext_init)))\<lparr>dc_valid := True\<rparr>))) md1 = (Some d, md')"
    using assms unfolding Read_amd64_def Let_def and_then_Some by blast
  obtain c where d: "d = (SetContextAMD64 (Some c)
      (SetContextFlags (if f AND MD_CONTEXT_CPU_MASK = 0 then f OR MD_CONTEXT_AMD64 else f) (FreeContext DumpContext_init)))\<lparr>dc_valid := True\<rparr>"
    and t: "f AND MD_CONTEXT_CPU_MASK \<noteq> 0 \<longrightarrow> f AND MD_CONTEXT_CPU_MASK = MD_CONTEXT_AMD64"
    using r unfolding Let_def by (auto simp: and_then_Some split: if_splits)
  have "(if f AND MD_CONTEXT_CPU_MASK = 0 then f OR MD_CONTEXT_AMD64 else f) AND MD_CONTEXT_CPU_MASK = MD_CONTEXT_AMD64"
    using or_masked [of f MD_CONTEXT_CPU_MASK MD_CONTEXT_AMD64] cpu_masked [of MD_CONTEXT_AMD64] t by auto
  then show ?thesis by (simp add: d context_matches_def context_wf_def dump_context_defs)
qed

text \<open>A context with 64-bit flags may come back without a CPU in its flags.\<close>

definition cpu_lost :: "DumpContext \<Rightarrow> bool" where
  "cpu_lost d \<longleftrightarrow> dc_valid d \<and> GetContextCPU d = 0 \<and>
     (case dc_context d of Some (CtxARM64 _) \<Rightarrow> True | Some (CtxPPC64 _) \<Rightarrow> True | _ \<Rightarrow> False)"

lemma Read_flags64_sound:
  assumes "Read_flags64 ct md = (Some f, md')"
  shows "ucast f AND MD_CONTEXT_CPU_MASK \<in> {0, ct}"
  using assms unfolding Read_flags64_def Let_def by (auto simp: and_then_Some split: if_splits)

lemma Read_ppc64_sound:
  assumes "Read_ppc64 md = (Some d, md')"
  shows "(context_matches d \<or> cpu_lost d) \<and> context_wf d"
proof -
  obtain f rest md1 md2 where f: "Read_flags64 MD_CONTEXT_PPC64 md = (Some f, md1)"
    and r: "read_context MD_CONTEXT_PPC64 ppc64_layout md1 = (Some rest, md2)"
    and d: "d = (SetContextPPC64 (Some (MDRawContextPPC64_of (le_bytes f @ rest)))
      (SetContextFlags (ucast f) (FreeContext DumpContext_init)))\<lparr>dc_valid := True\<rparr>"
    using assms unfolding Read_ppc64_def Let_def by (auto simp: and_then_Some split: if_splits)
  show ?thesis
    using Read_flags64_sound [OF f] read_context_length [OF r]
    by (auto simp: d context_matches_def cpu_lost_def context_wf_def dump_context_defs MDRawContextPPC64_of_def
        length_bytes_at layout_sizes)
qed

lemma Read_arm64_sound:
  assumes "Read_arm64 md = (Some d, md')"
  shows "(context_matches d \<or> cpu_lost d) \<and> context_wf d"
proof -
  obtain f rest md1 where f: "Read_flags64 MD_CONTEXT_ARM64 md = (Some f, md1)"
    and r: "read_context MD_CONTEXT_ARM64 arm64_layout md1 = (Some rest, md')"
    and d: "d = (SetContextARM64 (Some (MDRawContextARM64_of (le_bytes f @ (if file_swap md' then normalize128 276 32 rest else rest))))
      (SetContextFlags (ucast f) (FreeContext DumpContext_init)))\<lparr>dc_valid := True\<rparr>"
    using assms unfolding Read_arm64_def Let_def by (auto simp: and_then_Some swap_def split: if_split_asm)
  show ?thesis
    using Read_flags64_sound [OF f] read_context_length [OF r]
    by (auto simp: d context_matches_def cpu_lost_def context_wf_def dump_context_defs MDRawContextARM64_of_def
        length_bytes_at layout_sizes arm64_ok_def normalize128_length)
qed

lemma context_read_sound:
  assumes "MinidumpContext_Read sz md = (Some d, md')"
  shows "(context_matches d \<or> cpu_lost d) \<and> context_wf d"
  using assms Read_amd64_sound Read_ppc64_sound Read_arm64_sound Read_switch_sound
  by (auto simp: MinidumpContext_Read_def split: if_splits)

lemma cpu_lost_no_walker: "cpu_lost d \<Longrightarrow> StackwalkerForCPU si (Some d) memory ms us = Some None"
  by (simp add: cpu_lost_def StackwalkerForCPU_def Let_def md_context_defs)

section \<open>The rest of the dump\<close>

text \<open>What the readers leave alone: everything but the position and the flag of the input stream, which
  once set stays, and the cached streams, of which none is dropped.\<close>

definition stream_index_map :: "Dump \<Rightarrow> (u32 \<times> u32) list" where
  "stream_index_map md = map (\<lambda>(t, i). (t, stream_index i)) (mf_stream_map md)"

definition same_file :: "Dump \<Rightarrow> Dump \<Rightarrow> bool" where
  "same_file md md' \<longleftrightarrow>
     mf_header md' = mf_header md \<and> mf_directory md' = mf_directory md \<and> mf_path md' = mf_path md \<and>
     mf_swap md' = mf_swap md \<and> mf_valid md' = mf_valid md \<and> stream_index_map md' = stream_index_map md \<and>
     (\<forall>i<length (mf_stream_map md). \<forall>s. cached_stream (snd (mf_stream_map md ! i)) = Some s \<longrightarrow>
        cached_stream (snd (mf_stream_map md' ! i)) = Some s) \<and>
     rel_option (\<lambda>s s'. st_bytes s' = st_bytes s \<and> st_limited s' = st_limited s \<and> (st_fail s \<longrightarrow> st_fail s'))
       (mf_stream md) (mf_stream md')"

definition framed :: "'a dump_reader \<Rightarrow> bool" where
  "framed f \<longleftrightarrow> (\<forall>md. same_file md (snd (f md)))"

lemma same_file_refl [simp]: "same_file md md"
  by (auto simp: same_file_def intro: option.rel_refl)

lemma stream_map_length: "same_file md md' \<Longrightarrow> length (mf_stream_map md') = length (mf_stream_map md)"
  by (auto simp: same_file_def stream_index_map_def dest!: map_eq_imp_length_eq)

lemma same_file_trans:
  assumes "same_file md md1" "same_file md1 md2"
  shows "same_file md md2"
  using assms stream_map_length [OF assms(1)] unfolding same_file_def
  by (auto elim!: option.rel_cases)

named_theorems framing

lemma framed_here: "(\<And>md. same_file md (snd (f md))) \<Longrightarrow> framed f"
  by (simp add: framed_def)

lemma framedD: "framed f \<Longrightarrow> f md = (r, md') \<Longrightarrow> same_file md md'"
  by (metis framed_def snd_conv)

lemma framed_give [framing]: "framed (give x)" "framed fail"
  by (simp_all add: framed_def)

lemma framed_and_then [framing]:
  assumes "framed f" "\<And>x. framed (g x)"
  shows "framed (and_then f g)"
proof (rule framed_here)
  fix md
  obtain r md1 where f: "f md = (r, md1)" by fastforce
  note s = framedD [OF assms(1) f]
  show "same_file md (snd (and_then f g md))"
  proof (cases r)
    case None
    then show ?thesis using f s by (simp add: and_then_def)
  next
    case (Some x)
    have "same_file md1 (snd (g x md1))" using assms(2) by (simp add: framed_def)
    then show ?thesis using f Some same_file_trans [OF s] by (simp add: and_then_def)
  qed
qed

lemma framed_if [framing]: "(b \<Longrightarrow> framed f) \<Longrightarrow> (\<not> b \<Longrightarrow> framed g) \<Longrightarrow> framed (if b then f else g)"
  by simp

lemma framed_Let [framing]: "framed (f x) \<Longrightarrow> framed (let y = x in f y)"
  by simp

lemma framed_pure [framing]: "framed (\<lambda>md. (g md, md))"
  by (simp add: framed_def)

lemma framed_state: "(\<And>m. framed (f m)) \<Longrightarrow> framed (\<lambda>md. f md md)"
  by (simp add: framed_def)

lemma framed_ReadBytes [framing]: "framed (ReadBytes n)"
  by (rule framed_here)
    (auto simp: ReadBytes_def same_file_def stream_index_map_def istream_read_def Let_def split: option.splits prod.splits if_splits)

lemma framed_SeekSet [framing]: "framed (SeekSet n)"
  by (rule framed_here)
    (auto simp: SeekSet_def same_file_def stream_index_map_def istream_seekg_def Let_def split: option.splits prod.splits)


lemma framed_SeekToStreamType [framing]: "framed (SeekToStreamType t)"
proof (rule framed_here)
  fix md
  have "framed (and_then (SeekSet n) (\<lambda>_. give x))" for n and x :: u32 by (intro framing)
  then have "same_file md (snd (and_then (SeekSet n) (\<lambda>_. give x) md))" for n and x :: u32 by (simp add: framed_def)
  then show "same_file md (snd (SeekToStreamType t md))" by (simp add: SeekToStreamType_def Let_def split: option.split)
qed

text \<open>Caching a stream that was not cached.\<close>

lemma cache_stream_frame:
  assumes "same_file md md1" "i < length (mf_stream_map md)" "fst (mf_stream_map md ! i) = t"
    and "cached_stream (snd (mf_stream_map md ! i)) = None"
  shows "same_file md (md1\<lparr>mf_stream_map := (mf_stream_map md1)[i := (t, (snd (mf_stream_map md1 ! i))\<lparr>cached_stream := Some s\<rparr>)]\<rparr>)"
proof -
  let ?m = "mf_stream_map md1" and ?ix = "\<lambda>(t, i). (t, stream_index i)"
  have l: "length ?m = length (mf_stream_map md)" by (rule stream_map_length [OF assms(1)])
  have e: "map ?ix ?m = map ?ix (mf_stream_map md)" using assms(1) by (simp add: same_file_def stream_index_map_def)
  then have "map ?ix ?m ! i = map ?ix (mf_stream_map md) ! i" by simp
  then have "?ix (?m ! i) = ?ix (mf_stream_map md ! i)" using assms(2) l by simp
  then have "(t, stream_index (snd (?m ! i))) = ?ix (?m ! i)" using assms(3) by (simp add: case_prod_beta')
  then have "map ?ix (?m[i := (t, (snd (?m ! i))\<lparr>cached_stream := Some s\<rparr>)]) = map ?ix ?m"
    using assms(2) l by (simp add: map_update list_update_same_conv)
  then show ?thesis
    using assms e l by (auto simp: same_file_def stream_index_map_def nth_list_update)
qed

lemma framed_GetStream [framing]:
  assumes "\<And>n. framed (new_read n)"
  shows "framed (GetStream t sel wrap new_read)"
proof (rule framed_here)
  fix md :: Dump
  let ?m = "mf_stream_map md"
  let ?i = "map_find ?m t"
  have f: "framed (and_then (SeekToStreamType t) new_read)" by (intro framing assms)
  show "same_file md (snd (GetStream t sel wrap new_read md))"
  proof (cases "mf_valid md \<and> ?i \<noteq> length ?m \<and> cached_stream (snd (?m ! ?i)) = None")
    case True
    then have i: "?i < length ?m" "fst (?m ! ?i) = t" by (auto simp: map_find_def Let_def split: if_splits)
    obtain r md1 where b: "and_then (SeekToStreamType t) new_read md = (r, md1)" by fastforce
    note s = framedD [OF f b]
    have "GetStream t sel wrap new_read md = (case r of None \<Rightarrow> (None, md1)
      | Some x \<Rightarrow> (Some x, md1\<lparr>mf_stream_map := (mf_stream_map md1)
          [?i := (t, (snd (mf_stream_map md1 ! ?i))\<lparr>cached_stream := Some (wrap x)\<rparr>)]\<rparr>))"
      using True b by (auto simp: GetStream_def and_then_def Let_def split: prod.splits option.splits)
    then show ?thesis using s cache_stream_frame [OF s i] True by (auto split: option.split)
  qed (auto simp: GetStream_def Let_def split: option.split)
qed

lemma framed_result: "framed f \<Longrightarrow> (\<And>md r md'. f md = (r, md') \<Longrightarrow> g md = (h r, md')) \<Longrightarrow> framed g"
  unfolding framed_def by (metis prod.collapse snd_conv)

lemma framed_swap [framing]: "framed swap"
  by (simp add: framed_def swap_def)

lemma framed_read_struct [framing]: "framed (read_struct l)"
  unfolding read_struct_def by (intro framing)

lemma framed_ReadWord [framing]: "framed (ReadWord b)"
  unfolding ReadWord_def by (intro framing)

lemma framed_GetSystemInfo [framing]: "framed GetSystemInfo"
  unfolding GetSystemInfo_def MinidumpSystemInfo_Read_def Let_def by (intro framing)

lemma framed_raw_system_info [framing]: "framed raw_system_info"
  by (rule framed_result [OF framed_GetSystemInfo, where h = "\<lambda>r. Option.bind r MinidumpSystemInfo_system_info"])
    (simp add: raw_system_info_def split: option.split)

lemma framed_CheckAgainstSystemInfo [framing]: "framed (CheckAgainstSystemInfo c)"
  by (rule framed_result [OF framed_GetSystemInfo, where h = "\<lambda>r. case r of None \<Rightarrow> Some () | Some s \<Rightarrow>
      (case MinidumpSystemInfo_system_info s of None \<Rightarrow> None
       | Some raw \<Rightarrow> if architecture_matches c (processor_architecture raw) then Some () else None)"])
    (simp add: CheckAgainstSystemInfo_def split: option.split)

lemma framed_GetContextCPUFlags [framing]: "framed GetContextCPUFlagsFromSystemInfo"
proof (rule framed_here)
  fix md
  obtain si md1 where r: "raw_system_info md = (si, md1)" by fastforce
  have "same_file md1 (snd (and_then (SeekSet p) (\<lambda>_. give (x :: u32)) md1))" for p x
    using framed_and_then [OF framed_SeekSet, of "\<lambda>_. give x" p] by (simp add: framing framed_def)
  then show "same_file md (snd (GetContextCPUFlagsFromSystemInfo md))"
    using same_file_trans [OF framedD [OF framed_raw_system_info r]] r
    by (simp add: GetContextCPUFlagsFromSystemInfo_def split: option.split)
qed

lemma framed_read_context [framing]: "framed (read_context c l)"
  unfolding read_context_def by (intro framing)

lemma framed_option [framing]: "framed f \<Longrightarrow> (\<And>x. framed (g x)) \<Longrightarrow> framed (case v of None \<Rightarrow> f | Some x \<Rightarrow> g x)"
  by (cases v) auto

lemma framed_prod [framing]: "(\<And>x y. framed (g x y)) \<Longrightarrow> framed (case v of (x, y) \<Rightarrow> g x y)"
  by (cases v) auto

lemma framed_Context_Read [framing]: "framed (MinidumpContext_Read sz)"
  unfolding MinidumpContext_Read_def Read_amd64_def Read_ppc64_def Read_arm64_def Read_switch_def Read_flags64_def Let_def
  by (intro framing)

section \<open>Contexts in both byte orders\<close>

text \<open>The structure for a CPU with its flags at their place, its layout, and the context that is made
  of it. The halves of the 128-bit registers are exchanged for AMD64, and for ARM64 only if the
  dump is swapped.\<close>

definition context_struct :: "u32 \<Rightarrow> u32 \<Rightarrow> u8 list \<Rightarrow> u8 list" where
  "context_struct c flags rest =
     (if c = MD_CONTEXT_AMD64 then take 48 rest @ le_bytes flags @ drop 48 rest
      else if c = MD_CONTEXT_ARM64 \<or> c = MD_CONTEXT_PPC64 then le_bytes (ucast flags :: u64) @ rest
      else le_bytes flags @ rest)"

definition context_layout :: "u32 \<Rightarrow> layout" where
  "context_layout c =
     (if c = MD_CONTEXT_AMD64 then amd64_layout
      else if c = MD_CONTEXT_ARM64 then (1, 8) # arm64_layout
      else if c = MD_CONTEXT_PPC64 then (1, 8) # ppc64_layout
      else case context_case c of None \<Rightarrow> [] | Some (s, l, store) \<Rightarrow> (1, 4) # l)"

definition context_of :: "bool \<Rightarrow> u32 \<Rightarrow> u32 \<Rightarrow> u8 list \<Rightarrow> DumpContext" where
  "context_of swapped c flags bs =
     (SetContextFlags flags
       (if c = MD_CONTEXT_AMD64 then SetContextAMD64 (Some (MDRawContextAMD64_of (normalize128 768 26 bs))) DumpContext_init
        else if c = MD_CONTEXT_ARM64
        then SetContextARM64 (Some (MDRawContextARM64_of (if swapped then normalize128 284 32 bs else bs))) DumpContext_init
        else if c = MD_CONTEXT_PPC64 then SetContextPPC64 (Some (MDRawContextPPC64_of bs)) DumpContext_init
        else case context_case c of None \<Rightarrow> DumpContext_init | Some (s, l, store) \<Rightarrow> store bs DumpContext_init))
     \<lparr>dc_valid := True\<rparr>"

text \<open>The system information is absent, or it was read before and names the CPU.\<close>

definition system_agrees :: "u32 \<Rightarrow> Dump \<Rightarrow> bool" where
  "system_agrees c md \<longleftrightarrow> mf_valid md \<and>
     (let i = map_find (mf_stream_map md) 7 in
      i = length (mf_stream_map md) \<or>
      (\<exists>s. cached_stream (snd (mf_stream_map md ! i)) = Some (SystemInfoStream s) \<and> si_valid s \<and>
         architecture_matches c (processor_architecture (si_system_info s))))"

lemma system_agrees_stream [simp]: "system_agrees c (md\<lparr>mf_stream := s\<rparr>) = system_agrees c md"
  by (simp add: system_agrees_def)

lemma CheckAgainstSystemInfo_agrees: "system_agrees c md \<Longrightarrow> CheckAgainstSystemInfo c md = (Some (), md)"
  by (auto simp: system_agrees_def CheckAgainstSystemInfo_def GetSystemInfo_def GetStream_def system_info_stream_def
      MinidumpSystemInfo_system_info_def Let_def)

lemma le_bytes_value:
  fixes bs :: "u8 list"
  assumes "LENGTH('w) = 8 * length bs"
  shows "le_bytes (le_value bs :: 'w::len word) = bs"
proof (rule nth_equalityI)
  show "length (le_bytes (le_value bs :: 'w word)) = length bs" using assms by simp
  fix i assume "i < length (le_bytes (le_value bs :: 'w word))"
  then have i: "i < length bs" using assms by simp
  show "le_bytes (le_value bs :: 'w word) ! i = bs ! i"
    by (rule bit_word_eqI) (use i assms in \<open>simp add: le_bytes_def bit_simps bit_le_value\<close>)
qed

lemma swap_word:
  "rev (le_bytes w) = swap_fields [(1, 4)] (le_bytes (w :: u32))" "rev (le_bytes v) = swap_fields [(1, 8)] (le_bytes (v :: u64))"
  by simp_all

lemma in_order_Cons:
  assumes "length xs = n * w"
  shows "in_order b ((n, w) # l) (xs @ ys) = in_order b [(n, w)] xs @ in_order b l ys"
proof -
  have "array_of w rev n (xs @ ys) = array_of w rev n xs"
    using assms by (induction n arbitrary: xs) auto
  then show ?thesis using assms by (simp add: in_order_def)
qed

lemma in_order_append:
  assumes "length xs = layout_size k"
  shows "in_order b (k @ l) (xs @ ys) = in_order b k xs @ in_order b l ys"
  using assms
proof (induction k arbitrary: xs)
  case Nil
  then show ?case by (simp add: in_order_def)
next
  case (Cons r k)
  obtain n w where r: "r = (n, w)" by fastforce
  define x y where "x = take (n * w) xs" and "y = drop (n * w) xs"
  have xs: "xs = x @ y" "length x = n * w" "length y = layout_size k" using Cons.prems r by (simp_all add: x_def y_def)
  show ?case unfolding r append_Cons xs(1) append_assoc in_order_Cons [OF xs(2)]
    using Cons.IH [OF xs(3)] by simp
qed

lemma in_order_word:
  "in_order b [(1, 4)] (le_bytes (f :: u32)) = word_bytes b f" "in_order b [(1, 8)] (le_bytes (g :: u64)) = word_bytes b g"
  by (simp_all add: in_order_def word_bytes_def)

text \<open>Exchanging the halves of 128-bit values commutes with swapping the halves.\<close>

lemma swap_halves:
  assumes "length v = 16 * n"
  shows "in_order b [(2 * n, 8)] (concat (array_of 16 (\<lambda>v. drop 8 v @ take 8 v) n (in_order b [(2 * n, 8)] v))) =
    concat (array_of 16 (\<lambda>v. drop 8 v @ take 8 v) n v)"
  using assms
proof (induction n arbitrary: v)
  case (Suc n)
  define a c w where "a = take 8 v" and "c = take 8 (drop 8 v)" and "w = drop 16 v"
  have v: "v = a @ c @ w" "length a = 8" "length c = 8" "length w = 16 * n"
    using Suc.prems by (simp_all add: a_def c_def w_def) (metis append_take_drop_id add.commute drop_drop numeral_Bit0)
  have e: "2 * Suc n = Suc (Suc (2 * n))" by simp
  show ?case using Suc.IH [OF v(4)] v(2-4) unfolding v(1) e by (cases b) (simp_all add: in_order_def)
qed (simp add: in_order_def)

lemma split_lengths:
  assumes "length bs = k + m + n"
  obtains x v t where "bs = x @ v @ t" "length x = k" "length v = m" "length t = n"
  using that [of "take k bs" "take m (drop k bs)" "drop (k + m) bs"] assms
    append_take_drop_id [of m "drop k bs"] by (simp add: add.commute)

lemma amd64_halves:
  assumes "length bs = 1232"
  shows "in_order b amd64_layout (normalize128 768 26 (in_order b amd64_layout bs)) = normalize128 768 26 bs"
proof -
  let ?k = "[(6, 8), (2, 4), (4, 2), (2, 1), (1, 2), (1, 4), (23, 8), (512, 1)] :: layout"
  let ?h = "\<lambda>v. concat (array_of 16 (\<lambda>v. drop 8 v @ take 8 v) 26 v)"
  have k: "layout_size ?k = 768" "amd64_layout = ?k @ [(2 * 26, 8)] @ [(6, 8)]" by (simp_all add: amd64_layout_def)
  obtain x v t where bs: "bs = x @ v @ t" "length x = 768" "length v = 416" "length t = 48"
    by (rule split_lengths [of bs 768 416 48]) (use assms in auto)
  have io: "in_order b amd64_layout (x' @ v' @ t') = in_order b ?k x' @ in_order b [(2 * 26, 8)] v' @ in_order b [(6, 8)] t'"
    if "length x' = 768" "length v' = 416" for x' v' t'
    using that k(1) in_order_append [of x' ?k b "[(2 * 26, 8)] @ [(6, 8)]"] in_order_Cons [of v' 52 8 b "[(6, 8)]"]
    unfolding k(2) by simp
  have norm: "normalize128 768 26 (x' @ v' @ t') = x' @ ?h v' @ t'" if "length x' = 768" "length v' = 416" for x' v' t'
  proof -
    have "array_of 16 f n (v' @ t') = array_of 16 f n v'" if "16 * n \<le> length v'" for f :: "u8 list \<Rightarrow> u8 list" and n and v' :: "u8 list"
      using that by (induction n arbitrary: v') auto
    then show ?thesis using that by (simp add: normalize128_def)
  qed
  have l: "length (in_order b ?k x) = 768" "length (in_order b [(2 * 26, 8)] v) = 416" "length (in_order b [(6, 8)] t) = 48"
    using bs k(1) by (simp_all add: in_order_decode)
  have h: "length (?h w) = 416" if "length w = 416" for w :: "u8 list"
    using that by (subst length_concat_array_of) auto
  show ?thesis
    unfolding bs(1) io [OF bs(2,3)] norm [OF bs(2,3)] norm [OF l(1,2)] io [OF l(1) h [OF l(2)]]
    using swap_halves [of v 26 b] bs k(1) by (simp add: in_order_decode)
qed


lemma ReadBytes_swapped:
  assumes "mf_stream md = Some (input bytes lm p)" "holds bytes (int p) (in_order b l bs)" "length bs = layout_size l"
  shows "ReadBytes (layout_size l) md = (Some (in_order b l bs), md\<lparr>mf_stream := Some (input bytes lm (p + layout_size l))\<rparr>)"
  using ReadBytes_at [OF assms(1,2)] assms(3) by (simp add: in_order_decode)

lemma read_context_at:
  assumes "mf_stream md = Some (input bytes lm p)" "holds bytes (int p) (in_order (file_swap md) l bs)"
    and "length bs = layout_size l" "system_agrees c md"
  shows "read_context c l md = (Some bs, md\<lparr>mf_stream := Some (input bytes lm (p + layout_size l))\<rparr>)"
  using ReadBytes_swapped [OF assms(1-3)] assms(3,4)
  by (simp add: read_context_def and_then_def CheckAgainstSystemInfo_agrees swap_def in_order_decode)

lemma ucast_back: "ucast (ucast (f :: u32) :: u64) = f"
  by (rule bit_word_eqI) (auto simp: bit_simps)

lemma cpu_nonzero: "c \<in> {MD_CONTEXT_X86, MD_CONTEXT_PPC, MD_CONTEXT_PPC64, MD_CONTEXT_AMD64, MD_CONTEXT_SPARC, MD_CONTEXT_ARM,
    MD_CONTEXT_ARM64, MD_CONTEXT_MIPS, MD_CONTEXT_MIPS64} \<Longrightarrow> c \<noteq> 0"
  by (auto simp: md_context_defs)

lemma Read_flags64_at:
  assumes "mf_stream md = Some (input bytes lm p)" "holds bytes (int p) (word_bytes (file_swap md) (ucast f :: u64))"
    and "(f :: u32) AND MD_CONTEXT_CPU_MASK = c" "c \<noteq> 0"
  shows "Read_flags64 c md = (Some (ucast f), md\<lparr>mf_stream := Some (input bytes lm (p + 8))\<rparr>)"
proof -
  have "(if file_swap md then Swap64 (at64 (word_bytes (file_swap md) (ucast f :: u64)) 0) else at64 (word_bytes (file_swap md) (ucast f :: u64)) 0) = ucast f"
    by (simp add: word_bytes_def at64_def Swap_rev)
  then show ?thesis
    using ReadBytes_at [OF assms(1,2), of 8] assms(3,4)
    by (simp add: Read_flags64_def and_then_def swap_def ucast_back)
qed

lemma arm_old_known: "f AND MD_CONTEXT_CPU_MASK \<noteq> 0 \<Longrightarrow> arm_old_flags f = f"
  by (simp add: arm_old_flags_def)

lemma Read_switch_at:
  assumes "mf_stream md = Some (input bytes lm p)"
    and "holds bytes (int p) (word_bytes (file_swap md) (f :: u32) @ in_order (file_swap md) l rest)"
    and "context_case c = Some (sz, l, store)" "f AND MD_CONTEXT_CPU_MASK = c" "c \<noteq> 0" "length rest = layout_size l" "system_agrees c md"
  shows "Read_switch sz md = (Some ((SetContextFlags f (store (le_bytes f @ rest) DumpContext_init))\<lparr>dc_valid := True\<rparr>),
    md\<lparr>mf_stream := Some (input bytes lm (p + 4 + layout_size l))\<rparr>)"
proof -
  have h: "holds bytes (int p) (word_bytes (file_swap md) f)" "holds bytes (int (p + 4)) (in_order (file_swap md) l rest)"
    using assms(2) by (simp_all add: holds_append)
  let ?md = "md\<lparr>mf_stream := Some (input bytes lm (p + 4))\<rparr>"
  have r: "read_context c l ?md = (Some rest, ?md\<lparr>mf_stream := Some (input bytes lm (p + 4 + layout_size l))\<rparr>)"
    by (rule read_context_at) (use h assms in simp_all)
  have "FreeContext DumpContext_init = DumpContext_init" by (simp add: FreeContext_def DumpContext_init_def)
  then show ?thesis
    using ReadWord_at [OF assms(1) h(1)] r assms(3,4,5) arm_old_known [of f]
    by (simp add: Read_switch_def and_then_def swap_def Let_def)
qed


lemma Read_amd64_at:
  assumes "mf_stream md = Some (input bytes lm p)" "length rest = 1228"
    and "holds bytes (int p) (in_order (file_swap md) amd64_layout (take 48 rest @ le_bytes (f :: u32) @ drop 48 rest))"
    and "f AND MD_CONTEXT_CPU_MASK = MD_CONTEXT_AMD64" "system_agrees MD_CONTEXT_AMD64 md"
  shows "Read_amd64 md = (Some ((SetContextAMD64 (Some (MDRawContextAMD64_of (normalize128 768 26 (take 48 rest @ le_bytes f @ drop 48 rest))))
      (SetContextFlags f DumpContext_init))\<lparr>dc_valid := True\<rparr>), md\<lparr>mf_stream := Some (input bytes lm (p + 1232))\<rparr>)"
proof -
  let ?bs = "take 48 rest @ le_bytes f @ drop 48 rest" and ?b = "file_swap md"
  let ?l = "[(1, 4), (4, 2), (2, 1), (1, 2), (1, 4), (23, 8), (512, 1), (52, 8), (6, 8)] :: layout"
  have len: "length ?bs = 1232" using assms(2) by simp
  have "in_order ?b amd64_layout ?bs = in_order ?b [(6, 8)] (take 48 rest) @ in_order ?b ((1, 4) # ?l) (le_bytes f @ drop 48 rest)"
    using in_order_Cons [of "take 48 rest" 6 8 ?b "(2, 4) # tl ?l" "le_bytes f @ drop 48 rest"] assms(2)
    by (cases ?b) (simp_all add: amd64_layout_def in_order_def numeral_2_eq_2)
  also have "\<dots> = in_order ?b [(6, 8)] (take 48 rest) @ word_bytes ?b f @ in_order ?b ?l (drop 48 rest)"
    using in_order_word(1) [of ?b f] by (subst in_order_Cons) simp_all
  finally have "take 4 (drop 48 (in_order ?b amd64_layout ?bs)) = word_bytes ?b f"
    using assms(2) by (simp add: in_order_decode)
  then have fl: "(if ?b then Swap32 (at32 (in_order ?b amd64_layout ?bs) 48) else at32 (in_order ?b amd64_layout ?bs) 48) = f"
    by (cases ?b) (simp_all add: at32_def word_bytes_def Swap_rev)
  let ?n = "normalize128 768 26 ?bs"
  have "take 4 (drop 48 ?n) = le_bytes f" "length ?n = 1232"
    using assms(2) len by (simp_all add: normalize128_length) (simp add: normalize128_def)
  then have "take 48 ?n @ le_bytes f @ drop 52 ?n = ?n"
    using append_take_drop_id [of 4 "drop 48 ?n"] append_take_drop_id [of 48 ?n] by simp
  moreover have "FreeContext DumpContext_init = DumpContext_init" by (simp add: FreeContext_def DumpContext_init_def)
  ultimately show ?thesis
    using ReadBytes_swapped [OF assms(1,3)] len layout_sizes(1) fl assms(4,5) cpu_nonzero [of MD_CONTEXT_AMD64] amd64_halves [OF len, of ?b]
    by (simp add: Read_amd64_def and_then_def swap_def Let_def CheckAgainstSystemInfo_agrees)
qed


lemma Read_arm64_at:
  assumes "mf_stream md = Some (input bytes lm p)" "length rest = 788"
    and "holds bytes (int p) (word_bytes (file_swap md) (ucast f :: u64) @ in_order (file_swap md) arm64_layout rest)"
    and "f AND MD_CONTEXT_CPU_MASK = MD_CONTEXT_ARM64" "system_agrees MD_CONTEXT_ARM64 md"
  shows "Read_arm64 md = (Some ((SetContextARM64 (Some (MDRawContextARM64_of
      (le_bytes (ucast f :: u64) @ (if file_swap md then normalize128 276 32 rest else rest))))
      (SetContextFlags f DumpContext_init))\<lparr>dc_valid := True\<rparr>), md\<lparr>mf_stream := Some (input bytes lm (p + 796))\<rparr>)"
proof -
  have h: "holds bytes (int p) (word_bytes (file_swap md) (ucast f :: u64))" "holds bytes (int (p + 8)) (in_order (file_swap md) arm64_layout rest)"
    using assms(3) by (simp_all add: holds_append)
  let ?md = "md\<lparr>mf_stream := Some (input bytes lm (p + 8))\<rparr>"
  have r: "read_context MD_CONTEXT_ARM64 arm64_layout ?md = (Some rest, ?md\<lparr>mf_stream := Some (input bytes lm (p + 8 + layout_size arm64_layout))\<rparr>)"
    by (rule read_context_at) (use h assms in \<open>simp_all add: layout_sizes\<close>)
  have "FreeContext DumpContext_init = DumpContext_init" by (simp add: FreeContext_def DumpContext_init_def)
  then show ?thesis
    using Read_flags64_at [OF assms(1) h(1) assms(4)] r cpu_nonzero [of MD_CONTEXT_ARM64]
    by (simp add: Read_arm64_def and_then_def swap_def Let_def ucast_back layout_sizes GetContextFlags_def SetContextFlags_def add.commute)
qed

lemma Read_ppc64_at:
  assumes "mf_stream md = Some (input bytes lm p)" "length rest = 1152"
    and "holds bytes (int p) (word_bytes (file_swap md) (ucast f :: u64) @ in_order (file_swap md) ppc64_layout rest)"
    and "f AND MD_CONTEXT_CPU_MASK = MD_CONTEXT_PPC64" "system_agrees MD_CONTEXT_PPC64 md"
  shows "Read_ppc64 md = (Some ((SetContextPPC64 (Some (MDRawContextPPC64_of (le_bytes (ucast f :: u64) @ rest)))
      (SetContextFlags f DumpContext_init))\<lparr>dc_valid := True\<rparr>), md\<lparr>mf_stream := Some (input bytes lm (p + 1160))\<rparr>)"
proof -
  have h: "holds bytes (int p) (word_bytes (file_swap md) (ucast f :: u64))" "holds bytes (int (p + 8)) (in_order (file_swap md) ppc64_layout rest)"
    using assms(3) by (simp_all add: holds_append)
  let ?md = "md\<lparr>mf_stream := Some (input bytes lm (p + 8))\<rparr>"
  have r: "read_context MD_CONTEXT_PPC64 ppc64_layout ?md = (Some rest, ?md\<lparr>mf_stream := Some (input bytes lm (p + 8 + layout_size ppc64_layout))\<rparr>)"
    by (rule read_context_at) (use h assms in \<open>simp_all add: layout_sizes\<close>)
  have "FreeContext DumpContext_init = DumpContext_init" by (simp add: FreeContext_def DumpContext_init_def)
  then show ?thesis
    using Read_flags64_at [OF assms(1) h(1) assms(4)] r cpu_nonzero [of MD_CONTEXT_PPC64]
    by (simp add: Read_ppc64_def and_then_def swap_def Let_def ucast_back layout_sizes GetContextFlags_def SetContextFlags_def add.commute)
qed

lemma arm64_normalize_shift: "length hd8 = 8 \<Longrightarrow> normalize128 284 32 (hd8 @ rest) = hd8 @ normalize128 276 32 rest"
  by (simp add: normalize128_def)

lemma context_read_at:
  assumes "c \<in> {MD_CONTEXT_X86, MD_CONTEXT_PPC, MD_CONTEXT_PPC64, MD_CONTEXT_AMD64, MD_CONTEXT_SPARC, MD_CONTEXT_ARM,
      MD_CONTEXT_ARM64, MD_CONTEXT_MIPS, MD_CONTEXT_MIPS64}"
    and "flags AND MD_CONTEXT_CPU_MASK = c" "system_agrees c md" "mf_stream md = Some (input bytes lm p)"
    and "length (context_struct c flags rest) = layout_size (context_layout c)"
    and "holds bytes (int p) (in_order (file_swap md) (context_layout c) (context_struct c flags rest))"
  shows "MinidumpContext_Read (of_nat (layout_size (context_layout c))) md =
    (Some (context_of (file_swap md) c flags (context_struct c flags rest)),
     md\<lparr>mf_stream := Some (input bytes lm (p + layout_size (context_layout c)))\<rparr>)"
proof -
  let ?b = "file_swap md"
  have w4: "in_order ?b ((1, 4) # l) (le_bytes flags @ rest) = word_bytes ?b flags @ in_order ?b l rest" for l
    using in_order_word(1) [of ?b flags] by (subst in_order_Cons) simp_all
  have w8: "in_order ?b ((1, 8) # l) (le_bytes (ucast flags :: u64) @ rest) = word_bytes ?b (ucast flags :: u64) @ in_order ?b l rest" for l
    using in_order_word(2) [of ?b "ucast flags"] by (subst in_order_Cons) simp_all
  consider (amd64) "c = MD_CONTEXT_AMD64" | (arm64) "c = MD_CONTEXT_ARM64" | (ppc64) "c = MD_CONTEXT_PPC64"
    | (switch) sz l store where "context_case c = Some (sz, l, store)" "sz \<noteq> 1232" "sz \<noteq> 1160" "sz \<noteq> 796"
        "unat sz = 4 + layout_size l" "c \<notin> {MD_CONTEXT_AMD64, MD_CONTEXT_ARM64, MD_CONTEXT_PPC64}"
    using assms(1) by (auto simp: context_case_def layout_sizes md_context_defs)
  then show ?thesis
  proof cases
    case amd64
    then show ?thesis
      using Read_amd64_at [OF assms(4), of rest flags] assms unique_sizes
      by (simp add: context_struct_def context_layout_def context_of_def layout_sizes MinidumpContext_Read_def dump_context_defs)
  next
    case arm64
    then show ?thesis
      using Read_arm64_at [OF assms(4), of rest flags] assms unique_sizes w8 arm64_normalize_shift [of "le_bytes (ucast flags :: u64)" rest]
      by (simp add: context_struct_def context_layout_def context_of_def layout_sizes MinidumpContext_Read_def dump_context_defs md_context_defs)
  next
    case ppc64
    then show ?thesis
      using Read_ppc64_at [OF assms(4), of rest flags] assms unique_sizes w8
      by (simp add: context_struct_def context_layout_def context_of_def layout_sizes MinidumpContext_Read_def dump_context_defs md_context_defs)
  next
    case switch
    have sz: "word_of_nat (4 + layout_size l) = sz" unfolding switch(5) [symmetric] by simp
    show ?thesis
      using Read_switch_at [OF assms(4) _ switch(1) assms(2) cpu_nonzero [OF assms(1)], of rest] assms(3,5,6) switch unique_sizes w4 sz
      by (simp add: context_struct_def context_layout_def context_of_def MinidumpContext_Read_def add.assoc)
  qed
qed


section \<open>The theorems\<close>


text \<open>C14. Whatever the bytes are, a context that \<open>MinidumpContext::Read\<close> accepts is complete: its register
  arrays have their full length, and its flags name the CPU of the structure that was stored, so that
  the accessors find it. There is one exception: a 64-bit ARM or PowerPC context whose CPU had to be taken
  from the system information comes back without a CPU in its flags, and no stack walker is made for it.
  Reading leaves the rest of the dump alone.\<close>

theorem MinidumpContext_Read_sound:
  assumes "MinidumpContext_Read sz md = (Some d, md')"
  shows "same_file md md' \<and> context_wf d \<and>
    (context_matches d \<or> cpu_lost d \<and> (\<forall>si memory ms us. StackwalkerForCPU si (Some d) memory ms us = Some None))"
  using context_read_sound [OF assms] framedD [OF framed_Context_Read assms] cpu_lost_no_walker by blast

text \<open>C21. The exception in full: a 64-bit ARM context whose flags name no CPU, in a dump whose system
  information says ARM64. The code takes the CPU from the system information and adds it to the flags
  of the structure, but then overwrites these with the flags that were read. The context is accepted,
  yet its CPU is 0, its registers cannot be got at, and no stack walker is made for it.\<close>

theorem arm64_cpu_flags_lost:
  assumes "mf_valid md" "map_find (mf_stream_map md) 7 \<noteq> length (mf_stream_map md)"
    and "cached_stream (snd (mf_stream_map md ! map_find (mf_stream_map md) 7)) = Some (SystemInfoStream s)"
    and "si_valid s" "processor_architecture (si_system_info s) = MD_CPU_ARCHITECTURE_ARM64"
    and "(flags :: u32) AND MD_CONTEXT_CPU_MASK = 0" "length rest = 788" "mf_stream md = Some (input bytes lm p)"
    and "holds bytes (int p) (word_bytes (file_swap md) (ucast flags :: u64) @ in_order (file_swap md) arm64_layout rest)"
  shows "\<exists>d md'. MinidumpContext_Read 796 md = (Some d, md') \<and> GetContextCPU d = 0 \<and> GetContextARM64 d = Some None \<and>
    StackwalkerForCPU si (Some d) memory ms us = Some None"
proof -
  let ?md = "md\<lparr>mf_stream := Some (input bytes lm (p + 8))\<rparr>"
  have h: "holds bytes (int p) (word_bytes (file_swap md) (ucast flags :: u64))" "holds bytes (int (p + 8)) (in_order (file_swap md) arm64_layout rest)"
    using assms(9) by (simp_all add: holds_append)
  have gs: "GetSystemInfo ?md = (Some s, ?md)"
    using assms(1-3) by (simp add: GetSystemInfo_def GetStream_def system_info_stream_def)
  have "Tell ?md = Some (p + 8)" "p + 8 \<le> length bytes" using assms(1) holds_bound [OF h(1)] by (simp_all add: Tell_def input_def)
  then have cf: "GetContextCPUFlagsFromSystemInfo ?md = (Some MD_CONTEXT_ARM64, ?md)"
    using gs assms(4,5) SeekSet_at [of ?md bytes lm "p + 8" "p + 8"]
    by (simp add: GetContextCPUFlagsFromSystemInfo_def raw_system_info_def MinidumpSystemInfo_system_info_def and_then_def
        context_cpu_flags_def architecture_defs)
  have fl: "(if file_swap md then Swap64 (at64 (word_bytes (file_swap md) (ucast flags :: u64)) 0) else at64 (word_bytes (file_swap md) (ucast flags :: u64)) 0) = ucast flags"
    by (simp add: word_bytes_def at64_def Swap_rev)
  then have f: "Read_flags64 MD_CONTEXT_ARM64 md = (Some (ucast flags), ?md)"
    using ReadBytes_at [OF assms(8) h(1), of 8] assms(6) cf
    by (simp add: Read_flags64_def and_then_def swap_def ucast_back)
  have "architecture_matches MD_CONTEXT_ARM64 (processor_architecture (si_system_info s))"
    using assms(5) by (simp add: architecture_matches_def md_context_defs)
  then have "system_agrees MD_CONTEXT_ARM64 ?md" using assms(1-4) by (auto simp: system_agrees_def Let_def)
  then have r: "read_context MD_CONTEXT_ARM64 arm64_layout ?md = (Some rest, ?md\<lparr>mf_stream := Some (input bytes lm (p + 8 + layout_size arm64_layout))\<rparr>)"
    by (intro read_context_at) (use h assms(7) in \<open>simp_all add: layout_sizes\<close>)
  let ?d = "(SetContextARM64 (Some (MDRawContextARM64_of (le_bytes (ucast flags :: u64) @ (if file_swap md then normalize128 276 32 rest else rest))))
      (SetContextFlags flags (FreeContext DumpContext_init)))\<lparr>dc_valid := True\<rparr>"
  have "Read_arm64 md = (Some ?d, ?md\<lparr>mf_stream := Some (input bytes lm (p + 8 + layout_size arm64_layout))\<rparr>)"
    using f r by (simp add: Read_arm64_def and_then_def swap_def Let_def ucast_back GetContextFlags_def SetContextFlags_def)
  then have "MinidumpContext_Read 796 md = (Some ?d, ?md\<lparr>mf_stream := Some (input bytes lm (p + 8 + layout_size arm64_layout))\<rparr>)"
    using unique_sizes by (simp add: MinidumpContext_Read_def)
  moreover have "GetContextCPU ?d = 0" "GetContextARM64 ?d = Some None"
    using assms(6) by (simp_all add: dump_context_defs GetContextARM64_def md_context_defs)
  moreover have "cpu_lost ?d" using assms(6) by (simp add: cpu_lost_def dump_context_defs)
  ultimately show ?thesis using cpu_lost_no_walker by blast
qed

section \<open>Examples\<close>

definition sample_arm_rest :: "u8 list" where
  "sample_arm_rest = replicate 52 0 @ le_bytes (0x1000 :: u32) @ replicate 4 0 @ le_bytes (0x8000 :: u32) @ replicate 300 0"

definition sample_context_md :: "u8 list \<Rightarrow> Dump" where
  "sample_context_md bytes = (Minidump_of_stream (input bytes True 0))\<lparr>mf_swap := True, mf_valid := True\<rparr>"

definition sample_arm_file :: "u8 list" where
  "sample_arm_file = in_order True (context_layout MD_CONTEXT_ARM) (context_struct MD_CONTEXT_ARM 0x40000006 sample_arm_rest)"

lemma sample_context_md_simps:
  "file_swap (sample_context_md bytes)" "mf_stream (sample_context_md bytes) = Some (input bytes True 0)"
  "system_agrees c (sample_context_md bytes)"
  by (simp_all add: sample_context_md_def file_swap_def Minidump_of_stream_def system_agrees_def Let_def map_find_def)


lemma sample_arm_at:
  "length (context_struct MD_CONTEXT_ARM 0x40000006 sample_arm_rest) = layout_size (context_layout MD_CONTEXT_ARM)"
  "holds sample_arm_file (int 0) (in_order True (context_layout MD_CONTEXT_ARM) (context_struct MD_CONTEXT_ARM 0x40000006 sample_arm_rest))"
  "0x40000006 AND MD_CONTEXT_CPU_MASK = MD_CONTEXT_ARM"
proof -
  show "length (context_struct MD_CONTEXT_ARM 0x40000006 sample_arm_rest) = layout_size (context_layout MD_CONTEXT_ARM)"
    by (simp add: context_struct_def context_layout_def context_case_def md_context_defs sample_arm_rest_def layout_sizes)
  show "holds sample_arm_file (int 0) (in_order True (context_layout MD_CONTEXT_ARM) (context_struct MD_CONTEXT_ARM 0x40000006 sample_arm_rest))"
    unfolding holds_iff sample_arm_file_def by (intro exI [of _ "[]"]) simp
  show "0x40000006 AND MD_CONTEXT_CPU_MASK = MD_CONTEXT_ARM"
    by (simp add: MD_CONTEXT_CPU_MASK_def MD_CONTEXT_ARM_def)
qed

definition sample_arm_context :: DumpContext where
  "sample_arm_context = context_of True MD_CONTEXT_ARM 0x40000006 (context_struct MD_CONTEXT_ARM 0x40000006 sample_arm_rest)"

lemma sample_arm_pc: "GetInstructionPointer sample_arm_context = Some (True, 0x8000)"
  unfolding sample_arm_context_def by code_simp


theorem MinidumpContext_Read_sound_witness:
  "\<exists>md'. MinidumpContext_Read (of_nat (layout_size (context_layout MD_CONTEXT_ARM))) (sample_context_md sample_arm_file) =
     (Some sample_arm_context, md') \<and> context_wf sample_arm_context"
proof -
  obtain md' where r: "MinidumpContext_Read (of_nat (layout_size (context_layout MD_CONTEXT_ARM))) (sample_context_md sample_arm_file) =
     (Some sample_arm_context, md')"
    using context_read_at [OF _ sample_arm_at(3) sample_context_md_simps(3,2) sample_arm_at(1)] sample_arm_at(2)
    by (simp add: sample_context_md_simps(1) sample_arm_context_def [symmetric])
  then show ?thesis using MinidumpContext_Read_sound [OF r] by blast
qed


definition sample_arm64_info :: MinidumpSystemInfo where
  "sample_arm64_info = \<lparr>si_valid = True, si_system_info = (MDRawSystemInfo_of (replicate 56 0))\<lparr>processor_architecture := 0x8003\<rparr>,
     si_csd_version = None, si_cpu_vendor = None\<rparr>"

definition sample_arm64_md :: Dump where
  "sample_arm64_md = (Minidump_of_stream (input (replicate 796 0) True 0))
     \<lparr>mf_valid := True, mf_stream_map := [(7, \<lparr>stream_index = 0, cached_stream = Some (SystemInfoStream sample_arm64_info)\<rparr>)]\<rparr>"

lemma sample_arm64_md_simps:
  "mf_valid sample_arm64_md" "map_find (mf_stream_map sample_arm64_md) 7 = 0" "length (mf_stream_map sample_arm64_md) = 1"
  "cached_stream (snd (mf_stream_map sample_arm64_md ! 0)) = Some (SystemInfoStream sample_arm64_info)"
  "mf_stream sample_arm64_md = Some (input (replicate 796 0) True 0)" "\<not> file_swap sample_arm64_md"
  by (simp_all add: sample_arm64_md_def Minidump_of_stream_def map_find_def Let_def file_swap_def)

theorem arm64_cpu_flags_lost_witness:
  "\<exists>d md'. MinidumpContext_Read 796 sample_arm64_md = (Some d, md') \<and> GetContextCPU d = 0 \<and> GetContextARM64 d = Some None"
proof -
  have w: "word_bytes False (ucast (0 :: u32) :: u64) = replicate 8 0" by code_simp
  have h: "holds (replicate 796 0) (int 0) (word_bytes False (ucast (0 :: u32) :: u64) @ in_order False arm64_layout (replicate 788 0))"
    unfolding holds_iff w in_order_def by (intro exI [of _ "[]"]) (simp add: replicate_add [symmetric])
  have "\<exists>d md'. MinidumpContext_Read 796 sample_arm64_md = (Some d, md') \<and> GetContextCPU d = 0 \<and> GetContextARM64 d = Some None \<and>
      StackwalkerForCPU None (Some d) None None None = Some None"
    by (rule arm64_cpu_flags_lost [where s = sample_arm64_info and flags = 0 and rest = "replicate 788 0" and bytes = "replicate 796 0"
          and lm = True and p = 0])
      (use h in \<open>simp_all add: sample_arm64_md_simps sample_arm64_info_def architecture_defs\<close>)
  then show ?thesis by blast
qed

end
