(* ===== verification/Minidump_Streams.thy ===== *)
theory Minidump_Streams
  imports Minidump_Context
begin

text \<open>
  The streams of a minidump besides its modules (\<open>processor/minidump.cc\<close>): threads, memory, the exception,
  and the information about the process and the dump.
\<close>

section \<open>Limits\<close>

text \<open>The static limits of the stream classes.\<close>

record StreamLimits =
  file_limits :: MinidumpLimits
  max_threads :: u32
  max_regions :: u32
  max_region_bytes :: u32
  max_modules :: u32
  max_unloaded_modules :: u32
  max_cv_bytes :: u32
  max_misc_bytes :: u32

definition default_stream_limits :: StreamLimits where
  "default_stream_limits =
     \<lparr>file_limits = default_minidump_limits, max_threads = 4096, max_regions = 4096, max_region_bytes = 0x4000000,
      max_modules = 2048, max_unloaded_modules = 2048, max_cv_bytes = 32768, max_misc_bytes = 32768\<rparr>"

section \<open>Threads\<close>

text \<open>The size of a list must fit its count exactly; on some machines it has four bytes of padding.\<close>

definition skip_padding :: "u32 \<Rightarrow> nat \<Rightarrow> unit dump_reader" where
  "skip_padding expected_size n =
     (if unat expected_size = n then give ()
      else if unat expected_size = n + 4 then and_then (ReadBytes 4) (\<lambda>_. give ())
      else fail)"

definition MinidumpThread_Read :: "MinidumpThread dump_reader" where
  "MinidumpThread_Read =
     and_then (read_struct MDRawThread_layout) (\<lambda>bs.
       let thread = MDRawThread_of bs;
           stack = thread_stack thread
       in give
            \<lparr>mth_thread = thread,
             mth_memory =
               (if rva stack = 0 \<or> data_size stack = 0 \<or> (- 1 :: u64) - start_of_memory_range stack < ucast (data_size stack)
                then None else Some (SetDescriptor (Some stack) MinidumpMemoryRegion_init)),
             mth_context = None, mth_valid = True\<rparr>)"

definition GetStartOfStackMemoryRange :: "MinidumpThread \<Rightarrow> u64" where
  "GetStartOfStackMemoryRange th = (if \<not> mth_valid th then 0 else start_of_memory_range (thread_stack (mth_thread th)))"

definition MinidumpThread_GetMemory :: "MinidumpThread \<Rightarrow> MinidumpMemoryRegion option" where
  "MinidumpThread_GetMemory th = (if \<not> mth_valid th then None else mth_memory th)"

definition MinidumpThread_GetThreadID :: "MinidumpThread \<Rightarrow> u32 option" where
  "MinidumpThread_GetThreadID th = (if \<not> mth_valid th then None else Some (thread_id (mth_thread th)))"

text \<open>The context at a location of the dump, and the thread that caches it.\<close>

definition read_context_at_location :: "MDLocationDescriptor \<Rightarrow> DumpContext dump_reader" where
  "read_context_at_location l = and_then (SeekSet (unat (loc_rva l))) (\<lambda>_. MinidumpContext_Read (loc_data_size l))"

definition MinidumpThread_GetContext :: "MinidumpThread \<Rightarrow> Dump \<Rightarrow> DumpContext option \<times> MinidumpThread \<times> Dump" where
  "MinidumpThread_GetContext th md =
     (if \<not> mth_valid th then (None, th, md)
      else
        (case mth_context th of
           Some c \<Rightarrow> (Some c, th, md)
         | None \<Rightarrow>
             (case read_context_at_location (thread_context (mth_thread th)) md of
                (None, md') \<Rightarrow> (None, th, md')
              | (Some c, md') \<Rightarrow> (Some c, th\<lparr>mth_context := Some c\<rparr>, md'))))"

text \<open>\<open>id_to_thread_map_[thread_id]\<close>, which adds a null pointer for a key that is not there.\<close>

definition thread_entry :: "u32 \<Rightarrow> (u32, nat option) std_map \<Rightarrow> nat option \<times> (u32, nat option) std_map" where
  "thread_entry i m =
     (let k = map_find m i
      in if k = length m then (None, map_insert m i None) else (snd (m ! k), m))"

fun read_threads ::
  "nat \<Rightarrow> MinidumpThread list \<Rightarrow> (u32, nat option) std_map \<Rightarrow> (MinidumpThread list \<times> (u32, nat option) std_map) dump_reader" where
  "read_threads 0 threads m = give (threads, m)"
| "read_threads (Suc n) threads m =
     and_then MinidumpThread_Read (\<lambda>th.
       case MinidumpThread_GetThreadID th of
         None \<Rightarrow> fail
       | Some i \<Rightarrow>
           (case thread_entry i m of
              (Some _, m') \<Rightarrow> fail
            | (None, m') \<Rightarrow> read_threads n (threads @ [th]) (map_assign m' i (Some (length threads)))))"

definition MinidumpThreadList_Read :: "StreamLimits \<Rightarrow> u32 \<Rightarrow> MinidumpThreadList dump_reader" where
  "MinidumpThreadList_Read lim expected_size =
     (if expected_size < 4 then fail
      else
        and_then swap (\<lambda>swapped.
        and_then (ReadWord swapped) (\<lambda>count.
          if (- 1) div 48 < count then fail
          else
            and_then (skip_padding expected_size (4 + unat count * 48)) (\<lambda>_.
              if max_threads lim < count then fail
              else
                and_then (read_threads (unat count) [] []) (\<lambda>(threads, m).
                  give \<lparr>id_to_thread_map = m, tl_threads = threads, thread_count = count, tl_valid = True\<rparr>)))))"

definition GetThreadAtIndex :: "MinidumpThreadList \<Rightarrow> u32 \<Rightarrow> MinidumpThread option" where
  "GetThreadAtIndex threads index =
     (if \<not> tl_valid threads then None
      else if thread_count threads \<le> index then None
      else Some (tl_threads threads ! unat index))"

definition GetThreadByID :: "MinidumpThreadList \<Rightarrow> u32 \<Rightarrow> MinidumpThread option \<times> MinidumpThreadList" where
  "GetThreadByID threads i =
     (case thread_entry i (id_to_thread_map threads) of
        (p, m) \<Rightarrow> (map_option (\<lambda>k. tl_threads threads ! k) p, threads\<lparr>id_to_thread_map := m\<rparr>))"

section \<open>Memory\<close>

fun store_regions ::
  "MDMemoryDescriptor list \<Rightarrow> u32 \<Rightarrow> (u64, u32) RangeMap \<Rightarrow> MinidumpMemoryRegion list
     \<Rightarrow> ((u64, u32) RangeMap \<times> MinidumpMemoryRegion list) option" where
  "store_regions [] i m regions = Some (m, regions)"
| "store_regions (d # ds) i m regions =
     (if data_size d = 0 \<or> (- 1 :: u64) - start_of_memory_range d < ucast (data_size d) then None
      else
        (case RangeMap_StoreRange 0 m (start_of_memory_range d) (ucast (data_size d)) i of
           (stored, m') \<Rightarrow>
             if \<not> stored then None
             else store_regions ds (i + 1) m' (regions @ [SetDescriptor (Some d) MinidumpMemoryRegion_init])))"

definition MinidumpMemoryList_Read :: "StreamLimits \<Rightarrow> u32 \<Rightarrow> MinidumpMemoryList dump_reader" where
  "MinidumpMemoryList_Read lim expected_size =
     (if expected_size < 4 then fail
      else
        and_then swap (\<lambda>swapped.
        and_then (ReadWord swapped) (\<lambda>count.
          if (- 1) div 16 < count then fail
          else
            and_then (skip_padding expected_size (4 + unat count * 16)) (\<lambda>_.
              if max_regions lim < count then fail
              else
                and_then (if count \<noteq> 0 then ReadBytes (16 * unat count) else give []) (\<lambda>bs.
                  case store_regions
                         (array_of 16 (\<lambda>b. MDMemoryDescriptor_of (in_order swapped MDMemoryDescriptor_layout b)) (unat count) bs)
                         0 RangeMap_init [] of
                    None \<Rightarrow> fail
                  | Some (m, regions) \<Rightarrow>
                      give \<lparr>ml_valid = True, ml_range_map = m, ml_regions = regions, region_count = count\<rparr>)))))"

definition GetMemoryRegionAtIndex :: "MinidumpMemoryList \<Rightarrow> u32 \<Rightarrow> MinidumpMemoryRegion option" where
  "GetMemoryRegionAtIndex ml index =
     (if \<not> ml_valid ml then None
      else if region_count ml \<le> index then None
      else Some (ml_regions ml ! unat index))"

definition GetMemoryRegionForAddress :: "MinidumpMemoryList \<Rightarrow> u64 \<Rightarrow> MinidumpMemoryRegion option" where
  "GetMemoryRegionForAddress ml address =
     (if \<not> ml_valid ml then None
      else
        (case RangeMap_RetrieveRange (ml_range_map ml) address of
           None \<Rightarrow> None
         | Some (index, _) \<Rightarrow> GetMemoryRegionAtIndex ml index))"

definition MinidumpMemoryInfo_Read :: "MinidumpMemoryInfo dump_reader" where
  "MinidumpMemoryInfo_Read =
     and_then (read_struct MDRawMemoryInfo_layout) (\<lambda>bs.
       let info = MDRawMemoryInfo_of bs in
       if region_size info = 0 \<or> (- 1) - info_base_address info < region_size info then fail
       else give \<lparr>mi_valid = True, mi_memory_info = info\<rparr>)"

definition IsExecutable :: "MinidumpMemoryInfo \<Rightarrow> bool" where
  "IsExecutable info = (region_protection (mi_memory_info info) AND 0xff \<in> {0x10, 0x20, 0x40})"

definition IsWritable :: "MinidumpMemoryInfo \<Rightarrow> bool" where
  "IsWritable info = (region_protection (mi_memory_info info) AND 0xff \<in> {0x04, 0x08, 0x40, 0x80})"

fun read_memory_infos ::
  "nat \<Rightarrow> u32 \<Rightarrow> (u64, u32) RangeMap \<Rightarrow> MinidumpMemoryInfo list \<Rightarrow> ((u64, u32) RangeMap \<times> MinidumpMemoryInfo list) dump_reader" where
  "read_memory_infos 0 i m infos = give (m, infos)"
| "read_memory_infos (Suc n) i m infos =
     and_then MinidumpMemoryInfo_Read (\<lambda>info.
       case RangeMap_StoreRange 0 m (info_base_address (mi_memory_info info)) (region_size (mi_memory_info info)) i of
         (stored, m') \<Rightarrow> if \<not> stored then fail else read_memory_infos n (i + 1) m' (infos @ [info]))"

definition MinidumpMemoryInfoList_Read :: "u32 \<Rightarrow> MinidumpMemoryInfoList dump_reader" where
  "MinidumpMemoryInfoList_Read expected_size =
     (if expected_size < 16 then fail
      else
        and_then (read_struct [(2, 4), (1, 8)]) (\<lambda>header.
          if at32 header 0 \<noteq> 16 then fail
          else if at32 header 4 \<noteq> 48 then fail
          else if (ucast ((- 1 :: u32) div 48) :: u64) < at64 header 8 then fail
          else if unat expected_size \<noteq> 16 + unat (at64 header 8) * 48 then fail
          else if ucast (ucast (at64 header 8) :: u32) \<noteq> at64 header 8 then fail
          else
            and_then (read_memory_infos (unat (at64 header 8)) 0 RangeMap_init []) (\<lambda>(m, infos).
              give \<lparr>mil_valid = True, mil_range_map = m, mil_infos = infos, info_count = ucast (at64 header 8)\<rparr>)))"

definition GetMemoryInfoAtIndex :: "MinidumpMemoryInfoList \<Rightarrow> u32 \<Rightarrow> MinidumpMemoryInfo option" where
  "GetMemoryInfoAtIndex mil index =
     (if \<not> mil_valid mil then None
      else if info_count mil \<le> index then None
      else Some (mil_infos mil ! unat index))"

definition GetMemoryInfoForAddress :: "MinidumpMemoryInfoList \<Rightarrow> u64 \<Rightarrow> MinidumpMemoryInfo option" where
  "GetMemoryInfoForAddress mil address =
     (if \<not> mil_valid mil then None
      else
        (case RangeMap_RetrieveRange (mil_range_map mil) address of
           None \<Rightarrow> None
         | Some (index, _) \<Rightarrow> GetMemoryInfoAtIndex mil index))"

section \<open>The exception\<close>

definition MinidumpException_Read :: "u32 \<Rightarrow> MinidumpException dump_reader" where
  "MinidumpException_Read expected_size =
     (if expected_size \<noteq> 168 then fail
      else and_then (read_struct MDRawExceptionStream_layout) (\<lambda>bs.
        give \<lparr>me_valid = True, me_exception = MDRawExceptionStream_of bs, me_context = None\<rparr>))"

definition MinidumpException_GetThreadID :: "MinidumpException \<Rightarrow> u32 option" where
  "MinidumpException_GetThreadID e = (if \<not> me_valid e then None else Some (exception_thread_id (me_exception e)))"

definition MinidumpException_GetContext :: "MinidumpException \<Rightarrow> Dump \<Rightarrow> DumpContext option \<times> MinidumpException \<times> Dump" where
  "MinidumpException_GetContext e md =
     (if \<not> me_valid e then (None, e, md)
      else
        (case me_context e of
           Some c \<Rightarrow> (Some c, e, md)
         | None \<Rightarrow>
             (case read_context_at_location (exception_context (me_exception e)) md of
                (None, md') \<Rightarrow> (None, e, md')
              | (Some c, md') \<Rightarrow> (Some c, e\<lparr>me_context := Some c\<rparr>, md'))))"

section \<open>Information about the system, the process and the dump\<close>

definition GetOS :: "MinidumpSystemInfo \<Rightarrow> string" where
  "GetOS s =
     (if \<not> si_valid s then []
      else
        (let p = platform_id (si_system_info s) in
         if p = 2 \<or> p = 1 then ''windows''
         else if p = 0x8101 then ''mac''
         else if p = 0x8102 then ''ios''
         else if p = 0x8201 then ''linux''
         else if p = 0x8202 then ''solaris''
         else if p = 0x8203 then ''android''
         else if p = 0x8204 then ''ps3''
         else if p = 0x8205 then ''nacl''
         else []))"

definition GetCPU :: "MinidumpSystemInfo \<Rightarrow> string" where
  "GetCPU s =
     (if \<not> si_valid s then []
      else
        (let a = processor_architecture (si_system_info s) in
         if a = MD_CPU_ARCHITECTURE_X86 \<or> a = MD_CPU_ARCHITECTURE_X86_WIN64 then ''x86''
         else if a = MD_CPU_ARCHITECTURE_AMD64 then ''x86-64''
         else if a = MD_CPU_ARCHITECTURE_PPC then ''ppc''
         else if a = MD_CPU_ARCHITECTURE_PPC64 then ''ppc64''
         else if a = MD_CPU_ARCHITECTURE_SPARC then ''sparc''
         else if a = MD_CPU_ARCHITECTURE_ARM then ''arm''
         else if a = MD_CPU_ARCHITECTURE_ARM64 then ''arm64''
         else []))"

definition GetCSDVersion :: "StreamLimits \<Rightarrow> MinidumpSystemInfo \<Rightarrow> Dump \<Rightarrow> string option \<times> MinidumpSystemInfo \<times> Dump" where
  "GetCSDVersion lim s md =
     (if \<not> si_valid s then (None, s, md)
      else
        (case si_csd_version s of
           Some v \<Rightarrow> (Some v, s, md)
         | None \<Rightarrow>
             (case ReadString (file_limits lim) (unat (csd_version_rva (si_system_info s))) md of
                (v, md') \<Rightarrow> (v, s\<lparr>si_csd_version := v\<rparr>, md'))))"

text \<open>The vendor is printed with \<open>%c\<close> into an array and made a string of it, so it ends at its first null
  character.\<close>

definition GetCPUVendor :: "MinidumpSystemInfo \<Rightarrow> string option \<times> MinidumpSystemInfo" where
  "GetCPUVendor s =
     (if \<not> si_valid s then (None, s)
      else
        (let a = processor_architecture (si_system_info s) in
         if si_cpu_vendor s = None \<and> (a = MD_CPU_ARCHITECTURE_X86 \<or> a = MD_CPU_ARCHITECTURE_X86_WIN64)
         then (let v = Some (cstr (map char_of_byte (take 12 (cpu_information (si_system_info s)))))
               in (v, s\<lparr>si_cpu_vendor := v\<rparr>))
         else (si_cpu_vendor s, s)))"

definition MinidumpBreakpadInfo_Read :: "u32 \<Rightarrow> MinidumpBreakpadInfo dump_reader" where
  "MinidumpBreakpadInfo_Read expected_size =
     (if expected_size \<noteq> 12 then fail
      else and_then (read_struct MDRawBreakpadInfo_layout) (\<lambda>bs.
        give \<lparr>bi_valid = True, bi_breakpad_info = MDRawBreakpadInfo_of bs\<rparr>))"

definition GetDumpThreadID :: "MinidumpBreakpadInfo \<Rightarrow> u32 option" where
  "GetDumpThreadID b =
     (if \<not> bi_valid b then None
      else if validity (bi_breakpad_info b) AND 1 = 0 then None
      else Some (dump_thread_id (bi_breakpad_info b)))"

definition GetRequestingThreadID :: "MinidumpBreakpadInfo \<Rightarrow> u32 option" where
  "GetRequestingThreadID b =
     (if \<not> bi_valid b then None
      else if validity (bi_breakpad_info b) AND 2 = 0 then None
      else Some (requesting_thread_id (bi_breakpad_info b)))"

definition ConvertUTF16BufferToUTF8String :: "u16 list \<Rightarrow> string \<Rightarrow> bool \<Rightarrow> string" where
  "ConvertUTF16BufferToUTF8String utf16_data utf8_result swapped =
     (let word_length = UTF16codeunits utf16_data (length utf16_data) in
      if 0 < word_length
      then (case UTF16ToUTF8 (take word_length utf16_data) swapped of None \<Rightarrow> utf8_result | Some s \<Rightarrow> s)
      else [])"

text \<open>The structure has grown over its versions, and the size that it gives for itself says which of its
  parts are there: 24, 44, 232, 832 or 1364 bytes, or more.\<close>

definition misc_info_layout :: "u32 \<Rightarrow> layout" where
  "misc_info_layout size_of_info =
     [(6, 4)] @ (if 24 < size_of_info then [(5, 4)] else [(20, 1)]) @
     (if 44 < size_of_info
      then [(4, 4), (1, 4), (64, 1), (8, 2), (1, 4), (64, 1), (8, 2), (1, 4)] else [(188, 1)]) @
     [(600, 1)] @ (if 832 < size_of_info then [(2, 4), (1, 8), (129, 4)] else [(532, 1)])"

definition MinidumpMiscInfo_Read :: "u32 \<Rightarrow> MinidumpMiscInfo dump_reader" where
  "MinidumpMiscInfo_Read expected_size =
     (if expected_size \<notin> {24, 44, 232, 832, 1364} \<and> expected_size \<le> 1364 then fail
      else
        (let known = (if 1364 < expected_size then 1364 else unat expected_size);
             padding = unat expected_size - known
         in and_then (ReadBytes known) (\<lambda>bs.
            and_then (if padding \<noteq> 0 then (\<lambda>md. case Tell md of None \<Rightarrow> (None, md) | Some p \<Rightarrow> SeekSet (p + padding) md) else give ()) (\<lambda>_.
            and_then swap (\<lambda>swapped.
              let full = bs @ replicate (1364 - known) 0;
                  size_of_info = (if swapped then Swap32 (at32 full 0) else at32 full 0);
                  host = in_order swapped (misc_info_layout size_of_info) full;
                  text_at = (\<lambda>i n. ConvertUTF16BufferToUTF8String (words16 (bytes_at host i n)) [] swapped)
              in if known + padding \<noteq> unat size_of_info then fail
                 else give
                   \<lparr>misc_valid = True, misc_bytes = host,
                    standard_name = (if 44 < size_of_info then text_at 64 64 else []),
                    daylight_name = (if 44 < size_of_info then text_at 148 64 else []),
                    build_string = (if 232 < size_of_info then text_at 232 520 else []),
                    dbg_bld_str = (if 232 < size_of_info then text_at 752 80 else [])\<rparr>)))))"

definition MinidumpAssertion_Read :: "u32 \<Rightarrow> MinidumpAssertion dump_reader" where
  "MinidumpAssertion_Read expected_size =
     (if expected_size \<noteq> 776 then fail
      else
        and_then (read_struct [(768, 1), (2, 4)]) (\<lambda>bs.
        and_then swap (\<lambda>swapped.
          let text_at = (\<lambda>i. ConvertUTF16BufferToUTF8String (words16 (bytes_at bs i 256)) [] swapped) in
          give \<lparr>assertion_valid = True, assertion_expression = text_at 0, assertion_function = text_at 256,
                assertion_file = text_at 512, assertion_line = at32 bs 768, assertion_type = at32 bs 772\<rparr>)))"

fun read_crashpad_modules ::
  "StreamLimits \<Rightarrow> u8 list list \<Rightarrow> MinidumpModuleCrashpadInfo list \<Rightarrow> MinidumpModuleCrashpadInfo list dump_reader" where
  "read_crashpad_modules lim [] modules = give modules"
| "read_crashpad_modules lim (link # links) modules =
     and_then swap (\<lambda>swapped.
       let entry = in_order swapped [(3, 4)] link in
       and_then (SeekSet (unat (at32 entry 8))) (\<lambda>_.
       and_then (read_struct [(5, 4)]) (\<lambda>info.
       and_then (if at32 info 4 \<noteq> 0 then ReadStringList (file_limits lim) (unat (at32 info 8)) else give []) (\<lambda>list_annotations.
       and_then (if at32 info 12 \<noteq> 0 then ReadSimpleStringDictionary (file_limits lim) (unat (at32 info 16)) else give []) (\<lambda>annotations.
         read_crashpad_modules lim links
           (modules @ [\<lparr>crashpad_module_index = at32 entry 0, crashpad_module_version = at32 info 0,
                        crashpad_list_annotations = list_annotations, crashpad_module_annotations = annotations\<rparr>]))))))"

definition MinidumpCrashpadInfo_Read :: "StreamLimits \<Rightarrow> u32 \<Rightarrow> MinidumpCrashpadInfo dump_reader" where
  "MinidumpCrashpadInfo_Read lim expected_size =
     (if expected_size \<noteq> 52 then fail
      else
        and_then (read_struct MDRawCrashpadInfo_layout) (\<lambda>bs.
        and_then (if at32 bs 36 \<noteq> 0 then ReadSimpleStringDictionary (file_limits lim) (unat (at32 bs 40)) else give []) (\<lambda>annotations.
        and_then
          (if at32 bs 44 \<noteq> 0
           then
             and_then (SeekSet (unat (at32 bs 48))) (\<lambda>_.
             and_then swap (\<lambda>swapped.
             and_then (ReadWord swapped) (\<lambda>count.
             and_then (ReadBytes (12 * unat count)) (\<lambda>links.
               read_crashpad_modules lim (array_of 12 (\<lambda>b. b) (unat count) links) []))))
           else give []) (\<lambda>modules.
          give \<lparr>crashpad_valid = True, crashpad_bytes = bs, crashpad_simple_annotations = annotations,
                crashpad_modules = modules\<rparr>))))"

section \<open>Getting the streams\<close>

definition GetThreadList :: "StreamLimits \<Rightarrow> MinidumpThreadList dump_reader" where
  "GetThreadList lim = GetStream 3 (\<lambda>s. case s of ThreadListStream x \<Rightarrow> Some x | _ \<Rightarrow> None) ThreadListStream (MinidumpThreadList_Read lim)"

definition GetMemoryList :: "StreamLimits \<Rightarrow> MinidumpMemoryList dump_reader" where
  "GetMemoryList lim = GetStream 5 (\<lambda>s. case s of MemoryListStream x \<Rightarrow> Some x | _ \<Rightarrow> None) MemoryListStream (MinidumpMemoryList_Read lim)"

definition GetException :: "MinidumpException dump_reader" where
  "GetException = GetStream 6 (\<lambda>s. case s of ExceptionStream x \<Rightarrow> Some x | _ \<Rightarrow> None) ExceptionStream MinidumpException_Read"

definition GetAssertion :: "MinidumpAssertion dump_reader" where
  "GetAssertion = GetStream 0x47670002 (\<lambda>s. case s of AssertionStream x \<Rightarrow> Some x | _ \<Rightarrow> None) AssertionStream MinidumpAssertion_Read"

definition GetMiscInfo :: "MinidumpMiscInfo dump_reader" where
  "GetMiscInfo = GetStream 15 (\<lambda>s. case s of MiscInfoStream x \<Rightarrow> Some x | _ \<Rightarrow> None) MiscInfoStream MinidumpMiscInfo_Read"

definition GetBreakpadInfo :: "MinidumpBreakpadInfo dump_reader" where
  "GetBreakpadInfo = GetStream 0x47670001 (\<lambda>s. case s of BreakpadInfoStream x \<Rightarrow> Some x | _ \<Rightarrow> None) BreakpadInfoStream MinidumpBreakpadInfo_Read"

definition GetMemoryInfoList :: "MinidumpMemoryInfoList dump_reader" where
  "GetMemoryInfoList = GetStream 16 (\<lambda>s. case s of MemoryInfoListStream x \<Rightarrow> Some x | _ \<Rightarrow> None) MemoryInfoListStream MinidumpMemoryInfoList_Read"

definition GetCrashpadInfo :: "StreamLimits \<Rightarrow> MinidumpCrashpadInfo dump_reader" where
  "GetCrashpadInfo lim =
     GetStream 0x43500001 (\<lambda>s. case s of CrashpadInfoStream x \<Rightarrow> Some x | _ \<Rightarrow> None) CrashpadInfoStream (MinidumpCrashpadInfo_Read lim)"

section \<open>Threads that were written\<close>

lemma framed_skip_padding [framing]: "framed (skip_padding e n)"
  unfolding skip_padding_def by (intro framing)

definition thread_bytes :: "MDRawThread \<Rightarrow> u8 list" where
  "thread_bytes t =
     le_bytes (thread_id t) @ le_bytes (suspend_count t) @ le_bytes (priority_class t) @ le_bytes (priority t) @
     le_bytes (teb t) @ le_bytes (start_of_memory_range (thread_stack t)) @ le_bytes (data_size (thread_stack t)) @
     le_bytes (rva (thread_stack t)) @ le_bytes (loc_data_size (thread_context t)) @ le_bytes (loc_rva (thread_context t))"

lemma thread_decode: "length (thread_bytes t) = layout_size MDRawThread_layout" "MDRawThread_of (thread_bytes t) = t"
  by (simp_all add: thread_bytes_def MDRawThread_layout_def MDRawThread_of_def MDMemoryDescriptor_of_def MDLocationDescriptor_of_def
      at_defs)

text \<open>The object for a thread.\<close>

definition thread_object :: "MDRawThread \<Rightarrow> MinidumpThread" where
  "thread_object t =
     \<lparr>mth_thread = t,
      mth_memory =
        (if rva (thread_stack t) = 0 \<or> data_size (thread_stack t) = 0 \<or>
            2 ^ 64 \<le> unat (start_of_memory_range (thread_stack t)) + unat (data_size (thread_stack t))
         then None else Some (open_region (thread_stack t))),
      mth_context = None, mth_valid = True\<rparr>"

lemma range_wraps_64: "(- 1 :: u64) - s < n \<longleftrightarrow> 2 ^ 64 \<le> unat s + unat n"
proof -
  have "unat (- 1 - s :: u64) = 2 ^ 64 - 1 - unat s"
    by (simp add: unat_sub_le unsigned_minus_1_eq_mask mask_eq_exp_minus_1)
  then show ?thesis using unat_less_64 [of s] by (simp add: word_less_nat_alt) linarith
qed

lemma range_wraps: "(- 1 :: u64) - s < ucast (n :: u32) \<longleftrightarrow> 2 ^ 64 \<le> unat s + unat n"
  by (simp add: range_wraps_64)

lemma MinidumpThread_Read_at:
  assumes "mf_stream md = Some (input bytes lm p)" "holds bytes (int p) (in_order (file_swap md) MDRawThread_layout (thread_bytes t))"
  shows "MinidumpThread_Read md = (Some (thread_object t), md\<lparr>mf_stream := Some (input bytes lm (p + 48))\<rparr>)"
  using read_struct_at [OF assms thread_decode(1)]
  by (simp add: MinidumpThread_Read_def and_then_def thread_decode thread_object_def Let_def range_wraps open_region_def)
    (simp add: MDRawThread_layout_def)

text \<open>The map of a thread list leads from the identifier of each thread to its place; it may hold null pointers for
  other identifiers.\<close>

definition indexed :: "MinidumpThread list \<Rightarrow> (u32, nat option) std_map \<Rightarrow> bool" where
  "indexed threads m \<longleftrightarrow>
     map_ok m \<and>
     (\<forall>i k. map_of m i = Some (Some k) \<longleftrightarrow> k < length threads \<and> thread_id (mth_thread (threads ! k)) = i)"

lemma thread_entry_alt:
  "map_ok m \<Longrightarrow> thread_entry i m = (case map_of m i of None \<Rightarrow> (None, map_insert m i None) | Some p \<Rightarrow> (p, m))"
  by (auto simp: thread_entry_def Let_def map_find_None dest: map_find_Some split: option.splits)

lemma indexed_Nil: "indexed [] []"
  by (simp add: indexed_def)

lemma indexed_new: "indexed threads m \<Longrightarrow> i \<notin> (\<lambda>th. thread_id (mth_thread th)) ` set threads \<Longrightarrow> map_of m i \<noteq> Some (Some k)"
  unfolding indexed_def by (metis (no_types, lifting) image_eqI nth_mem)

lemma indexed_distinct: "indexed threads m \<Longrightarrow> distinct (map (\<lambda>th. thread_id (mth_thread th)) threads)"
  unfolding indexed_def distinct_conv_nth by (metis length_map nth_map option.inject)

lemma thread_entry_indexed:
  assumes "indexed threads m" "thread_entry i m = (p, m')"
  shows "indexed threads m'" "p = Some k \<longleftrightarrow> map_of m i = Some (Some k)"
proof -
  have ok: "map_ok m" using assms(1) by (simp add: indexed_def)
  have e: "map_of (map_insert m i None) j = Some (Some k) \<longleftrightarrow> map_of m j = Some (Some k)" if "map_of m i = None" for j k
    using that by (auto simp: map_of_insert [OF ok])
  show "indexed threads m'" using assms e map_ok_insert [OF ok, of i None]
    by (auto simp: thread_entry_alt [OF ok] indexed_def split: option.splits)
  show "p = Some k \<longleftrightarrow> map_of m i = Some (Some k)" using assms(2)
    by (auto simp: thread_entry_alt [OF ok] split: option.splits)
qed

lemma indexed_snoc:
  assumes "indexed threads m" "\<And>k. map_of m (thread_id (mth_thread th)) \<noteq> Some (Some k)"
  shows "indexed (threads @ [th]) (map_assign m (thread_id (mth_thread th)) (Some (length threads)))"
proof -
  have "map_ok m" and m: "\<And>i k. map_of m i = Some (Some k) \<longleftrightarrow> k < length threads \<and> thread_id (mth_thread (threads ! k)) = i"
    using assms(1) by (auto simp: indexed_def)
  then show ?thesis using assms(2) unfolding indexed_def
    by (auto simp: map_of_assign map_ok_assign nth_append less_Suc_eq)
qed

text \<open>A lookup finds the thread with the identifier, and keeps the index.\<close>

lemma GetThreadByID_indexed:
  assumes "indexed (tl_threads ts) (id_to_thread_map ts)" "GetThreadByID ts i = (r, ts')"
  shows "r = find (\<lambda>th. thread_id (mth_thread th) = i) (tl_threads ts)"
    "indexed (tl_threads ts') (id_to_thread_map ts')" "tl_threads ts' = tl_threads ts"
proof -
  obtain p m where e: "thread_entry i (id_to_thread_map ts) = (p, m)" by fastforce
  have r: "r = map_option (\<lambda>k. tl_threads ts ! k) p" "ts' = ts\<lparr>id_to_thread_map := m\<rparr>"
    using assms(2) by (simp_all add: GetThreadByID_def e)
  show "indexed (tl_threads ts') (id_to_thread_map ts')" "tl_threads ts' = tl_threads ts"
    using thread_entry_indexed(1) [OF assms(1) e] by (simp_all add: r)
  have p: "p = Some k \<longleftrightarrow> k < length (tl_threads ts) \<and> thread_id (mth_thread (tl_threads ts ! k)) = i" for k
    using thread_entry_indexed(2) [OF assms(1) e, of k] assms(1) by (simp add: indexed_def)
  show "r = find (\<lambda>th. thread_id (mth_thread th) = i) (tl_threads ts)"
  proof (cases p)
    case None
    then have "find (\<lambda>th. thread_id (mth_thread th) = i) (tl_threads ts) = None"
      using p unfolding find_None_iff in_set_conv_nth by auto
    then show ?thesis by (simp add: r None)
  next
    case (Some k)
    then have "find (\<lambda>th. thread_id (mth_thread th) = i) (tl_threads ts) = Some (tl_threads ts ! k)"
      unfolding find_Some_iff by (metis p less_imp_not_less option.inject order.strict_trans)
    then show ?thesis by (simp add: r Some)
  qed
qed

lemma MinidumpThread_Read_valid: "MinidumpThread_Read md = (Some th, md') \<Longrightarrow> thread_object (mth_thread th) = th"
  by (auto simp: MinidumpThread_Read_def and_then_Some Let_def thread_object_def range_wraps open_region_def)

lemma thread_id_of_object: "thread_object t = th \<Longrightarrow> MinidumpThread_GetThreadID th = Some (thread_id (mth_thread th))"
  by (auto simp: MinidumpThread_GetThreadID_def thread_object_def)

lemma read_threads_indexed:
  assumes "read_threads n threads m md = (Some (threads', m'), md')" "indexed threads m"
    "\<forall>th\<in>set threads. thread_object (mth_thread th) = th"
  shows "indexed threads' m'" "length threads' = length threads + n" "\<forall>th\<in>set threads'. thread_object (mth_thread th) = th"
proof -
  have "indexed threads' m' \<and> length threads' = length threads + n \<and> (\<forall>th\<in>set threads'. thread_object (mth_thread th) = th)"
    using assms
  proof (induction n threads m arbitrary: md rule: read_threads.induct)
    case (2 n threads m)
    from 2(2) obtain th md1 where th: "MinidumpThread_Read md = (Some th, md1)"
      and rest: "(case MinidumpThread_GetThreadID th of
         None \<Rightarrow> fail
       | Some i \<Rightarrow>
           (case thread_entry i m of
              (Some _, m') \<Rightarrow> fail
            | (None, m') \<Rightarrow> read_threads n (threads @ [th]) (map_assign m' i (Some (length threads))))) md1 = (Some (threads', m'), md')"
      unfolding read_threads.simps and_then_Some by blast
    have t: "thread_object (mth_thread th) = th" by (rule MinidumpThread_Read_valid [OF th])
    obtain p m1 where e: "thread_entry (thread_id (mth_thread th)) m = (p, m1)" by fastforce
    have p: "p = None" and r: "read_threads n (threads @ [th])
        (map_assign m1 (thread_id (mth_thread th)) (Some (length threads))) md1 = (Some (threads', m'), md')"
      using rest by (auto simp: thread_id_of_object [OF t] e split: option.splits)
    have "indexed (threads @ [th]) (map_assign m1 (thread_id (mth_thread th)) (Some (length threads)))"
      using thread_entry_indexed [OF 2(3) e] 2(3) p by (intro indexed_snoc) (auto simp: indexed_def)
    then show ?case using 2(1) [OF thread_id_of_object [OF t] e [symmetric] p r] 2(4) t by simp
  qed simp
  then show "indexed threads' m'" "length threads' = length threads + n" "\<forall>th\<in>set threads'. thread_object (mth_thread th) = th" by simp_all
qed

lemma read_threads_at:
  assumes "mf_stream md = Some (input bytes lm p)" "indexed threads m"
    and "holds bytes (int p) (concat (map (\<lambda>t. in_order (file_swap md) MDRawThread_layout (thread_bytes t)) ts))"
    and "distinct (map (\<lambda>th. thread_id (mth_thread th)) threads @ map thread_id ts)"
  shows "\<exists>m'. read_threads (length ts) threads m md =
      (Some (threads @ map thread_object ts, m'), md\<lparr>mf_stream := Some (input bytes lm (p + 48 * length ts))\<rparr>)"
  using assms
proof (induction ts arbitrary: md threads m p)
  case (Cons t ts)
  let ?th = "thread_object t"
  let ?md = "md\<lparr>mf_stream := Some (input bytes lm (p + 48))\<rparr>"
  have len: "length (in_order (file_swap md) MDRawThread_layout (thread_bytes t)) = 48"
    using in_order_decode(1) [of MDRawThread_layout "thread_bytes t" "file_swap md"] by (simp add: thread_decode) (simp add: MDRawThread_layout_def)
  have h: "holds bytes (int p) (in_order (file_swap md) MDRawThread_layout (thread_bytes t))"
    "holds bytes (int (p + 48)) (concat (map (\<lambda>t. in_order (file_swap ?md) MDRawThread_layout (thread_bytes t)) ts))"
    using Cons.prems(3) by (simp_all add: holds_append len)
  have r: "MinidumpThread_Read md = (Some ?th, ?md)" by (rule MinidumpThread_Read_at [OF Cons.prems(1) h(1)])
  have i: "MinidumpThread_GetThreadID ?th = Some (thread_id t)" "thread_id (mth_thread ?th) = thread_id t"
    by (simp_all add: MinidumpThread_GetThreadID_def thread_object_def)
  obtain q m1 where e: "thread_entry (thread_id t) m = (q, m1)" by fastforce
  have "map_of m (thread_id t) \<noteq> Some (Some k)" for k
    using Cons.prems(4) by (intro indexed_new [OF Cons.prems(2)]) simp
  then have q: "q = None" using thread_entry_indexed(2) [OF Cons.prems(2) e] by (cases q) auto
  have "map_of m1 (thread_id t) \<noteq> Some (Some k)" for k
    using Cons.prems(4) by (intro indexed_new [OF thread_entry_indexed(1) [OF Cons.prems(2) e]]) simp
  then have "indexed (threads @ [?th]) (map_assign m1 (thread_id t) (Some (length threads)))"
    using indexed_snoc [OF thread_entry_indexed(1) [OF Cons.prems(2) e], of ?th] i(2) by simp
  then obtain m' where "read_threads (length ts) (threads @ [?th]) (map_assign m1 (thread_id t) (Some (length threads))) ?md =
      (Some (threads @ [?th] @ map thread_object ts, m'), md\<lparr>mf_stream := Some (input bytes lm (p + 48 + 48 * length ts))\<rparr>)"
    using Cons.IH [of ?md "p + 48" "threads @ [?th]"] h(2) Cons.prems(4) i(2) by fastforce
  then show ?case by (simp add: and_then_def r i(1) e q add.assoc)
qed simp

lemma thread_list_size:
  assumes "4 + k + 48 * n < 2 ^ 32" "k \<in> {0, 4}"
  shows "unat (of_nat (4 + k + 48 * n) :: u32) = 4 + k + 48 * n" "unat (of_nat n :: u32) = n"
    "\<not> (- 1) div 48 < (of_nat n :: u32)" "\<not> of_nat (4 + k + 48 * n) < (4 :: u32)"
proof -
  show n: "unat (of_nat n :: u32) = n" "unat (of_nat (4 + k + 48 * n) :: u32) = 4 + k + 48 * n"
    using assms(1) by (simp_all add: unat_of_nat take_bit_nat_eq_self del: of_nat_mult of_nat_add)
  have "unat ((- 1 :: u32) div 48) = (2 ^ 32 - 1) div 48" by (simp add: unat_div)
  then show "\<not> (- 1) div 48 < (of_nat n :: u32)" using assms(1) n(1) by (simp add: word_less_nat_alt)
  show "\<not> of_nat (4 + k + 48 * n) < (4 :: u32)" using n(2) by (simp add: word_less_nat_alt del: of_nat_mult of_nat_add)
qed

lemma skip_padding_at:
  assumes "mf_stream md = Some (input bytes lm p)" "holds bytes (int p) padding" "length padding \<in> {0, 4}"
    and "unat e = n + length padding"
  shows "skip_padding e n md = (Some (), md\<lparr>mf_stream := Some (input bytes lm (p + length padding))\<rparr>)"
  using assms(1,3,4) ReadBytes_at [OF assms(1,2), of 4] by (auto simp: skip_padding_def and_then_def)

lemma thread_list_at:
  assumes "mf_stream md = Some (input bytes lm p)" "length padding \<in> {0, 4}"
    and "holds bytes (int p) (word_bytes (file_swap md) (of_nat (length ts) :: u32) @ padding @
      concat (map (\<lambda>t. in_order (file_swap md) MDRawThread_layout (thread_bytes t)) ts))"
    and "4 + length padding + 48 * length ts < 2 ^ 32" "length ts \<le> unat (max_threads lim)" "distinct (map thread_id ts)"
  shows "\<exists>m. MinidumpThreadList_Read lim (of_nat (4 + length padding + 48 * length ts)) md =
     (Some \<lparr>id_to_thread_map = m, tl_threads = map thread_object ts, thread_count = of_nat (length ts), tl_valid = True\<rparr>,
      md\<lparr>mf_stream := Some (input bytes lm (p + 4 + length padding + 48 * length ts))\<rparr>)"
proof -
  note n = thread_list_size [OF assms(4,2)]
  have h: "holds bytes (int p) (word_bytes (file_swap md) (of_nat (length ts) :: u32))" "holds bytes (int (p + 4)) padding"
    "holds bytes (int (p + 4 + length padding)) (concat (map (\<lambda>t. in_order (file_swap md) MDRawThread_layout (thread_bytes t)) ts))"
    using assms(3) by (simp_all add: holds_append add.assoc)
  let ?md1 = "md\<lparr>mf_stream := Some (input bytes lm (p + 4))\<rparr>"
  let ?md2 = "md\<lparr>mf_stream := Some (input bytes lm (p + 4 + length padding))\<rparr>"
  have s: "skip_padding (of_nat (4 + length padding + 48 * length ts)) (4 + unat (of_nat (length ts) :: u32) * 48) ?md1 = (Some (), ?md2)"
    using skip_padding_at [of ?md1 bytes lm "p + 4" padding] h(2) assms(2) n by simp
  obtain m where "read_threads (length ts) [] [] ?md2 = (Some (map thread_object ts, m),
      md\<lparr>mf_stream := Some (input bytes lm (p + 4 + length padding + 48 * length ts))\<rparr>)"
    using read_threads_at [of ?md2 bytes lm "p + 4 + length padding" "[]" "[]" ts] h(3) assms(6) indexed_Nil by auto
  then show ?thesis
    using n ReadWord_at [OF assms(1) h(1)] s assms(5)
    by (simp add: MinidumpThreadList_Read_def swap_def and_then_def word_less_nat_alt not_less del: of_nat_mult of_nat_add)
qed

lemma and_then_swap: "and_then swap f md = f (file_swap md) md"
  by (simp add: and_then_def swap_def)

lemma guarded_Some:
  "(if b then fail else f) md = (Some x, md') \<longleftrightarrow> \<not> b \<and> f md = (Some x, md')"
  by simp

lemma list_steps:
  assumes "(if expected_size < (4 :: u32) then fail
      else
        and_then swap (\<lambda>swapped.
        and_then (ReadWord swapped) (\<lambda>count.
          if (- 1) div sz < count then fail
          else
            and_then (skip_padding expected_size (4 + unat count * n)) (\<lambda>_.
              if limit < count then fail else rest swapped count)))) md = (Some x, md')"
  obtains count u md1 md2 where "ReadWord (file_swap md) md = (Some count, md1)"
    "skip_padding expected_size (4 + unat count * n) md1 = (Some u, md2)" "count \<le> limit"
    "rest (file_swap md) count md2 = (Some x, md')"
  using assms unfolding guarded_Some and_then_swap and_then_Some not_less by blast

lemma thread_list_read:
  assumes "MinidumpThreadList_Read lim expected_size md = (Some ts, md')"
  shows "tl_valid ts" "thread_count ts \<le> max_threads lim" "length (tl_threads ts) = unat (thread_count ts)"
    "indexed (tl_threads ts) (id_to_thread_map ts)" "\<forall>th\<in>set (tl_threads ts). thread_object (mth_thread th) = th"
    "unat expected_size \<in> {4 + unat (thread_count ts) * 48, 8 + unat (thread_count ts) * 48}"
proof -
  obtain md1 md2 count u where p: "skip_padding expected_size (4 + unat count * 48) md1 = (Some u, md2)" "count \<le> max_threads lim"
    and r: "and_then (read_threads (unat count) [] []) (\<lambda>(threads, m).
      give \<lparr>id_to_thread_map = m, tl_threads = threads, thread_count = count, tl_valid = True\<rparr>) md2 = (Some ts, md')"
    using assms unfolding MinidumpThreadList_Read_def by (rule list_steps)
  then obtain threads m md3 where t: "read_threads (unat count) [] [] md2 = (Some (threads, m), md3)"
    and ts: "ts = \<lparr>id_to_thread_map = m, tl_threads = threads, thread_count = count, tl_valid = True\<rparr>"
    by (auto simp: and_then_Some)
  have r: "indexed threads m" "\<forall>th\<in>set threads. thread_object (mth_thread th) = th" "length threads = unat count"
    by (rule read_threads_indexed(1,3) [OF t indexed_Nil], simp)+ (simp add: read_threads_indexed(2) [OF t indexed_Nil])
  show "tl_valid ts" "thread_count ts \<le> max_threads lim" "length (tl_threads ts) = unat (thread_count ts)"
    "indexed (tl_threads ts) (id_to_thread_map ts)" "\<forall>th\<in>set (tl_threads ts). thread_object (mth_thread th) = th"
    unfolding ts using r p(2) by auto
  show "unat expected_size \<in> {4 + unat (thread_count ts) * 48, 8 + unat (thread_count ts) * 48}"
    using p(1) by (simp add: ts skip_padding_def split: if_split_asm)
qed

text \<open>Lookups leave null pointers in the map, which no later lookup sees.\<close>

definition look_up_all :: "u32 list \<Rightarrow> MinidumpThreadList \<Rightarrow> MinidumpThreadList" where
  "look_up_all ids ts = fold (\<lambda>i ts. snd (GetThreadByID ts i)) ids ts"

lemma look_up_indexed:
  assumes "indexed (tl_threads ts) (id_to_thread_map ts)"
  shows "indexed (tl_threads (look_up_all ids ts)) (id_to_thread_map (look_up_all ids ts))"
    "tl_threads (look_up_all ids ts) = tl_threads ts"
proof -
  have "indexed (tl_threads (look_up_all ids ts)) (id_to_thread_map (look_up_all ids ts)) \<and>
      tl_threads (look_up_all ids ts) = tl_threads ts"
    using assms unfolding look_up_all_def
  proof (induction ids arbitrary: ts)
    case (Cons i ids)
    obtain r ts1 where e: "GetThreadByID ts i = (r, ts1)" by fastforce
    show ?case using Cons.IH [OF GetThreadByID_indexed(2) [OF Cons.prems e]] GetThreadByID_indexed(3) [OF Cons.prems e] by (auto simp: e)
  qed simp
  then show "indexed (tl_threads (look_up_all ids ts)) (id_to_thread_map (look_up_all ids ts))"
    "tl_threads (look_up_all ids ts) = tl_threads ts" by auto
qed

lemma find_distinct: "x \<in> set xs \<Longrightarrow> distinct (map f xs) \<Longrightarrow> find (\<lambda>y. f y = f x) xs = Some x"
  by (induction xs) (auto simp: image_iff)

lemma look_up_find:
  assumes "indexed (tl_threads ts) (id_to_thread_map ts)"
  shows "fst (GetThreadByID (look_up_all ids ts) i) = find (\<lambda>th. thread_id (mth_thread th) = i) (tl_threads ts)"
  using GetThreadByID_indexed(1) [OF look_up_indexed(1) [OF assms]] look_up_indexed(2) [OF assms]
  by (metis prod.collapse)


text \<open>C16. Whatever the bytes are, a thread list that is accepted is sound: it has as many threads as its count
  says and no more than the limit allows, its size is the one that the directory gave, no two of its
  threads have the same identifier, and a lookup by identifier finds the thread that has it, also after
  any sequence of other lookups, each of which may leave a null pointer in the map.\<close>

theorem MinidumpThreadList_Read_sound:
  assumes "MinidumpThreadList_Read lim expected_size md = (Some ts, md')"
  shows "thread_count ts \<le> max_threads lim \<and> length (tl_threads ts) = unat (thread_count ts) \<and>
    unat expected_size \<in> {4 + unat (thread_count ts) * 48, 8 + unat (thread_count ts) * 48} \<and>
    distinct (map (\<lambda>th. thread_id (mth_thread th)) (tl_threads ts)) \<and>
    (\<forall>ids i. fst (GetThreadByID (look_up_all ids ts) i) = find (\<lambda>th. thread_id (mth_thread th) = i) (tl_threads ts)) \<and>
    (\<forall>n th. GetThreadAtIndex ts n = Some th \<longrightarrow>
      (\<forall>ids. fst (GetThreadByID (look_up_all ids ts) (thread_id (mth_thread th))) = Some th))"
proof -
  note r = thread_list_read [OF assms]
  have d: "distinct (map (\<lambda>th. thread_id (mth_thread th)) (tl_threads ts))" by (rule indexed_distinct [OF r(4)])
  have "find (\<lambda>th'. thread_id (mth_thread th') = thread_id (mth_thread th)) (tl_threads ts) = Some th" if "GetThreadAtIndex ts n = Some th" for n th
  proof -
    have "th \<in> set (tl_threads ts)" using that r(1,3)
      by (auto simp: GetThreadAtIndex_def word_le_nat_alt split: if_split_asm intro!: nth_mem)
    then show ?thesis using d by (rule find_distinct)
  qed
  then show ?thesis using r d look_up_find [OF r(4)] by simp
qed

section \<open>Lists that are searched by address\<close>

text \<open>Several lists keep a range map from the addresses of their elements to their places.\<close>

definition addr_covers :: "u64 \<times> u64 \<Rightarrow> u64 \<Rightarrow> bool" where
  "addr_covers r a \<longleftrightarrow> fst r \<le> a \<and> a \<le> fst r + (snd r - 1)"

definition apart :: "u64 \<times> u64 \<Rightarrow> u64 \<times> u64 \<Rightarrow> bool" where
  "apart r r' \<longleftrightarrow> fst r + (snd r - 1) < fst r' \<or> fst r' + (snd r' - 1) < fst r"

definition range_good :: "u64 \<times> u64 \<Rightarrow> bool" where
  "range_good r \<longleftrightarrow> snd r \<noteq> 0 \<and> fst r \<le> fst r + (snd r - 1)"

definition range_entry :: "(u64 \<times> u64) list \<Rightarrow> nat \<Rightarrow> u64 \<times> (u64, u32) Range" where
  "range_entry rs k = (fst (rs ! k) + (snd (rs ! k) - 1), \<lparr>r_base = fst (rs ! k), r_delta = 0, r_entry = of_nat k\<rparr>)"

definition ranges_indexed :: "(u64, u32) RangeMap \<Rightarrow> (u64 \<times> u64) list \<Rightarrow> bool" where
  "ranges_indexed m rs \<longleftrightarrow>
     RangeMap_ok m \<and> \<not> enable_shrink_down m \<and> (\<forall>r\<in>set rs. range_good r) \<and> sorted_wrt apart rs \<and>
     set (rmap m) = range_entry rs ` {..<length rs}"

lemma ranges_indexed_Nil: "ranges_indexed RangeMap_init []"
  by (simp add: ranges_indexed_def RangeMap_init_ok) (simp add: RangeMap_init_def)

lemma apart_addr_covers: "apart r r' \<Longrightarrow> addr_covers r a \<Longrightarrow> \<not> addr_covers r' a"
  by (auto simp: apart_def addr_covers_def)

lemma apart_sym: "apart r r' \<Longrightarrow> apart r' r"
  by (auto simp: apart_def)

lemma range_entry_append: "range_entry (rs @ [r]) ` {..<Suc (length rs)} =
    insert (fst r + (snd r - 1), \<lparr>r_base = fst r, r_delta = 0, r_entry = of_nat (length rs)\<rparr>) (range_entry rs ` {..<length rs})"
  by (auto simp: range_entry_def nth_append lessThan_Suc)

lemma ranges_indexed_clear:
  "ranges_indexed m rs \<Longrightarrow>
     (\<forall>hr\<in>set (rmap m). clear_of (fst r) (fst r + (snd r - 1)) hr) \<longleftrightarrow> (\<forall>r'\<in>set rs. apart r' r)"
  unfolding ranges_indexed_def all_set_conv_all_nth [of rs "\<lambda>r'. apart r' r"]
  by (simp add: range_entry_def clear_of_def apart_def Ball_def [of "{..<length rs}"])

lemma ranges_indexed_store:
  assumes "ranges_indexed m rs"
  shows "fst (RangeMap_StoreRange dflt m (fst r) (snd r) i) \<longleftrightarrow> range_good r \<and> (\<forall>r'\<in>set rs. apart r' r)"
    and "fst (RangeMap_StoreRange dflt m (fst r) (snd r) i) \<Longrightarrow> i = of_nat (length rs) \<Longrightarrow>
      ranges_indexed (snd (RangeMap_StoreRange dflt m (fst r) (snd r) i)) (rs @ [r])"
proof -
  have m: "RangeMap_ok m" "\<not> enable_shrink_down m" using assms by (simp_all add: ranges_indexed_def)
  note s = StoreRange_plain [OF m, of dflt "fst r" 0 "snd r" i]
  show g: "fst (RangeMap_StoreRange dflt m (fst r) (snd r) i) \<longleftrightarrow> range_good r \<and> (\<forall>r'\<in>set rs. apart r' r)"
    unfolding RangeMap_StoreRange_def s ranges_indexed_clear [OF assms] by (auto simp: range_good_def)
  assume st: "fst (RangeMap_StoreRange dflt m (fst r) (snd r) i)" and i: "i = of_nat (length rs)"
  then have c: "range_good r" "\<forall>r'\<in>set rs. apart r' r" using g by simp_all
  then have "\<forall>hr\<in>set (rmap m). clear_of (fst r) (fst r + (snd r - 1)) hr" using ranges_indexed_clear [OF assms, of r] by simp
  then have ins: "ranges_ok (map_insert (rmap m) (fst r + (snd r - 1)) \<lparr>r_base = fst r, r_delta = 0, r_entry = i\<rparr>)"
    "set (map_insert (rmap m) (fst r + (snd r - 1)) \<lparr>r_base = fst r, r_delta = 0, r_entry = i\<rparr>) =
      insert (fst r + (snd r - 1), \<lparr>r_base = fst r, r_delta = 0, r_entry = i\<rparr>) (set (rmap m))"
    and e: "RangeMap_StoreRangeInternal dflt m (fst r) 0 (snd r) i =
      (True, m\<lparr>rmap := map_insert (rmap m) (fst r + (snd r - 1)) \<lparr>r_base = fst r, r_delta = 0, r_entry = i\<rparr>\<rparr>)"
    using m(1) c(1) insert_clear [of "rmap m" "fst r" "fst r + (snd r - 1)" "\<lparr>r_base = fst r, r_delta = 0, r_entry = i\<rparr>"] s
    by (simp_all add: RangeMap_ok_def range_good_def)
  show "ranges_indexed (snd (RangeMap_StoreRange dflt m (fst r) (snd r) i)) (rs @ [r])"
    using assms c ins(1) unfolding ranges_indexed_def RangeMap_StoreRange_def e
    using ins(2) by (simp add: range_entry_append i sorted_wrt_append RangeMap_ok_def)
qed

lemma sorted_wrt_apart_nth: "sorted_wrt apart rs \<Longrightarrow> j < length rs \<Longrightarrow> k < length rs \<Longrightarrow> j \<noteq> k \<Longrightarrow> apart (rs ! j) (rs ! k)"
  by (cases "j < k") (auto simp: sorted_wrt_iff_nth_less intro: apart_sym)

text \<open>A lookup finds the one element whose range has the address.\<close>

lemma ranges_indexed_find:
  assumes "ranges_indexed m (map f xs)" "length xs < 2 ^ 32"
  shows "(case RangeMap_RetrieveRange m a of None \<Rightarrow> None | Some (i, _) \<Rightarrow>
      if of_nat (length xs) \<le> i then None else Some (xs ! unat i)) = find (\<lambda>x. addr_covers (f x) a) xs"
proof (cases "RangeMap_RetrieveRange m a")
  case None
  have m: "RangeMap_ok m" "set (rmap m) = range_entry (map f xs) ` {..<length xs}" using assms by (simp_all add: ranges_indexed_def)
  then have "\<not> addr_covers (f (xs ! k)) a" if "k < length xs" for k
    using None that RetrieveRange_None [OF m(1), of a] by (auto simp: range_entry_def in_range_def addr_covers_def)
  then have "find (\<lambda>x. addr_covers (f x) a) xs = None" unfolding find_None_iff in_set_conv_nth by blast
  then show ?thesis by (simp add: None)
next
  case (Some x)
  have m: "RangeMap_ok m" "set (rmap m) = range_entry (map f xs) ` {..<length xs}" "sorted_wrt apart (map f xs)"
    using assms by (simp_all add: ranges_indexed_def)
  then obtain k where k: "k < length xs" "addr_covers (f (xs ! k)) a" "fst x = of_nat k"
    using Some RetrieveRange_Some [OF m(1), of a x] by (auto simp: range_entry_def in_range_def addr_covers_def range_result_def)
  have "\<not> addr_covers (f (xs ! j)) a" if "j < k" for j
    using sorted_wrt_apart_nth [OF m(3), of k j] k(1,2) that by (auto dest: apart_addr_covers)
  then have "find (\<lambda>x. addr_covers (f x) a) xs = Some (xs ! k)" unfolding find_Some_iff using k(1,2) by blast
  moreover have "unat (of_nat k :: u32) = k" "unat (of_nat (length xs) :: u32) = length xs"
    using k(1) assms(2) by (simp_all add: unsigned_of_nat take_bit_nat_eq_self)
  ultimately show ?thesis using k(1,3) Some by (cases x) (simp add: word_le_nat_alt)
qed

text \<open>The addresses of a range that ends below the top of the address space.\<close>

definition range_plain :: "u64 \<times> u64 \<Rightarrow> bool" where
  "range_plain r \<longleftrightarrow> snd r \<noteq> 0 \<and> unat (fst r) + unat (snd r) < 2 ^ 64"

definition range_has :: "u64 \<times> u64 \<Rightarrow> u64 \<Rightarrow> bool" where
  "range_has r a \<longleftrightarrow> unat (fst r) \<le> unat a \<and> unat a < unat (fst r) + unat (snd r)"

lemma range_plainD: "range_plain r \<Longrightarrow> 0 < unat (snd r) \<and> unat (fst r) + unat (snd r) < 2 ^ 64"
  by (simp add: range_plain_def unat_gt_0)

lemma range_end:
  assumes "range_plain r"
  shows "unat (fst r + (snd r - 1)) = unat (fst r) + unat (snd r) - 1"
proof -
  have e: "unat (snd r - 1) = unat (snd r) - 1"
    using range_plainD [OF assms] by (subst unat_sub_le) (simp_all add: word_le_nat_alt Suc_le_eq)
  have "unat (fst r) + unat (snd r) - 1 < 2 ^ 64" using range_plainD [OF assms] by linarith
  then show ?thesis using range_plainD [OF assms] by (subst unat_word_ariths) (simp add: e)
qed

lemma plain_addr_covers: "range_plain r \<Longrightarrow> addr_covers r a \<longleftrightarrow> range_has r a"
  using range_end [of r] range_plainD [of r] by (auto simp: addr_covers_def range_has_def word_le_nat_alt)

lemma plain_good: "range_plain r \<Longrightarrow> range_good r"
  using range_end [of r] range_plainD [of r] by (auto simp: range_good_def word_le_nat_alt)

lemma good_apart:
  assumes "range_good r" "range_good r'"
  shows "apart r r' \<longleftrightarrow> (\<nexists>a. addr_covers r a \<and> addr_covers r' a)"
proof
  show "apart r r' \<Longrightarrow> \<nexists>a. addr_covers r a \<and> addr_covers r' a" using apart_addr_covers by blast
  assume "\<nexists>a. addr_covers r a \<and> addr_covers r' a"
  then have "\<not> (addr_covers r (fst r) \<and> addr_covers r' (fst r))" "\<not> (addr_covers r (fst r') \<and> addr_covers r' (fst r'))" by blast+
  then show "apart r r'" using assms by (auto simp: addr_covers_def apart_def range_good_def)
qed

definition ranges_disjoint :: "(u64 \<times> u64) list \<Rightarrow> bool" where
  "ranges_disjoint = sorted_wrt (\<lambda>r r'. \<nexists>a. range_has r a \<and> range_has r' a)"

lemma plain_disjoint:
  assumes "\<forall>r\<in>set rs. range_plain r"
  shows "sorted_wrt apart rs \<longleftrightarrow> ranges_disjoint rs"
  using assms unfolding ranges_disjoint_def by (induction rs) (auto simp: good_apart plain_good plain_addr_covers)

section \<open>Memory that was written\<close>

definition descriptor_range :: "MDMemoryDescriptor \<Rightarrow> u64 \<times> u64" where
  "descriptor_range d = (start_of_memory_range d, ucast (data_size d))"

lemma descriptor_plain:
  "data_size d = 0 \<or> (- 1 :: u64) - start_of_memory_range d < ucast (data_size d) \<longleftrightarrow> \<not> range_plain (descriptor_range d)"
proof -
  have "data_size d = 0 \<longleftrightarrow> ucast (data_size d) = (0 :: u64)"
    using unat_ucast_32_64 [of "data_size d"] by (metis unat_eq_zero)
  then show ?thesis unfolding range_wraps by (auto simp: range_plain_def descriptor_range_def)
qed

lemma store_regions_indexed:
  assumes "ranges_indexed m (map descriptor_range ds0)"
  shows "case store_regions ds (of_nat (length ds0)) m (map open_region ds0) of
      None \<Rightarrow> \<not> ((\<forall>d\<in>set ds. range_plain (descriptor_range d)) \<and> sorted_wrt apart (map descriptor_range (ds0 @ ds)))
    | Some (m', regions) \<Rightarrow> (\<forall>d\<in>set ds. range_plain (descriptor_range d)) \<and> ranges_indexed m' (map descriptor_range (ds0 @ ds)) \<and>
        regions = map open_region (ds0 @ ds)"
  using assms
proof (induction ds arbitrary: ds0 m)
  case (Cons d ds)
  have b: "data_size d = 0 \<or> (- 1 :: u64) - start_of_memory_range d < ucast (data_size d) \<longleftrightarrow> \<not> range_plain (descriptor_range d)"
    by (rule descriptor_plain)
  obtain stored m1 where s: "RangeMap_StoreRange 0 m (start_of_memory_range d) (ucast (data_size d)) (of_nat (length ds0)) = (stored, m1)"
    by fastforce
  then have st: "RangeMap_StoreRange 0 m (fst (descriptor_range d)) (snd (descriptor_range d)) (of_nat (length ds0)) = (stored, m1)"
    by (simp only: descriptor_range_def fst_conv snd_conv)
  note store = ranges_indexed_store [OF Cons.prems, of 0 "descriptor_range d" "of_nat (length ds0)", unfolded st fst_conv snd_conv]
  show ?case
  proof (cases "range_plain (descriptor_range d) \<and> stored")
    case True
    then have "ranges_indexed m1 (map descriptor_range (ds0 @ [d]))" using store(2) by simp
    note ih = Cons.IH [OF this]
    have i: "of_nat (length (ds0 @ [d])) = (of_nat (length ds0) :: u32) + 1" by simp
    have r: "store_regions (d # ds) (of_nat (length ds0)) m (map open_region ds0) =
        store_regions ds (of_nat (length (ds0 @ [d]))) m1 (map open_region (ds0 @ [d]))"
      using True unfolding store_regions.simps b s i by (simp add: open_region_def)
    show ?thesis unfolding r using ih True by (auto split: option.splits)
  next
    case False
    then have "store_regions (d # ds) (of_nat (length ds0)) m (map open_region ds0) = None"
      unfolding store_regions.simps b s by simp
    moreover have "\<not> (range_plain (descriptor_range d) \<and> sorted_wrt apart (map descriptor_range (ds0 @ d # ds)))"
      using False store(1) plain_good [of "descriptor_range d"] by (auto simp: sorted_wrt_append)
    ultimately show ?thesis by auto
  qed
qed simp


definition descriptor_bytes :: "MDMemoryDescriptor \<Rightarrow> u8 list" where
  "descriptor_bytes d = le_bytes (start_of_memory_range d) @ le_bytes (data_size d) @ le_bytes (rva d)"

lemma descriptor_decode:
  "length (descriptor_bytes d) = 16" "layout_size MDMemoryDescriptor_layout = 16" "MDMemoryDescriptor_of (descriptor_bytes d) = d"
  by (simp_all add: descriptor_bytes_def MDMemoryDescriptor_layout_def MDMemoryDescriptor_of_def at_defs)

text \<open>The stream of a memory list, as it is written.\<close>

definition memory_list_bytes :: "bool \<Rightarrow> u8 list \<Rightarrow> MDMemoryDescriptor list \<Rightarrow> u8 list" where
  "memory_list_bytes b padding ds =
     word_bytes b (of_nat (length ds) :: u32) @ padding @
     concat (map (\<lambda>d. in_order b MDMemoryDescriptor_layout (descriptor_bytes d)) ds)"

definition memory_list_of :: "(u64, u32) RangeMap \<Rightarrow> MDMemoryDescriptor list \<Rightarrow> MinidumpMemoryList" where
  "memory_list_of m ds = \<lparr>ml_valid = True, ml_range_map = m, ml_regions = map open_region ds, region_count = of_nat (length ds)\<rparr>"

lemma memory_list_size:
  assumes "4 + k + 16 * n < 2 ^ 32"
  shows "unat (of_nat (4 + k + 16 * n) :: u32) = 4 + k + 16 * n" "unat (of_nat n :: u32) = n"
    "\<not> (- 1) div 16 < (of_nat n :: u32)" "\<not> of_nat (4 + k + 16 * n) < (4 :: u32)"
proof -
  show n: "unat (of_nat n :: u32) = n" "unat (of_nat (4 + k + 16 * n) :: u32) = 4 + k + 16 * n"
    using assms by (simp_all add: unat_of_nat take_bit_nat_eq_self del: of_nat_mult of_nat_add)
  have "unat ((- 1 :: u32) div 16) = (2 ^ 32 - 1) div 16" by (simp add: unat_div)
  then show "\<not> (- 1) div 16 < (of_nat n :: u32)" using assms n(1) by (simp add: word_less_nat_alt)
  show "\<not> of_nat (4 + k + 16 * n) < (4 :: u32)" using n(2) by (simp add: word_less_nat_alt del: of_nat_mult of_nat_add)
qed

lemma read_array_at:
  assumes "mf_stream md = Some (input bytes lm p)"
    and "holds bytes (int p) (concat (map (\<lambda>d. in_order b MDMemoryDescriptor_layout (descriptor_bytes d)) ds))" "length ds < 2 ^ 32"
  shows "\<exists>bs. (if of_nat (length ds) \<noteq> (0 :: u32) then ReadBytes (16 * unat (of_nat (length ds) :: u32)) else give []) md =
      (Some bs, md\<lparr>mf_stream := Some (input bytes lm (p + 16 * length ds))\<rparr>) \<and>
    array_of 16 (\<lambda>x. MDMemoryDescriptor_of (in_order b MDMemoryDescriptor_layout x)) (length ds) bs = ds"
proof -
  let ?g = "\<lambda>d. in_order b MDMemoryDescriptor_layout (descriptor_bytes d)"
  have g: "length (?g d) = 16" "MDMemoryDescriptor_of (in_order b MDMemoryDescriptor_layout (?g d)) = d" for d
    by (simp_all add: in_order_decode descriptor_decode)
  have "length (concat (map ?g ds)) = 16 * length ds" by (induction ds) (simp_all add: g)
  then have r: "ReadBytes (16 * length ds) md = (Some (concat (map ?g ds)), md\<lparr>mf_stream := Some (input bytes lm (p + 16 * length ds))\<rparr>)"
    by (intro ReadBytes_at [OF assms(1,2)]) simp
  have a: "array_of 16 (\<lambda>x. MDMemoryDescriptor_of (in_order b MDMemoryDescriptor_layout x)) (length ds) (concat (map ?g ds)) = ds"
    using array_of_concat [of ds ?g 16 "\<lambda>x. MDMemoryDescriptor_of (in_order b MDMemoryDescriptor_layout x)" "[]"] g by simp
  have n: "unat (of_nat (length ds) :: u32) = length ds" using assms(3) by (simp add: unsigned_of_nat take_bit_nat_eq_self)
  then have "of_nat (length ds) = (0 :: u32) \<longleftrightarrow> ds = []" by (simp only: unat_eq_zero [symmetric] length_0_conv)
  then show ?thesis using r a assms(1) by (cases "ds = []") (simp_all add: n)
qed

text \<open>The ranges of the map and the regions of a list that is accepted.\<close>

lemma memory_list_at:
  assumes "mf_stream md = Some (input bytes lm p)" "length padding \<in> {0, 4}"
    and "holds bytes (int p) (memory_list_bytes (file_swap md) padding ds)"
    and "4 + length padding + 16 * length ds < 2 ^ 32" "length ds \<le> unat (max_regions lim)"
  shows "MinidumpMemoryList_Read lim (of_nat (4 + length padding + 16 * length ds)) md =
    (map_option (\<lambda>(m, regions). \<lparr>ml_valid = True, ml_range_map = m, ml_regions = regions, region_count = of_nat (length ds)\<rparr>)
       (store_regions ds 0 RangeMap_init []),
     md\<lparr>mf_stream := Some (input bytes lm (p + 4 + length padding + 16 * length ds))\<rparr>)"
proof -
  let ?b = "file_swap md"
  note n = memory_list_size [OF assms(4)]
  have h: "holds bytes (int p) (word_bytes ?b (of_nat (length ds) :: u32))" "holds bytes (int (p + 4)) padding"
    "holds bytes (int (p + 4 + length padding)) (concat (map (\<lambda>d. in_order ?b MDMemoryDescriptor_layout (descriptor_bytes d)) ds))"
    using assms(3) by (simp_all add: memory_list_bytes_def holds_append add.assoc)
  let ?md1 = "md\<lparr>mf_stream := Some (input bytes lm (p + 4))\<rparr>"
  let ?md2 = "md\<lparr>mf_stream := Some (input bytes lm (p + 4 + length padding))\<rparr>"
  have s: "skip_padding (of_nat (4 + length padding + 16 * length ds)) (4 + unat (of_nat (length ds) :: u32) * 16) ?md1 = (Some (), ?md2)"
    using skip_padding_at [of ?md1 bytes lm "p + 4" padding] h(2) assms(2) n by simp
  obtain bs where bs: "(if of_nat (length ds) \<noteq> (0 :: u32) then ReadBytes (16 * unat (of_nat (length ds) :: u32)) else give []) ?md2 =
      (Some bs, md\<lparr>mf_stream := Some (input bytes lm (p + 4 + length padding + 16 * length ds))\<rparr>)"
    "array_of 16 (\<lambda>x. MDMemoryDescriptor_of (in_order ?b MDMemoryDescriptor_layout x)) (length ds) bs = ds"
    using read_array_at [of ?md2 bytes lm "p + 4 + length padding" ?b ds] h(3) assms(4) by auto
  have a: "and_then (if of_nat (length ds) \<noteq> (0 :: u32) then ReadBytes (16 * unat (of_nat (length ds) :: u32)) else give []) g ?md2 =
      g bs (md\<lparr>mf_stream := Some (input bytes lm (p + 4 + length padding + 16 * length ds))\<rparr>)" for g :: "u8 list \<Rightarrow> MinidumpMemoryList dump_reader"
    unfolding and_then_def bs(1) by simp
  have l: "\<not> max_regions lim < of_nat (length ds)" using assms(5) n(2) by (simp add: word_less_nat_alt)
  show ?thesis
    unfolding MinidumpMemoryList_Read_def if_not_P [OF n(4)] and_then_swap and_then_step [of "ReadWord ?b" md, OF ReadWord_at [OF assms(1) h(1)]]
      if_not_P [OF n(3)] and_then_step [of "skip_padding _ _" ?md1, OF s]
      if_not_P [OF l] a
    by (simp add: n(2) bs(2) split: option.split)
qed

lemma memory_list_find:
  assumes "ranges_indexed m (map descriptor_range ds)" "\<forall>d\<in>set ds. range_plain (descriptor_range d)" "length ds < 2 ^ 32"
  shows "GetMemoryRegionForAddress (memory_list_of m ds) a = map_option open_region (find (\<lambda>d. range_has (descriptor_range d) a) ds)"
proof -
  have "find (\<lambda>d. range_has (descriptor_range d) a) ds = find (\<lambda>d. addr_covers (descriptor_range d) a) ds"
    using assms(2) by (intro find_cong) (simp_all add: plain_addr_covers)
  moreover have "map open_region ds ! unat i = open_region (ds ! unat i)" if "\<not> of_nat (length ds) \<le> i" for i :: u32
    using that assms(3) by (simp add: word_le_nat_alt unsigned_of_nat take_bit_nat_eq_self)
  ultimately show ?thesis using ranges_indexed_find [OF assms(1,3), of a, symmetric]
    by (simp add: GetMemoryRegionForAddress_def GetMemoryRegionAtIndex_def memory_list_of_def split: option.split prod.split)
qed

lemma store_regions_all:
  "case store_regions ds 0 RangeMap_init [] of
      None \<Rightarrow> \<not> ((\<forall>d\<in>set ds. range_plain (descriptor_range d)) \<and> ranges_disjoint (map descriptor_range ds))
    | Some (m, regions) \<Rightarrow> (\<forall>d\<in>set ds. range_plain (descriptor_range d)) \<and> ranges_disjoint (map descriptor_range ds) \<and>
        ranges_indexed m (map descriptor_range ds) \<and> regions = map open_region ds"
  using store_regions_indexed [of RangeMap_init "[]" ds] ranges_indexed_Nil plain_disjoint [of "map descriptor_range ds"]
  by (auto split: option.splits simp: ranges_indexed_def)

text \<open>C17. What \<open>MinidumpMemoryList::Read\<close> makes of a list of memory regions that was written in either byte order,
  padded or not. It accepts the list exactly if each region is non-empty and ends below the top of the
  address space, and no two of them share an address. Then the regions stand in the order of the file, and
  \<open>GetMemoryRegionForAddress\<close> finds, for every address, the one region that holds it, or none if there
  is none.\<close>

theorem MinidumpMemoryList_Read_exact:
  assumes "mf_stream md = Some (input bytes lm p)" "length padding \<in> {0, 4}"
    and "holds bytes (int p) (memory_list_bytes (file_swap md) padding ds)"
    and "4 + length padding + 16 * length ds < 2 ^ 32" "length ds \<le> unat (max_regions lim)"
  shows "if (\<forall>d\<in>set ds. range_plain (descriptor_range d)) \<and> ranges_disjoint (map descriptor_range ds)
    then \<exists>l. MinidumpMemoryList_Read lim (of_nat (4 + length padding + 16 * length ds)) md =
        (Some l, md\<lparr>mf_stream := Some (input bytes lm (p + 4 + length padding + 16 * length ds))\<rparr>) \<and>
      ml_regions l = map open_region ds \<and>
      (\<forall>a. GetMemoryRegionForAddress l a = map_option open_region (find (\<lambda>d. range_has (descriptor_range d) a) ds))
    else fst (MinidumpMemoryList_Read lim (of_nat (4 + length padding + 16 * length ds)) md) = None"
proof (cases "store_regions ds 0 RangeMap_init []")
  case None
  then show ?thesis using memory_list_at [OF assms] store_regions_all [of ds] by auto
next
  case (Some r)
  obtain m where m: "store_regions ds 0 RangeMap_init [] = Some (m, map open_region ds)" "ranges_indexed m (map descriptor_range ds)"
    "\<forall>d\<in>set ds. range_plain (descriptor_range d)" "ranges_disjoint (map descriptor_range ds)"
    using store_regions_all [of ds] Some by (auto split: prod.splits)
  have "length ds < 2 ^ 32" using assms(4) by simp
  then show ?thesis using memory_list_at [OF assms] memory_list_find [OF m(2,3)] m by (auto simp: memory_list_of_def)
qed

lemma memory_list_read:
  assumes "MinidumpMemoryList_Read lim expected_size md = (Some l, md')"
  obtains ds m where "l = memory_list_of m ds" "\<forall>d\<in>set ds. range_plain (descriptor_range d)" "ranges_disjoint (map descriptor_range ds)"
    "ranges_indexed m (map descriptor_range ds)" "length ds < 2 ^ 32" "region_count l \<le> max_regions lim"
proof -
  obtain md1 md2 count u where p: "count \<le> max_regions lim"
    and r: "and_then (if count \<noteq> 0 then ReadBytes (16 * unat count) else give []) (\<lambda>bs.
                  case store_regions
                         (array_of 16 (\<lambda>b. MDMemoryDescriptor_of (in_order (file_swap md) MDMemoryDescriptor_layout b)) (unat count) bs)
                         0 RangeMap_init [] of
                    None \<Rightarrow> fail
                  | Some (m, regions) \<Rightarrow>
                      give \<lparr>ml_valid = True, ml_range_map = m, ml_regions = regions, region_count = count\<rparr>) md2 = (Some l, md')"
    using assms unfolding MinidumpMemoryList_Read_def by (rule list_steps)
  then obtain bs md3 where b: "(case store_regions
                         (array_of 16 (\<lambda>b. MDMemoryDescriptor_of (in_order (file_swap md) MDMemoryDescriptor_layout b)) (unat count) bs)
                         0 RangeMap_init [] of
                    None \<Rightarrow> fail
                  | Some (m, regions) \<Rightarrow>
                      give \<lparr>ml_valid = True, ml_range_map = m, ml_regions = regions, region_count = count\<rparr>) md3 = (Some l, md')"
    unfolding and_then_Some by blast
  define ds where "ds = array_of 16 (\<lambda>b. MDMemoryDescriptor_of (in_order (file_swap md) MDMemoryDescriptor_layout b)) (unat count) bs"
  obtain m where m: "store_regions ds 0 RangeMap_init [] = Some (m, map open_region ds)" "ranges_indexed m (map descriptor_range ds)"
    "\<forall>d\<in>set ds. range_plain (descriptor_range d)" "ranges_disjoint (map descriptor_range ds)"
    using store_regions_all [of ds] b unfolding ds_def [symmetric] by (auto split: option.splits)
  have len: "length ds = unat count" by (simp add: ds_def)
  have "l = memory_list_of m ds" using b unfolding ds_def [symmetric] m(1) by (simp add: memory_list_of_def len)
  then show thesis using that [OF _ m(3,4,2)] p unat_less_32 [of count] by (simp add: len memory_list_of_def)
qed

text \<open>Whatever the bytes are, a memory list that is accepted has regions that are non-empty, do not wrap around
  and share no address, at most as many as the limit allows. The region found for an address is one of the list,
  it holds the address, and it is the only one that does; for an address that no region holds none is found.\<close>

theorem MinidumpMemoryList_Read_sound:
  assumes "MinidumpMemoryList_Read lim expected_size md = (Some l, md')"
  shows "\<exists>ds. ml_regions l = map open_region ds \<and> region_count l = of_nat (length ds) \<and> region_count l \<le> max_regions lim \<and>
    (\<forall>d\<in>set ds. range_plain (descriptor_range d)) \<and> ranges_disjoint (map descriptor_range ds) \<and>
    (\<forall>a. GetMemoryRegionForAddress l a = map_option open_region (find (\<lambda>d. range_has (descriptor_range d) a) ds))"
proof -
  obtain ds m where l: "l = memory_list_of m ds" "\<forall>d\<in>set ds. range_plain (descriptor_range d)" "ranges_disjoint (map descriptor_range ds)"
    "ranges_indexed m (map descriptor_range ds)" "length ds < 2 ^ 32" "region_count l \<le> max_regions lim"
    by (rule memory_list_read [OF assms])
  then show ?thesis using memory_list_find [OF l(4,2,5)] by (intro exI [of _ ds]) (simp add: memory_list_of_def)
qed

section \<open>Memory protection\<close>

definition info_range :: "MinidumpMemoryInfo \<Rightarrow> u64 \<times> u64" where
  "info_range info = (info_base_address (mi_memory_info info), region_size (mi_memory_info info))"

lemma MinidumpMemoryInfo_Read_plain: "MinidumpMemoryInfo_Read md = (Some info, md') \<Longrightarrow> range_plain (info_range info)"
proof -
  assume "MinidumpMemoryInfo_Read md = (Some info, md')"
  then have "region_size (mi_memory_info info) \<noteq> 0" "\<not> (- 1) - info_base_address (mi_memory_info info) < region_size (mi_memory_info info)"
    by (auto simp: MinidumpMemoryInfo_Read_def and_then_Some Let_def split: if_split_asm)
  then show ?thesis by (simp add: range_plain_def info_range_def range_wraps_64)
qed

lemma read_memory_infos_indexed:
  assumes "read_memory_infos n i m infos md = (Some (m', infos'), md')" "ranges_indexed m (map info_range infos)"
    "\<forall>info\<in>set infos. range_plain (info_range info)" "i = of_nat (length infos)"
  shows "ranges_indexed m' (map info_range infos') \<and> (\<forall>info\<in>set infos'. range_plain (info_range info)) \<and> length infos' = length infos + n"
  using assms
proof (induction n i m infos arbitrary: md rule: read_memory_infos.induct)
  case (2 n i m infos)
  from 2(2) obtain info md1 where info: "MinidumpMemoryInfo_Read md = (Some info, md1)"
    and rest: "(case RangeMap_StoreRange 0 m (info_base_address (mi_memory_info info)) (region_size (mi_memory_info info)) i of
         (stored, m') \<Rightarrow> if \<not> stored then fail else read_memory_infos n (i + 1) m' (infos @ [info])) md1 = (Some (m', infos'), md')"
    unfolding read_memory_infos.simps and_then_Some by blast
  obtain stored m1 where st: "RangeMap_StoreRange 0 m (fst (info_range info)) (snd (info_range info)) i = (stored, m1)" by fastforce
  have r: "stored" "read_memory_infos n (i + 1) m1 (infos @ [info]) md1 = (Some (m', infos'), md')"
    using rest st by (auto simp: info_range_def split: if_split_asm)
  have "ranges_indexed m1 (map info_range (infos @ [info]))"
    using ranges_indexed_store(2) [OF 2(3), of 0 "info_range info" i, unfolded st fst_conv snd_conv] 2(5) r(1) by simp
  then show ?case
    using 2(1) [OF st [unfolded info_range_def fst_conv snd_conv, symmetric] _ r(2)] 2(4,5) r(1) MinidumpMemoryInfo_Read_plain [OF info]
    by simp
qed simp

lemma memory_info_list_read:
  assumes "MinidumpMemoryInfoList_Read expected_size md = (Some l, md')"
  shows "mil_valid l" "length (mil_infos l) = unat (info_count l)" "ranges_indexed (mil_range_map l) (map info_range (mil_infos l))"
    "\<forall>info\<in>set (mil_infos l). range_plain (info_range info)"
proof -
  obtain c md1 where c: "ucast (ucast c :: u32) = (c :: u64)"
    and r: "and_then (read_memory_infos (unat c) 0 RangeMap_init []) (\<lambda>(m, infos).
        give \<lparr>mil_valid = True, mil_range_map = m, mil_infos = infos, info_count = ucast c\<rparr>) md1 = (Some l, md')"
    using assms unfolding MinidumpMemoryInfoList_Read_def guarded_Some and_then_Some [of "read_struct _"] by blast
  then obtain m infos md2 where i: "read_memory_infos (unat c) 0 RangeMap_init [] md1 = (Some (m, infos), md2)"
    and l: "l = \<lparr>mil_valid = True, mil_range_map = m, mil_infos = infos, info_count = ucast c\<rparr>"
    by (auto simp: and_then_Some)
  have "unat (ucast c :: u32) = unat c" using arg_cong [OF c, of unat] by simp
  then show "mil_valid l" "length (mil_infos l) = unat (info_count l)" "ranges_indexed (mil_range_map l) (map info_range (mil_infos l))"
    "\<forall>info\<in>set (mil_infos l). range_plain (info_range info)"
    using read_memory_infos_indexed [OF i] ranges_indexed_Nil by (simp_all add: l)
qed

lemma memory_info_find:
  assumes "mil_valid l" "length (mil_infos l) = unat (info_count l)" "ranges_indexed (mil_range_map l) (map info_range (mil_infos l))"
    "\<forall>info\<in>set (mil_infos l). range_plain (info_range info)"
  shows "GetMemoryInfoForAddress l a = find (\<lambda>info. range_has (info_range info) a) (mil_infos l)"
proof -
  have "find (\<lambda>info. range_has (info_range info) a) (mil_infos l) = find (\<lambda>info. addr_covers (info_range info) a) (mil_infos l)"
    using assms(4) by (intro find_cong) (simp_all add: plain_addr_covers)
  then show ?thesis using ranges_indexed_find [OF assms(3), of a, symmetric] assms(1,2) unat_less_32 [of "info_count l"]
    by (simp add: GetMemoryInfoForAddress_def GetMemoryInfoAtIndex_def split: option.split prod.split)
qed

text \<open>A memory information list that is accepted describes non-empty regions that do not wrap around and share no
  address, as many as its header says. What \<open>GetMemoryInfoForAddress\<close> returns for an address is the one element
  whose region holds it, or nothing if there is none.\<close>

theorem MinidumpMemoryInfoList_Read_sound:
  assumes "MinidumpMemoryInfoList_Read expected_size md = (Some l, md')"
  shows "length (mil_infos l) = unat (info_count l) \<and> (\<forall>info\<in>set (mil_infos l). range_plain (info_range info)) \<and>
    ranges_disjoint (map info_range (mil_infos l)) \<and>
    (\<forall>a. GetMemoryInfoForAddress l a = find (\<lambda>info. range_has (info_range info) a) (mil_infos l))"
proof -
  note r = memory_info_list_read [OF assms]
  show ?thesis using r memory_info_find [OF r] plain_disjoint [of "map info_range (mil_infos l)"] by (simp add: ranges_indexed_def)
qed

section \<open>The contexts of threads\<close>

text \<open>The context of a thread is read once: what \<open>MinidumpThread::GetContext\<close> returns the first time is a complete
  context, or one whose CPU is lost; reading it leaves the rest of the dump alone, and each later call returns the
  same context without reading.\<close>

theorem MinidumpThread_GetContext_once:
  assumes "MinidumpThread_GetContext th md = (Some c, th', md')" "mth_context th = None"
  shows "same_file md md' \<and> context_wf c \<and> (context_matches c \<or> cpu_lost c) \<and> mth_thread th' = mth_thread th \<and>
    (\<forall>md2. MinidumpThread_GetContext th' md2 = (Some c, th', md2))"
proof -
  have v: "mth_valid th" using assms(1) by (auto simp: MinidumpThread_GetContext_def split: if_split_asm)
  obtain md1 where r: "read_context_at_location (thread_context (mth_thread th)) md = (Some c, md')" "th' = th\<lparr>mth_context := Some c\<rparr>"
    using assms v by (auto simp: MinidumpThread_GetContext_def split: prod.splits option.splits)
  have "framed (read_context_at_location (thread_context (mth_thread th)))"
    unfolding read_context_at_location_def by (intro framing framed_Context_Read)
  then have "same_file md md'" using framedD r(1) by blast
  moreover have "context_wf c \<and> (context_matches c \<or> cpu_lost c)"
    using r(1) context_read_sound unfolding read_context_at_location_def and_then_Some by blast
  ultimately show ?thesis using v by (simp add: r(2) MinidumpThread_GetContext_def)
qed

section \<open>Examples\<close>

definition sample_thread :: "u32 \<Rightarrow> MDRawThread" where
  "sample_thread i = (MDRawThread_of (replicate 48 0))\<lparr>thread_id := i, thread_context := \<lparr>loc_data_size = 368, loc_rva = 0\<rparr>\<rparr>"

definition sample_threads_file :: "u8 list" where
  "sample_threads_file = word_bytes True (of_nat (length (map sample_thread [7, 9])) :: u32) @ replicate 4 0 @
     concat (map (\<lambda>t. in_order True MDRawThread_layout (thread_bytes t)) (map sample_thread [7, 9]))"

lemma sample_threads_at:
  "holds sample_threads_file (int 0) (word_bytes (file_swap (sample_context_md sample_threads_file))
     (of_nat (length (map sample_thread [7, 9])) :: u32) @ replicate 4 0 @
     concat (map (\<lambda>t. in_order (file_swap (sample_context_md sample_threads_file)) MDRawThread_layout (thread_bytes t)) (map sample_thread [7, 9])))"
  unfolding sample_context_md_simps(1) [THEN eqTrueI] holds_iff by (intro exI [of _ "[]"]) (simp only: sample_threads_file_def append_Nil append_Nil2 list.size of_nat_0 simp_thms)

lemma sample_thread_facts:
  "length (map sample_thread [7, 9]) \<le> unat (max_threads default_stream_limits)" "distinct (map thread_id (map sample_thread [7, 9]))"
  by (simp_all add: default_stream_limits_def sample_thread_def)


theorem MinidumpThreadList_Read_sound_witness:
  "\<exists>ts md'. MinidumpThreadList_Read default_stream_limits 104 (sample_context_md sample_threads_file) = (Some ts, md') \<and>
     distinct (map (\<lambda>th. thread_id (mth_thread th)) (tl_threads ts)) \<and>
     fst (GetThreadByID (look_up_all [8, 9, 8] ts) 8) = find (\<lambda>th. thread_id (mth_thread th) = 8) (tl_threads ts)"
proof -
  obtain ts md' where r: "MinidumpThreadList_Read default_stream_limits (of_nat (4 + length (replicate 4 (0 :: u8)) + 48 * length (map sample_thread [7, 9])))
      (sample_context_md sample_threads_file) = (Some ts, md')"
    using thread_list_at [OF sample_context_md_simps(2) _ sample_threads_at _ sample_thread_facts] by auto
  then show ?thesis using MinidumpThreadList_Read_sound [OF r] by auto
qed

definition sample_regions :: "MDMemoryDescriptor list" where
  "sample_regions = [\<lparr>start_of_memory_range = 0x2000, data_size = 0x100, rva = 64\<rparr>, \<lparr>start_of_memory_range = 0x1000, data_size = 0x1000, rva = 320\<rparr>]"

definition sample_memory_file :: "u8 list" where
  "sample_memory_file = memory_list_bytes True [] sample_regions"

lemma sample_memory_at:
  "holds sample_memory_file (int 0) (memory_list_bytes (file_swap (sample_context_md sample_memory_file)) [] sample_regions)"
  unfolding sample_context_md_simps(1) [THEN eqTrueI] holds_iff by (intro exI [of _ "[]"]) (simp only: sample_memory_file_def append_Nil append_Nil2 list.size of_nat_0 simp_thms)

lemma sample_regions_ok: "(\<forall>d\<in>set sample_regions. range_plain (descriptor_range d)) \<and> ranges_disjoint (map descriptor_range sample_regions)"
  by (auto simp: sample_regions_def range_plain_def descriptor_range_def ranges_disjoint_def range_has_def)

theorem MinidumpMemoryList_Read_exact_witness:
  "\<exists>l md'. MinidumpMemoryList_Read default_stream_limits 36 (sample_context_md sample_memory_file) = (Some l, md') \<and>
     GetMemoryRegionForAddress l 0x1fff = Some (open_region (sample_regions ! 1)) \<and> GetMemoryRegionForAddress l 0x2100 = None"
proof -
  have "\<exists>l. MinidumpMemoryList_Read default_stream_limits (of_nat (4 + length ([] :: u8 list) + 16 * length sample_regions)) (sample_context_md sample_memory_file) =
      (Some l, (sample_context_md sample_memory_file)\<lparr>mf_stream := Some (input sample_memory_file True (0 + 4 + length ([] :: u8 list) + 16 * length sample_regions))\<rparr>) \<and>
    ml_regions l = map open_region sample_regions \<and>
    (\<forall>a. GetMemoryRegionForAddress l a = map_option open_region (find (\<lambda>d. range_has (descriptor_range d) a) sample_regions))"
    using MinidumpMemoryList_Read_exact [where lim = default_stream_limits, OF sample_context_md_simps(2) _ sample_memory_at] sample_regions_ok
    by (simp add: default_stream_limits_def sample_regions_def)
  then obtain l where "MinidumpMemoryList_Read default_stream_limits 36 (sample_context_md sample_memory_file) =
      (Some l, (sample_context_md sample_memory_file)\<lparr>mf_stream := Some (input sample_memory_file True 36)\<rparr>)"
    and f: "\<forall>a. GetMemoryRegionForAddress l a = map_option open_region (find (\<lambda>d. range_has (descriptor_range d) a) sample_regions)"
    by (auto simp: sample_regions_def)
  then show ?thesis using f [rule_format, of "0x1fff"] f [rule_format, of "0x2100"] by (auto simp: sample_regions_def range_has_def descriptor_range_def)
qed

theorem MinidumpMemoryList_Read_sound_witness:
  "\<exists>l md'. MinidumpMemoryList_Read default_stream_limits 36 (sample_context_md sample_memory_file) = (Some l, md') \<and>
     (\<exists>ds. ml_regions l = map open_region ds \<and> ranges_disjoint (map descriptor_range ds))"
proof -
  obtain m where m: "store_regions sample_regions 0 RangeMap_init [] = Some (m, map open_region sample_regions)"
    using store_regions_all [of sample_regions] sample_regions_ok by (auto split: option.splits)
  have r: "MinidumpMemoryList_Read default_stream_limits (of_nat (4 + length ([] :: u8 list) + 16 * length sample_regions)) (sample_context_md sample_memory_file) =
    (Some (memory_list_of m sample_regions),
     (sample_context_md sample_memory_file)\<lparr>mf_stream := Some (input sample_memory_file True (0 + 4 + length ([] :: u8 list) + 16 * length sample_regions))\<rparr>)"
    using memory_list_at [where lim = default_stream_limits, OF sample_context_md_simps(2) _ sample_memory_at] unfolding m
    by (simp add: default_stream_limits_def sample_regions_def memory_list_of_def)
  then show ?thesis using MinidumpMemoryList_Read_sound [OF r] by (auto simp: sample_regions_def)
qed

definition sample_info_file :: "u8 list" where
  "sample_info_file = rev (le_bytes (16 :: u32)) @ rev (le_bytes (48 :: u32)) @ rev (le_bytes (1 :: u64)) @
     rev (le_bytes (0x1000 :: u64)) @ replicate 16 0 @ rev (le_bytes (0x200 :: u64)) @ replicate 16 0"

lemma sample_info_read:
  "map_option info_count (fst (MinidumpMemoryInfoList_Read 64 (sample_context_md sample_info_file))) = Some 1"
  by code_simp

theorem MinidumpMemoryInfoList_Read_sound_witness:
  "\<exists>l md'. MinidumpMemoryInfoList_Read 64 (sample_context_md sample_info_file) = (Some l, md') \<and> length (mil_infos l) = 1 \<and>
     GetMemoryInfoForAddress l 0x1100 = find (\<lambda>info. range_has (info_range info) 0x1100) (mil_infos l)"
proof -
  obtain l md' where r: "MinidumpMemoryInfoList_Read 64 (sample_context_md sample_info_file) = (Some l, md')" "info_count l = 1"
    using sample_info_read by (cases "MinidumpMemoryInfoList_Read 64 (sample_context_md sample_info_file)") auto
  then show ?thesis using MinidumpMemoryInfoList_Read_sound [OF r(1)] by simp
qed

theorem MinidumpThread_GetContext_once_witness:
  "\<exists>th' md'. MinidumpThread_GetContext (thread_object (sample_thread 7)) (sample_context_md sample_arm_file) =
       (Some sample_arm_context, th', md') \<and> MinidumpThread_GetContext th' md' = (Some sample_arm_context, th', md')"
proof -
  obtain md' where r: "MinidumpContext_Read (of_nat (layout_size (context_layout MD_CONTEXT_ARM))) (sample_context_md sample_arm_file) =
     (Some sample_arm_context, md')"
    using context_read_at [OF _ sample_arm_at(3) sample_context_md_simps(3,2) sample_arm_at(1)] sample_arm_at(2)
    by (simp add: sample_context_md_simps(1) sample_arm_context_def [symmetric])
  have s: "SeekSet 0 (sample_context_md sample_arm_file) = (Some (), sample_context_md sample_arm_file)"
    by (simp add: SeekSet_def sample_context_md_simps(2) input_def istream_seekg_def Let_def)
  have l: "of_nat (layout_size (context_layout MD_CONTEXT_ARM)) = (368 :: u32)"
    by (simp add: context_layout_def context_case_def md_context_defs layout_sizes)
  have "MinidumpThread_GetContext (thread_object (sample_thread 7)) (sample_context_md sample_arm_file) =
      (Some sample_arm_context, (thread_object (sample_thread 7))\<lparr>mth_context := Some sample_arm_context\<rparr>, md')"
    using r s by (simp add: MinidumpThread_GetContext_def thread_object_def sample_thread_def read_context_at_location_def and_then_def l)
  moreover have "mth_context (thread_object (sample_thread 7)) = None" by (simp add: thread_object_def)
  ultimately show ?thesis using MinidumpThread_GetContext_once by blast
qed

end
