(* ===== verification/Minidump_Modules.thy ===== *)
theory Minidump_Modules
  imports Minidump_Streams
begin

text \<open>
  The module streams of a minidump (\<open>processor/minidump.cc\<close>: \<open>MinidumpModule\<close>, \<open>MinidumpModuleList\<close>,
  \<open>MinidumpUnloadedModule\<close>, \<open>MinidumpUnloadedModuleList\<close>): the modules of the process with the records
  that identify their debugging information, and the search for a module by address.
\<close>

section \<open>Printing\<close>

definition hex_char :: "bool \<Rightarrow> nat \<Rightarrow> char" where
  "hex_char upper n = (if n < 10 then digit_char n else char_of ((if upper then 55 else 87) + n))"

fun show_hex :: "bool \<Rightarrow> nat \<Rightarrow> string" where
  "show_hex upper n =
     (if n < 16 then [hex_char upper n] else show_hex upper (n div 16) @ [hex_char upper (n mod 16)])"

declare show_hex.simps [simp del]

text \<open>\<open>%0nX\<close> and \<open>%0nx\<close>.\<close>

definition padded_hex :: "bool \<Rightarrow> nat \<Rightarrow> nat \<Rightarrow> string" where
  "padded_hex upper width n = (let s = show_hex upper n in replicate (width - length s) CHR ''0'' @ s)"

section \<open>Debugging records\<close>

definition MD_CVINFOPDB70_SIGNATURE :: u32 where "MD_CVINFOPDB70_SIGNATURE = 0x53445352"
definition MD_CVINFOPDB20_SIGNATURE :: u32 where "MD_CVINFOPDB20_SIGNATURE = 0x3031424e"
definition MD_CVINFOELF_SIGNATURE :: u32 where "MD_CVINFOELF_SIGNATURE = 0x4270454c"
definition MD_CVINFOUNKNOWN_SIGNATURE :: u32 where "MD_CVINFOUNKNOWN_SIGNATURE = 0xffffffff"

lemmas cv_signature_defs = MD_CVINFOPDB70_SIGNATURE_def MD_CVINFOPDB20_SIGNATURE_def MD_CVINFOELF_SIGNATURE_def
  MD_CVINFOUNKNOWN_SIGNATURE_def

definition MDCVInfoPDB70_layout :: layout where
  "MDCVInfoPDB70_layout = [(1, 4), (1, 4), (2, 2), (8, 1), (1, 4)]"

definition MDCVInfoPDB20_layout :: layout where
  "MDCVInfoPDB20_layout = [(4, 4)]"

text \<open>The body of \<open>GetCVRecord\<close> for a record that is not cached: the bytes, with the fields that are known in the
  order of the host, and the signature.\<close>

definition read_cv_record :: "StreamLimits \<Rightarrow> MDLocationDescriptor \<Rightarrow> (u8 list \<times> u32) dump_reader" where
  "read_cv_record lim l =
     (if loc_data_size l = 0 then fail
      else
        and_then (SeekSet (unat (loc_rva l))) (\<lambda>_.
          if max_cv_bytes lim < loc_data_size l then fail
          else
            and_then (ReadBytes (unat (loc_data_size l))) (\<lambda>bs.
            and_then swap (\<lambda>swapped.
              let sz = unat (loc_data_size l);
                  sig = (if 4 < sz then (if swapped then Swap32 (at32 bs 0) else at32 bs 0) else MD_CVINFOUNKNOWN_SIGNATURE)
              in if sig = MD_CVINFOPDB70_SIGNATURE then
                   (if sz < 24 + 1 then fail
                    else if in_order swapped MDCVInfoPDB70_layout bs ! (sz - 1) \<noteq> 0 then fail
                    else give (in_order swapped MDCVInfoPDB70_layout bs, sig))
                 else if sig = MD_CVINFOPDB20_SIGNATURE then
                   (if sz < 16 + 1 then fail
                    else if in_order swapped MDCVInfoPDB20_layout bs ! (sz - 1) \<noteq> 0 then fail
                    else give (in_order swapped MDCVInfoPDB20_layout bs, sig))
                 else if sig = MD_CVINFOELF_SIGNATURE \<and> sz < 4 then fail
                 else give (bs, sig)))))"

text \<open>The body of \<open>GetMiscRecord\<close> for a record that is not cached. A flag of the record says that its data are 16-bit
  characters; these are swapped too, without the last byte of an odd number of them.\<close>

definition misc_record_layout :: "u8 list \<Rightarrow> layout" where
  "misc_record_layout bs = [(2, 4), (4, 1)] @ (if bs ! 8 \<noteq> 0 then [((length bs - 12) div 2, 2)] else [])"

definition read_misc_record :: "StreamLimits \<Rightarrow> MDLocationDescriptor \<Rightarrow> u8 list dump_reader" where
  "read_misc_record lim l =
     (if loc_data_size l = 0 then fail
      else if unat (loc_data_size l) < 12 then fail
      else
        and_then (SeekSet (unat (loc_rva l))) (\<lambda>_.
          if max_misc_bytes lim < loc_data_size l then fail
          else
            and_then (ReadBytes (unat (loc_data_size l))) (\<lambda>bs.
            and_then swap (\<lambda>swapped.
              let record = in_order swapped (misc_record_layout bs) bs
              in if loc_data_size l \<noteq> at32 record 4 then fail else give record))))"

section \<open>MinidumpModule\<close>

definition MinidumpModule_Read :: "MinidumpModule dump_reader" where
  "MinidumpModule_Read =
     and_then (read_struct MDRawModule_layout) (\<lambda>bs.
       let m = MDRawModule_of bs in
       if size_of_image m = 0 \<or> (- 1 :: u64) - base_of_image m < ucast (size_of_image m) then fail
       else give \<lparr>mm_valid = False, mm_module_valid = True, mm_has_debug_info = False, mm_module = m, mm_name = None,
                  mm_cv_record = None, mm_cv_record_signature = MD_CVINFOUNKNOWN_SIGNATURE, mm_misc_record = None\<rparr>)"

definition GetCVRecord :: "StreamLimits \<Rightarrow> MinidumpModule \<Rightarrow> Dump \<Rightarrow> u8 list option \<times> MinidumpModule \<times> Dump" where
  "GetCVRecord lim m md =
     (if \<not> mm_module_valid m then (None, m, md)
      else
        (case mm_cv_record m of
           Some record \<Rightarrow> (Some record, m, md)
         | None \<Rightarrow>
             (case read_cv_record lim (cv_record_location (mm_module m)) md of
                (None, md') \<Rightarrow> (None, m, md')
              | (Some (record, sig), md') \<Rightarrow>
                  (Some record, m\<lparr>mm_cv_record := Some record, mm_cv_record_signature := sig\<rparr>, md'))))"

definition GetMiscRecord :: "StreamLimits \<Rightarrow> MinidumpModule \<Rightarrow> Dump \<Rightarrow> u8 list option \<times> MinidumpModule \<times> Dump" where
  "GetMiscRecord lim m md =
     (if \<not> mm_module_valid m then (None, m, md)
      else
        (case mm_misc_record m of
           Some record \<Rightarrow> (Some record, m, md)
         | None \<Rightarrow>
             (case read_misc_record lim (misc_record_location (mm_module m)) md of
                (None, md') \<Rightarrow> (None, m, md')
              | (Some record, md') \<Rightarrow> (Some record, m\<lparr>mm_misc_record := Some record\<rparr>, md'))))"

text \<open>\<open>ReadAuxiliaryData\<close>: whether it succeeds, the module as it leaves it, and the dump.\<close>

definition MinidumpModule_ReadAuxiliaryData :: "StreamLimits \<Rightarrow> MinidumpModule \<Rightarrow> Dump \<Rightarrow> bool \<times> MinidumpModule \<times> Dump" where
  "MinidumpModule_ReadAuxiliaryData lim m md =
     (if \<not> mm_module_valid m then (False, m, md)
      else
        (case ReadString (file_limits lim) (unat (module_name_rva (mm_module m))) md of
           (None, md1) \<Rightarrow> (False, m\<lparr>mm_name := None\<rparr>, md1)
         | (Some name, md1) \<Rightarrow>
             (let m1 = m\<lparr>mm_name := Some name, mm_valid := True\<rparr> in
              case (if loc_data_size (cv_record_location (mm_module m)) \<noteq> 0
                    then (case GetCVRecord lim m1 md1 of (r, m2, md2) \<Rightarrow> (r \<noteq> None, m2, md2)) else (True, m1, md1)) of
                (False, m2, md2) \<Rightarrow> (False, m2, md2)
              | (True, m2, md2) \<Rightarrow>
                  (case (if loc_data_size (misc_record_location (mm_module m)) \<noteq> 0
                         then (case GetMiscRecord lim m2 md2 of (r, m3, md3) \<Rightarrow> (r \<noteq> None, m3, md3)) else (True, m2, md2)) of
                     (False, m3, md3) \<Rightarrow> (False, m3, md3)
                   | (True, m3, md3) \<Rightarrow> (True, m3\<lparr>mm_has_debug_info := True\<rparr>, md3)))))"

definition MinidumpModule_base_address :: "MinidumpModule \<Rightarrow> u64" where
  "MinidumpModule_base_address m = (if mm_valid m then base_of_image (mm_module m) else - 1)"

definition MinidumpModule_size :: "MinidumpModule \<Rightarrow> u64" where
  "MinidumpModule_size m = (if mm_valid m then ucast (size_of_image (mm_module m)) else 0)"

text \<open>The name is there in every valid module; the empty string stands for the dereference of a null pointer.\<close>

definition MinidumpModule_code_file :: "MinidumpModule \<Rightarrow> string" where
  "MinidumpModule_code_file m = (if \<not> mm_valid m then [] else (case mm_name m of None \<Rightarrow> [] | Some s \<Rightarrow> s))"

text \<open>The identifiers. The result is \<open>None\<close> where an assertion of the code fails.\<close>

definition build_id :: "u8 list \<Rightarrow> u8 list" where
  "build_id record = drop 4 record"

definition known_platforms :: "u32 list" where
  "known_platforms = [0x8203, 0x8201, 0x8101, 0x8102, 0x8202, 0x8205, 0x8204]"

definition MinidumpModule_code_identifier :: "MinidumpModule \<Rightarrow> Dump \<Rightarrow> string option \<times> Dump" where
  "MinidumpModule_code_identifier m md =
     (if \<not> mm_valid m then (Some [], md)
      else if \<not> mm_has_debug_info m then (Some [], md)
      else
        (case raw_system_info md of
           (None, md') \<Rightarrow> (Some [], md')
         | (Some si, md') \<Rightarrow>
             (let p = platform_id si in
              if p = 2 \<or> p = 1 then
                (Some (padded_hex True 8 (unat (module_time_date_stamp (mm_module m))) @
                       show_hex False (unat (size_of_image (mm_module m)))), md')
              else
                (case mm_cv_record m of
                   Some record \<Rightarrow>
                     if (p = 0x8203 \<or> p = 0x8201) \<and> mm_cv_record_signature m = MD_CVINFOELF_SIGNATURE then
                       (if at32 record 0 \<noteq> MD_CVINFOELF_SIGNATURE then (None, md')
                        else (Some (concat (map (\<lambda>b. padded_hex False 2 (unat b)) (build_id record))), md'))
                     else (Some (if p \<in> set known_platforms then ''id'' else []), md')
                 | None \<Rightarrow> (Some (if p \<in> set known_platforms then ''id'' else []), md')))))"

definition misc_file :: "MinidumpModule \<Rightarrow> string" where
  "misc_file m =
     (case mm_misc_record m of
        None \<Rightarrow> []
      | Some record \<Rightarrow>
          (let bytes = unat (loc_data_size (misc_record_location (mm_module m))) - 12 in
           if record ! 8 = 0 then map char_of_byte (take bytes (drop 12 record))
           else if bytes mod 2 = 0
           then (case UTF16ToUTF8 (words16 (take bytes (drop 12 record))) False of None \<Rightarrow> [] | Some s \<Rightarrow> s)
           else []))"

definition MinidumpModule_debug_file :: "MinidumpModule \<Rightarrow> string option" where
  "MinidumpModule_debug_file m =
     (if \<not> mm_valid m then Some []
      else if \<not> mm_has_debug_info m then Some []
      else
        (let cv =
           (case mm_cv_record m of
              None \<Rightarrow> Some []
            | Some record \<Rightarrow>
                if mm_cv_record_signature m = MD_CVINFOPDB70_SIGNATURE then
                  (if at32 record 0 \<noteq> MD_CVINFOPDB70_SIGNATURE then None else Some (cstr (map char_of_byte (drop 24 record))))
                else if mm_cv_record_signature m = MD_CVINFOPDB20_SIGNATURE then
                  (if at32 record 0 \<noteq> MD_CVINFOPDB20_SIGNATURE then None else Some (cstr (map char_of_byte (drop 16 record))))
                else if mm_cv_record_signature m = MD_CVINFOELF_SIGNATURE then
                  (if at32 record 0 \<noteq> MD_CVINFOELF_SIGNATURE then None else Some (MinidumpModule_code_file m))
                else Some [])
         in map_option (\<lambda>s. if s = [] then misc_file m else s) cv))"

text \<open>\<open>guid_and_age_to_debug_id\<close>, of the 16 bytes of a \<open>MDGUID\<close>.\<close>

definition guid_and_age_to_debug_id :: "u8 list \<Rightarrow> u32 \<Rightarrow> string" where
  "guid_and_age_to_debug_id guid age =
     padded_hex True 8 (unat (at32 guid 0)) @ padded_hex True 4 (unat (at16 guid 4)) @ padded_hex True 4 (unat (at16 guid 6)) @
     concat (map (\<lambda>b. padded_hex True 2 (unat b)) (take 8 (drop 8 guid))) @ show_hex False (unat age)"

definition MinidumpModule_debug_identifier :: "MinidumpModule \<Rightarrow> string option" where
  "MinidumpModule_debug_identifier m =
     (if \<not> mm_valid m then Some []
      else if \<not> mm_has_debug_info m then Some []
      else
        (case mm_cv_record m of
           None \<Rightarrow> Some []
         | Some record \<Rightarrow>
             if mm_cv_record_signature m = MD_CVINFOPDB70_SIGNATURE then
               (if at32 record 0 \<noteq> MD_CVINFOPDB70_SIGNATURE then None
                else Some (guid_and_age_to_debug_id (take 16 (drop 4 record)) (at32 record 20)))
             else if mm_cv_record_signature m = MD_CVINFOPDB20_SIGNATURE then
               (if at32 record 0 \<noteq> MD_CVINFOPDB20_SIGNATURE then None
                else Some (padded_hex True 8 (unat (at32 record 8)) @ show_hex False (unat (at32 record 12))))
             else if mm_cv_record_signature m = MD_CVINFOELF_SIGNATURE then
               (if at32 record 0 \<noteq> MD_CVINFOELF_SIGNATURE then None
                else Some (guid_and_age_to_debug_id (take 16 (build_id record @ replicate 16 0)) 0))
             else Some []))"

definition MinidumpModule_version :: "MinidumpModule \<Rightarrow> string" where
  "MinidumpModule_version m =
     (if \<not> mm_valid m then []
      else
        (let v = version_info (mm_module m) in
         if version_signature v = 0xfeef04bd \<and> struct_version v AND 0x00010000 \<noteq> 0
         then show_nat (unat (drop_bit 16 (file_version_hi v))) @ ''.'' @ show_nat (unat (file_version_hi v AND 0xffff)) @ ''.'' @
              show_nat (unat (drop_bit 16 (file_version_lo v))) @ ''.'' @ show_nat (unat (file_version_lo v AND 0xffff))
         else []))"

text \<open>\<open>Copy\<close>, which makes a \<open>BasicCodeModule\<close>.\<close>

definition MinidumpModule_Copy :: "MinidumpModule \<Rightarrow> CodeModule dump_reader" where
  "MinidumpModule_Copy m md =
     (case MinidumpModule_code_identifier m md of
        (None, md') \<Rightarrow> (None, md')
      | (Some code_id, md') \<Rightarrow>
          (case (MinidumpModule_debug_file m, MinidumpModule_debug_identifier m) of
             (Some dbg_file, Some dbg_id) \<Rightarrow>
               (Some \<lparr>base_address = MinidumpModule_base_address m, module_size = MinidumpModule_size m,
                  shrink_down_delta = 0, code_file = MinidumpModule_code_file m, module_code_identifier = code_id,
                  debug_file = dbg_file, debug_identifier = dbg_id, version = MinidumpModule_version m, is_unloaded = False\<rparr>, md')
           | _ \<Rightarrow> (None, md')))"

section \<open>MinidumpModuleList\<close>

fun read_modules :: "nat \<Rightarrow> MinidumpModule list \<Rightarrow> MinidumpModule list dump_reader" where
  "read_modules 0 modules = give modules"
| "read_modules (Suc n) modules = and_then MinidumpModule_Read (\<lambda>m. read_modules n (modules @ [m]))"

text \<open>What the second loop does with the range of a module: the map and the end address for the next module.\<close>

definition place_module :: "u32 \<Rightarrow> u64 \<Rightarrow> MinidumpModule \<Rightarrow> (u64, u32) RangeMap \<Rightarrow> ((u64, u32) RangeMap \<times> u64) option" where
  "place_module index last_end_address module range_map =
     (let base = MinidumpModule_base_address module;
          sz = MinidumpModule_size module
      in if base = - 1 then None
         else
           (case RangeMap_StoreRange 0 range_map base sz index of
              (True, m') \<Rightarrow> Some (m', base + sz)
            | (False, m') \<Rightarrow>
                if take 12 (MinidumpModule_code_file module) \<noteq> ''/dev/ashmem/'' then
                  (if base < last_end_address then
                     (let sz' = sz - (last_end_address - base) in
                      case RangeMap_StoreRange 0 m' last_end_address sz' index of
                        (True, m'') \<Rightarrow> Some (m'', last_end_address + sz')
                      | (False, m'') \<Rightarrow> None)
                   else None)
                else Some (m', base + sz)))"

fun place_modules ::
  "StreamLimits \<Rightarrow> u32 \<Rightarrow> u64 \<Rightarrow> MinidumpModule list \<Rightarrow> (u64, u32) RangeMap \<Rightarrow> MinidumpModule list
     \<Rightarrow> ((u64, u32) RangeMap \<times> MinidumpModule list) dump_reader" where
  "place_modules lim index last_end [] range_map placed = give (range_map, placed)"
| "place_modules lim index last_end (m # ms) range_map placed =
     (\<lambda>md. case MinidumpModule_ReadAuxiliaryData lim m md of
        (ok, m', md') \<Rightarrow>
          if \<not> ok \<and> \<not> mm_valid m' then (None, md')
          else
            (case place_module index last_end m' range_map of
               None \<Rightarrow> (None, md')
             | Some (range_map', last_end') \<Rightarrow> place_modules lim (index + 1) last_end' ms range_map' (placed @ [m']) md'))"

definition ask_android :: "bool dump_reader" where
  "ask_android md = (case IsAndroid md of (b, md') \<Rightarrow> (Some b, md'))"

definition MinidumpModuleList_Read :: "StreamLimits \<Rightarrow> u32 \<Rightarrow> MinidumpModuleList dump_reader" where
  "MinidumpModuleList_Read lim expected_size =
     and_then ask_android (\<lambda>android.
       if expected_size < 4 then fail
       else
         and_then swap (\<lambda>swapped.
         and_then (ReadWord swapped) (\<lambda>count.
           if (- 1) div 108 < count then fail
           else
             and_then (skip_padding expected_size (4 + unat count * 108)) (\<lambda>_.
               if max_modules lim < count then fail
               else
                 and_then (read_modules (unat count) []) (\<lambda>modules.
                 and_then (place_modules lim 0 0 modules (RangeMap_SetEnableShrinkDown RangeMap_init android) []) (\<lambda>(m, placed).
                   give \<lparr>mdl_valid = True, mdl_range_map = m, mdl_modules = placed, mdl_module_count = count\<rparr>))))))"

definition MinidumpModuleList_GetModuleAtIndex :: "MinidumpModuleList \<Rightarrow> u32 \<Rightarrow> MinidumpModule option" where
  "MinidumpModuleList_GetModuleAtIndex l index =
     (if \<not> mdl_valid l then None
      else if mdl_module_count l \<le> index then None
      else Some (mdl_modules l ! unat index))"

definition MinidumpModuleList_GetModuleForAddress :: "MinidumpModuleList \<Rightarrow> u64 \<Rightarrow> MinidumpModule option" where
  "MinidumpModuleList_GetModuleForAddress l address =
     (if \<not> mdl_valid l then None
      else
        (case RangeMap_RetrieveRange (mdl_range_map l) address of
           None \<Rightarrow> None
         | Some (index, _) \<Rightarrow> MinidumpModuleList_GetModuleAtIndex l index))"

definition MinidumpModuleList_GetMainModule :: "MinidumpModuleList \<Rightarrow> MinidumpModule option" where
  "MinidumpModuleList_GetMainModule l = (if \<not> mdl_valid l then None else MinidumpModuleList_GetModuleAtIndex l 0)"

definition MinidumpModuleList_GetModuleAtSequence :: "MinidumpModuleList \<Rightarrow> u32 \<Rightarrow> MinidumpModule option" where
  "MinidumpModuleList_GetModuleAtSequence l sequence =
     (if \<not> mdl_valid l then None
      else if mdl_module_count l \<le> sequence then None
      else
        (case RangeMap_RetrieveRangeAtIndex (mdl_range_map l) (unat sequence) of
           None \<Rightarrow> None
         | Some (index, _) \<Rightarrow> MinidumpModuleList_GetModuleAtIndex l index))"

definition MinidumpModuleList_IsModuleShrinkEnabled :: "MinidumpModuleList \<Rightarrow> bool" where
  "MinidumpModuleList_IsModuleShrinkEnabled l = RangeMap_IsShrinkDownEnabled (mdl_range_map l)"

definition GetModuleList :: "StreamLimits \<Rightarrow> MinidumpModuleList dump_reader" where
  "GetModuleList lim = GetStream 4 (\<lambda>s. case s of ModuleListStream x \<Rightarrow> Some x | _ \<Rightarrow> None) ModuleListStream (MinidumpModuleList_Read lim)"

section \<open>Unloaded modules\<close>

text \<open>\<open>SeekSet (Tell () + n)\<close>, where \<open>Tell\<close> returns \<open>-1\<close> if there is no position.\<close>

definition seek_forward :: "nat \<Rightarrow> unit dump_reader" where
  "seek_forward n md = SeekSet (case Tell md of Some p \<Rightarrow> p + n | None \<Rightarrow> n - 1) md"

definition MinidumpUnloadedModule_Read :: "u32 \<Rightarrow> MinidumpUnloadedModule dump_reader" where
  "MinidumpUnloadedModule_Read expected_size =
     (if expected_size < 24 then fail
      else
        and_then (ReadBytes 24) (\<lambda>bs.
        and_then (if 24 < expected_size then seek_forward (unat (expected_size - 24)) else give ()) (\<lambda>_.
        and_then swap (\<lambda>swapped.
          let m = MDRawUnloadedModule_of (in_order swapped MDRawUnloadedModule_layout bs) in
          if unloaded_size_of_image m = 0 \<or> (- 1 :: u64) - unloaded_base_of_image m < ucast (unloaded_size_of_image m) then fail
          else give \<lparr>mu_valid = False, mu_module_valid = True, mu_unloaded_module = m, mu_name = None\<rparr>))))"

definition MinidumpUnloadedModule_ReadAuxiliaryData :: "StreamLimits \<Rightarrow> MinidumpUnloadedModule \<Rightarrow> MinidumpUnloadedModule dump_reader" where
  "MinidumpUnloadedModule_ReadAuxiliaryData lim m =
     (if \<not> mu_module_valid m then fail
      else and_then (ReadString (file_limits lim) (unat (unloaded_module_name_rva (mu_unloaded_module m)))) (\<lambda>name.
        give (m\<lparr>mu_name := Some name, mu_valid := True\<rparr>)))"

definition MinidumpUnloadedModule_base_address :: "MinidumpUnloadedModule \<Rightarrow> u64" where
  "MinidumpUnloadedModule_base_address m = (if mu_valid m then unloaded_base_of_image (mu_unloaded_module m) else 0)"

definition MinidumpUnloadedModule_size :: "MinidumpUnloadedModule \<Rightarrow> u64" where
  "MinidumpUnloadedModule_size m = (if mu_valid m then ucast (unloaded_size_of_image (mu_unloaded_module m)) else 0)"

definition MinidumpUnloadedModule_code_file :: "MinidumpUnloadedModule \<Rightarrow> string" where
  "MinidumpUnloadedModule_code_file m = (if \<not> mu_valid m then [] else (case mu_name m of None \<Rightarrow> [] | Some s \<Rightarrow> s))"

definition MinidumpUnloadedModule_code_identifier :: "MinidumpUnloadedModule \<Rightarrow> Dump \<Rightarrow> string \<times> Dump" where
  "MinidumpUnloadedModule_code_identifier m md =
     (if \<not> mu_valid m then ([], md)
      else
        (case raw_system_info md of
           (None, md') \<Rightarrow> ([], md')
         | (Some si, md') \<Rightarrow>
             (let p = platform_id si in
              (if p = 2 \<or> p = 1
               then padded_hex True 8 (unat (unloaded_time_date_stamp (mu_unloaded_module m))) @
                    show_hex False (unat (unloaded_size_of_image (mu_unloaded_module m)))
               else if p \<in> set known_platforms then ''id'' else [], md'))))"

fun read_unloaded_modules :: "nat \<Rightarrow> u32 \<Rightarrow> MinidumpUnloadedModule list \<Rightarrow> MinidumpUnloadedModule list dump_reader" where
  "read_unloaded_modules 0 entry_size modules = give modules"
| "read_unloaded_modules (Suc n) entry_size modules =
     and_then (MinidumpUnloadedModule_Read entry_size) (\<lambda>m. read_unloaded_modules n entry_size (modules @ [m]))"

text \<open>Failures to store a range are ignored here.\<close>

fun place_unloaded_modules ::
  "StreamLimits \<Rightarrow> u32 \<Rightarrow> MinidumpUnloadedModule list \<Rightarrow> (u64, u32) RangeMap \<Rightarrow> MinidumpUnloadedModule list
     \<Rightarrow> ((u64, u32) RangeMap \<times> MinidumpUnloadedModule list) dump_reader" where
  "place_unloaded_modules lim index [] range_map placed = give (range_map, placed)"
| "place_unloaded_modules lim index (m # ms) range_map placed =
     and_then (MinidumpUnloadedModule_ReadAuxiliaryData lim m) (\<lambda>m'.
       place_unloaded_modules lim (index + 1) ms
         (snd (RangeMap_StoreRange 0 range_map (MinidumpUnloadedModule_base_address m') (MinidumpUnloadedModule_size m') index))
         (placed @ [m']))"

definition MinidumpUnloadedModuleList_Read :: "StreamLimits \<Rightarrow> u32 \<Rightarrow> MinidumpUnloadedModuleList dump_reader" where
  "MinidumpUnloadedModuleList_Read lim expected_size =
     and_then swap (\<lambda>swapped.
     and_then (ReadWord swapped) (\<lambda>size_of_header.
     and_then (ReadWord swapped) (\<lambda>size_of_entry.
     and_then (ReadWord swapped) (\<lambda>number_of_entries.
     and_then (if size_of_header - 12 \<noteq> 0 then seek_forward (unat (size_of_header - 12)) else give ()) (\<lambda>_.
       if expected_size \<noteq> size_of_header + size_of_entry * number_of_entries then fail
       else if max_unloaded_modules lim < number_of_entries then fail
       else
         and_then (read_unloaded_modules (unat number_of_entries) size_of_entry []) (\<lambda>modules.
         and_then (place_unloaded_modules lim 0 modules (RangeMap_SetEnableShrinkDown RangeMap_init True) []) (\<lambda>(m, placed).
           give \<lparr>ul_valid = True, ul_range_map = m, ul_modules = placed, ul_module_count = number_of_entries\<rparr>)))))))"

definition MinidumpUnloadedModuleList_GetModuleAtIndex :: "MinidumpUnloadedModuleList \<Rightarrow> u32 \<Rightarrow> MinidumpUnloadedModule option" where
  "MinidumpUnloadedModuleList_GetModuleAtIndex l index =
     (if \<not> ul_valid l then None
      else if ul_module_count l \<le> index then None
      else Some (ul_modules l ! unat index))"

definition MinidumpUnloadedModuleList_GetModuleForAddress :: "MinidumpUnloadedModuleList \<Rightarrow> u64 \<Rightarrow> MinidumpUnloadedModule option" where
  "MinidumpUnloadedModuleList_GetModuleForAddress l address =
     (if \<not> ul_valid l then None
      else
        (case RangeMap_RetrieveRange (ul_range_map l) address of
           None \<Rightarrow> None
         | Some (index, _) \<Rightarrow> MinidumpUnloadedModuleList_GetModuleAtIndex l index))"

definition MinidumpUnloadedModuleList_GetModuleAtSequence :: "MinidumpUnloadedModuleList \<Rightarrow> u32 \<Rightarrow> MinidumpUnloadedModule option" where
  "MinidumpUnloadedModuleList_GetModuleAtSequence l sequence =
     (if \<not> ul_valid l then None
      else if ul_module_count l \<le> sequence then None
      else
        (case RangeMap_RetrieveRangeAtIndex (ul_range_map l) (unat sequence) of
           None \<Rightarrow> None
         | Some (index, _) \<Rightarrow> MinidumpUnloadedModuleList_GetModuleAtIndex l index))"

definition GetUnloadedModuleList :: "StreamLimits \<Rightarrow> MinidumpUnloadedModuleList dump_reader" where
  "GetUnloadedModuleList lim =
     GetStream 14 (\<lambda>s. case s of UnloadedModuleListStream x \<Rightarrow> Some x | _ \<Rightarrow> None) UnloadedModuleListStream
       (MinidumpUnloadedModuleList_Read lim)"

section \<open>The modules that a map leads to\<close>

text \<open>\<open>rs\<close> are the ranges of the modules that were placed. A range of the map belongs to one of them: it ends where
  the module ends, and begins where the module begins or later.\<close>

definition range_last :: "u64 \<times> u64 \<Rightarrow> u64" where
  "range_last r = fst r + (snd r - 1)"

definition located :: "(u64, u32) RangeMap \<Rightarrow> (u64 \<times> u64) list \<Rightarrow> bool" where
  "located m rs \<longleftrightarrow>
     RangeMap_ok m \<and>
     (\<forall>hr\<in>set (rmap m). unat (r_entry (snd hr)) < length rs \<and> fst hr = range_last (rs ! unat (r_entry (snd hr))) \<and>
        fst (rs ! unat (r_entry (snd hr))) \<le> r_base (snd hr))"

text \<open>The map has a range that ends with the module at place \<open>i\<close>.\<close>

definition ends_at :: "(u64, u32) RangeMap \<Rightarrow> u32 \<Rightarrow> u64 \<Rightarrow> bool" where
  "ends_at m i e \<longleftrightarrow> (\<exists>hr\<in>set (rmap m). fst hr = e \<and> r_entry (snd hr) = i)"

lemma located_init: "located (RangeMap_SetEnableShrinkDown RangeMap_init b) []"
  by (simp add: located_def RangeMap_SetEnableShrinkDown_ok RangeMap_init_ok)
    (simp add: RangeMap_SetEnableShrinkDown_def RangeMap_init_def)

lemma located_more: "located m rs \<Longrightarrow> located m (rs @ [r])"
  by (auto simp: located_def nth_append)

lemma located_store:
  assumes "located m rs" "length rs < 2 ^ 32" "b + (s - 1) = range_last r" "fst r \<le> b" "i = of_nat (length rs)"
  shows "located (snd (RangeMap_StoreRange dflt m b s i)) (rs @ [r])"
proof -
  have ok: "RangeMap_ok m" using assms(1) by (simp add: located_def)
  let ?in = "\<lambda>rs hr. unat (r_entry (snd hr)) < length rs \<and> fst hr = range_last (rs ! unat (r_entry (snd hr))) \<and>
        fst (rs ! unat (r_entry (snd hr))) \<le> r_base (snd hr)"
  have i: "unat i = length rs" using assms(2,5) by (simp add: unsigned_of_nat take_bit_nat_eq_self)
  have "?in (rs @ [r]) y" if "y \<in> set (rmap (snd (RangeMap_StoreRange dflt m b s i)))" for y
    using StoreRange_entries [OF ok that]
  proof (elim disjE bexE conjE)
    fix x assume "x \<in> set (rmap m)" and k: "keeps x y"
    then have "?in rs x" using assms(1) by (simp add: located_def)
    then show ?thesis using k by (auto simp: keeps_def nth_append)
  qed (use assms(3,4) i in \<open>auto simp: nth_append intro: order.trans\<close>)
  then show ?thesis using StoreRange_ok [OF ok] by (simp add: located_def RangeMap_StoreRange_def)
qed

lemma located_find:
  assumes "located m rs" "RangeMap_RetrieveRange m a = Some (i, x)"
  shows "unat i < length rs" "fst (rs ! unat i) \<le> a" "a \<le> range_last (rs ! unat i)"
proof -
  obtain hr where "hr \<in> set (rmap m)" "in_range a hr" "i = r_entry (snd hr)"
    using assms RetrieveRange_Some [of m a "(i, x)"] by (auto simp: located_def range_result_def)
  then show "unat i < length rs" "fst (rs ! unat i) \<le> a" "a \<le> range_last (rs ! unat i)"
    using assms(1) by (auto simp: located_def in_range_def)
qed

text \<open>Storing a range keeps the ends of the others, and if it fails it changes nothing.\<close>

lemma StoreRange_result:
  assumes "RangeMap_ok m"
  shows "(fst (RangeMap_StoreRange dflt m b s i) \<and> ends_at (snd (RangeMap_StoreRange dflt m b s i)) i (b + (s - 1)) \<and>
      kept (rmap m) (rmap (snd (RangeMap_StoreRange dflt m b s i)))) \<or>
    RangeMap_StoreRange dflt m b s i = (False, m)"
proof (cases "enable_shrink_down m")
  case True
  then show ?thesis using StoreRangeInternal_shrink [OF assms, of s b 0 i dflt]
    by (auto simp: RangeMap_StoreRange_def stored_shrunk_def ends_at_def split: if_split_asm)
next
  case False
  show ?thesis
  proof (cases "s \<noteq> 0 \<and> b \<le> b + (s - 1) \<and> (\<forall>hr\<in>set (rmap m). clear_of b (b + (s - 1)) hr)")
    case True
    let ?r = "\<lparr>r_base = b, r_delta = 0, r_entry = i\<rparr>"
    have "RangeMap_StoreRangeInternal dflt m b 0 s i = (True, m\<lparr>rmap := map_insert (rmap m) (b + (s - 1)) ?r\<rparr>)"
      using StoreRange_plain [OF assms False, of dflt b 0 s i] unfolding if_P [OF True] .
    moreover have "set (map_insert (rmap m) (b + (s - 1)) ?r) = insert (b + (s - 1), ?r) (set (rmap m))"
      using insert_clear(2) [of "rmap m" b "b + (s - 1)" ?r] True assms by (simp add: RangeMap_ok_def)
    ultimately show ?thesis by (auto simp: RangeMap_StoreRange_def ends_at_def intro: kept_mono)
  next
    case no: False
    show ?thesis
      using StoreRange_plain [OF assms False, of dflt b 0 s i] unfolding RangeMap_StoreRange_def if_not_P [OF no] by blast
  qed
qed

lemma ends_at_kept: "kept (rmap m) (rmap m') \<Longrightarrow> ends_at m k e \<Longrightarrow> ends_at m' k e"
  unfolding ends_at_def kept_def keeps_def by metis

lemma ends_at_store: "RangeMap_ok m \<Longrightarrow> ends_at m k e \<Longrightarrow> ends_at (snd (RangeMap_StoreRange dflt m b s i)) k e"
  using StoreRange_result [of m dflt b s i] ends_at_kept by fastforce

lemma ends_at_stored:
  "RangeMap_ok m \<Longrightarrow> fst (RangeMap_StoreRange dflt m b s i) \<Longrightarrow> ends_at (snd (RangeMap_StoreRange dflt m b s i)) i (b + (s - 1))"
  using StoreRange_result [of m dflt b s i] by auto

lemma StoreRange_failed: "RangeMap_ok (m :: (u64, u32) RangeMap) \<Longrightarrow> RangeMap_StoreRange dflt m b s i = (False, m') \<Longrightarrow> m' = m"
  using StoreRange_result [of m dflt b s i] by auto

lemma ends_at_find:
  assumes "RangeMap_ok m" "ends_at m i e"
  shows "\<exists>x. RangeMap_RetrieveRange m e = Some (i, x)"
proof -
  obtain hr where hr: "hr \<in> set (rmap m)" "fst hr = e" "r_entry (snd hr) = i" using assms(2) by (auto simp: ends_at_def)
  then have "in_range e hr" using assms(1) by (auto simp: in_range_def RangeMap_ok_def ranges_ok_def)
  then have "RangeMap_RetrieveRange m e = Some (range_result hr)" using RetrieveRange_Some [OF assms(1)] hr(1) by blast
  then show ?thesis by (simp add: range_result_def hr(3))
qed

section \<open>Module lists\<close>

definition module_range :: "MinidumpModule \<Rightarrow> u64 \<times> u64" where
  "module_range m = (base_of_image (mm_module m), ucast (size_of_image (mm_module m)))"

definition in_ashmem :: "MinidumpModule \<Rightarrow> bool" where
  "in_ashmem m \<longleftrightarrow> take 12 (MinidumpModule_code_file m) = ''/dev/ashmem/''"

lemma place_module_located:
  assumes "place_module i e p m = Some (m', e')" "mm_valid p" "located m rs" "length rs < 2 ^ 32" "i = of_nat (length rs)"
  shows "located m' (rs @ [module_range p])" "\<not> in_ashmem p \<Longrightarrow> ends_at m' i (range_last (module_range p))"
    "ends_at m k f \<Longrightarrow> ends_at m' k f"
proof -
  let ?b = "base_of_image (mm_module p)" and ?s = "ucast (size_of_image (mm_module p)) :: u64"
  have ok: "RangeMap_ok m" using assms(3) by (simp add: located_def)
  have e: "?b + (?s - 1) = range_last (module_range p)" "fst (module_range p) = ?b" by (simp_all add: range_last_def module_range_def)
  obtain stored m1 where st: "RangeMap_StoreRange 0 m ?b ?s i = (stored, m1)" by fastforce
  have at: "MinidumpModule_base_address p = ?b" "MinidumpModule_size p = ?s"
    using assms(2) by (simp_all add: MinidumpModule_base_address_def MinidumpModule_size_def)
  have "\<exists>b s. m' = snd (RangeMap_StoreRange 0 m b s i) \<and> b + (s - 1) = range_last (module_range p) \<and> fst (module_range p) \<le> b \<and>
      (\<not> in_ashmem p \<longrightarrow> fst (RangeMap_StoreRange 0 m b s i))"
  proof (cases "stored \<or> in_ashmem p")
    case True
    then have "m' = m1" using assms(1) by (auto simp: place_module_def at st in_ashmem_def Let_def split: if_split_asm bool.splits)
    then show ?thesis using st True e by (intro exI [of _ ?b] exI [of _ ?s]) auto
  next
    case False
    then have m1: "m1 = m" using StoreRange_failed [OF ok, of 0 ?b ?s i m1] st by simp
    let ?s' = "?s - (e - ?b)"
    obtain stored' m2 where st': "RangeMap_StoreRange 0 m e ?s' i = (stored', m2)" by fastforce
    have "stored'" "m' = m2" "?b < e"
      using assms(1) False st' by (auto simp: place_module_def at st m1 in_ashmem_def Let_def split: if_split_asm bool.splits)
    moreover have "e + (?s' - 1) = range_last (module_range p)" unfolding e(1) [symmetric] by simp
    ultimately show ?thesis using st' e(2) by (intro exI [of _ e] exI [of _ ?s']) auto
  qed
  then obtain b s where m': "m' = snd (RangeMap_StoreRange 0 m b s i)" "b + (s - 1) = range_last (module_range p)" "fst (module_range p) \<le> b"
    "\<not> in_ashmem p \<longrightarrow> fst (RangeMap_StoreRange 0 m b s i)" by blast
  show "located m' (rs @ [module_range p])" unfolding m'(1) by (rule located_store [OF assms(3,4) m'(2,3) assms(5)])
  show "\<not> in_ashmem p \<Longrightarrow> ends_at m' i (range_last (module_range p))"
    using ends_at_stored [OF ok] m'(2,4) unfolding m'(1) by metis
  show "ends_at m k f \<Longrightarrow> ends_at m' k f" unfolding m'(1) by (rule ends_at_store [OF ok])
qed

lemma ReadAuxiliaryData_module:
  "MinidumpModule_ReadAuxiliaryData lim m md = (ok, m', md') \<Longrightarrow> mm_module m' = mm_module m \<and> (ok \<longrightarrow> mm_valid m')"
  by (auto simp: MinidumpModule_ReadAuxiliaryData_def GetCVRecord_def GetMiscRecord_def Let_def
      split: if_split_asm option.splits prod.splits bool.splits)

lemma MinidumpModule_Read_plain: "MinidumpModule_Read md = (Some m, md') \<Longrightarrow> range_plain (module_range m)"
proof -
  assume "MinidumpModule_Read md = (Some m, md')"
  then have "size_of_image (mm_module m) \<noteq> 0"
    "\<not> (- 1 :: u64) - base_of_image (mm_module m) < ucast (size_of_image (mm_module m))"
    by (auto simp: MinidumpModule_Read_def and_then_Some Let_def split: if_split_asm)
  then show ?thesis unfolding range_wraps
    by (simp add: range_plain_def module_range_def) (metis unat_eq_zero unat_ucast_32_64)
qed

lemma read_modules_plain:
  "read_modules n ms md = (Some ms', md') \<Longrightarrow> \<forall>m\<in>set ms. range_plain (module_range m) \<Longrightarrow>
     length ms' = length ms + n \<and> (\<forall>m\<in>set ms'. range_plain (module_range m))"
proof (induction n ms arbitrary: md rule: read_modules.induct)
  case (2 n ms)
  then obtain m md1 where m: "MinidumpModule_Read md = (Some m, md1)" "read_modules n (ms @ [m]) md1 = (Some ms', md')"
    by (auto simp: and_then_Some)
  show ?case using 2(1) [OF m(2)] 2(3) MinidumpModule_Read_plain [OF m(1)] by auto
qed simp

text \<open>What holds while the second loop places the modules.\<close>

definition modules_placed :: "(u64, u32) RangeMap \<Rightarrow> MinidumpModule list \<Rightarrow> bool" where
  "modules_placed m ps \<longleftrightarrow>
     located m (map module_range ps) \<and>
     (\<forall>k < length ps. mm_valid (ps ! k) \<and> range_plain (module_range (ps ! k)) \<and>
        (in_ashmem (ps ! k) \<or> ends_at m (of_nat k) (range_last (module_range (ps ! k)))))"

lemma place_modules_placed:
  assumes "place_modules lim i e ms m ps md = (Some (m', ps'), md')" "modules_placed m ps" "i = of_nat (length ps)"
    "\<forall>p\<in>set ms. range_plain (module_range p)" "length ps + length ms < 2 ^ 32"
  shows "modules_placed m' ps' \<and> length ps' = length ps + length ms"
  using assms
proof (induction lim i e ms m ps arbitrary: md rule: place_modules.induct)
  case (2 lim i e p ms m ps)
  obtain ok p1 md1 where aux: "MinidumpModule_ReadAuxiliaryData lim p md = (ok, p1, md1)" by (metis prod_cases3)
  note p1 = ReadAuxiliaryData_module [OF aux]
  have g: "ok \<or> mm_valid p1" and v: "mm_valid p1" using 2(2) p1 by (auto simp: aux split: if_split_asm)
  obtain m1 e1 where pl: "place_module i e p1 m = Some (m1, e1)"
    and r: "place_modules lim (i + 1) e1 ms m1 (ps @ [p1]) md1 = (Some (m', ps'), md')"
    using 2(2) g by (auto simp: aux split: option.splits)
  have n: "length (map module_range ps) < 2 ^ 32" "i = of_nat (length (map module_range ps))" using 2(4,6) by simp_all
  have l: "located m (map module_range ps)" using 2(3) by (simp add: modules_placed_def)
  note place = place_module_located [OF pl v l n]
  have "modules_placed m1 (ps @ [p1])"
    using 2(3,5) place v p1 2(4) unfolding modules_placed_def by (auto simp: nth_append less_Suc_eq module_range_def)
  then show ?case using 2(1) [OF aux [symmetric] refl _ pl refl r] g 2(4,5,6) by auto
qed simp

lemma module_list_read:
  assumes "MinidumpModuleList_Read lim expected_size md = (Some l, md')"
  shows "mdl_valid l" "mdl_module_count l \<le> max_modules lim" "length (mdl_modules l) = unat (mdl_module_count l)"
    "modules_placed (mdl_range_map l) (mdl_modules l)"
proof -
  obtain android md0 where r0: "(if expected_size < 4 then fail
       else
         and_then swap (\<lambda>swapped.
         and_then (ReadWord swapped) (\<lambda>count.
           if (- 1) div 108 < count then fail
           else
             and_then (skip_padding expected_size (4 + unat count * 108)) (\<lambda>_.
               if max_modules lim < count then fail
               else
                 and_then (read_modules (unat count) []) (\<lambda>modules.
                 and_then (place_modules lim 0 0 modules (RangeMap_SetEnableShrinkDown RangeMap_init android) []) (\<lambda>(m, placed).
                   give \<lparr>mdl_valid = True, mdl_range_map = m, mdl_modules = placed, mdl_module_count = count\<rparr>)))))) md0 = (Some l, md')"
    using assms unfolding MinidumpModuleList_Read_def and_then_Some [of ask_android] by blast
  obtain count md2 where c: "count \<le> max_modules lim"
    and r: "and_then (read_modules (unat count) []) (\<lambda>modules.
        and_then (place_modules lim 0 0 modules (RangeMap_SetEnableShrinkDown RangeMap_init android) []) (\<lambda>(m, placed).
          give \<lparr>mdl_valid = True, mdl_range_map = m, mdl_modules = placed, mdl_module_count = count\<rparr>)) md2 = (Some l, md')"
    using r0 by (rule list_steps)
  then obtain ms md3 where ms: "read_modules (unat count) [] md2 = (Some ms, md3)"
    and r2: "and_then (place_modules lim 0 0 ms (RangeMap_SetEnableShrinkDown RangeMap_init android) []) (\<lambda>(m, placed).
          give \<lparr>mdl_valid = True, mdl_range_map = m, mdl_modules = placed, mdl_module_count = count\<rparr>) md3 = (Some l, md')"
    unfolding and_then_Some [of "read_modules _ _"] by blast
  then obtain m ps md4 where p: "place_modules lim 0 0 ms (RangeMap_SetEnableShrinkDown RangeMap_init android) [] md3 = (Some (m, ps), md4)"
    and l: "l = \<lparr>mdl_valid = True, mdl_range_map = m, mdl_modules = ps, mdl_module_count = count\<rparr>"
    by (auto simp: and_then_Some)
  have len: "length ms = unat count" "\<forall>p\<in>set ms. range_plain (module_range p)" using read_modules_plain [OF ms] by auto
  have "modules_placed (RangeMap_SetEnableShrinkDown RangeMap_init android) []" by (simp add: modules_placed_def located_init)
  then have "modules_placed m ps \<and> length ps = unat count"
    using place_modules_placed [OF p] len unat_less_32 [of count] by simp
  then show "mdl_valid l" "mdl_module_count l \<le> max_modules lim" "length (mdl_modules l) = unat (mdl_module_count l)"
    "modules_placed (mdl_range_map l) (mdl_modules l)" using c by (simp_all add: l)
qed

text \<open>C18. A module list that is accepted serves the search by address. It has as many modules as its count says and no
  more than the limit allows, all of them named. The module found for an address is one of the list and its own
  range, as the file has it, holds the address, also where ranges were shrunk or moved because modules overlap. And
  no module is lost: the last address of each module finds that very module, unless it is a mapping
  of \<open>/dev/ashmem/\<close>, which may be dropped.\<close>

theorem MinidumpModuleList_Read_sound:
  assumes "MinidumpModuleList_Read lim expected_size md = (Some l, md')"
  shows "mdl_module_count l \<le> max_modules lim \<and> length (mdl_modules l) = unat (mdl_module_count l) \<and>
    (\<forall>a p. MinidumpModuleList_GetModuleForAddress l a = Some p \<longrightarrow>
      p \<in> set (mdl_modules l) \<and> mm_valid p \<and> range_has (module_range p) a) \<and>
    (\<forall>k < length (mdl_modules l). \<not> in_ashmem (mdl_modules l ! k) \<longrightarrow>
      MinidumpModuleList_GetModuleForAddress l (range_last (module_range (mdl_modules l ! k))) = Some (mdl_modules l ! k))"
proof -
  note r = module_list_read [OF assms]
  let ?ps = "mdl_modules l" and ?m = "mdl_range_map l"
  have loc: "located ?m (map module_range ?ps)" and ok: "RangeMap_ok ?m" using r(4) by (auto simp: modules_placed_def located_def)
  have "p \<in> set ?ps \<and> mm_valid p \<and> range_has (module_range p) a"
    if f: "MinidumpModuleList_GetModuleForAddress l a = Some p" for a p
  proof -
    obtain i x where i: "RangeMap_RetrieveRange ?m a = Some (i, x)" "p = ?ps ! unat i"
      using f r(1) by (auto simp: MinidumpModuleList_GetModuleForAddress_def MinidumpModuleList_GetModuleAtIndex_def split: option.splits if_split_asm)
    have k: "unat i < length ?ps" "addr_covers (module_range p) a"
      using located_find [OF loc i(1)] i(2) by (simp_all add: addr_covers_def range_last_def)
    moreover have "mm_valid p" "range_plain (module_range p)" using r(4) k(1) i(2) by (auto simp: modules_placed_def)
    ultimately show ?thesis using plain_addr_covers [of "module_range p" a] i(2) by simp
  qed
  moreover have "MinidumpModuleList_GetModuleForAddress l (range_last (module_range (?ps ! k))) = Some (?ps ! k)"
    if k: "k < length ?ps" "\<not> in_ashmem (?ps ! k)" for k
  proof -
    have "ends_at ?m (of_nat k) (range_last (module_range (?ps ! k)))" using r(4) k by (auto simp: modules_placed_def)
    moreover have "unat (of_nat k :: u32) = k"
      using k(1) r(3) unat_less_32 [of "mdl_module_count l"] by (simp add: unsigned_of_nat take_bit_nat_eq_self)
    ultimately show ?thesis using ends_at_find [OF ok, of "of_nat k" "range_last (module_range (?ps ! k))"] r(1,3) k(1)
      by (auto simp: MinidumpModuleList_GetModuleForAddress_def MinidumpModuleList_GetModuleAtIndex_def word_le_nat_alt)
  qed
  ultimately show ?thesis using r(2,3) by blast
qed

section \<open>Unloaded module lists\<close>

definition unloaded_range :: "MinidumpUnloadedModule \<Rightarrow> u64 \<times> u64" where
  "unloaded_range m = (unloaded_base_of_image (mu_unloaded_module m), ucast (unloaded_size_of_image (mu_unloaded_module m)))"

definition unloaded_placed :: "(u64, u32) RangeMap \<Rightarrow> MinidumpUnloadedModule list \<Rightarrow> bool" where
  "unloaded_placed m ps \<longleftrightarrow>
     located m (map unloaded_range ps) \<and> (\<forall>p\<in>set ps. mu_valid p \<and> range_plain (unloaded_range p))"

lemma MinidumpUnloadedModule_Read_plain: "MinidumpUnloadedModule_Read e md = (Some m, md') \<Longrightarrow> range_plain (unloaded_range m)"
proof -
  assume "MinidumpUnloadedModule_Read e md = (Some m, md')"
  then have "unloaded_size_of_image (mu_unloaded_module m) \<noteq> 0"
    "\<not> (- 1 :: u64) - unloaded_base_of_image (mu_unloaded_module m) < ucast (unloaded_size_of_image (mu_unloaded_module m))"
    unfolding MinidumpUnloadedModule_Read_def guarded_Some and_then_Some Let_def by auto
  then show ?thesis unfolding range_wraps
    by (simp add: range_plain_def unloaded_range_def) (metis unat_eq_zero unat_ucast_32_64)
qed

lemma read_unloaded_plain:
  "read_unloaded_modules n e ms md = (Some ms', md') \<Longrightarrow> \<forall>m\<in>set ms. range_plain (unloaded_range m) \<Longrightarrow>
     length ms' = length ms + n \<and> (\<forall>m\<in>set ms'. range_plain (unloaded_range m))"
proof (induction n e ms arbitrary: md rule: read_unloaded_modules.induct)
  case (2 n e ms)
  then obtain m md1 where m: "MinidumpUnloadedModule_Read e md = (Some m, md1)" "read_unloaded_modules n e (ms @ [m]) md1 = (Some ms', md')"
    by (auto simp: and_then_Some)
  show ?case using 2(1) [OF m(2)] 2(3) MinidumpUnloadedModule_Read_plain [OF m(1)] by auto
qed simp

lemma place_unloaded_placed:
  assumes "place_unloaded_modules lim i ms m ps md = (Some (m', ps'), md')" "unloaded_placed m ps" "i = of_nat (length ps)"
    "\<forall>p\<in>set ms. range_plain (unloaded_range p)" "length ps + length ms < 2 ^ 32"
  shows "unloaded_placed m' ps' \<and> length ps' = length ps + length ms"
  using assms
proof (induction lim i ms m ps arbitrary: md rule: place_unloaded_modules.induct)
  case (2 lim i p ms m ps)
  let ?st = "\<lambda>p. snd (RangeMap_StoreRange 0 m (MinidumpUnloadedModule_base_address p) (MinidumpUnloadedModule_size p) i)"
  from 2(2) obtain p1 md1 where aux: "MinidumpUnloadedModule_ReadAuxiliaryData lim p md = (Some p1, md1)"
    and r: "place_unloaded_modules lim (i + 1) ms (?st p1) (ps @ [p1]) md1 = (Some (m', ps'), md')"
    unfolding place_unloaded_modules.simps and_then_Some by blast
  have v: "mu_valid p1" "unloaded_range p1 = unloaded_range p"
    using aux by (auto simp: MinidumpUnloadedModule_ReadAuxiliaryData_def and_then_Some unloaded_range_def split: if_split_asm)
  have n: "length (map unloaded_range ps) < 2 ^ 32" "i = of_nat (length (map unloaded_range ps))" using 2(4,6) by simp_all
  have l: "located m (map unloaded_range ps)" using 2(3) by (simp add: unloaded_placed_def)
  have "located (?st p1) (map unloaded_range ps @ [unloaded_range p1])"
    by (rule located_store [OF l n(1) _ _ n(2)])
      (simp_all add: v(1) MinidumpUnloadedModule_base_address_def MinidumpUnloadedModule_size_def unloaded_range_def range_last_def)
  then have "unloaded_placed (?st p1) (ps @ [p1])" using 2(3,5) v unfolding unloaded_placed_def by auto
  then show ?case using 2(1) [OF r] 2(4,5,6) by simp
qed simp

lemma unloaded_list_read:
  assumes "MinidumpUnloadedModuleList_Read lim expected_size md = (Some l, md')"
  shows "ul_valid l" "ul_module_count l \<le> max_unloaded_modules lim" "length (ul_modules l) = unat (ul_module_count l)"
    "unloaded_placed (ul_range_map l) (ul_modules l)"
proof -
  obtain count e md2 where c: "\<not> max_unloaded_modules lim < count"
    and r: "and_then (read_unloaded_modules (unat count) e []) (\<lambda>modules.
         and_then (place_unloaded_modules lim 0 modules (RangeMap_SetEnableShrinkDown RangeMap_init True) []) (\<lambda>(m, placed).
           give \<lparr>ul_valid = True, ul_range_map = m, ul_modules = placed, ul_module_count = count\<rparr>)) md2 = (Some l, md')"
    using assms unfolding MinidumpUnloadedModuleList_Read_def and_then_swap and_then_Some [of "ReadWord _"]
      and_then_Some [of "if _ then _ else give ()"] guarded_Some by blast
  then obtain ms md3 where ms: "read_unloaded_modules (unat count) e [] md2 = (Some ms, md3)"
    and r2: "and_then (place_unloaded_modules lim 0 ms (RangeMap_SetEnableShrinkDown RangeMap_init True) []) (\<lambda>(m, placed).
           give \<lparr>ul_valid = True, ul_range_map = m, ul_modules = placed, ul_module_count = count\<rparr>) md3 = (Some l, md')"
    unfolding and_then_Some [of "read_unloaded_modules _ _ _"] by blast
  then obtain m ps md4 where p: "place_unloaded_modules lim 0 ms (RangeMap_SetEnableShrinkDown RangeMap_init True) [] md3 = (Some (m, ps), md4)"
    and l: "l = \<lparr>ul_valid = True, ul_range_map = m, ul_modules = ps, ul_module_count = count\<rparr>"
    by (auto simp: and_then_Some)
  have len: "length ms = unat count" "\<forall>p\<in>set ms. range_plain (unloaded_range p)" using read_unloaded_plain [OF ms] by auto
  have "unloaded_placed (RangeMap_SetEnableShrinkDown RangeMap_init True) []" by (simp add: unloaded_placed_def located_init)
  then have "unloaded_placed m ps \<and> length ps = unat count"
    using place_unloaded_placed [OF p] len unat_less_32 [of count] by simp
  then show "ul_valid l" "ul_module_count l \<le> max_unloaded_modules lim" "length (ul_modules l) = unat (ul_module_count l)"
    "unloaded_placed (ul_range_map l) (ul_modules l)" using c by (simp_all add: l)
qed

text \<open>An unloaded module that is found for an address is one of the list, and its range holds the address. Ranges
  that cannot be stored are dropped, so nothing more is certain about these modules, which may overlap.\<close>

theorem MinidumpUnloadedModuleList_Read_sound:
  assumes "MinidumpUnloadedModuleList_Read lim expected_size md = (Some l, md')"
  shows "ul_module_count l \<le> max_unloaded_modules lim \<and> length (ul_modules l) = unat (ul_module_count l) \<and>
    (\<forall>a p. MinidumpUnloadedModuleList_GetModuleForAddress l a = Some p \<longrightarrow>
      p \<in> set (ul_modules l) \<and> mu_valid p \<and> range_has (unloaded_range p) a)"
proof -
  note r = unloaded_list_read [OF assms]
  have loc: "located (ul_range_map l) (map unloaded_range (ul_modules l))" using r(4) by (simp add: unloaded_placed_def)
  have "p \<in> set (ul_modules l) \<and> mu_valid p \<and> range_has (unloaded_range p) a"
    if f: "MinidumpUnloadedModuleList_GetModuleForAddress l a = Some p" for a p
  proof -
    obtain i x where i: "RangeMap_RetrieveRange (ul_range_map l) a = Some (i, x)" "p = ul_modules l ! unat i"
      using f r(1) by (auto simp: MinidumpUnloadedModuleList_GetModuleForAddress_def MinidumpUnloadedModuleList_GetModuleAtIndex_def split: option.splits if_split_asm)
    have k: "unat i < length (ul_modules l)" "addr_covers (unloaded_range p) a"
      using located_find [OF loc i(1)] i(2) by (simp_all add: addr_covers_def range_last_def)
    moreover have "mu_valid p" "range_plain (unloaded_range p)" using r(4) k(1) i(2) by (auto simp: unloaded_placed_def)
    ultimately show ?thesis using plain_addr_covers [of "unloaded_range p" a] i(2) by simp
  qed
  then show ?thesis using r(2,3) by blast
qed

section \<open>Identifiers that were written\<close>

definition pdb70_record :: "u8 list \<Rightarrow> u32 \<Rightarrow> string \<Rightarrow> u8 list" where
  "pdb70_record guid age name = le_bytes MD_CVINFOPDB70_SIGNATURE @ guid @ le_bytes age @ cstring_bytes name"

definition located_at :: "nat \<Rightarrow> u8 list \<Rightarrow> MDLocationDescriptor" where
  "located_at p bs = \<lparr>loc_data_size = of_nat (length bs), loc_rva = of_nat p\<rparr>"

lemma cv_bytes_at:
  assumes "mf_stream md = Some (input bytes lm q)" "holds bytes (int p) raw" "p < 2 ^ 32" "raw \<noteq> []" "length raw \<le> unat (max_cv_bytes lim)"
  shows "loc_data_size (located_at p raw) \<noteq> 0" "SeekSet (unat (loc_rva (located_at p raw))) md = (Some (), md\<lparr>mf_stream := Some (input bytes lm p)\<rparr>)"
    "\<not> max_cv_bytes lim < loc_data_size (located_at p raw)" "unat (loc_data_size (located_at p raw)) = length raw"
    "ReadBytes (length raw) (md\<lparr>mf_stream := Some (input bytes lm p)\<rparr>) = (Some raw, md\<lparr>mf_stream := Some (input bytes lm (p + length raw))\<rparr>)"
proof -
  have "length raw < 2 ^ 32" using assms(5) unat_less_32 [of "max_cv_bytes lim"] by simp
  then show l: "unat (loc_data_size (located_at p raw)) = length raw" by (simp add: located_at_def unsigned_of_nat take_bit_nat_eq_self)
  show "\<not> max_cv_bytes lim < loc_data_size (located_at p raw)" using l assms(5) by (simp add: word_less_nat_alt)
  show "loc_data_size (located_at p raw) \<noteq> 0" using l assms(4) by auto
  have "unat (loc_rva (located_at p raw)) = p" using assms(3) by (simp add: located_at_def unsigned_of_nat take_bit_nat_eq_self)
  then show "SeekSet (unat (loc_rva (located_at p raw))) md = (Some (), md\<lparr>mf_stream := Some (input bytes lm p)\<rparr>)"
    using SeekSet_at [OF assms(1), of p] holds_bound [OF assms(2)] by simp
  show "ReadBytes (length raw) (md\<lparr>mf_stream := Some (input bytes lm p)\<rparr>) = (Some raw, md\<lparr>mf_stream := Some (input bytes lm (p + length raw))\<rparr>)"
    using ReadBytes_at [of "md\<lparr>mf_stream := Some (input bytes lm p)\<rparr>" bytes lm p raw "length raw"] assms(2) by simp
qed

lemma pdb70_parts:
  assumes "length guid = 16"
  shows "length (pdb70_record guid age name) = 25 + length name" "layout_size MDCVInfoPDB70_layout = 24"
    "at32 (in_order b MDCVInfoPDB70_layout (pdb70_record guid age name)) 0 = (if b then Swap32 MD_CVINFOPDB70_SIGNATURE else MD_CVINFOPDB70_SIGNATURE)"
    "pdb70_record guid age name ! (24 + length name) = 0" "at32 (pdb70_record guid age name) 0 = MD_CVINFOPDB70_SIGNATURE"
    "at32 (pdb70_record guid age name) 20 = age" "take 16 (drop 4 (pdb70_record guid age name)) = guid"
    "drop 24 (pdb70_record guid age name) = cstring_bytes name"
proof -
  show l: "layout_size MDCVInfoPDB70_layout = 24" by (simp add: MDCVInfoPDB70_layout_def)
  show "length (pdb70_record guid age name) = 25 + length name" using assms by (simp add: pdb70_record_def)
  show "pdb70_record guid age name ! (24 + length name) = 0" using assms by (simp add: pdb70_record_def nth_append cstring_bytes_def)
  show "at32 (pdb70_record guid age name) 0 = MD_CVINFOPDB70_SIGNATURE" "at32 (pdb70_record guid age name) 20 = age"
    "take 16 (drop 4 (pdb70_record guid age name)) = guid" "drop 24 (pdb70_record guid age name) = cstring_bytes name"
    using assms by (simp_all add: pdb70_record_def at_defs)
  have "in_order b MDCVInfoPDB70_layout (pdb70_record guid age name) =
      word_bytes b MD_CVINFOPDB70_SIGNATURE @ in_order b [(1, 4), (2, 2), (8, 1), (1, 4)] (guid @ le_bytes age @ cstring_bytes name)"
    unfolding MDCVInfoPDB70_layout_def pdb70_record_def
    using in_order_word(1) [of b MD_CVINFOPDB70_SIGNATURE] by (subst in_order_Cons) simp_all
  then show "at32 (in_order b MDCVInfoPDB70_layout (pdb70_record guid age name)) 0 = (if b then Swap32 MD_CVINFOPDB70_SIGNATURE else MD_CVINFOPDB70_SIGNATURE)"
    by (cases b) (simp_all add: at32_def word_bytes_def Swap_rev)
qed

lemma cstr_cstring: "NUL \<notin> set name \<Longrightarrow> cstr (map char_of_byte (cstring_bytes name)) = name"
proof -
  assume "NUL \<notin> set name"
  then have n: "takeWhile (\<lambda>c. c \<noteq> NUL) (name @ [NUL]) = name" by (induction name) auto
  have "char_of_byte 0 = NUL" by code_simp
  then have "map char_of_byte (cstring_bytes name) = name @ [NUL]" by (simp add: cstring_bytes_def comp_def)
  then show ?thesis unfolding cstr_def using n by (simp only:)
qed

lemma read_pdb70:
  assumes "mf_stream md = Some (input bytes lm q)" "p < 2 ^ 32" "length guid = 16" "25 + length name \<le> unat (max_cv_bytes lim)"
    and "holds bytes (int p) (in_order (file_swap md) MDCVInfoPDB70_layout (pdb70_record guid age name))"
  shows "read_cv_record lim (located_at p (pdb70_record guid age name)) md =
    (Some (pdb70_record guid age name, MD_CVINFOPDB70_SIGNATURE), md\<lparr>mf_stream := Some (input bytes lm (p + 25 + length name))\<rparr>)"
proof -
  let ?rec = "pdb70_record guid age name" and ?b = "file_swap md"
  let ?raw = "in_order ?b MDCVInfoPDB70_layout ?rec"
  note parts = pdb70_parts [OF assms(3)]
  have raw: "length ?raw = length ?rec" "in_order ?b MDCVInfoPDB70_layout ?raw = ?rec"
    using in_order_decode [of MDCVInfoPDB70_layout ?rec ?b] parts(1,2) by simp_all
  have ne: "?raw \<noteq> []" using raw(1) parts(1) by auto
  have le: "length ?raw \<le> unat (max_cv_bytes lim)" using raw(1) parts(1) assms(4) by simp
  note at = cv_bytes_at [OF assms(1,5,2) ne le]
  have loc: "located_at p ?rec = located_at p ?raw" by (simp add: located_at_def raw(1))
  have sig: "(if ?b then Swap32 (at32 ?raw 0) else at32 ?raw 0) = MD_CVINFOPDB70_SIGNATURE"
    unfolding parts(3) by (simp add: cv_signature_defs Swap32_def)
  show ?thesis unfolding loc read_cv_record_def if_not_P [OF at(1)] at(4)
    using at(2,3,5) sig raw parts(1,4)
    by (simp add: and_then_def swap_def Let_def add.assoc)
qed


text \<open>A record with a build identifier: the bytes after the signature.\<close>

definition elf_record :: "bool \<Rightarrow> u8 list \<Rightarrow> u8 list" where
  "elf_record b bs = word_bytes b MD_CVINFOELF_SIGNATURE @ bs"

lemma elf_signature: "at32 (elf_record b bs) 0 = (if b then Swap32 MD_CVINFOELF_SIGNATURE else MD_CVINFOELF_SIGNATURE)"
  by (simp add: elf_record_def at32_def word_bytes_def Swap_rev)

lemma elf_signature_swapped: "Swap32 MD_CVINFOELF_SIGNATURE \<noteq> MD_CVINFOELF_SIGNATURE" "Swap32 (Swap32 MD_CVINFOELF_SIGNATURE) = MD_CVINFOELF_SIGNATURE"
  by (simp_all add: cv_signature_defs Swap32_def)

lemma read_elf:
  assumes "mf_stream md = Some (input bytes lm q)" "p < 2 ^ 32" "bs \<noteq> []" "4 + length bs \<le> unat (max_cv_bytes lim)"
    and "holds bytes (int p) (elf_record (file_swap md) bs)"
  shows "read_cv_record lim (located_at p (elf_record (file_swap md) bs)) md =
    (Some (elf_record (file_swap md) bs, MD_CVINFOELF_SIGNATURE), md\<lparr>mf_stream := Some (input bytes lm (p + 4 + length bs))\<rparr>)"
proof -
  let ?raw = "elf_record (file_swap md) bs"
  have len: "length ?raw = 4 + length bs" by (simp add: elf_record_def)
  have ne: "?raw \<noteq> []" using len by auto
  have le: "length ?raw \<le> unat (max_cv_bytes lim)" using len assms(4) by simp
  note at = cv_bytes_at [OF assms(1,5,2) ne le]
  have sig: "(if file_swap md then Swap32 (at32 ?raw 0) else at32 ?raw 0) = MD_CVINFOELF_SIGNATURE"
    by (simp add: elf_signature elf_signature_swapped)
  show ?thesis unfolding read_cv_record_def if_not_P [OF at(1)] at(4)
    using at(2,3,5) sig len assms(3)
    by (simp add: and_then_def swap_def Let_def add.assoc cv_signature_defs)
qed


section \<open>Examples\<close>

definition sample_host_md :: "u8 list \<Rightarrow> Dump" where
  "sample_host_md bytes = (Minidump_of_stream (input bytes True 0))\<lparr>mf_valid := True\<rparr>"

lemma sample_host_md_simps:
  "\<not> file_swap (sample_host_md bytes)" "mf_stream (sample_host_md bytes) = Some (input bytes True 0)"
  by (simp_all add: sample_host_md_def file_swap_def Minidump_of_stream_def)

definition sample_modules_file :: "u8 list" where
  "sample_modules_file = le_bytes (1 :: u32) @ le_bytes (0x1000 :: u64) @ le_bytes (0x100 :: u32) @ replicate 8 0 @ le_bytes (112 :: u32) @
     replicate 84 0 @ le_bytes (2 :: u32) @ [0x61, 0]"

lemma sample_modules_read:
  "map_option (\<lambda>l. (mdl_valid l, map (\<lambda>p. (mm_name p, module_range p)) (mdl_modules l)))
     (fst (MinidumpModuleList_Read default_stream_limits 112 (sample_host_md sample_modules_file))) = Some (True, [(Some ''a'', 0x1000, 0x100)])"
  by code_simp

theorem MinidumpModuleList_Read_sound_witness:
  "\<exists>l md'. MinidumpModuleList_Read default_stream_limits 112 (sample_host_md sample_modules_file) = (Some l, md') \<and>
     MinidumpModuleList_GetModuleForAddress l 0x10ff = Some (mdl_modules l ! 0)"
proof -
  obtain l md' where r: "MinidumpModuleList_Read default_stream_limits 112 (sample_host_md sample_modules_file) = (Some l, md')"
    "map (\<lambda>p. (mm_name p, module_range p)) (mdl_modules l) = [(Some ''a'', 0x1000, 0x100)]"
    using sample_modules_read by (cases "MinidumpModuleList_Read default_stream_limits 112 (sample_host_md sample_modules_file)") auto
  then obtain p where p: "mdl_modules l = [p]" "mm_name p = Some ''a''" "module_range p = (0x1000, 0x100)"
    by (auto simp: map_eq_Cons_conv)
  have "\<not> in_ashmem p" "range_last (module_range p) = 0x10ff"
    using p by (auto simp: in_ashmem_def MinidumpModule_code_file_def range_last_def)
  then show ?thesis using MinidumpModuleList_Read_sound [OF r(1)] r(1) p(1) by auto
qed

definition sample_unloaded_file :: "u8 list" where
  "sample_unloaded_file = le_bytes (12 :: u32) @ le_bytes (24 :: u32) @ le_bytes (1 :: u32) @
     le_bytes (0x1000 :: u64) @ le_bytes (0x100 :: u32) @ replicate 8 0 @ le_bytes (36 :: u32) @ le_bytes (2 :: u32) @ [0x61, 0]"

lemma sample_unloaded_read:
  "map_option (\<lambda>l. map_option mu_name (MinidumpUnloadedModuleList_GetModuleForAddress l 0x1080))
     (fst (MinidumpUnloadedModuleList_Read default_stream_limits 36 (sample_host_md sample_unloaded_file))) = Some (Some (Some ''a''))"
  by code_simp

theorem MinidumpUnloadedModuleList_Read_sound_witness:
  "\<exists>l md' p. MinidumpUnloadedModuleList_Read default_stream_limits 36 (sample_host_md sample_unloaded_file) = (Some l, md') \<and>
     MinidumpUnloadedModuleList_GetModuleForAddress l 0x1080 = Some p \<and> mu_name p = Some ''a'' \<and> range_has (unloaded_range p) 0x1080"
proof -
  obtain l md' where r: "MinidumpUnloadedModuleList_Read default_stream_limits 36 (sample_host_md sample_unloaded_file) = (Some l, md')"
    "map_option mu_name (MinidumpUnloadedModuleList_GetModuleForAddress l 0x1080) = Some (Some ''a'')"
    using sample_unloaded_read by (cases "MinidumpUnloadedModuleList_Read default_stream_limits 36 (sample_host_md sample_unloaded_file)") auto
  then obtain p where p: "MinidumpUnloadedModuleList_GetModuleForAddress l 0x1080 = Some p" "mu_name p = Some ''a''" by auto
  then show ?thesis using MinidumpUnloadedModuleList_Read_sound [OF r(1)] r(1) by blast
qed

definition sample_named_module :: "u8 list \<Rightarrow> MinidumpModule" where
  "sample_named_module record = \<lparr>mm_valid = True, mm_module_valid = True, mm_has_debug_info = True,
     mm_module = (MDRawModule_of (replicate 108 0))\<lparr>cv_record_location := located_at 0 record\<rparr>, mm_name = Some ''lib.so'',
     mm_cv_record = None, mm_cv_record_signature = MD_CVINFOUNKNOWN_SIGNATURE, mm_misc_record = None\<rparr>"

definition sample_guid :: "u8 list" where
  "sample_guid = [0x2a, 0, 0, 0, 7, 0, 9, 0, 1, 2, 3, 4, 5, 6, 7, 8]"



end
