(* ===== verification/Spec2Isabelle.thy ===== *)
theory Spec2Isabelle
  imports Range_Map Contained_Range_Map Cfi_Frame_Info Code_Modules Windows_Frame_Info
    Stack_Frame_Symbolizer Stackwalker Stackwalker_AMD64 Stackwalker_ARM Stackwalker_ARM64
    Stackwalker_Chain Stackwalker_X86 Stackwalker_CPU Fast_Equivalence Minidump_Modules
begin

text \<open>
  This library models the processor of Breakpad, the part of BreakPader that turns the memory and
  registers of a crashed process into a symbolized call stack. Paths are below
  \<open>src/breakpader-core/src/main/jni/breakpad/src/\<close>.

  \<^bold>\<open>How the parts interact.\<close> A stack walker (\<open>processor/stackwalker*.cc\<close>) starts from a CPU context and
  asks for one caller after another. To find a caller it reads stack memory
  (\<open>MinidumpMemoryRegion\<close>), evaluates rules that the symbol files hold for the current address
  (\<open>CFIFrameInfo\<close>, \<open>WindowsFrameInfo\<close>, both run by \<open>PostfixEvaluator\<close>), follows frame pointers, or
  scans the stack for words that look like return addresses. Each frame is handed to
  \<open>StackFrameSymbolizer\<close>, which finds the module of its address (\<open>BasicCodeModules\<close>, a \<open>RangeMap\<close>),
  gets the symbol file of the module from a supplier, has the resolver
  (\<open>SourceLineResolverBase\<close>, \<open>BasicSourceLineResolver\<close>) parse it into maps, and looks the address up.
  \<open>ModuleSerializer\<close> turns parsed modules into blocks of bytes, which \<open>FastSourceLineResolver\<close> uses
  without parsing.

  \<^bold>\<open>Theories and sources.\<close>
  \<^item> \<open>Bp_Prelude\<close>: word arithmetic and the collections of simp rules the other theories share.
  \<^item> \<open>Std_Map\<close>: \<open>std::map\<close> as a list sorted by key, with iterators as positions. The locale
    \<open>ordered_index\<close> is what the range maps need of \<open>lower_bound\<close> and \<open>upper_bound\<close>.
  \<^item> \<open>Range_Map\<close> (\<open>processor/range_map-inl.h\<close>), \<open>Contained_Range_Map\<close>
    (\<open>processor/contained_range_map-inl.h\<close>), \<open>Address_Map\<close> (\<open>processor/address_map-inl.h\<close>): the three maps,
    each with an invariant that every operation keeps and with a description of what storing and
    retrieving do in terms of the set of stored ranges.
  \<^item> \<open>Bp_Strings\<close> (\<open>processor/tokenize.cc\<close> and the string functions of the C library that the code calls)
    and \<open>Symbol_Parser\<close> (\<open>SymbolParseHelper\<close> in \<open>processor/basic_source_line_resolver.cc\<close>).
  \<^item> \<open>Postfix_Evaluator\<close> (\<open>processor/postfix_evaluator-inl.h\<close>): the evaluator refines expression trees
    and sequences of assignments; exactly which tokens crash it, and programs that cannot.
  \<^item> \<open>Cfi_Frame_Info\<close> (\<open>processor/cfi_frame_info.cc\<close>, \<open>cfi_frame_info-inl.h\<close>): rule sets, their
    evaluation, the round trip of serializing and parsing, and \<open>SimpleCFIWalker\<close> with the locale
    \<open>register_table\<close>.
  \<^item> \<open>Windows_Frame_Info\<close> (\<open>processor/windows_frame_info.h\<close>).
  \<^item> \<open>Code_Modules\<close> (\<open>processor/basic_code_modules.cc\<close>): modules over a shrinking \<open>RangeMap\<close>.
  \<^item> \<open>Stack_Frame_Symbolizer\<close> (\<open>processor/stack_frame_symbolizer.cc\<close>).
  \<^item> \<open>Resolver_Base\<close> (\<open>processor/source_line_resolver_base.cc\<close>): the table of loaded modules; the locale
    \<open>symbol_module\<close> is its contract with a kind of module. \<open>Basic_Resolver\<close>
    (\<open>processor/basic_source_line_resolver.cc\<close>) interprets it: the loader, which works in place on a
    character buffer, the invariant of loaded modules, and the three lookups.
  \<^item> \<open>Map_Serializers\<close> (\<open>processor/map_serializers-inl.h\<close>, \<open>simple_serializer-inl.h\<close>): writing maps into a
    block of bytes; the locales \<open>serializer\<close>, \<open>map_serializer\<close> and \<open>entry_serializer\<close> say that \<open>Write\<close>
    fills exactly the bytes that \<open>SizeOf\<close> counts, and carry this from entries to maps. \<open>Static_Map\<close>
    (\<open>processor/static_map*.h\<close>) searches such a block in place, a read outside of it being the value
    \<open>None\<close>, and interprets \<open>ordered_index\<close> again; \<open>Static_Range_Maps\<close>
    (\<open>static_range_map-inl.h\<close>, \<open>static_address_map-inl.h\<close>, \<open>static_contained_range_map-inl.h\<close>) has the
    three maps over it, each shown to answer as the map that was serialized.
  \<^item> \<open>Module_Serializer\<close> (\<open>processor/module_serializer.cc\<close>), \<open>Fast_Resolver\<close>
    (\<open>processor/fast_source_line_resolver.cc\<close>) and \<open>Fast_Equivalence\<close>: a parsed module, serialized and
    loaded by the fast resolver, gives every answer the basic resolver gives.
  \<^item> \<open>Memory_Region\<close> (\<open>MinidumpMemoryRegion\<close> in \<open>processor/minidump.cc\<close>): bounds checks, byte order and the
    cached bytes; the locale \<open>bounded_region\<close> is what the walkers need of a memory.
  \<^item> \<open>Minidump_File\<close> (class \<open>Minidump\<close> in \<open>processor/minidump.cc\<close>): the input stream with its failure flag,
    the header and the directory in either byte order, seeking to a stream; a dump that is laid out
    correctly is read back exactly, and a read that succeeds gives a consistent directory.
    \<open>Minidump_Text\<close>: \<open>UTF16ToUTF8\<close> and the strings of a dump.
  \<^item> \<open>Minidump_Structs\<close>: the structures of the streams (\<open>google_breakpad/common/minidump_format.h\<close>). A layout lists
    the widths of the fields, and reading a structure swaps each field when the file has the other byte order;
    a structure that was written is read back.
  \<^item> \<open>Minidump_Context\<close> (\<open>Minidump::GetStream\<close>, \<open>MinidumpSystemInfo\<close>, \<open>MinidumpContext\<close>): the contexts of nine CPUs,
    read back from either byte order, what holds of every context that is accepted, and the one kind of
    context that loses its CPU. The collection \<open>framing\<close> shows of every reader that it leaves the
    header, the directory and the streams that are cached as they are.
  \<^item> \<open>Minidump_Streams\<close> (\<open>MinidumpThreadList\<close>, \<open>MinidumpMemoryList\<close>, \<open>MinidumpMemoryInfoList\<close>, \<open>MinidumpException\<close>, the
    streams with information about the system, the process and the dump): lists are read back as they were
    written, and lookups by identifier or address find the element that has it.
    \<open>Minidump_Modules\<close> (\<open>MinidumpModule\<close>, \<open>MinidumpModuleList\<close>, \<open>MinidumpUnloadedModuleList\<close>): the records and
    identifiers of modules, and lookups by address in lists whose modules overlap.
  \<^item> \<open>Stackwalker\<close> (\<open>processor/stackwalker.cc\<close>, \<open>google_breakpad/processor/stackwalker.h\<close>): the walk, its
    limits, the scan. Its locales are the contracts of a CPU walker: \<open>monotone_walker\<close> (callers lie
    above callees), \<open>gated_walker\<close> (scanned frames are counted and limited), \<open>context_walker\<close> (contexts
    stay well-formed), \<open>returning_walker\<close> (a caller is always found or not found), and \<open>trying_walker\<close>
    with its extensions for the walkers that try CFI, frame pointer and scan in turn.
  \<^item> \<open>Stackwalker_AMD64\<close>, \<open>Stackwalker_ARM\<close>, \<open>Stackwalker_ARM64\<close>, \<open>Stackwalker_MIPS\<close> (with \<open>Register_Array\<close>
    for contexts kept as arrays), \<open>Stackwalker_X86\<close>, and \<open>Stackwalker_Chain\<close> for PowerPC, SPARC and address lists:
    each interprets the contracts on its own operations. \<open>Stackwalker_CPU\<close> (\<open>processor/dump_context.cc\<close>,
    \<open>StackwalkerForCPU\<close>) chooses among them and shows that every walk comes back.
  \<^item> This theory: symbolizing a frame through all the layers.

  \<^bold>\<open>State and effects.\<close> A C++ object is a record, a method a function that returns the changed record; a
  pointer to an object that is shared and changed is a position in a list (\<open>bm_heap\<close>), any other is
  the value it points to and \<open>NULL\<close> is \<open>None\<close>. Machine integers are words of their width. A call that
  may fail returns an option or a flag; a call that may crash or never return has one more option
  around its result, whose \<open>None\<close> is not coming back. Loops whose end is not evident (the scan and
  the search for a saved frame pointer) are partial functions, and that they end is proved: a
  memory region is smaller than 4 GB, so a location that keeps moving leaves it. All other loops
  are total functions.

  \<^bold>\<open>Parameters and assumptions.\<close> The symbol supplier, a resolver other than the basic one, the reader of the
  dump and of symbol files, and the memory behind the buffer given to the loader (\<open>beyond\<close>) are
  parameters. \<open>resolver_keeps_frame\<close> (a resolver fills in names and lines only) is assumed of a
  general resolver and proved of the basic one. \<open>long\<close> and \<open>size_t\<close> have 64 bits. Logging and
  allocation failures are left out.

  \<^bold>\<open>Not modelled.\<close> Printing and logging produce output only. \<open>symbolic_constants_win.cc\<close> is a set of
  tables for printing. \<open>exploitability*.cc\<close> rates crashes with a third-party disassembler. The crash
  handlers and dump writers under \<open>client/\<close> consist of signal handling, \<open>ptrace\<close> and raw system calls,
  and the JNI wrapper under \<open>wrap/\<close> of calls into them and into Java. The DWARF, stabs, ELF, Mach-O and
  PDB readers under \<open>common/\<close> belong to the tool that writes symbol files.
  In \<open>minidump.cc\<close> the stream of Linux maps is left out, whose lines \<open>sscanf\<close> takes apart. \<open>MinidumpProcessor\<close>,
  which walks every thread of a dump, and the reader of microdumps are left out as well: the walks read stack
  memory through the input stream of the dump while they run, so that a failed read in one thread decides what
  can be read for the next, and a walker here is given a memory that does not change. Of
  \<open>module_serializer.cc\<close> the conversion between whole resolvers is left out, and \<open>Module::Write\<close> belongs
  to the tool that writes symbol files.
\<close>

section \<open>Symbolizing with the basic resolver\<close>

lemma basic_loaded:
  "loaded_module (basic_module_ops beyond) c data = LoadMapFromMemory beyond data (BasicModule_init (code_file c))"
  "mo_IsCorrupt (basic_module_ops beyond) m = bm_is_corrupt m"
  "mo_LookupAddress (basic_module_ops beyond) m = Module_LookupAddress m"
  by (simp_all add: loaded_module_def basic_module_ops_def)

text \<open>The two ways into a loaded module: it is in the table already, or the supplier has its
  symbols.\<close>

lemma symbolize_loaded:
  assumes "resolver y = Some (resolver_of ops, r)" "rb_ok ops r"
    and "module_for_instruction ms us (instruction frame) = Some c"
    and "code_file c \<notin> no_symbol_modules y" "rb_find r c = Some m"
  shows "FillSourceLineInfo y ms us si frame =
    (if mo_IsCorrupt ops m then kWarningCorruptSymbols else kNoError,
     mo_LookupAddress ops m (base_address c) (frame\<lparr>frame_module := Some c\<rparr>), y)"
proof -
  have "ResolverBase_IsModuleCorrupt (Some c) r \<longleftrightarrow> mo_IsCorrupt ops m"
    using assms(2,5) rb_find_map_of [OF assms(2), of c] by (simp add: ResolverBase_IsModuleCorrupt_def rb_ok_def)
  then show ?thesis
    using assms by (simp add: FillSourceLineInfo_def Let_def resolver_of_def ResolverBase_HasModule_def
        ResolverBase_FillSourceLineInfo_def corruption_result_def)
qed

lemma symbolize_load:
  assumes "resolver y = Some (resolver_of ops, r)" "rb_ok ops r"
    and "module_for_instruction ms us (instruction frame) = Some c"
    and "code_file c \<notin> no_symbol_modules y" "rb_find r c = None"
    and "supplier y = Some (sops, p)" "sup_GetCStringSymbolData sops p c si = (FOUND data, p')"
  obtains r' q where "rb_ok ops r'" "rb_find r' c = Some (loaded_module ops c data)"
    "FillSourceLineInfo y ms us si frame =
      (if mo_IsCorrupt ops (loaded_module ops c data) then kWarningCorruptSymbols else kNoError,
       mo_LookupAddress ops (loaded_module ops c data) (base_address c) (frame\<lparr>frame_module := Some c\<rparr>),
       y\<lparr>supplier := Some (sops, q), resolver := Some (resolver_of ops, r')\<rparr>)"
proof -
  obtain b r' where l: "LoadModuleUsingMemoryBuffer ops (Some c) data r = (b, r')" by fastforce
  note t = LoadModuleUsingMemoryBuffer_table [OF assms(2) l]
  have b: "b" using t(2) assms(5) by simp
  have f: "rb_find r' c = Some (loaded_module ops c data)" using t(3) b by (simp add: rb_find_map_of [OF t(1)])
  have "ResolverBase_IsModuleCorrupt (Some c) r' \<longleftrightarrow> mo_IsCorrupt ops (loaded_module ops c data)"
    using t(1) f rb_find_map_of [OF t(1), of c] by (simp add: ResolverBase_IsModuleCorrupt_def rb_ok_def)
  then show ?thesis
    using assms b f l by (intro that [OF t(1) f]) (simp add: FillSourceLineInfo_def Let_def resolver_of_def
        ResolverBase_HasModule_def ResolverBase_FillSourceLineInfo_def corruption_result_def)
qed

text \<open>C4. A frame in a module whose symbols the supplier has not been asked for yet: the symbolizer
  fetches the symbol file, the basic resolver parses it, and the frame gets the function that covers
  its address in the parsed file. Every later frame in that module is looked up in the same parsed
  file, and the supplier and the resolver are left alone.\<close>

theorem basic_symbolization:
  assumes "resolver_reachable (basic_module_ops beyond) read r"
    and "resolver y = Some (resolver_of (basic_module_ops beyond), r)" "supplier y = Some (sops, p)"
    and "module_for_instruction ms us (instruction frame) = Some c"
    and "code_file c \<notin> no_symbol_modules y" "rb_find r c = None"
    and "sup_GetCStringSymbolData sops p c si = (FOUND data, p')"
  shows "let m = LoadMapFromMemory beyond data (BasicModule_init (code_file c));
      (res, frame', y') = FillSourceLineInfo y ms us si frame in
    (res = (if bm_is_corrupt m then kWarningCorruptSymbols else kNoError)) \<and>
    frame_module frame' = Some c \<and>
    (\<forall>f\<in>stored_functions m. covers f (instruction frame - base_address c) \<longrightarrow>
       function_name frame' = fn_name f \<and> function_base frame' = base_address c + fn_address f) \<and>
    (\<forall>g. module_for_instruction ms us (instruction g) = Some c \<longrightarrow>
       FillSourceLineInfo y' ms us si g =
         (res, Module_LookupAddress m (base_address c) (g\<lparr>frame_module := Some c\<rparr>), y'))"
proof -
  let ?ops = "basic_module_ops beyond"
  let ?m = "LoadMapFromMemory beyond data (BasicModule_init (code_file c))"
  have ok: "bm_ok ?m" by (rule LoadMapFromMemory_bm_ok [OF bm_ok_init])
  obtain r' q where r': "rb_ok ?ops r'" "rb_find r' c = Some ?m"
    and f: "FillSourceLineInfo y ms us si frame =
      (if bm_is_corrupt ?m then kWarningCorruptSymbols else kNoError,
       Module_LookupAddress ?m (base_address c) (frame\<lparr>frame_module := Some c\<rparr>),
       y\<lparr>supplier := Some (sops, q), resolver := Some (resolver_of ?ops, r')\<rparr>)"
    using symbolize_load [OF assms(2) resolver_reachable_ok [OF assms(1)] assms(4-6,3,7)]
    unfolding basic_loaded by blast
  have later: "FillSourceLineInfo (y\<lparr>supplier := Some (sops, q), resolver := Some (resolver_of ?ops, r')\<rparr>) ms us si g =
      (if bm_is_corrupt ?m then kWarningCorruptSymbols else kNoError,
       Module_LookupAddress ?m (base_address c) (g\<lparr>frame_module := Some c\<rparr>),
       y\<lparr>supplier := Some (sops, q), resolver := Some (resolver_of ?ops, r')\<rparr>)"
    if g: "module_for_instruction ms us (instruction g) = Some c" for g
    using symbolize_loaded [of "y\<lparr>supplier := Some (sops, q), resolver := Some (resolver_of ?ops, r')\<rparr>" ?ops r'
        ms us g c ?m si] r' g assms(5) unfolding basic_loaded by simp
  have named: "function_name (Module_LookupAddress ?m (base_address c) (frame\<lparr>frame_module := Some c\<rparr>)) = fn_name h \<and>
      function_base (Module_LookupAddress ?m (base_address c) (frame\<lparr>frame_module := Some c\<rparr>)) =
        base_address c + fn_address h"
    if "h \<in> stored_functions ?m" "covers h (instruction frame - base_address c)" for h
    using LookupAddress_function [OF ok that(1), of "frame\<lparr>frame_module := Some c\<rparr>"] that(2) by simp
  show ?thesis
    using later named by (simp only: f Let_def prod.case) (simp add: Module_LookupAddress_keeps)
qed

definition file_supplier :: "nat SymbolSupplier" where
  "file_supplier =
     \<lparr>sup_GetCStringSymbolData = (\<lambda>n m si. (if code_file m = ''a'' then FOUND sample_symbols else NOT_FOUND, Suc n)),
      sup_FreeSymbolData = (\<lambda>n m. n)\<rparr>"

definition basic_symbolizer :: "(nat, BasicModule ResolverBase) StackFrameSymbolizer" where
  "basic_symbolizer =
     StackFrameSymbolizer_make (Some (file_supplier, 0)) (Some (resolver_of (basic_module_ops []), ResolverBase_init))"

lemma sample_loaded_a:
  "LoadMapFromMemory [] sample_symbols (BasicModule_init ''a'') = sample_basic_module\<lparr>bm_name := ''a''\<rparr>"
  by code_simp

theorem basic_symbolization_witness:
  "let ms = Some (BasicCodeModules_interface sample_basic_modules);
       (res, f, y) = FillSourceLineInfo basic_symbolizer ms None None (sample_frame 4118)
   in res = kNoError \<and> function_name f = ''f'' \<and> function_base f = 4112 \<and>
      fst (FillSourceLineInfo y ms None None (sample_frame 4120)) = kNoError \<and>
      snd (snd (FillSourceLineInfo y ms None None (sample_frame 4120))) = y"
proof -
  let ?ms = "Some (BasicCodeModules_interface sample_basic_modules)"
  let ?c = "sample_module 4096 4096 ''a''" and ?m = "sample_basic_module\<lparr>bm_name := ''a''\<rparr>"
  have mod: "module_for_instruction ?ms None (instruction (sample_frame 4118)) = Some ?c"
    "module_for_instruction ?ms None (instruction (sample_frame 4120)) = Some ?c" by code_simp+
  have y: "resolver basic_symbolizer = Some (resolver_of (basic_module_ops []), ResolverBase_init)"
    "supplier basic_symbolizer = Some (file_supplier, 0)" "code_file ?c \<notin> no_symbol_modules basic_symbolizer"
    "rb_find ResolverBase_init ?c = None"
    "sup_GetCStringSymbolData file_supplier 0 ?c None = (FOUND sample_symbols, 1)"
    by (simp_all add: basic_symbolizer_def StackFrameSymbolizer_make_def rb_find_def ResolverBase_init_def
        map_find_def file_supplier_def sample_module_def)
  have m: "LoadMapFromMemory [] sample_symbols (BasicModule_init (code_file ?c)) = ?m"
    using sample_loaded_a by (simp add: sample_module_def)
  have f: "bm_heap ?m ! 0 \<in> stored_functions ?m" by code_simp
  have c: "covers (bm_heap ?m ! 0) (instruction (sample_frame 4118) - base_address ?c)" by code_simp
  have n: "fn_name (bm_heap ?m ! 0) = ''f''" "base_address ?c + fn_address (bm_heap ?m ! 0) = 4112"
    "\<not> bm_is_corrupt ?m" by code_simp+
  note t = basic_symbolization [OF rr_init y(1,2) mod(1) y(3-5), unfolded m]
  obtain res fr y' where r: "FillSourceLineInfo basic_symbolizer ?ms None None (sample_frame 4118) = (res, fr, y')"
    by (metis prod_cases3)
  have t1: "res = kNoError" using t [unfolded r Let_def prod.case, THEN conjunct1] n(3) by simp
  have t2: "\<forall>h\<in>stored_functions ?m. covers h (instruction (sample_frame 4118) - base_address ?c) \<longrightarrow>
      function_name fr = fn_name h \<and> function_base fr = base_address ?c + fn_address h"
    using t unfolding r Let_def prod.case by blast
  have t3: "\<forall>g. module_for_instruction ?ms None (instruction g) = Some ?c \<longrightarrow>
      FillSourceLineInfo y' ?ms None None g = (res, Module_LookupAddress ?m (base_address ?c) (g\<lparr>frame_module := Some ?c\<rparr>), y')"
    using t unfolding r Let_def prod.case by blast
  show ?thesis
    using t2 [rule_format, OF f c] t3 [rule_format, OF mod(2)] t1 n by (simp add: r)
qed

end
